(* ===== verification/Prelude.thy ===== *)
theory Prelude
  imports Main "HOL-Library.Sublist" "HOL-Library.Code_Target_Nat"
begin

text \<open>
  The development's shared ground: the collections its proofs use, the result type of fallible
  operations, the 64-bit wrap-around of Go's \<open>int\<close>, and the list and option facts that several
  components need.
\<close>

section \<open>Collections\<close>

named_theorems go_string "unfolding and bridging facts about Go's string library"
named_theorems fields "the effect of an operation on the fields of a state it leaves alone"

section \<open>Results\<close>

text \<open>
  A Go function that returns \<open>(T, error)\<close> is a function into a sum: \<open>Inl\<close> the error, \<open>Inr\<close> the
  value. \<open>bind_result\<close> is the \<open>if err != nil { return err }\<close> between two calls.
\<close>

type_synonym ('e, 'a) result = "'e + 'a"

definition bind_result :: "('e, 'a) result \<Rightarrow> ('a \<Rightarrow> ('e, 'b) result) \<Rightarrow> ('e, 'b) result" where
  "bind_result m f = (case m of Inl e \<Rightarrow> Inl e | Inr a \<Rightarrow> f a)"

lemma bind_result_simps [simp]:
  "bind_result (Inl e) f = Inl e"
  "bind_result (Inr a) f = f a"
  by (simp_all add: bind_result_def)

lemma bind_result_Inr_iff: "bind_result m f = Inr b \<longleftrightarrow> (\<exists>a. m = Inr a \<and> f a = Inr b)"
  by (cases m) auto

text \<open>A column of text that holds a time, \<open>None\<close> when it is empty, else an instant, which orders as the text does.\<close>

type_synonym stamp = "int option"

section \<open>Go's 64-bit integers\<close>

definition max_int64 :: int where "max_int64 = 9223372036854775807"
definition min_int64 :: int where "min_int64 = - 9223372036854775808"

definition wrap64 :: "int \<Rightarrow> int" where
  "wrap64 n = (n + 9223372036854775808) mod 18446744073709551616 - 9223372036854775808"

definition fits64 :: "int \<Rightarrow> bool" where
  "fits64 n \<longleftrightarrow> min_int64 \<le> n \<and> n \<le> max_int64"

lemma wrap64_fits [simp]: "fits64 n \<Longrightarrow> wrap64 n = n"
  by (simp add: wrap64_def fits64_def min_int64_def max_int64_def)

lemma fits64_wrap64 [simp]: "fits64 (wrap64 n)"
proof -
  have "0 \<le> (n + 9223372036854775808) mod 18446744073709551616"
    "(n + 9223372036854775808) mod 18446744073709551616 < 18446744073709551616"
    by simp_all
  then show ?thesis
    unfolding wrap64_def fits64_def min_int64_def max_int64_def by linarith
qed

section \<open>Lists\<close>

lemma distinct_filter_not_in [intro]:
  "distinct xs \<Longrightarrow> x \<notin> set xs \<Longrightarrow> distinct (xs @ [x])"
  by simp

lemma takeWhile_all: "list_all P xs \<Longrightarrow> takeWhile P xs = xs"
  by (simp add: list_all_iff)

lemma dropWhile_none: "xs = [] \<or> \<not> P (hd xs) \<Longrightarrow> dropWhile P xs = xs"
  by (cases xs) auto

lemma dropWhile_rev_idem [simp]:
  "dropWhile P (rev (dropWhile P (rev (dropWhile P xs)))) = rev (dropWhile P (rev (dropWhile P xs)))"
proof (cases "rev (dropWhile P (rev (dropWhile P xs)))")
  case Nil
  then have "\<forall>x\<in>set (dropWhile P xs). P x" by simp
  then have d: "dropWhile P xs = []" using hd_dropWhile [of P xs] by (cases "dropWhile P xs") auto
  show ?thesis unfolding d by simp
next
  case (Cons y ys)
  have "dropWhile P xs = rev (dropWhile P (rev (dropWhile P xs))) @ rev (takeWhile P (rev (dropWhile P xs)))"
    by (metis rev_append rev_rev_ident takeWhile_dropWhile_id)
  also have "\<dots> = y # ys @ rev (takeWhile P (rev (dropWhile P xs)))" by (simp only: Cons append_Cons)
  finally have "\<not> P y" by (blast dest: dropWhile_eq_Cons_conv [THEN iffD1])
  with Cons show ?thesis by simp
qed

text \<open>Two texts that agree up to and including the first separator agree on both sides of it.\<close>

lemma append_sep_inj:
  "a @ d # s = b @ d # t \<Longrightarrow> d \<notin> set a \<Longrightarrow> d \<notin> set b \<Longrightarrow> a = b \<and> s = t"
proof (induction a arbitrary: b)
  case Nil
  then show ?case by (cases b) auto
next
  case (Cons x a)
  then show ?case by (cases b) auto
qed

lemma find_some: "List.find P xs = Some x \<Longrightarrow> x \<in> set xs \<and> P x"
  by (induction xs) (auto split: if_splits)

end
