(* ===== verification/GoStrings.thy ===== *)
theory GoStrings
  imports Prelude "HOL-Library.Char_ord" "HOL-Library.List_Lexorder"
begin

text \<open>
  What the source uses of Go's \<open>strings\<close>, \<open>unicode\<close>, \<open>unicode/utf8\<close> and \<open>strconv\<close>. A Go string is a
  sequence of bytes, which is exactly Isabelle's \<open>string\<close>: a list of 8-bit \<open>char\<close>s. Runes are the
  naturals; \<open>decode_rune\<close> and \<open>encode_rune\<close> are UTF-8 with Go's treatment of invalid bytes (one byte,
  U+FFFD). \<open>chunks\<close> is \<open>for i, r := range s\<close>: the runes with the bytes each came from, and every
  rune-wise function is defined over it.

  The case and letter tables of Unicode are data of the Go distribution, not of this repository. The
  record \<open>unicode\<close> carries them as a parameter for the runes outside ASCII; within ASCII the
  functions below are fixed, as Go's are.
\<close>

section \<open>UTF-8\<close>

definition rune_error :: nat where "rune_error = 65533"

text \<open>The continuation bytes a leading byte admits next: overlong forms, surrogates and runes past
  U+10FFFF are refused at the second byte.\<close>

definition second_ok :: "nat \<Rightarrow> nat \<Rightarrow> bool" where
  "second_ok b0 b1 \<longleftrightarrow>
     (if b0 = 224 then 160 else if b0 = 240 then 144 else 128) \<le> b1 \<and>
     b1 \<le> (if b0 = 237 then 159 else if b0 = 244 then 143 else 191)"

definition cont_byte :: "nat \<Rightarrow> bool" where
  "cont_byte b \<longleftrightarrow> 128 \<le> b \<and> b \<le> 191"

definition decode_rune :: "string \<Rightarrow> nat \<times> nat" where
  "decode_rune s = (case map of_char s of
     [] \<Rightarrow> (rune_error, 0)
   | b0 # bs \<Rightarrow>
      if b0 < 128 then (b0, 1)
      else if b0 < 194 \<or> 244 < b0 then (rune_error, 1)
      else (case bs of
        b1 # bs1 \<Rightarrow>
          if \<not> second_ok b0 b1 then (rune_error, 1)
          else if b0 < 224 then ((b0 - 192) * 64 + (b1 - 128), 2)
          else (case bs1 of
            b2 # bs2 \<Rightarrow>
              if \<not> cont_byte b2 then (rune_error, 1)
              else if b0 < 240 then ((b0 - 224) * 4096 + (b1 - 128) * 64 + (b2 - 128), 3)
              else (case bs2 of
                b3 # _ \<Rightarrow>
                  if \<not> cont_byte b3 then (rune_error, 1)
                  else ((b0 - 240) * 262144 + (b1 - 128) * 4096 + (b2 - 128) * 64 + (b3 - 128), 4)
              | [] \<Rightarrow> (rune_error, 1))
          | [] \<Rightarrow> (rune_error, 1))
      | [] \<Rightarrow> (rune_error, 1)))"

definition valid_rune :: "nat \<Rightarrow> bool" where
  "valid_rune r \<longleftrightarrow> r < 55296 \<or> (57343 < r \<and> r \<le> 1114111)"

definition encode_rune :: "nat \<Rightarrow> string" where
  "encode_rune r =
     (if r < 128 then [char_of r]
      else if r < 2048 then [char_of (192 + r div 64), char_of (128 + r mod 64)]
      else if \<not> valid_rune r then [CHR 0xEF, CHR 0xBF, CHR 0xBD]
      else if r < 65536 then
        [char_of (224 + r div 4096), char_of (128 + r div 64 mod 64), char_of (128 + r mod 64)]
      else [char_of (240 + r div 262144), char_of (128 + r div 4096 mod 64),
            char_of (128 + r div 64 mod 64), char_of (128 + r mod 64)])"

lemma decode_rune_width:
  "s \<noteq> [] \<Longrightarrow> 1 \<le> snd (decode_rune s) \<and> snd (decode_rune s) \<le> length s"
  by (cases s) (auto simp: decode_rune_def split: list.splits)

lemma decode_rune_ascii:
  "of_char c < (128 :: nat) \<Longrightarrow> decode_rune (c # s) = (of_char c, 1)"
  by (simp add: decode_rune_def)

text \<open>A rune is decoded from its own bytes: what follows them, and whether anything does, is not read.\<close>

lemma decode_rune_append:
  "x \<noteq> [] \<Longrightarrow> snd (decode_rune (x @ y)) \<le> length x \<Longrightarrow> decode_rune x = decode_rune (x @ y)"
  by (cases x) (auto simp: decode_rune_def split: list.splits if_splits)

lemma split64_2: "(r :: nat) = r div 4096 * 4096 + r div 64 mod 64 * 64 + r mod 64"
proof -
  have "r div 4096 = r div 64 div 64" by (simp add: div_mult2_eq [symmetric])
  moreover have "r = r div 64 * 64 + r mod 64" "r div 64 = r div 64 div 64 * 64 + r div 64 mod 64" by simp_all
  ultimately show ?thesis by linarith
qed

lemma split64_3: "(r :: nat) = r div 262144 * 262144 + r div 4096 mod 64 * 4096 + r div 64 mod 64 * 64 + r mod 64"
proof -
  have "r div 262144 = r div 4096 div 64" by (simp add: div_mult2_eq [symmetric])
  moreover have "r div 4096 = r div 4096 div 64 * 64 + r div 4096 mod 64" by simp
  ultimately show ?thesis using split64_2 [of r] by linarith
qed

lemma decode_encode_2:
  assumes "128 \<le> r" "r < 2048"
  shows "decode_rune ([char_of (192 + r div 64), char_of (128 + r mod 64)] @ s) = (r, 2)"
proof -
  have b: "192 + r div 64 < 256" "128 + r mod 64 < 256" "2 \<le> r div 64" "r div 64 < 32" using assms by auto
  have "second_ok (192 + r div 64) (128 + r mod 64)"
    using b by (auto simp: second_ok_def)
  with b show ?thesis by (simp add: decode_rune_def)
qed

lemma decode_encode_3:
  assumes "2048 \<le> r" "r < 65536" "valid_rune r"
  shows "decode_rune ([char_of (224 + r div 4096), char_of (128 + r div 64 mod 64), char_of (128 + r mod 64)] @ s) = (r, 3)"
proof -
  define q m n where "q = r div 4096" and "m = r div 64 mod 64" and "n = r mod 64"
  have r: "r = q * 4096 + m * 64 + n" unfolding q_def m_def n_def by (rule split64_2)
  have b: "m < 64" "n < 64" "q < 16" unfolding q_def m_def n_def using assms by auto
  have "second_ok (224 + q) (128 + m)" "cont_byte (128 + n)"
    using b assms r by (auto simp: second_ok_def cont_byte_def valid_rune_def)
  moreover have "decode_rune ([char_of (224 + q), char_of (128 + m), char_of (128 + n)] @ s) =
      (if second_ok (224 + q) (128 + m) \<and> cont_byte (128 + n) then (q * 4096 + m * 64 + n, 3) else (rune_error, 1))"
    using b by (simp add: decode_rune_def)
  ultimately show ?thesis using r unfolding q_def m_def n_def by simp
qed

lemma decode_encode_4:
  assumes "65536 \<le> r" "r \<le> 1114111"
  shows "decode_rune ([char_of (240 + r div 262144), char_of (128 + r div 4096 mod 64),
            char_of (128 + r div 64 mod 64), char_of (128 + r mod 64)] @ s) = (r, 4)"
proof -
  define p q m n where "p = r div 262144" and "q = r div 4096 mod 64" and "m = r div 64 mod 64" and "n = r mod 64"
  have r: "r = p * 262144 + q * 4096 + m * 64 + n" unfolding p_def q_def m_def n_def by (rule split64_3)
  have b: "m < 64" "n < 64" "q < 64" "p < 5" unfolding p_def q_def m_def n_def using assms by auto
  have "second_ok (240 + p) (128 + q)" "cont_byte (128 + m)" "cont_byte (128 + n)"
    using b assms r by (auto simp: second_ok_def cont_byte_def)
  moreover have "decode_rune ([char_of (240 + p), char_of (128 + q), char_of (128 + m), char_of (128 + n)] @ s) =
      (if second_ok (240 + p) (128 + q) \<and> cont_byte (128 + m) \<and> cont_byte (128 + n)
       then (p * 262144 + q * 4096 + m * 64 + n, 4) else (rune_error, 1))"
    using b by (simp add: decode_rune_def)
  ultimately show ?thesis using r unfolding p_def q_def m_def n_def by simp
qed

theorem decode_encode_rune:
  assumes "valid_rune r"
  shows "decode_rune (encode_rune r @ s) = (r, length (encode_rune r))"
proof -
  consider "r < 128" | "128 \<le> r" "r < 2048" | "2048 \<le> r" "r < 65536" | "65536 \<le> r" by linarith
  then show ?thesis
  proof cases
    case 1
    then show ?thesis by (simp add: encode_rune_def decode_rune_def)
  next
    case 2
    then show ?thesis using decode_encode_2 [of r s] by (simp add: encode_rune_def)
  next
    case 3
    then show ?thesis using decode_encode_3 [of r s] assms by (simp add: encode_rune_def)
  next
    case 4
    then show ?thesis using decode_encode_4 [of r s] assms by (simp add: encode_rune_def valid_rune_def)
  qed
qed

lemma encode_rune_nonempty [simp]: "encode_rune r \<noteq> []"
  by (simp add: encode_rune_def)

section \<open>Ranging over a string\<close>

function chunks :: "string \<Rightarrow> (nat \<times> string) list" where
  "chunks s =
     (if s = [] then []
      else (let (r, w) = decode_rune s in (r, take w s) # chunks (drop w s)))"
  by pat_completeness auto
termination
proof (relation "measure length")
  fix s :: string and p :: "nat \<times> nat" and r w
  assume "s \<noteq> []" "p = decode_rune s" "(r, w) = p"
  then show "(drop w s, s) \<in> measure length"
    using decode_rune_width [of s] by (cases "decode_rune s") auto
qed simp

declare chunks.simps [simp del]

definition runes :: "string \<Rightarrow> nat list" where
  "runes s = map fst (chunks s)"

definition unchunk :: "(nat \<times> string) list \<Rightarrow> string" where
  "unchunk cs = concat (map snd cs)"

definition rune_count :: "string \<Rightarrow> nat" where
  "rune_count s = length (chunks s)"

lemma chunks_Nil [simp]: "chunks [] = []"
  by (simp add: chunks.simps)

lemma chunks_ascii [simp]: "of_char c < (128 :: nat) \<Longrightarrow> chunks (c # s) = (of_char c, [c]) # chunks s"
  by (subst chunks.simps) (simp add: decode_rune_ascii)

lemma chunks_eq_Nil [simp]: "chunks s = [] \<longleftrightarrow> s = []"
  by (subst chunks.simps) (simp split: prod.split)

lemma chunks_encode: "valid_rune r \<Longrightarrow> chunks (encode_rune r @ s) = (r, encode_rune r) # chunks s"
  by (subst chunks.simps) (simp add: decode_encode_rune)

lemma unchunk_Nil [simp]: "unchunk [] = []"
  by (simp add: unchunk_def)

lemma unchunk_Cons [simp]: "unchunk (c # cs) = snd c @ unchunk cs"
  by (simp add: unchunk_def)

lemma unchunk_append [simp]: "unchunk (xs @ ys) = unchunk xs @ unchunk ys"
  by (simp add: unchunk_def)

lemma unchunk_chunks [simp]: "unchunk (chunks s) = s"
proof (induction s rule: chunks.induct)
  case (1 s)
  show ?case
  proof (cases "s = []")
    case False
    obtain r w where "decode_rune s = (r, w)" by (cases "decode_rune s")
    with False 1 show ?thesis by (subst chunks.simps) simp
  qed simp
qed

text \<open>Cutting a string at rune boundaries leaves the runes of what is kept as they were.\<close>

lemma chunks_drop: "chunks (unchunk (drop k (chunks s))) = drop k (chunks s)"
proof (induction s arbitrary: k rule: chunks.induct)
  case (1 s)
  show ?case
  proof (cases "s = [] \<or> k = 0")
    case False
    obtain r w where rw: "decode_rune s = (r, w)" by (cases "decode_rune s")
    with False have "chunks s = (r, take w s) # chunks (drop w s)" by (subst chunks.simps) simp
    then show ?thesis using 1 [of "(r, w)" r w "k - 1"] rw False by (cases k) simp_all
  qed auto
qed

lemma chunks_take: "chunks (unchunk (take k (chunks s))) = take k (chunks s)"
proof (induction s arbitrary: k rule: chunks.induct)
  case (1 s)
  show ?case
  proof (cases "s = [] \<or> k = 0")
    case False
    obtain r w where rw: "decode_rune s = (r, w)" by (cases "decode_rune s")
    with False have cs: "chunks s = (r, take w s) # chunks (drop w s)" by (subst chunks.simps) simp
    from False obtain j where k: "k = Suc j" by (cases k) auto
    let ?t = "unchunk (take j (chunks (drop w s)))"
    have w: "1 \<le> w" "w \<le> length s" using decode_rune_width [of s] rw False by auto
    have "drop w s = ?t @ unchunk (drop j (chunks (drop w s)))"
      by (metis append_take_drop_id unchunk_append unchunk_chunks)
    then have s: "s = (take w s @ ?t) @ unchunk (drop j (chunks (drop w s)))"
      by (metis append.assoc append_take_drop_id)
    have "decode_rune (take w s @ ?t) = decode_rune s"
      using decode_rune_append [of "take w s @ ?t" "unchunk (drop j (chunks (drop w s)))"] w rw s
      by (cases s) auto
    then have "chunks (take w s @ ?t) = (r, take w s) # chunks ?t"
      using w rw by (subst chunks.simps) auto
    with 1 [of "(r, w)" r w j] rw False cs k show ?thesis by simp
  qed auto
qed

lemma runes_ascii_string:
  "list_all (\<lambda>c. of_char c < (128 :: nat)) s \<Longrightarrow> runes s = map of_char s"
  by (induction s) (simp_all add: runes_def)

lemma chunks_ascii_string:
  "list_all (\<lambda>c. of_char c < (128 :: nat)) s \<Longrightarrow> chunks (s @ t) = map (\<lambda>c. (of_char c, [c])) s @ chunks t"
  by (induction s) simp_all

section \<open>Classes of runes\<close>

text \<open>\<open>unicode.IsSpace\<close> and \<open>unicode.IsControl\<close>, in full.\<close>

definition is_space :: "nat \<Rightarrow> bool" where
  "is_space r \<longleftrightarrow> (9 \<le> r \<and> r \<le> 13) \<or> r = 32 \<or> r = 133 \<or> r = 160 \<or> r = 5760 \<or>
     (8192 \<le> r \<and> r \<le> 8202) \<or> r = 8232 \<or> r = 8233 \<or> r = 8239 \<or> r = 8287 \<or> r = 12288"

definition is_control :: "nat \<Rightarrow> bool" where
  "is_control r \<longleftrightarrow> r < 32 \<or> (127 \<le> r \<and> r < 160)"

record unicode =
  u_lower :: "nat \<Rightarrow> nat"
  u_upper :: "nat \<Rightarrow> nat"
  u_letter :: "nat \<Rightarrow> bool"
  u_digit :: "nat \<Rightarrow> bool"
  u_foldeq :: "nat \<Rightarrow> nat \<Rightarrow> bool"

definition ascii_lower :: "nat \<Rightarrow> nat" where
  "ascii_lower r = (if 65 \<le> r \<and> r \<le> 90 then r + 32 else r)"

definition ascii_upper :: "nat \<Rightarrow> nat" where
  "ascii_upper r = (if 97 \<le> r \<and> r \<le> 122 then r - 32 else r)"

definition lower_rune :: "unicode \<Rightarrow> nat \<Rightarrow> nat" where
  "lower_rune U r = (if r < 128 then ascii_lower r else u_lower U r)"

definition upper_rune :: "unicode \<Rightarrow> nat \<Rightarrow> nat" where
  "upper_rune U r = (if r < 128 then ascii_upper r else u_upper U r)"

definition is_letter :: "unicode \<Rightarrow> nat \<Rightarrow> bool" where
  "is_letter U r = (if r < 128 then (65 \<le> r \<and> r \<le> 90) \<or> (97 \<le> r \<and> r \<le> 122) else u_letter U r)"

definition is_digit :: "unicode \<Rightarrow> nat \<Rightarrow> bool" where
  "is_digit U r = (if r < 128 then 48 \<le> r \<and> r \<le> 57 else u_digit U r)"

definition fold_eq :: "unicode \<Rightarrow> nat \<Rightarrow> nat \<Rightarrow> bool" where
  "fold_eq U a b \<longleftrightarrow> a = b \<or>
     (if a < 128 \<and> b < 128 then ascii_lower a = ascii_lower b else u_foldeq U a b)"

text \<open>The tables of a world with no letter outside ASCII: an instance for concrete runs.\<close>

definition ascii_tables :: unicode where
  "ascii_tables = \<lparr>u_lower = (\<lambda>r. r), u_upper = (\<lambda>r. r), u_letter = (\<lambda>_. False),
     u_digit = (\<lambda>_. False), u_foldeq = (=)\<rparr>"

definition is_ascii_digit :: "char \<Rightarrow> bool" where
  "is_ascii_digit c \<longleftrightarrow> CHR ''0'' \<le> c \<and> c \<le> CHR ''9''"

section \<open>Functions of \<open>strings\<close>\<close>

definition map_runes :: "(nat \<Rightarrow> nat option) \<Rightarrow> string \<Rightarrow> string" where
  "map_runes f s = concat (map (\<lambda>r. case f r of None \<Rightarrow> [] | Some r' \<Rightarrow> encode_rune r') (runes s))"

definition to_lower :: "unicode \<Rightarrow> string \<Rightarrow> string" where
  "to_lower U s = map_runes (\<lambda>r. Some (lower_rune U r)) s"

definition to_upper :: "unicode \<Rightarrow> string \<Rightarrow> string" where
  "to_upper U s = map_runes (\<lambda>r. Some (upper_rune U r)) s"

definition equal_fold :: "unicode \<Rightarrow> string \<Rightarrow> string \<Rightarrow> bool" where
  "equal_fold U s t = list_all2 (fold_eq U) (runes s) (runes t)"

definition trim_list :: "('a \<Rightarrow> bool) \<Rightarrow> 'a list \<Rightarrow> 'a list" where
  "trim_list P xs = rev (dropWhile P (rev (dropWhile P xs)))"

definition trim_func :: "(nat \<Rightarrow> bool) \<Rightarrow> string \<Rightarrow> string" where
  "trim_func P s = unchunk (trim_list (\<lambda>c. P (fst c)) (chunks s))"

definition trim_space :: "string \<Rightarrow> string" where
  "trim_space s = trim_func is_space s"

definition trim_left_func :: "(nat \<Rightarrow> bool) \<Rightarrow> string \<Rightarrow> string" where
  "trim_left_func P s = unchunk (dropWhile (\<lambda>c. P (fst c)) (chunks s))"

text \<open>\<open>Trim\<close> and \<open>TrimRight\<close> with a cutset of ASCII characters work on bytes.\<close>

definition trim_set :: "string \<Rightarrow> string \<Rightarrow> string" where
  "trim_set cs s = trim_list (\<lambda>c. c \<in> set cs) s"

definition trim_right_set :: "string \<Rightarrow> string \<Rightarrow> string" where
  "trim_right_set cs s = rev (dropWhile (\<lambda>c. c \<in> set cs) (rev s))"

definition trim_prefix :: "string \<Rightarrow> string \<Rightarrow> string" where
  "trim_prefix p s = (if prefix p s then drop (length p) s else s)"

definition trim_suffix :: "string \<Rightarrow> string \<Rightarrow> string" where
  "trim_suffix p s = (if suffix p s then take (length s - length p) s else s)"

fun contains :: "string \<Rightarrow> string \<Rightarrow> bool" where
  "contains sub [] = (sub = [])"
| "contains sub (c # s) = (prefix sub (c # s) \<or> contains sub s)"

definition contains_any :: "string \<Rightarrow> string \<Rightarrow> bool" where
  "contains_any cs s = list_ex (\<lambda>c. c \<in> set cs) s"

definition contains_func :: "(nat \<Rightarrow> bool) \<Rightarrow> string \<Rightarrow> bool" where
  "contains_func P s = list_ex P (runes s)"

fun split_on :: "char \<Rightarrow> string \<Rightarrow> string list" where
  "split_on d [] = [[]]"
| "split_on d (c # s) =
     (if c = d then [] # split_on d s
      else (case split_on d s of [] \<Rightarrow> [[c]] | w # ws \<Rightarrow> (c # w) # ws))"

fun join :: "string \<Rightarrow> string list \<Rightarrow> string" where
  "join sep [] = []"
| "join sep [w] = w"
| "join sep (w # ws) = w @ sep @ join sep ws"

text \<open>\<open>Cut\<close> at the first occurrence of one character: what is before it, what is after, and whether it
  was there.\<close>

definition cut_on :: "char \<Rightarrow> string \<Rightarrow> string \<times> string \<times> bool" where
  "cut_on d s = (takeWhile (\<lambda>c. c \<noteq> d) s, tl (dropWhile (\<lambda>c. c \<noteq> d) s), d \<in> set s)"

function split_fields :: "('a \<Rightarrow> bool) \<Rightarrow> 'a list \<Rightarrow> 'a list list" where
  "split_fields P xs =
     (let ys = dropWhile P xs in
      if ys = [] then []
      else takeWhile (\<lambda>x. \<not> P x) ys # split_fields P (dropWhile (\<lambda>x. \<not> P x) ys))"
  by pat_completeness auto
termination
proof (relation "measure (\<lambda>(P, xs). length xs)")
  fix P and xs ys :: "'a list"
  assume ys: "ys = dropWhile P xs" "ys \<noteq> []"
  then have "\<not> P (hd ys)" using hd_dropWhile [of P xs] by auto
  with ys(2) have "length (dropWhile (\<lambda>x. \<not> P x) ys) < length ys"
    by (cases ys) (auto simp: length_dropWhile_le le_imp_less_Suc)
  also have "\<dots> \<le> length xs" using ys(1) by (simp add: length_dropWhile_le)
  finally show "((P, dropWhile (\<lambda>x. \<not> P x) ys), P, xs) \<in> measure (\<lambda>(P, xs). length xs)" by simp
qed simp

declare split_fields.simps [simp del]

definition fields_func :: "(nat \<Rightarrow> bool) \<Rightarrow> string \<Rightarrow> string list" where
  "fields_func P s = map unchunk (split_fields (\<lambda>c. P (fst c)) (chunks s))"

definition fields_of :: "string \<Rightarrow> string list" where
  "fields_of s = fields_func is_space s"

function replace_all :: "string \<Rightarrow> string \<Rightarrow> string \<Rightarrow> string" where
  "replace_all old new s =
     (if old = [] \<or> s = [] then s
      else if prefix old s then new @ replace_all old new (drop (length old) s)
      else hd s # replace_all old new (tl s))"
  by pat_completeness auto
termination
  by (relation "measure (\<lambda>(old, new, s). length s)") auto

declare replace_all.simps [simp del]

fun count_char :: "char \<Rightarrow> string \<Rightarrow> nat" where
  "count_char d [] = 0"
| "count_char d (c # s) = (if c = d then 1 else 0) + count_char d s"

text \<open>\<open>strings.ReplaceAll(s, "\r\n", "\n")\<close>, which the readers of multi-line text all start with.\<close>

definition crlf_to_lf :: "string \<Rightarrow> string" where
  "crlf_to_lf s = replace_all [CHR 0x0D, CHR 0x0A] [CHR 0x0A] s"

definition lines_of :: "string \<Rightarrow> string list" where
  "lines_of s = split_on (CHR 0x0A) s"

section \<open>Numbers\<close>

definition digit_char :: "nat \<Rightarrow> char" where
  "digit_char d = char_of (48 + d)"

fun show_nat :: "nat \<Rightarrow> string" where
  "show_nat n = (if n < 10 then [digit_char n] else show_nat (n div 10) @ [digit_char (n mod 10)])"

declare show_nat.simps [simp del]

definition itoa :: "int \<Rightarrow> string" where
  "itoa i = (if i < 0 then CHR ''-'' # show_nat (nat (- i)) else show_nat (nat i))"

definition digits_val :: "string \<Rightarrow> nat" where
  "digits_val s = foldl (\<lambda>a c. a * 10 + (of_char c - 48)) 0 s"

text \<open>\<open>strconv.Atoi\<close>: an optional sign, then decimal digits, within 64 bits.\<close>

definition atoi :: "string \<Rightarrow> int option" where
  "atoi s =
     (let neg = (s \<noteq> [] \<and> hd s = CHR ''-'');
          ds = (if s \<noteq> [] \<and> (hd s = CHR ''-'' \<or> hd s = CHR ''+'') then tl s else s);
          v = (if neg then - int (digits_val ds) else int (digits_val ds)) in
      if ds = [] \<or> \<not> list_all is_ascii_digit ds \<or> \<not> fits64 v then None else Some v)"

lemma is_ascii_digit_of_char: "is_ascii_digit c \<longleftrightarrow> 48 \<le> (of_char c :: nat) \<and> of_char c \<le> (57 :: nat)"
  by (simp add: is_ascii_digit_def less_eq_char_def)

lemma of_digit_char: "d < 10 \<Longrightarrow> of_char (digit_char d) = 48 + d"
  by (simp add: digit_char_def)

lemma is_ascii_digit_digit_char: "d < 10 \<Longrightarrow> is_ascii_digit (digit_char d)"
  by (simp only: is_ascii_digit_of_char of_digit_char) simp

lemma show_nat_digits: "list_all is_ascii_digit (show_nat n)"
proof (induction n rule: show_nat.induct)
  case (1 n)
  show ?case
    by (subst show_nat.simps) (use 1 in \<open>simp add: is_ascii_digit_digit_char\<close>)
qed

lemma show_nat_nonempty [simp]: "show_nat n \<noteq> []"
  by (subst show_nat.simps) simp

lemma digits_val_snoc: "digits_val (s @ [c]) = digits_val s * 10 + (of_char c - 48)"
  by (simp add: digits_val_def)

lemma digits_val_show_nat [simp]: "digits_val (show_nat n) = n"
proof (induction n rule: show_nat.induct)
  case (1 n)
  show ?case
  proof (cases "n < 10")
    case True
    then show ?thesis by (subst show_nat.simps) (simp add: digits_val_def of_digit_char)
  next
    case False
    with 1 show ?thesis by (subst show_nat.simps) (simp add: digits_val_snoc of_digit_char)
  qed
qed

lemma digits_no_sign: "list_all is_ascii_digit s \<Longrightarrow> s \<noteq> [] \<Longrightarrow> hd s \<noteq> CHR ''-'' \<and> hd s \<noteq> CHR ''+''"
  by (cases s) (auto simp: is_ascii_digit_of_char)

lemma atoi_digits:
  assumes "list_all is_ascii_digit s" "s \<noteq> []" "fits64 (int (digits_val s))"
  shows "atoi s = Some (int (digits_val s))"
  using assms digits_no_sign [OF assms(1,2)] by (simp add: atoi_def)

lemma atoi_show_nat: "fits64 (int n) \<Longrightarrow> atoi (show_nat n) = Some (int n)"
  using atoi_digits [of "show_nat n"] show_nat_digits by simp

section \<open>Facts the components share\<close>

lemma trim_list_sub: "\<exists>i j. trim_list P xs = take j (drop i xs)"
proof -
  have d: "dropWhile P ys = drop (length (takeWhile P ys)) ys" for ys :: "'a list"
    by (metis dropWhile_eq_drop)
  have "rev (drop k (rev ys)) = take (length ys - k) ys" for k and ys :: "'a list"
    by (simp add: rev_drop)
  with d show ?thesis unfolding trim_list_def by metis
qed

lemma trim_list_idem [simp]: "trim_list P (trim_list P xs) = trim_list P xs"
  unfolding trim_list_def by simp

lemma trim_list_set: "set (trim_list P xs) \<subseteq> set xs"
  by (metis (no_types, lifting) in_set_dropD in_set_takeD subsetI trim_list_sub)

lemma trim_list_eq_Nil: "trim_list P xs = [] \<longleftrightarrow> list_all P xs"
proof -
  have "list_all P (dropWhile P xs) \<longleftrightarrow> dropWhile P xs = []"
    by (metis hd_dropWhile list.pred_inject(1) list.pred_set list.set_sel(1))
  then show ?thesis by (simp add: trim_list_def list_all_iff)
qed

lemma trim_list_id: "xs = [] \<or> (\<not> P (hd xs) \<and> \<not> P (last xs)) \<Longrightarrow> trim_list P xs = xs"
  unfolding trim_list_def by (cases "xs = []") (simp_all add: dropWhile_none hd_rev)

lemma trim_list_ends:
  "trim_list P xs \<noteq> [] \<Longrightarrow> \<not> P (hd (trim_list P xs)) \<and> \<not> P (last (trim_list P xs))"
proof
  assume ne: "trim_list P xs \<noteq> []"
  then show "\<not> P (last (trim_list P xs))"
    unfolding trim_list_def using hd_dropWhile [of P "rev (dropWhile P xs)"] by (simp add: last_rev)
  have "dropWhile P (trim_list P xs) = trim_list P xs" unfolding trim_list_def by simp
  with ne show "\<not> P (hd (trim_list P xs))" by (metis hd_dropWhile)
qed

lemma chunks_sub: "chunks (unchunk (take j (drop i (chunks s)))) = take j (drop i (chunks s))"
  by (metis chunks_drop chunks_take)

lemma chunks_trim_func: "chunks (trim_func P s) = trim_list (\<lambda>c. P (fst c)) (chunks s)"
  unfolding trim_func_def using trim_list_sub [of "\<lambda>c. P (fst c)" "chunks s"] chunks_sub by metis

lemma trim_func_idem [simp]: "trim_func P (trim_func P s) = trim_func P s"
  by (simp add: trim_func_def [of P "trim_func P s"] chunks_trim_func) (simp add: trim_func_def)

lemma trim_space_idem [simp]: "trim_space (trim_space s) = trim_space s"
  by (simp add: trim_space_def)

lemma trim_space_Nil [simp]: "trim_space [] = []"
  by (simp add: trim_space_def trim_func_def trim_list_def)

lemma trim_func_eq_Nil: "trim_func P s = [] \<longleftrightarrow> list_all P (runes s)"
proof -
  have "trim_func P s = [] \<longleftrightarrow> trim_list (\<lambda>c. P (fst c)) (chunks s) = []"
    by (metis chunks_eq_Nil chunks_trim_func)
  also have "\<dots> \<longleftrightarrow> list_all P (runes s)"
    by (simp add: trim_list_eq_Nil runes_def list_all_iff)
  finally show ?thesis .
qed

lemma split_on_nonempty [simp]: "split_on d s \<noteq> []"
  by (induction s) (auto split: list.splits)

lemma join_split_on: "join [d] (split_on d s) = s"
proof (induction s)
  case (Cons c s)
  then show ?case by (cases "split_on d s"; cases "tl (split_on d s)") (auto split: list.splits)
qed simp

lemma split_on_no_sep: "w \<in> set (split_on d s) \<Longrightarrow> d \<notin> set w"
  by (induction s arbitrary: w) (auto split: list.splits if_splits)

lemma split_on_word [simp]: "d \<notin> set w \<Longrightarrow> split_on d w = [w]"
  by (induction w) auto

lemma split_on_append: "d \<notin> set w \<Longrightarrow> split_on d (w @ d # s) = w # split_on d s"
  by (induction w) auto

lemma split_on_join:
  "ws \<noteq> [] \<Longrightarrow> list_all (\<lambda>w. d \<notin> set w) ws \<Longrightarrow> split_on d (join [d] ws) = ws"
  by (induction "[d]" ws rule: join.induct) (auto simp: split_on_append)

lemma split_fields_pieces:
  "list_all (\<lambda>w. w \<noteq> [] \<and> list_all (\<lambda>x. \<not> P x) w) (split_fields P xs)"
proof (induction P xs rule: split_fields.induct)
  case (1 P xs)
  let ?ys = "dropWhile P xs"
  show ?case
  proof (cases "?ys = []")
    case True
    then show ?thesis by (subst split_fields.simps) (simp del: dropWhile_eq_Nil_conv)
  next
    case False
    with hd_dropWhile have "\<not> P (hd ?ys)" by blast
    with False have "takeWhile (\<lambda>x. \<not> P x) ?ys \<noteq> []" by (cases ?ys) auto
    moreover have "list_all (\<lambda>x. \<not> P x) (takeWhile (\<lambda>x. \<not> P x) ?ys)"
      by (auto simp: list_all_iff dest: set_takeWhileD)
    ultimately show ?thesis
      by (subst split_fields.simps) (use 1 [OF refl False] False in \<open>simp add: Let_def del: dropWhile_eq_Nil_conv\<close>)
  qed
qed

lemma prefix_refl_append [simp]: "prefix s (s @ t)"
  by (simp add: prefix_def)

lemma contains_iff_sublist: "contains sub s \<longleftrightarrow> sublist sub s"
  by (induction s) (auto simp: sublist_Cons_right)

section \<open>Cuts\<close>

text \<open>
  A cut at a byte is backed off to the start of a character (\<^verbatim>\<open>utf8.RuneStart\<close>), and \<^verbatim>\<open>truncate\<close> of
  agent.go says how much it took.
\<close>

definition rune_start :: "char \<Rightarrow> bool" where
  "rune_start c \<longleftrightarrow> \<not> (128 \<le> (of_char c :: nat) \<and> of_char c \<le> (191 :: nat))"

fun back_to_start :: "string \<Rightarrow> nat \<Rightarrow> nat" where
  "back_to_start s 0 = 0"
| "back_to_start s (Suc k) = (if rune_start (s ! Suc k) then Suc k else back_to_start s k)"

definition cut_at_rune :: "string \<Rightarrow> nat \<Rightarrow> string" where
  "cut_at_rune s n = (if n \<ge> length s then s else take (back_to_start s n) s)"

definition truncate_text :: "string \<Rightarrow> nat \<Rightarrow> string" where
  "truncate_text s n = (if length s \<le> n then s else
     cut_at_rune s n @ CHR 0x0A # map char_of [0xE2, 0x80, 0xA6 :: nat] @ ''[truncated, '' @
     show_nat (length s - length (cut_at_rune s n)) @ '' more chars]'')"

end
