(* ===== verification/Diff.thy ===== *)
theory Diff
  imports GoStrings "HOL-Library.Monad_Syntax"
begin

text \<open>
  internal/review/diff.go: GitHub's patch for one file, read into hunks whose lines carry the numbers
  a review comment may use. \<open>parse_patch\<close> is \<open>ParsePatch\<close>, a loop over the lines with the state the
  source keeps in local variables (\<open>pstate\<close>); \<open>valid_anchor\<close> is \<open>ValidAnchor\<close>, \<open>numbered_patch\<close> is
  \<open>NumberedPatch\<close> and \<open>patch_hash\<close> is \<open>PatchHash\<close>, over a parameter for hex-encoded SHA-256. Line
  numbers are Go \<open>int\<close>s: the increments wrap at 64 bits, as a header may name any 64-bit start.
  Errors carry what their message carries.
\<close>

section \<open>Types\<close>

record diff_line =
  l_kind :: char
  l_old :: int
  l_new :: int
  l_text :: string

record hunk =
  old_start :: int
  old_lines :: int
  new_start :: int
  new_lines :: int
  h_section :: string
  h_lines :: "diff_line list"

text \<open>A nil slice of hunks and an empty one are not told apart: the source only makes nil ones.\<close>

record diff_file =
  f_path :: string
  f_prev_path :: string
  f_status :: string
  f_additions :: int
  f_deletions :: int
  f_patch :: string
  f_binary :: bool
  f_hunks :: "hunk list"

type_synonym side = string

abbreviation Right :: side where "Right \<equiv> ''RIGHT''"
abbreviation Left :: side where "Left \<equiv> ''LEFT''"

definition line_on :: "diff_line \<Rightarrow> side \<Rightarrow> int" where
  "line_on l s = (if s = Right then l_new l else if s = Left then l_old l else 0)"

datatype header_error =
    MalformedHeader string
  | HeaderNumber string
  | HeaderLineZero string

datatype diff_error =
    HunkShort nat int int
  | BadHeader nat header_error
  | ExpectedHeader nat string
  | OutsideHunk nat string
  | TooManyContext nat
  | TooManyDeleted nat
  | TooManyAdded nat
  | NotDiffLine nat string
  | LastHunkShort int int

section \<open>The hunk header\<close>

definition ellipsis :: string where "ellipsis = [CHR 0xE2, CHR 0x80, CHR 0xA6]"

definition clip :: "string \<Rightarrow> string" where
  "clip s = (if length s \<le> 60 then s else take (back_to_start s 60) s @ ellipsis)"

definition expect :: "string \<Rightarrow> string \<Rightarrow> string option" where
  "expect p s = (if prefix p s then Some (drop (length p) s) else None)"

definition take_digits :: "string \<Rightarrow> (string \<times> string) option" where
  "take_digits s =
     (let d = takeWhile is_ascii_digit s in
      if d = [] then None else Some (d, dropWhile is_ascii_digit s))"

definition take_count :: "string \<Rightarrow> string \<times> string" where
  "take_count s =
     (case s of c # t \<Rightarrow> if c = CHR '','' then (case take_digits t of Some dr \<Rightarrow> dr | None \<Rightarrow> ([], s)) else ([], s)
      | [] \<Rightarrow> ([], s))"

text \<open>The submatches of \<open>^@@ -(\d+)(?:,(\d+))? \+(\d+)(?:,(\d+))? @@(.*)$\<close>, an absent one empty.\<close>

definition hunk_header :: "string \<Rightarrow> (string \<times> string \<times> string \<times> string \<times> string) option" where
  "hunk_header s = do {
     s1 \<leftarrow> expect ''@@ -'' s;
     (m1, s2) \<leftarrow> take_digits s1;
     let m2 = fst (take_count s2);
     let s3 = snd (take_count s2);
     s4 \<leftarrow> expect '' +'' s3;
     (m3, s5) \<leftarrow> take_digits s4;
     let m4 = fst (take_count s5);
     let s6 = snd (take_count s5);
     m5 \<leftarrow> expect '' @@'' s6;
     if CHR 0x0A \<in> set m5 then None else Some (m1, m2, m3, m4, m5)
   }"

definition header_num :: "string \<Rightarrow> int \<Rightarrow> int option" where
  "header_num v omitted = (if v = [] then Some omitted else atoi v)"

definition parse_hunk_header :: "string \<Rightarrow> (header_error, hunk) result" where
  "parse_hunk_header s = (case hunk_header s of
     None \<Rightarrow> Inl (MalformedHeader (clip s))
   | Some (m1, m2, m3, m4, m5) \<Rightarrow>
       (case (header_num m1 0, header_num m2 1, header_num m3 0, header_num m4 1) of
          (Some os, Some ol, Some ns, Some nl) \<Rightarrow>
            if (0 < ol \<and> os < 1) \<or> (0 < nl \<and> ns < 1) then Inl (HeaderLineZero (clip s))
            else Inr \<lparr>old_start = os, old_lines = ol, new_start = ns, new_lines = nl,
                      h_section = trim_prefix '' '' m5, h_lines = []\<rparr>
        | _ \<Rightarrow> Inl (HeaderNumber (clip s))))"

section \<open>The patch\<close>

text \<open>\<open>cur\<close> is the pointer to the hunk being filled, \<open>p_done\<close> the hunks before it.\<close>

record pstate =
  p_done :: "hunk list"
  p_cur :: "hunk option"
  old_left :: int
  new_left :: int
  old_n :: int
  new_n :: int

definition p_init :: pstate where
  "p_init = \<lparr>p_done = [], p_cur = None, old_left = 0, new_left = 0, old_n = 0, new_n = 0\<rparr>"

definition p_hunks :: "pstate \<Rightarrow> hunk list" where
  "p_hunks st = p_done st @ (case p_cur st of None \<Rightarrow> [] | Some h \<Rightarrow> [h])"

definition add_line :: "hunk \<Rightarrow> diff_line \<Rightarrow> hunk" where
  "add_line h l = h\<lparr>h_lines := h_lines h @ [l]\<rparr>"

definition diff_line_step :: "nat \<Rightarrow> pstate \<Rightarrow> hunk \<Rightarrow> string \<Rightarrow> (diff_error, pstate) result" where
  "diff_line_step at st h raw =
     (let kind = (if raw = [] then CHR '' '' else hd raw); text = tl raw in
      if kind = CHR '' '' then
        if old_left st = 0 \<or> new_left st = 0 then Inl (TooManyContext at)
        else Inr (st\<lparr>p_cur := Some (add_line h \<lparr>l_kind = CHR '' '', l_old = old_n st, l_new = new_n st, l_text = text\<rparr>),
                     old_n := wrap64 (old_n st + 1), new_n := wrap64 (new_n st + 1),
                     old_left := old_left st - 1, new_left := new_left st - 1\<rparr>)
      else if kind = CHR ''-'' then
        if old_left st = 0 then Inl (TooManyDeleted at)
        else Inr (st\<lparr>p_cur := Some (add_line h \<lparr>l_kind = CHR ''-'', l_old = old_n st, l_new = 0, l_text = text\<rparr>),
                     old_n := wrap64 (old_n st + 1), old_left := old_left st - 1\<rparr>)
      else if kind = CHR ''+'' then
        if new_left st = 0 then Inl (TooManyAdded at)
        else Inr (st\<lparr>p_cur := Some (add_line h \<lparr>l_kind = CHR ''+'', l_old = 0, l_new = new_n st, l_text = text\<rparr>),
                     new_n := wrap64 (new_n st + 1), new_left := new_left st - 1\<rparr>)
      else Inl (NotDiffLine at (clip raw)))"

definition patch_step :: "nat \<Rightarrow> pstate \<Rightarrow> string \<Rightarrow> (diff_error, pstate) result" where
  "patch_step at st raw =
     (if prefix ''@@'' raw then
        if p_cur st \<noteq> None \<and> (0 < old_left st \<or> 0 < new_left st)
        then Inl (HunkShort at (old_left st) (new_left st))
        else (case parse_hunk_header raw of
            Inl e \<Rightarrow> Inl (BadHeader at e)
          | Inr h \<Rightarrow> Inr \<lparr>p_done = p_hunks st, p_cur = Some h, old_left = old_lines h, new_left = new_lines h,
                          old_n = old_start h, new_n = new_start h\<rparr>)
      else (case p_cur st of
          None \<Rightarrow> Inl (ExpectedHeader at (clip raw))
        | Some h \<Rightarrow>
            if prefix [CHR 0x5C] raw then Inr st
            else if old_left st = 0 \<and> new_left st = 0 then
              if raw = [] then Inr st else Inl (OutsideHunk at (clip raw))
            else diff_line_step at st h raw))"

fun patch_loop :: "nat \<Rightarrow> pstate \<Rightarrow> string list \<Rightarrow> (diff_error, pstate) result" where
  "patch_loop i st [] = Inr st"
| "patch_loop i st (raw # raws) =
     bind_result (patch_step (i + 1) st raw) (\<lambda>st'. patch_loop (i + 1) st' raws)"

definition parse_patch :: "string \<Rightarrow> (diff_error, hunk list) result" where
  "parse_patch patch =
     (if patch = [] then Inr []
      else bind_result (patch_loop 0 p_init (lines_of (trim_suffix [CHR 0x0A] (crlf_to_lf patch))))
        (\<lambda>st. if 0 < old_left st \<or> 0 < new_left st then Inl (LastHunkShort (old_left st) (new_left st))
              else Inr (p_hunks st)))"

section \<open>Files\<close>

definition looks_binary :: "diff_file \<Rightarrow> bool" where
  "looks_binary f =
     (if f_patch f \<noteq> [] \<or> f_additions f \<noteq> 0 \<or> f_deletions f \<noteq> 0 then False
      else f_status f = ''added'' \<or> f_status f = ''modified'' \<or> f_status f = ''removed'')"

definition file_parse :: "diff_file \<Rightarrow> (string \<times> diff_error, diff_file) result" where
  "file_parse f = (case parse_patch (f_patch f) of
     Inl e \<Rightarrow> Inl (f_path f, e)
   | Inr hs \<Rightarrow> Inr (let f' = f\<lparr>f_hunks := hs\<rparr> in f'\<lparr>f_binary := looks_binary f'\<rparr>))"

definition no_patch_reason :: "diff_file \<Rightarrow> string" where
  "no_patch_reason f =
     (if f_patch f \<noteq> [] then ''''
      else if f_binary f \<or> looks_binary f then ''binary''
      else if 0 < wrap64 (f_additions f + f_deletions f) then ''too large''
      else '''')"

section \<open>Anchors\<close>

fun anchor_scan :: "side \<Rightarrow> int \<Rightarrow> int \<Rightarrow> bool \<times> bool \<Rightarrow> diff_line list \<Rightarrow> bool \<times> bool" where
  "anchor_scan s start line (hs, he) [] = (hs, he)"
| "anchor_scan s start line (hs, he) (l # ls) =
     (let n = line_on l s in
      if n = 0 then anchor_scan s start line (hs, he) ls
      else if n = start then anchor_scan s start line (True, he \<or> start = line) ls
      else if n = line then anchor_scan s start line (hs, True) ls
      else anchor_scan s start line (hs, he) ls)"

definition valid_anchor :: "hunk list \<Rightarrow> side \<Rightarrow> int \<Rightarrow> int \<Rightarrow> bool" where
  "valid_anchor hunks s start0 line =
     (let start = (if start0 = 0 then line else start0) in
      if line < 1 \<or> start < 1 \<or> line < start then False
      else list_ex (\<lambda>h. anchor_scan s start line (False, False) (h_lines h) = (True, True)) hunks)"

section \<open>What the model and the cache are given\<close>

definition pad_right :: "nat \<Rightarrow> string \<Rightarrow> string" where
  "pad_right w s = s @ replicate (w - length s) CHR '' ''"

definition label_width :: "hunk list \<Rightarrow> nat" where
  "label_width hs =
     foldl (\<lambda>w h. foldl (\<lambda>w l. max w (length (itoa (max (l_old l) (l_new l))))) w (h_lines h)) 1 hs"

definition label_side :: "diff_line \<Rightarrow> side" where
  "label_side l = (if l_kind l = CHR ''-'' then Left else Right)"

definition label_num :: "diff_line \<Rightarrow> int" where
  "label_num l = (if l_kind l = CHR ''-'' then l_old l else l_new l)"

definition numbered_line :: "nat \<Rightarrow> diff_line \<Rightarrow> string" where
  "numbered_line w l =
     take 1 (label_side l) @ pad_right w (itoa (label_num l)) @ '' '' @ [l_kind l] @ l_text l @ [CHR 0x0A]"

definition numbered_hunk :: "nat \<Rightarrow> hunk \<Rightarrow> string" where
  "numbered_hunk w h =
     ''@@ -'' @ itoa (old_start h) @ '','' @ itoa (old_lines h) @ '' +'' @ itoa (new_start h) @ '','' @
     itoa (new_lines h) @ '' @@'' @ (if h_section h \<noteq> [] then '' '' @ h_section h else []) @ [CHR 0x0A] @
     concat (map (numbered_line w) (h_lines h))"

definition numbered_head :: "diff_file \<Rightarrow> string" where
  "numbered_head f =
     ''## File: '' @ f_path f @
     (if f_prev_path f \<noteq> [] \<and> f_prev_path f \<noteq> f_path f
      then '' ('' @ f_status f @ '' from '' @ f_prev_path f @ '', +'' @ itoa (f_additions f) @ '' -'' @
           itoa (f_deletions f) @ '')'' @ [CHR 0x0A]
      else '' ('' @ f_status f @ '', +'' @ itoa (f_additions f) @ '' -'' @ itoa (f_deletions f) @ '')'' @ [CHR 0x0A])"

definition numbered_patch :: "diff_file \<Rightarrow> string" where
  "numbered_patch f =
     (case (if f_hunks f = [] \<and> f_patch f \<noteq> [] then parse_patch (f_patch f) else Inr (f_hunks f)) of
        Inl _ \<Rightarrow> numbered_head f @ ''(the diff of this file could not be read)'' @ [CHR 0x0A]
      | Inr hs \<Rightarrow>
          if hs = [] then
            (let why = no_patch_reason f in
             if why \<noteq> [] then numbered_head f @ ''(no diff shown: '' @ why @ '')'' @ [CHR 0x0A]
             else numbered_head f @ ''(no change to the content)'' @ [CHR 0x0A])
          else numbered_head f @ concat (map (numbered_hunk (label_width hs)) hs))"

text \<open>The bytes \<open>PatchHash\<close> feeds to SHA-256: the edits, with no header and no context.\<close>

definition edit_bytes :: "hunk list \<Rightarrow> string" where
  "edit_bytes hs =
     concat (map (\<lambda>h. concat (map (\<lambda>l.
        if l_kind l = CHR '' '' then [] else l_kind l # l_text l @ [CHR 0x0A]) (h_lines h))) hs)"

definition patch_hash :: "(string \<Rightarrow> string) \<Rightarrow> diff_file \<Rightarrow> string" where
  "patch_hash sha256_hex f =
     (if f_hunks f = [] \<and> f_patch f = [] then []
      else case (if f_hunks f = [] then parse_patch (f_patch f) else Inr (f_hunks f)) of
          Inl _ \<Rightarrow> sha256_hex (''raw'' @ [CHR 0x00] @ f_patch f)
        | Inr hs \<Rightarrow> if hs = [] then [] else sha256_hex (edit_bytes hs))"

section \<open>The parser's invariant\<close>

definition on_old :: "diff_line \<Rightarrow> bool" where "on_old l \<longleftrightarrow> l_kind l \<noteq> CHR ''+''"
definition on_new :: "diff_line \<Rightarrow> bool" where "on_new l \<longleftrightarrow> l_kind l \<noteq> CHR ''-''"

definition numbers :: "int \<Rightarrow> nat \<Rightarrow> int list" where
  "numbers start k = map (\<lambda>i. wrap64 (start + int i)) [0..<k]"

definition line_ok :: "diff_line \<Rightarrow> bool" where
  "line_ok l \<longleftrightarrow> l_kind l \<in> {CHR '' '', CHR ''-'', CHR ''+''} \<and>
     (\<not> on_old l \<longrightarrow> l_old l = 0) \<and> (\<not> on_new l \<longrightarrow> l_new l = 0) \<and> CHR 0x0A \<notin> set (l_text l)"

definition header_ok :: "hunk \<Rightarrow> bool" where
  "header_ok h \<longleftrightarrow> 0 \<le> old_lines h \<and> 0 \<le> new_lines h \<and> fits64 (old_start h) \<and> fits64 (new_start h) \<and>
     (0 < old_lines h \<longrightarrow> 1 \<le> old_start h) \<and> (0 < new_lines h \<longrightarrow> 1 \<le> new_start h)"

text \<open>A hunk that has its first \<open>o\<close> old-side and \<open>n\<close> new-side lines, each side numbered without a gap.\<close>

definition filled :: "hunk \<Rightarrow> nat \<Rightarrow> nat \<Rightarrow> bool" where
  "filled h ko kn \<longleftrightarrow> header_ok h \<and> list_all line_ok (h_lines h) \<and>
     map l_old (filter on_old (h_lines h)) = numbers (old_start h) ko \<and>
     map l_new (filter on_new (h_lines h)) = numbers (new_start h) kn"

definition hunk_wf :: "hunk \<Rightarrow> bool" where
  "hunk_wf h \<longleftrightarrow> filled h (nat (old_lines h)) (nat (new_lines h))"

definition pstate_inv :: "pstate \<Rightarrow> bool" where
  "pstate_inv st \<longleftrightarrow> list_all hunk_wf (p_done st) \<and>
     (case p_cur st of
        None \<Rightarrow> old_left st = 0 \<and> new_left st = 0
      | Some h \<Rightarrow> \<exists>ko kn. filled h ko kn \<and>
          0 \<le> old_left st \<and> old_left st = old_lines h - int ko \<and> old_n st = wrap64 (old_start h + int ko) \<and>
          0 \<le> new_left st \<and> new_left st = new_lines h - int kn \<and> new_n st = wrap64 (new_start h + int kn))"

lemma wrap64_succ [simp]: "wrap64 (wrap64 a + 1) = wrap64 (a + 1)"
proof -
  have "((a + 9223372036854775808) mod 18446744073709551616 + 1) mod 18446744073709551616
      = (a + 9223372036854775808 + 1) mod 18446744073709551616" by (rule mod_add_left_eq)
  then show ?thesis unfolding wrap64_def by (simp add: algebra_simps)
qed

lemma wrap64_succ' [simp]: "wrap64 (1 + wrap64 a) = wrap64 (1 + a)"
  using wrap64_succ [of a] by (simp add: add.commute)

lemma numbers_snoc: "numbers s (Suc k) = numbers s k @ [wrap64 (s + int k)]"
  by (simp add: numbers_def)

lemma take_digits_Some: "take_digits s = Some (d, t) \<Longrightarrow> list_all is_ascii_digit d"
  by (auto simp: take_digits_def Let_def list_all_iff split: if_splits dest: set_takeWhileD)

lemma take_count_digits: "list_all is_ascii_digit (fst (take_count s))"
  by (auto simp: take_count_def split: list.splits if_splits option.splits dest: take_digits_Some)

lemma hunk_header_digits:
  assumes "hunk_header s = Some (m1, m2, m3, m4, m5)"
  shows "list_all is_ascii_digit m1 \<and> list_all is_ascii_digit m2 \<and> list_all is_ascii_digit m3 \<and> list_all is_ascii_digit m4"
  using assms unfolding hunk_header_def
  by (auto simp: Let_def bind_eq_Some_conv take_count_digits split: prod.splits if_splits dest!: take_digits_Some)

lemma atoi_digits_nonneg: "list_all is_ascii_digit s \<Longrightarrow> atoi s = Some n \<Longrightarrow> 0 \<le> n"
  using digits_no_sign [of s] by (cases "s = []") (auto simp: atoi_def Let_def split: if_splits)

lemma atoi_fits: "atoi s = Some n \<Longrightarrow> fits64 n"
  by (auto simp: atoi_def Let_def split: if_splits)

lemma header_num_ok:
  "list_all is_ascii_digit s \<Longrightarrow> header_num s d = Some n \<Longrightarrow> 0 \<le> d \<Longrightarrow> fits64 d \<Longrightarrow> 0 \<le> n \<and> fits64 n"
  by (auto simp: header_num_def atoi_digits_nonneg atoi_fits split: if_splits)

lemma parse_hunk_header_ok:
  assumes "parse_hunk_header s = Inr h"
  shows "header_ok h" and "h_lines h = []"
proof -
  obtain m1 m2 m3 m4 m5 where m: "hunk_header s = Some (m1, m2, m3, m4, m5)"
    using assms by (auto simp: parse_hunk_header_def split: option.splits)
  note d = hunk_header_digits [OF m]
  obtain os ol ns nl where n: "header_num m1 0 = Some os" "header_num m2 1 = Some ol"
      "header_num m3 0 = Some ns" "header_num m4 1 = Some nl"
    and h: "\<not> ((0 < ol \<and> os < 1) \<or> (0 < nl \<and> ns < 1))"
      "h = \<lparr>old_start = os, old_lines = ol, new_start = ns, new_lines = nl, h_section = trim_prefix '' '' m5, h_lines = []\<rparr>"
    using assms m by (auto simp: parse_hunk_header_def split: option.splits if_splits)
  have f: "fits64 0" "fits64 1" by (simp_all add: fits64_def min_int64_def max_int64_def)
  show "h_lines h = []" using h by simp
  show "header_ok h"
    using header_num_ok [of m1 0 os] header_num_ok [of m2 1 ol] header_num_ok [of m3 0 ns] header_num_ok [of m4 1 nl] d n h f
    by (auto simp: header_ok_def)
qed

lemma filled_empty: "header_ok h \<Longrightarrow> h_lines h = [] \<Longrightarrow> filled h 0 0"
  by (simp add: filled_def numbers_def)

lemma filled_wf:
  "filled h ko kn \<Longrightarrow> old_lines h = int ko \<Longrightarrow> new_lines h = int kn \<Longrightarrow> hunk_wf h"
  by (simp add: hunk_wf_def)

lemma header_ok_add_line [simp]: "header_ok (add_line h l) = header_ok h"
  by (simp add: header_ok_def add_line_def)

lemma filled_add:
  assumes "filled h ko kn" "line_ok l"
    and "on_old l \<Longrightarrow> l_old l = wrap64 (old_start h + int ko)"
    and "on_new l \<Longrightarrow> l_new l = wrap64 (new_start h + int kn)"
  shows "filled (add_line h l) (if on_old l then Suc ko else ko) (if on_new l then Suc kn else kn)"
  using assms by (auto simp: filled_def add_line_def numbers_snoc header_ok_def)

lemma p_hunks_wf: "pstate_inv st \<Longrightarrow> old_left st \<le> 0 \<Longrightarrow> new_left st \<le> 0 \<Longrightarrow> list_all hunk_wf (p_hunks st)"
  by (auto simp: pstate_inv_def p_hunks_def intro: filled_wf split: option.splits)

lemma pstate_inv_cur:
  assumes "list_all hunk_wf (p_done st)" "p_cur st = Some h" "filled h ko kn"
    and "0 \<le> old_left st" "old_left st = old_lines h - int ko" "old_n st = wrap64 (old_start h + int ko)"
    and "0 \<le> new_left st" "new_left st = new_lines h - int kn" "new_n st = wrap64 (new_start h + int kn)"
  shows "pstate_inv st"
  using assms by (auto simp: pstate_inv_def)

lemma diff_line_step_inv:
  assumes inv: "pstate_inv st" and cur: "p_cur st = Some h" and nl: "CHR 0x0A \<notin> set raw"
    and step: "diff_line_step at st h raw = Inr st'"
  shows "pstate_inv st'"
proof -
  obtain ko kn where done_wf: "list_all hunk_wf (p_done st)" and f: "filled h ko kn"
    and o: "0 \<le> old_left st" "old_left st = old_lines h - int ko" "old_n st = wrap64 (old_start h + int ko)"
    and n: "0 \<le> new_left st" "new_left st = new_lines h - int kn" "new_n st = wrap64 (new_start h + int kn)"
    using inv cur by (auto simp: pstate_inv_def)
  have tl_nl: "CHR 0x0A \<notin> set (tl raw)" using nl by (cases raw) auto
  consider
      (ctx) "old_left st \<noteq> 0" "new_left st \<noteq> 0"
        "st' = st\<lparr>p_cur := Some (add_line h \<lparr>l_kind = CHR '' '', l_old = old_n st, l_new = new_n st, l_text = tl raw\<rparr>),
                     old_n := wrap64 (old_n st + 1), new_n := wrap64 (new_n st + 1),
                     old_left := old_left st - 1, new_left := new_left st - 1\<rparr>"
    | (del) "old_left st \<noteq> 0"
        "st' = st\<lparr>p_cur := Some (add_line h \<lparr>l_kind = CHR ''-'', l_old = old_n st, l_new = 0, l_text = tl raw\<rparr>),
                     old_n := wrap64 (old_n st + 1), old_left := old_left st - 1\<rparr>"
    | (add) "new_left st \<noteq> 0"
        "st' = st\<lparr>p_cur := Some (add_line h \<lparr>l_kind = CHR ''+'', l_old = 0, l_new = new_n st, l_text = tl raw\<rparr>),
                     new_n := wrap64 (new_n st + 1), new_left := new_left st - 1\<rparr>"
    using step unfolding diff_line_step_def Let_def by (auto split: if_splits)
  then show ?thesis
  proof cases
    case ctx
    show ?thesis
      by (rule pstate_inv_cur [OF _ _ filled_add [OF f, of "\<lparr>l_kind = CHR '' '', l_old = old_n st, l_new = new_n st, l_text = tl raw\<rparr>"]])
         (use ctx done_wf o n tl_nl in \<open>auto simp: line_ok_def on_old_def on_new_def add_line_def algebra_simps\<close>)
  next
    case del
    show ?thesis
      by (rule pstate_inv_cur [OF _ _ filled_add [OF f, of "\<lparr>l_kind = CHR ''-'', l_old = old_n st, l_new = 0, l_text = tl raw\<rparr>"]])
         (use del done_wf o n tl_nl in \<open>auto simp: line_ok_def on_old_def on_new_def add_line_def algebra_simps\<close>)
  next
    case add
    show ?thesis
      by (rule pstate_inv_cur [OF _ _ filled_add [OF f, of "\<lparr>l_kind = CHR ''+'', l_old = 0, l_new = new_n st, l_text = tl raw\<rparr>"]])
         (use add done_wf o n tl_nl in \<open>auto simp: line_ok_def on_old_def on_new_def add_line_def algebra_simps\<close>)
  qed
qed

lemma patch_step_inv:
  assumes inv: "pstate_inv st" and nl: "CHR 0x0A \<notin> set raw" and step: "patch_step at st raw = Inr st'"
  shows "pstate_inv st'"
proof (cases "prefix ''@@'' raw")
  case True
  with step obtain h where h: "parse_hunk_header raw = Inr h"
    and closed: "p_cur st = None \<or> (old_left st \<le> 0 \<and> new_left st \<le> 0)"
    and st': "st' = \<lparr>p_done = p_hunks st, p_cur = Some h, old_left = old_lines h, new_left = new_lines h,
                          old_n = old_start h, new_n = new_start h\<rparr>"
    by (auto simp: patch_step_def split: if_splits sum.splits)
  have "list_all hunk_wf (p_hunks st)"
    by (rule p_hunks_wf [OF inv]) (use inv closed in \<open>auto simp: pstate_inv_def\<close>)
  then show ?thesis
    using parse_hunk_header_ok [OF h]
    by (intro pstate_inv_cur [OF _ _ filled_empty [of h]]) (auto simp: st' header_ok_def)
next
  case False
  then show ?thesis
    using step inv diff_line_step_inv [OF inv _ nl] by (auto simp: patch_step_def split: if_splits option.splits)
qed

lemma patch_loop_inv:
  "pstate_inv st \<Longrightarrow> list_all (\<lambda>raw. CHR 0x0A \<notin> set raw) raws \<Longrightarrow> patch_loop i st raws = Inr st' \<Longrightarrow> pstate_inv st'"
  by (induction raws arbitrary: i st) (auto simp: bind_result_Inr_iff intro: patch_step_inv)

lemma parse_patch_hunks_wf:
  assumes "parse_patch p = Inr hs"
  shows "list_all hunk_wf hs"
proof (cases "p = []")
  case False
  with assms obtain st where st: "patch_loop 0 p_init (lines_of (trim_suffix [CHR 0x0A] (crlf_to_lf p))) = Inr st"
    "old_left st \<le> 0" "new_left st \<le> 0" "hs = p_hunks st"
    by (auto simp: parse_patch_def bind_result_Inr_iff split: if_splits)
  have "pstate_inv st"
  proof (rule patch_loop_inv [OF _ _ st(1)])
    show "pstate_inv p_init" by (simp add: pstate_inv_def p_init_def)
    show "list_all (\<lambda>raw. CHR 0x0A \<notin> set raw) (lines_of (trim_suffix [CHR 0x0A] (crlf_to_lf p)))"
      by (auto simp: list_all_iff lines_of_def dest: split_on_no_sep)
  qed
  with st show ?thesis by (simp add: p_hunks_wf)
qed (use assms in \<open>simp add: parse_patch_def\<close>)

section \<open>What an anchor is\<close>

definition side_start :: "side \<Rightarrow> hunk \<Rightarrow> int" where
  "side_start s h = (if s = Right then new_start h else old_start h)"

definition side_count :: "side \<Rightarrow> hunk \<Rightarrow> int" where
  "side_count s h = (if s = Right then new_lines h else old_lines h)"

text \<open>The header's numbers stay within 64 bits, so no increment wraps.\<close>

definition no_wrap :: "hunk \<Rightarrow> bool" where
  "no_wrap h \<longleftrightarrow> fits64 (old_start h + old_lines h) \<and> fits64 (new_start h + new_lines h)"

definition has_number :: "side \<Rightarrow> int \<Rightarrow> hunk \<Rightarrow> bool" where
  "has_number s n h \<longleftrightarrow> list_ex (\<lambda>l. line_on l s = n) (h_lines h)"

lemma anchor_scan_iff:
  "start \<noteq> 0 \<Longrightarrow> line \<noteq> 0 \<Longrightarrow> anchor_scan s start line (hs, he) ls =
     (hs \<or> list_ex (\<lambda>l. line_on l s = start) ls, he \<or> list_ex (\<lambda>l. line_on l s = line) ls)"
  by (induction ls arbitrary: hs he) (auto simp: Let_def)

lemma valid_anchor_has_number:
  "valid_anchor hunks s start0 line \<longleftrightarrow>
     (let start = (if start0 = 0 then line else start0) in
      1 \<le> start \<and> start \<le> line \<and> list_ex (\<lambda>h. has_number s start h \<and> has_number s line h) hunks)"
  unfolding valid_anchor_def Let_def has_number_def
  by (auto simp: anchor_scan_iff list_ex_iff)

lemma set_numbers:
  assumes "1 \<le> start" "fits64 (start + int k)"
  shows "n \<in> set (numbers start k) \<longleftrightarrow> start \<le> n \<and> n < start + int k"
proof -
  have w: "wrap64 (start + int i) = start + int i" if "i < k" for i
    by (rule wrap64_fits) (use assms that in \<open>auto simp: fits64_def min_int64_def\<close>)
  show ?thesis
  proof
    assume "n \<in> set (numbers start k)"
    then show "start \<le> n \<and> n < start + int k" by (auto simp: numbers_def w)
  next
    assume n: "start \<le> n \<and> n < start + int k"
    define i where "i = nat (n - start)"
    with n have i: "i < k" "start + int i = n" by auto
    with w [of i] have "wrap64 (start + int i) = n" by simp
    with i(1) show "n \<in> set (numbers start k)" by (auto simp: numbers_def intro!: image_eqI [of _ _ i])
  qed
qed

lemma has_number_numbers:
  assumes wf: "hunk_wf h" and n: "1 \<le> n" and s: "s = Right \<or> s = Left"
  shows "has_number s n h \<longleftrightarrow> n \<in> set (numbers (side_start s h) (nat (side_count s h)))"
proof -
  have ok: "\<And>l. l \<in> set (h_lines h) \<Longrightarrow> line_ok l"
    and o: "map l_old (filter on_old (h_lines h)) = numbers (old_start h) (nat (old_lines h))"
    and nw: "map l_new (filter on_new (h_lines h)) = numbers (new_start h) (nat (new_lines h))"
    using wf by (auto simp: hunk_wf_def filled_def list_all_iff)
  show ?thesis
  proof (cases "s = Right")
    case True
    have "n \<in> set (numbers (new_start h) (nat (new_lines h))) \<longleftrightarrow> (\<exists>l\<in>set (h_lines h). on_new l \<and> l_new l = n)"
      unfolding nw [symmetric] by auto
    moreover have "\<And>l. l \<in> set (h_lines h) \<Longrightarrow> l_new l = n \<Longrightarrow> on_new l"
      using ok n by (force simp: line_ok_def)
    ultimately show ?thesis using True
      by (auto simp: has_number_def list_ex_iff line_on_def side_start_def side_count_def)
  next
    case False
    have "n \<in> set (numbers (old_start h) (nat (old_lines h))) \<longleftrightarrow> (\<exists>l\<in>set (h_lines h). on_old l \<and> l_old l = n)"
      unfolding o [symmetric] by auto
    moreover have "\<And>l. l \<in> set (h_lines h) \<Longrightarrow> l_old l = n \<Longrightarrow> on_old l"
      using ok n by (force simp: line_ok_def)
    ultimately show ?thesis using False s
      by (auto simp: has_number_def list_ex_iff line_on_def side_start_def side_count_def)
  qed
qed

lemma has_number_range:
  assumes wf: "hunk_wf h" and nw: "no_wrap h" and n: "1 \<le> n" and s: "s = Right \<or> s = Left"
  shows "has_number s n h \<longleftrightarrow> side_start s h \<le> n \<and> n < side_start s h + side_count s h"
proof (cases "side_count s h = 0")
  case True
  then show ?thesis by (simp add: has_number_numbers [OF wf n s] numbers_def)
next
  case False
  have "0 \<le> side_count s h" "1 \<le> side_start s h" "fits64 (side_start s h + side_count s h)"
    using wf nw s False by (auto simp: hunk_wf_def filled_def header_ok_def no_wrap_def side_start_def side_count_def)
  then show ?thesis using has_number_numbers [OF wf n s] set_numbers [of "side_start s h" "nat (side_count s h)"] by simp
qed

lemma valid_anchor_range:
  assumes "list_all hunk_wf hs" "list_all no_wrap hs" and s: "s = Right \<or> s = Left"
  shows "valid_anchor hs s start0 line \<longleftrightarrow>
     (let start = (if start0 = 0 then line else start0) in
      1 \<le> start \<and> start \<le> line \<and>
      list_ex (\<lambda>h. side_start s h \<le> start \<and> line < side_start s h + side_count s h) hs)"
  unfolding valid_anchor_has_number Let_def list_ex_iff
  using assms has_number_range [OF _ _ _ s] by (fastforce simp: list_all_iff)

section \<open>The edits a hash is of\<close>

definition edits :: "hunk list \<Rightarrow> (char \<times> string) list" where
  "edits hs = concat (map (\<lambda>h. map (\<lambda>l. (l_kind l, l_text l)) (filter (\<lambda>l. l_kind l \<noteq> CHR '' '') (h_lines h))) hs)"

definition edit_text :: "char \<times> string \<Rightarrow> string" where
  "edit_text e = fst e # snd e @ [CHR 0x0A]"

lemma edit_bytes_edits: "edit_bytes hs = concat (map edit_text (edits hs))"
proof -
  have "concat (map (\<lambda>l. if l_kind l = CHR '' '' then [] else l_kind l # l_text l @ [CHR 0x0A]) ls) =
      concat (map edit_text (map (\<lambda>l. (l_kind l, l_text l)) (filter (\<lambda>l. l_kind l \<noteq> CHR '' '') ls)))" for ls :: "diff_line list"
    by (induction ls) (auto simp: edit_text_def)
  then show ?thesis by (induction hs) (simp_all add: edit_bytes_def edits_def)
qed

lemma edit_texts_inj:
  "list_all (\<lambda>e. CHR 0x0A \<notin> set (snd e)) es \<Longrightarrow> list_all (\<lambda>e. CHR 0x0A \<notin> set (snd e)) es' \<Longrightarrow>
     concat (map edit_text es) = concat (map edit_text es') \<Longrightarrow> es = es'"
proof (induction es arbitrary: es')
  case Nil
  then show ?case by (cases es') (auto simp: edit_text_def)
next
  case (Cons e es)
  then obtain e' es'' where es': "es' = e' # es''" by (cases es') (auto simp: edit_text_def)
  have eq: "snd e @ CHR 0x0A # concat (map edit_text es) = snd e' @ CHR 0x0A # concat (map edit_text es'')"
    and fst: "fst e = fst e'" using Cons.prems(3) unfolding es' by (simp_all add: edit_text_def [of e] edit_text_def [of e'])
  have "snd e = snd e' \<and> concat (map edit_text es) = concat (map edit_text es'')"
    by (rule append_sep_inj [OF eq]) (use Cons.prems(1,2) es' in auto)
  with fst Cons es' show ?case by (auto simp: prod_eq_iff)
qed

lemma edits_no_newline: "list_all hunk_wf hs \<Longrightarrow> list_all (\<lambda>e. CHR 0x0A \<notin> set (snd e)) (edits hs)"
  by (fastforce simp: edits_def hunk_wf_def filled_def line_ok_def list_all_iff)

lemma patch_step_cur: "patch_step at st raw = Inr st' \<Longrightarrow> p_cur st' \<noteq> None"
  by (auto simp: patch_step_def diff_line_step_def Let_def split: if_splits option.splits sum.splits)

lemma patch_loop_cur: "p_cur st \<noteq> None \<or> raws \<noteq> [] \<Longrightarrow> patch_loop i st raws = Inr st' \<Longrightarrow> p_cur st' \<noteq> None"
proof (induction raws arbitrary: i st)
  case (Cons raw raws)
  then obtain st1 where "patch_step (i + 1) st raw = Inr st1" "patch_loop (i + 1) st1 raws = Inr st'"
    by (auto simp: bind_result_Inr_iff)
  then show ?case using Cons.IH [of st1] patch_step_cur by blast
qed simp

lemma parse_patch_nonempty: "parse_patch p = Inr hs \<Longrightarrow> p \<noteq> [] \<Longrightarrow> hs \<noteq> []"
  using patch_loop_cur [of p_init "lines_of (trim_suffix [CHR 0x0A] (crlf_to_lf p))" 0]
  by (auto simp: parse_patch_def bind_result_Inr_iff p_hunks_def lines_of_def split: if_splits option.splits)

end
