(* ===== verification/Diff_Spec.thy ===== *)
theory Diff_Spec
  imports Diff
begin

text \<open>
  What the diff reader promises (internal/review/diff.go): every hunk it returns is numbered without a
  gap, the anchors it accepts are exactly the ranges inside one hunk, the labels the model is shown
  are anchors it accepts, a patch's hash depends on the edits alone, and it reads back every
  well-formed hunk list from its printed form. The printer here is a specification: GitHub writes
  the patches, the source only reads them.
\<close>

section \<open>A printer for patches\<close>

definition print_header :: "hunk \<Rightarrow> string" where
  "print_header h =
     ''@@ -'' @ itoa (old_start h) @ '','' @ itoa (old_lines h) @ '' +'' @ itoa (new_start h) @ '','' @
     itoa (new_lines h) @ '' @@'' @ (if h_section h = [] then [] else '' '' @ h_section h)"

definition print_line :: "diff_line \<Rightarrow> string" where
  "print_line l = l_kind l # l_text l"

definition print_hunk :: "hunk \<Rightarrow> string list" where
  "print_hunk h = print_header h # map print_line (h_lines h)"

definition print_patch :: "hunk list \<Rightarrow> string" where
  "print_patch hs = join [CHR 0x0A] (concat (map print_hunk hs))"

definition plain :: "string \<Rightarrow> bool" where
  "plain s \<longleftrightarrow> CHR 0x0A \<notin> set s \<and> CHR 0x0D \<notin> set s"

definition printable :: "hunk \<Rightarrow> bool" where
  "printable h \<longleftrightarrow> hunk_wf h \<and> 0 \<le> old_start h \<and> 0 \<le> new_start h \<and> fits64 (old_lines h) \<and> fits64 (new_lines h) \<and>
     plain (h_section h) \<and> list_all (\<lambda>l. plain (l_text l)) (h_lines h)"

section \<open>The header reads back\<close>

lemma expect_append [simp]: "expect p (p @ s) = Some s"
  by (simp add: expect_def)

lemma show_nat_head: "is_ascii_digit (hd (show_nat n))"
  using show_nat_digits [of n] by (cases "show_nat n") auto

lemma takeWhile_digits:
  "list_all is_ascii_digit d \<Longrightarrow> s = [] \<or> \<not> is_ascii_digit (hd s) \<Longrightarrow>
     takeWhile is_ascii_digit (d @ s) = d \<and> dropWhile is_ascii_digit (d @ s) = s"
  by (cases s) (auto simp: takeWhile_append dropWhile_append list_all_iff)

lemma take_digits_show_nat:
  "s = [] \<or> \<not> is_ascii_digit (hd s) \<Longrightarrow> take_digits (show_nat n @ s) = Some (show_nat n, s)"
  using takeWhile_digits [OF show_nat_digits, of s n] by (simp add: take_digits_def)

lemma not_digit [simp]:
  "\<not> is_ascii_digit CHR '' ''" "\<not> is_ascii_digit CHR '',''" "\<not> is_ascii_digit CHR 0x0A" "\<not> is_ascii_digit CHR 0x0D"
  by (simp_all add: is_ascii_digit_of_char)

lemma take_count_show_nat:
  "take_count (CHR '','' # show_nat n @ CHR '' '' # s) = (show_nat n, CHR '' '' # s)"
  by (simp add: take_count_def take_digits_show_nat)

lemma itoa_nonneg: "0 \<le> i \<Longrightarrow> itoa i = show_nat (nat i)"
  by (simp add: itoa_def)

lemma header_num_itoa: "0 \<le> i \<Longrightarrow> fits64 i \<Longrightarrow> header_num (show_nat (nat i)) d = Some i"
  by (simp add: header_num_def atoi_show_nat)

lemma parse_print_header:
  assumes "printable h"
  shows "parse_hunk_header (print_header h) = Inr (h\<lparr>h_lines := []\<rparr>)"
proof -
  have h: "0 \<le> old_start h" "0 \<le> new_start h" "0 \<le> old_lines h" "0 \<le> new_lines h"
      "fits64 (old_start h)" "fits64 (new_start h)" "fits64 (old_lines h)" "fits64 (new_lines h)"
      "0 < old_lines h \<longrightarrow> 1 \<le> old_start h" "0 < new_lines h \<longrightarrow> 1 \<le> new_start h" "CHR 0x0A \<notin> set (h_section h)"
    using assms by (auto simp: printable_def hunk_wf_def filled_def header_ok_def plain_def)
  let ?m5 = "if h_section h = [] then [] else '' '' @ h_section h"
  have e: "expect '' +'' (CHR '' '' # CHR ''+'' # s) = Some s" "expect '' @@'' (CHR '' '' # CHR ''@'' # CHR ''@'' # s) = Some s"
      "expect ''@@ -'' (CHR ''@'' # CHR ''@'' # CHR '' '' # CHR ''-'' # s) = Some s" for s
    by (simp_all add: expect_def)
  have "hunk_header (print_header h) =
      Some (show_nat (nat (old_start h)), show_nat (nat (old_lines h)), show_nat (nat (new_start h)),
            show_nat (nat (new_lines h)), ?m5)"
    unfolding hunk_header_def print_header_def
    using h(11) by (simp add: itoa_nonneg h(1-4) take_digits_show_nat take_count_show_nat e)
  moreover have "trim_prefix '' '' ?m5 = h_section h" by (simp add: trim_prefix_def)
  ultimately show ?thesis
    using h by (auto simp: parse_hunk_header_def header_num_itoa)
qed

section \<open>The lines read back\<close>

definition olds :: "hunk \<Rightarrow> nat \<Rightarrow> nat" where
  "olds h k = length (filter on_old (take k (h_lines h)))"

definition news :: "hunk \<Rightarrow> nat \<Rightarrow> nat" where
  "news h k = length (filter on_new (take k (h_lines h)))"

text \<open>The parser's state when it has read the first \<open>k\<close> lines of \<open>h\<close>.\<close>

definition state_at :: "hunk list \<Rightarrow> hunk \<Rightarrow> nat \<Rightarrow> pstate" where
  "state_at dn h k = \<lparr>p_done = dn, p_cur = Some (h\<lparr>h_lines := take k (h_lines h)\<rparr>),
     old_left = old_lines h - int (olds h k), new_left = new_lines h - int (news h k),
     old_n = wrap64 (old_start h + int (olds h k)), new_n = wrap64 (new_start h + int (news h k))\<rparr>"

lemma filter_take_nth:
  assumes "k < length xs" "P (xs ! k)" and num: "map f (filter P xs) = numbers s n"
  shows "f (xs ! k) = wrap64 (s + int (length (filter P (take k xs)))) \<and> length (filter P (take k xs)) < n"
proof -
  let ?j = "length (filter P (take k xs))"
  have "filter P xs = filter P (take k xs) @ xs ! k # filter P (drop (Suc k) xs)"
    using assms(1,2) by (subst id_take_nth_drop [OF assms(1)]) simp
  then have "numbers s n = map f (filter P (take k xs)) @ f (xs ! k) # map f (filter P (drop (Suc k) xs))"
    using num by simp
  then have "?j < length (numbers s n) \<and> numbers s n ! ?j = f (xs ! k)"
    by (simp add: nth_append)
  then show ?thesis by (auto simp: numbers_def)
qed

lemma olds_Suc: "k < length (h_lines h) \<Longrightarrow> olds h (Suc k) = olds h k + (if on_old (h_lines h ! k) then 1 else 0)"
  by (simp add: olds_def take_Suc_conv_app_nth)

lemma news_Suc: "k < length (h_lines h) \<Longrightarrow> news h (Suc k) = news h k + (if on_new (h_lines h ! k) then 1 else 0)"
  by (simp add: news_def take_Suc_conv_app_nth)

lemma patch_step_print_line:
  assumes p: "printable h" and k: "k < length (h_lines h)"
  shows "patch_step at (state_at dn h k) (print_line (h_lines h ! k)) = Inr (state_at dn h (Suc k))"
proof -
  let ?l = "h_lines h ! k"
  have wf: "line_ok ?l" "0 \<le> old_lines h" "0 \<le> new_lines h"
      "map l_old (filter on_old (h_lines h)) = numbers (old_start h) (nat (old_lines h))"
      "map l_new (filter on_new (h_lines h)) = numbers (new_start h) (nat (new_lines h))"
    using p k by (auto simp: printable_def hunk_wf_def filled_def header_ok_def list_all_length)
  have o: "l_old ?l = wrap64 (old_start h + int (olds h k)) \<and> int (olds h k) < old_lines h" if "on_old ?l"
    using filter_take_nth [OF k that wf(4)] by (simp add: olds_def zless_nat_eq_int_zless)
  have n: "l_new ?l = wrap64 (new_start h + int (news h k)) \<and> int (news h k) < new_lines h" if "on_new ?l"
    using filter_take_nth [OF k that wf(5)] by (simp add: news_def zless_nat_eq_int_zless)
  have t: "take (Suc k) (h_lines h) = take k (h_lines h) @ [?l]" using k by (simp add: take_Suc_conv_app_nth)
  have l: "?l = \<lparr>l_kind = l_kind ?l, l_old = l_old ?l, l_new = l_new ?l, l_text = l_text ?l\<rparr>" by simp
  consider "l_kind ?l = CHR '' ''" | "l_kind ?l = CHR ''-''" | "l_kind ?l = CHR ''+''"
    using wf(1) by (auto simp: line_ok_def)
  then show ?thesis
  proof cases
    case 1
    then have on: "on_old ?l" "on_new ?l" by (simp_all add: on_old_def on_new_def)
    with 1 show ?thesis using o n l
      by (auto simp: patch_step_def diff_line_step_def state_at_def print_line_def add_line_def t olds_Suc [OF k] news_Suc [OF k] algebra_simps)
  next
    case 2
    then have on: "on_old ?l" "\<not> on_new ?l" by (simp_all add: on_old_def on_new_def)
    with 2 show ?thesis using o l wf(1)
      by (auto simp: patch_step_def diff_line_step_def state_at_def print_line_def add_line_def t olds_Suc [OF k] news_Suc [OF k] line_ok_def algebra_simps)
  next
    case 3
    then have on: "\<not> on_old ?l" "on_new ?l" by (simp_all add: on_old_def on_new_def)
    with 3 show ?thesis using n l wf(1)
      by (auto simp: patch_step_def diff_line_step_def state_at_def print_line_def add_line_def t olds_Suc [OF k] news_Suc [OF k] line_ok_def algebra_simps)
  qed
qed

lemma state_at_0: "printable h \<Longrightarrow> state_at dn h 0 =
    \<lparr>p_done = dn, p_cur = Some (h\<lparr>h_lines := []\<rparr>), old_left = old_lines h, new_left = new_lines h,
      old_n = old_start h, new_n = new_start h\<rparr>"
  by (auto simp: state_at_def olds_def news_def printable_def hunk_wf_def filled_def header_ok_def)

lemma patch_loop_append:
  "patch_loop i st (xs @ ys) = bind_result (patch_loop i st xs) (\<lambda>st'. patch_loop (i + length xs) st' ys)"
proof (induction xs arbitrary: i st)
  case (Cons x xs)
  then show ?case by (cases "patch_step (i + 1) st x") simp_all
qed simp

lemma patch_loop_lines:
  assumes p: "printable h" and k: "k \<le> length (h_lines h)"
  shows "patch_loop i (state_at dn h 0) (map print_line (take k (h_lines h))) = Inr (state_at dn h k)"
  using k
proof (induction k)
  case (Suc k)
  then have "take (Suc k) (h_lines h) = take k (h_lines h) @ [h_lines h ! k]" by (simp add: take_Suc_conv_app_nth)
  with Suc show ?case by (simp add: patch_loop_append patch_step_print_line [OF p])
qed simp

text \<open>A hunk that has all its lines: what the loop holds when the next header, or the end, comes.\<close>

definition closed_at :: "hunk list \<Rightarrow> pstate \<Rightarrow> bool" where
  "closed_at hs st \<longleftrightarrow> p_hunks st = hs \<and> old_left st = 0 \<and> new_left st = 0"

lemma length_numbers [simp]: "length (numbers s k) = k"
  by (simp add: numbers_def)

lemma all_lines_counted:
  assumes "printable h"
  shows "int (olds h (length (h_lines h))) = old_lines h" "int (news h (length (h_lines h))) = new_lines h"
proof -
  have o: "map l_old (filter on_old (h_lines h)) = numbers (old_start h) (nat (old_lines h))"
    and n: "map l_new (filter on_new (h_lines h)) = numbers (new_start h) (nat (new_lines h))"
    and c: "0 \<le> old_lines h" "0 \<le> new_lines h"
    using assms by (auto simp: printable_def hunk_wf_def filled_def header_ok_def)
  show "int (olds h (length (h_lines h))) = old_lines h"
    using arg_cong [OF o, of length] c by (simp add: olds_def)
  show "int (news h (length (h_lines h))) = new_lines h"
    using arg_cong [OF n, of length] c by (simp add: news_def)
qed

lemma closed_state_at: "printable h \<Longrightarrow> closed_at (dn @ [h]) (state_at dn h (length (h_lines h)))"
  using all_lines_counted [of h] by (simp add: closed_at_def state_at_def p_hunks_def)

lemma patch_loop_hunk:
  assumes p: "printable h" and st: "closed_at hs st"
  shows "\<exists>st'. patch_loop i st (print_hunk h) = Inr st' \<and> closed_at (hs @ [h]) st'"
proof -
  have "prefix ''@@'' (print_header h)" by (simp add: print_header_def)
  then have "patch_step (i + 1) st (print_header h) = Inr (state_at hs h 0)"
    using st parse_print_header [OF p] by (simp add: patch_step_def closed_at_def state_at_0 [OF p])
  then show ?thesis
    using patch_loop_lines [OF p order_refl, of "i + 1" hs] closed_state_at [OF p, of hs] by (simp add: print_hunk_def)
qed

lemma patch_loop_hunks:
  "list_all printable hs \<Longrightarrow> closed_at dn st \<Longrightarrow>
     \<exists>st'. patch_loop i st (concat (map print_hunk hs)) = Inr st' \<and> closed_at (dn @ hs) st'"
proof (induction hs arbitrary: i st dn)
  case (Cons h hs)
  then obtain st1 where st1: "patch_loop i st (print_hunk h) = Inr st1" "closed_at (dn @ [h]) st1"
    using patch_loop_hunk [of h dn st i] by auto
  from Cons.IH [OF _ st1(2), of "i + length (print_hunk h)"] Cons.prems st1(1) show ?case
    by (auto simp: patch_loop_append)
qed (auto)

section \<open>The text reads back\<close>

lemma replace_all_absent: "old \<noteq> [] \<Longrightarrow> hd old \<notin> set s \<Longrightarrow> replace_all old new s = s"
proof (induction s)
  case Nil
  then show ?case by (subst replace_all.simps) simp
next
  case (Cons c s)
  then have "\<not> prefix old (c # s)" by (cases old) auto
  with Cons show ?case by (subst replace_all.simps) simp
qed

lemma crlf_to_lf_id: "CHR 0x0D \<notin> set s \<Longrightarrow> crlf_to_lf s = s"
  by (simp add: crlf_to_lf_def replace_all_absent)

lemma set_join: "set (join sep ws) \<subseteq> set sep \<union> \<Union> (set ` set ws)"
  by (induction sep ws rule: join.induct) auto

lemma not_suffix_join: "ws \<noteq> [] \<Longrightarrow> last ws \<noteq> [] \<Longrightarrow> last (last ws) \<noteq> c \<Longrightarrow> \<not> suffix [c] (join [c] ws)"
proof (induction "[c]" ws rule: join.induct)
  case (2 w)
  then show ?case by (cases w rule: rev_cases) (auto simp: suffix_def)
next
  case (3 w v vs)
  then have "\<not> suffix [c] (join [c] (v # vs))" "join [c] (v # vs) \<noteq> []"
    by (cases vs; auto)+
  then show ?case by (cases "join [c] (v # vs)" rule: rev_cases) (auto simp: suffix_def)
qed simp


lemma plain_itoa: "plain (itoa i)"
proof -
  have "plain (show_nat n)" for n
    using show_nat_digits [of n] by (auto simp: plain_def list_all_iff)
  then show ?thesis by (auto simp: itoa_def plain_def)
qed

lemma plain_append [simp]: "plain (s @ t) \<longleftrightarrow> plain s \<and> plain t"
  by (auto simp: plain_def)

lemma plain_Cons [simp]: "plain (c # s) \<longleftrightarrow> c \<noteq> CHR 0x0A \<and> c \<noteq> CHR 0x0D \<and> plain s"
  by (auto simp: plain_def)

lemma plain_Nil [simp]: "plain []"
  by (simp add: plain_def)

lemma plain_print_hunk: "printable h \<Longrightarrow> list_all plain (print_hunk h)"
  by (auto simp: print_hunk_def print_header_def print_line_def printable_def hunk_wf_def filled_def line_ok_def
      list_all_iff plain_itoa)

lemma last_print_hunk: "print_hunk h \<noteq> [] \<and> last (print_hunk h) \<noteq> []"
  by (cases "h_lines h" rule: rev_cases) (auto simp: print_hunk_def print_line_def print_header_def)

lemma plain_last: "plain w \<Longrightarrow> w \<noteq> [] \<Longrightarrow> last w \<noteq> CHR 0x0A"
  by (metis last_in_set plain_def)

lemma print_patch_lines:
  assumes hs: "hs \<noteq> []" "list_all printable hs"
  shows "lines_of (trim_suffix [CHR 0x0A] (crlf_to_lf (print_patch hs))) = concat (map print_hunk hs)"
proof -
  let ?ws = "concat (map print_hunk hs)"
  have pl: "list_all plain ?ws" using hs(2) plain_print_hunk by (fastforce simp: list_all_iff)
  have last: "?ws \<noteq> []" "last ?ws \<noteq> []"
    using hs(1) last_print_hunk by (cases hs rule: rev_cases; simp)+
  have "plain (last ?ws)" using pl last_in_set [OF last(1)] by (simp only: list_all_iff)
  then have "last (last ?ws) \<noteq> CHR 0x0A" by (rule plain_last [OF _ last(2)])
  then have s: "\<not> suffix [CHR 0x0A] (print_patch hs)" unfolding print_patch_def by (rule not_suffix_join [OF last])
  have "CHR 0x0D \<notin> set (print_patch hs)"
    using set_join [of "[CHR 0x0A]" ?ws] pl by (auto simp: print_patch_def list_all_iff plain_def)
  with s have "trim_suffix [CHR 0x0A] (crlf_to_lf (print_patch hs)) = join [CHR 0x0A] ?ws"
    by (simp add: crlf_to_lf_id trim_suffix_def) (simp add: print_patch_def)
  then show ?thesis using split_on_join [of ?ws "CHR 0x0A"] last(1) pl
    by (simp add: lines_of_def list_all_iff plain_def)
qed

lemma print_patch_nonempty: "hs \<noteq> [] \<Longrightarrow> print_patch hs \<noteq> []"
proof (cases hs)
  case (Cons h rest)
  then show ?thesis
    by (cases "map print_line (h_lines h) @ concat (map print_hunk rest)")
       (auto simp: print_patch_def print_hunk_def print_header_def)
qed simp

lemma parse_print_patch:
  assumes hs: "list_all printable hs"
  shows "parse_patch (print_patch hs) = Inr hs"
proof (cases "hs = []")
  case True
  then show ?thesis by (simp add: print_patch_def parse_patch_def)
next
  case False
  have "closed_at [] p_init" by (simp add: closed_at_def p_init_def p_hunks_def)
  from patch_loop_hunks [OF hs this, of 0] obtain st
    where "patch_loop 0 p_init (concat (map print_hunk hs)) = Inr st" "closed_at hs st" by auto
  then show ?thesis
    using print_patch_lines [OF False hs] print_patch_nonempty [OF False] by (simp add: parse_patch_def closed_at_def)
qed


section \<open>What the reader promises\<close>

text \<open>The patch of a two-line file whose second line is replaced, for concrete runs.\<close>

definition sample_patch :: string where
  "sample_patch = ''@@ -1,2 +1,2 @@ f'' @ CHR 0x0A # '' a'' @ CHR 0x0A # ''-b'' @ CHR 0x0A # ''+c''"

definition sample_hunk :: hunk where
  "sample_hunk = \<lparr>old_start = 1, old_lines = 2, new_start = 1, new_lines = 2, h_section = ''f'', h_lines =
     [\<lparr>l_kind = CHR '' '', l_old = 1, l_new = 1, l_text = ''a''\<rparr>,
      \<lparr>l_kind = CHR ''-'', l_old = 2, l_new = 0, l_text = ''b''\<rparr>,
      \<lparr>l_kind = CHR ''+'', l_old = 0, l_new = 2, l_text = ''c''\<rparr>]\<rparr>"

lemma sample_parses: "parse_patch sample_patch = Inr [sample_hunk]"
  by code_simp

lemma sample_wf: "printable sample_hunk" "no_wrap sample_hunk"
  by (simp_all add: printable_def no_wrap_def sample_hunk_def hunk_wf_def filled_def header_ok_def line_ok_def on_old_def
      on_new_def numbers_def fits64_def min_int64_def max_int64_def plain_def wrap64_def upt_rec)

text \<open>Every hunk \<open>ParsePatch\<close> returns holds exactly the lines its header counts, and numbers them
  without a gap: its old-side lines (context and deleted) from the header's old start, its new-side
  lines (context and added) from the new start, with Go's 64-bit wrap-around.\<close>

theorem parse_patch_numbers:
  assumes "parse_patch p = Inr hs" and "h \<in> set hs"
  shows "map l_old (filter (\<lambda>l. l_kind l \<noteq> CHR ''+'') (h_lines h)) =
           map (\<lambda>i. wrap64 (old_start h + int i)) [0..<nat (old_lines h)] \<and>
         map l_new (filter (\<lambda>l. l_kind l \<noteq> CHR ''-'') (h_lines h)) =
           map (\<lambda>i. wrap64 (new_start h + int i)) [0..<nat (new_lines h)]"
  using parse_patch_hunks_wf [OF assms(1)] assms(2)
  by (auto simp: list_all_iff hunk_wf_def filled_def numbers_def on_old_def [abs_def] on_new_def [abs_def])

theorem parse_patch_numbers_witness:
  "map l_old (filter (\<lambda>l. l_kind l \<noteq> CHR ''+'') (h_lines sample_hunk)) = [1, 2] \<and>
   map l_new (filter (\<lambda>l. l_kind l \<noteq> CHR ''-'') (h_lines sample_hunk)) = [1, 2]"
  using parse_patch_numbers [OF sample_parses, of sample_hunk]
  by (simp add: sample_hunk_def wrap64_def upt_rec)

text \<open>In a patch whose header numbers stay within 64 bits, \<open>ValidAnchor\<close> accepts a range of lines exactly
  when it is in order, from line 1 on, and one hunk holds the whole of it on that side: the ranges
  GitHub does not answer with a 422.\<close>

theorem valid_anchor_iff_one_hunk:
  assumes "parse_patch p = Inr hs" and "list_all no_wrap hs" and "s = Right \<or> s = Left"
  shows "valid_anchor hs s start0 line \<longleftrightarrow>
     (let start = (if start0 = 0 then line else start0) in
      1 \<le> start \<and> start \<le> line \<and>
      list_ex (\<lambda>h. side_start s h \<le> start \<and> line < side_start s h + side_count s h) hs)"
  by (rule valid_anchor_range [OF parse_patch_hunks_wf [OF assms(1)] assms(2,3)])

theorem valid_anchor_iff_one_hunk_witness:
  "valid_anchor [sample_hunk] Right 1 2 \<and> \<not> valid_anchor [sample_hunk] Right 2 3"
  using valid_anchor_iff_one_hunk [OF sample_parses, of Right 1 2] valid_anchor_iff_one_hunk [OF sample_parses, of Right 2 3]
    sample_wf(2) by (simp add: side_start_def side_count_def sample_hunk_def)

lemma label_has_number:
  assumes wf: "hunk_wf h" and nw: "no_wrap h" and l: "l \<in> set (h_lines h)"
  shows "1 \<le> label_num l \<and> has_number (label_side l) (label_num l) h"
proof -
  have at: "line_on l (label_side l) = label_num l"
    by (simp add: line_on_def label_side_def label_num_def)
  then have here: "has_number (label_side l) (label_num l) h"
    using l by (auto simp: has_number_def list_ex_iff)
  have o: "map l_old (filter on_old (h_lines h)) = numbers (old_start h) (nat (old_lines h))"
    and n: "map l_new (filter on_new (h_lines h)) = numbers (new_start h) (nat (new_lines h))"
    using wf by (simp_all add: hunk_wf_def filled_def)
  have "l_old l \<in> set (map l_old (filter on_old (h_lines h)))" if "l_kind l = CHR ''-''" using l that by (simp add: on_old_def)
  moreover have "l_new l \<in> set (map l_new (filter on_new (h_lines h)))" if "l_kind l \<noteq> CHR ''-''" using l that by (simp add: on_new_def)
  ultimately have "if l_kind l = CHR ''-'' then l_old l \<in> set (numbers (old_start h) (nat (old_lines h)))
        else l_new l \<in> set (numbers (new_start h) (nat (new_lines h)))"
    by (simp only: o n split: if_split) blast
  moreover have "1 \<le> n" if "n \<in> set (numbers s (nat k))" "fits64 (s + k)" "0 < k \<longrightarrow> 1 \<le> s" for n s k
  proof -
    from that(1) have "0 < k" by (cases "0 < k") (auto simp: numbers_def)
    with that show ?thesis using set_numbers [of s "nat k" n] by auto
  qed
  ultimately have "1 \<le> label_num l"
    using wf nw by (auto simp: label_num_def hunk_wf_def filled_def header_ok_def no_wrap_def split: if_splits)
  with here show ?thesis by simp
qed

text \<open>Every label \<open>NumberedPatch\<close> prints for the model is an anchor \<open>ValidAnchor\<close> accepts, so a finding
  that copies one can be posted.\<close>

theorem labels_are_anchors:
  assumes "parse_patch p = Inr hs" and "list_all no_wrap hs" and "h \<in> set hs" and "l \<in> set (h_lines h)"
  shows "valid_anchor hs (label_side l) 0 (label_num l)"
  using label_has_number [of h l] parse_patch_hunks_wf [OF assms(1)] assms(2-4)
  by (auto simp: valid_anchor_has_number Let_def list_ex_iff list_all_iff)

theorem labels_are_anchors_witness:
  "list_all (\<lambda>l. valid_anchor [sample_hunk] (label_side l) 0 (label_num l)) (h_lines sample_hunk)"
  using labels_are_anchors [OF sample_parses, of sample_hunk] sample_wf(2) by (simp add: list_all_iff)

text \<open>\<open>PatchHash\<close> depends on a diff's edits and nothing else: where SHA-256 does not collide on the two
  inputs, two files whose patches parse have one hash exactly when their added and deleted lines are
  the same in the same order, whatever their headers, numbers and context say.\<close>

theorem patch_hash_is_of_edits:
  assumes "parse_patch (f_patch f) = Inr hs" and "parse_patch (f_patch g) = Inr hs'"
    and "f_hunks f = []" and "f_hunks g = []" and "f_patch f \<noteq> []" and "f_patch g \<noteq> []"
    and "inj_on sha256_hex {edit_bytes hs, edit_bytes hs'}"
  shows "patch_hash sha256_hex f = patch_hash sha256_hex g \<longleftrightarrow> edits hs = edits hs'"
proof -
  have ne: "hs \<noteq> []" "hs' \<noteq> []"
    by (rule parse_patch_nonempty [OF assms(1,5)], rule parse_patch_nonempty [OF assms(2,6)])
  have nl: "list_all (\<lambda>e. CHR 0x0A \<notin> set (snd e)) (edits hs)" "list_all (\<lambda>e. CHR 0x0A \<notin> set (snd e)) (edits hs')"
    by (rule edits_no_newline [OF parse_patch_hunks_wf [OF assms(1)]], rule edits_no_newline [OF parse_patch_hunks_wf [OF assms(2)]])
  have "patch_hash sha256_hex f = patch_hash sha256_hex g \<longleftrightarrow> edit_bytes hs = edit_bytes hs'"
    using assms(1-6) ne inj_on_eq_iff [OF assms(7)] by (simp add: patch_hash_def)
  also have "\<dots> \<longleftrightarrow> edits hs = edits hs'"
    using edit_texts_inj [OF nl] unfolding edit_bytes_edits by metis
  finally show ?thesis .
qed

definition sample_file :: diff_file where
  "sample_file = \<lparr>f_path = ''a.go'', f_prev_path = [], f_status = ''modified'', f_additions = 1, f_deletions = 1,
     f_patch = sample_patch, f_binary = False, f_hunks = []\<rparr>"

definition moved_file :: diff_file where
  "moved_file = sample_file\<lparr>f_patch := ''@@ -7 +7 @@'' @ CHR 0x0A # ''-b'' @ CHR 0x0A # ''+c''\<rparr>"

definition moved_hunk :: hunk where
  "moved_hunk = \<lparr>old_start = 7, old_lines = 1, new_start = 7, new_lines = 1, h_section = [], h_lines =
     [\<lparr>l_kind = CHR ''-'', l_old = 7, l_new = 0, l_text = ''b''\<rparr>,
      \<lparr>l_kind = CHR ''+'', l_old = 0, l_new = 7, l_text = ''c''\<rparr>]\<rparr>"

lemma moved_parses: "parse_patch (f_patch moved_file) = Inr [moved_hunk]"
  by code_simp

theorem patch_hash_is_of_edits_witness: "patch_hash id sample_file = patch_hash id moved_file"
proof -
  have "parse_patch (f_patch sample_file) = Inr [sample_hunk]" by (simp add: sample_file_def sample_parses)
  from patch_hash_is_of_edits [OF this moved_parses, of id] show ?thesis
    by (simp add: sample_file_def moved_file_def sample_patch_def edits_def sample_hunk_def moved_hunk_def)
qed

text \<open>C33. Parsing undoes printing: every list of hunks that are well formed (counted and numbered as their
  headers say, plain text) is read back, whole, from the patch it prints.\<close>

theorem parse_patch_roundtrip:
  assumes "list_all printable hs"
  shows "parse_patch (print_patch hs) = Inr hs"
  by (rule parse_print_patch [OF assms])

theorem parse_patch_roundtrip_witness:
  "parse_patch (print_patch [sample_hunk, moved_hunk]) = Inr [sample_hunk, moved_hunk]"
  by (rule parse_patch_roundtrip)
    (simp add: sample_wf, simp add: printable_def moved_hunk_def hunk_wf_def filled_def header_ok_def line_ok_def on_old_def
      on_new_def numbers_def fits64_def min_int64_def max_int64_def plain_def wrap64_def upt_rec)

end
