(* ===== verification/Glob.thy ===== *)
theory Glob
  imports GoStrings
begin

text \<open>
  internal/review/glob.go: the globs of branch rules and path lists. \<open>glob_tokens\<close> is \<open>globTokens\<close>,
  \<open>glob_row\<close> the inner loop that fills one row of the table, \<open>glob_match\<close> is \<open>Match\<close>. The abstract
  specification is \<open>glob_sem\<close>, the language of a token list read off the doc comment, and the main
  fact is that the two-row table decides it.
\<close>

section \<open>Tokens\<close>

datatype glob_tok =
    GlobLit nat
  | GlobOne
  | GlobStar
  | GlobAny
  | GlobDirs

abbreviation slash :: nat where "slash \<equiv> 47"
abbreviation star :: nat where "star \<equiv> 42"
abbreviation quest :: nat where "quest \<equiv> 63"

text \<open>
  The loop of \<open>globTokens\<close>. \<open>prev\<close> is the rune before the current one, \<open>None\<close> at the start of the
  pattern (the test \<open>i == 0 || p[i-1] == '/'\<close>); a run of stars is consumed whole, and with it the
  slash that makes it a directory segment.
\<close>

function glob_toks :: "nat option \<Rightarrow> nat list \<Rightarrow> glob_tok list" where
  "glob_toks prev [] = []"
| "glob_toks prev (r # rs) =
     (if r = quest then GlobOne # glob_toks (Some r) rs
      else if r = star then
        (let k = length (takeWhile (\<lambda>x. x = star) rs); rest = drop k rs in
         if k = 0 then GlobStar # glob_toks (Some r) rest
         else if rest \<noteq> [] \<and> hd rest = slash \<and> (prev = None \<or> prev = Some slash)
           then GlobDirs # glob_toks (Some slash) (tl rest)
         else GlobAny # glob_toks (Some r) rest)
      else GlobLit r # glob_toks (Some r) rs)"
  by pat_completeness auto
termination
  by (relation "measure (\<lambda>(prev, rs). length rs)") auto

declare glob_toks.simps(2) [simp del]

definition glob_tokens :: "string \<Rightarrow> glob_tok list" where
  "glob_tokens pattern = glob_toks None (runes pattern)"

section \<open>The table\<close>

text \<open>
  One row, for token \<open>t\<close>: \<open>next\<close> is the row of the tokens after it, one entry for every position
  \<open>0..length s\<close>. The source walks \<open>j\<close> down from \<open>length s\<close>; here the walk is the recursion over
  \<open>s\<close> (with \<open>next\<close>'s entries for the same positions), which computes the entries to the right
  first. It returns the row and the final \<open>dirs\<close>. An out-of-range read of \<open>next\<close> does not occur,
  since the two lists have lengths \<open>n\<close> and \<open>n + 1\<close> (\<open>glob_row_length\<close>).
\<close>

fun glob_row :: "glob_tok \<Rightarrow> nat list \<Rightarrow> bool list \<Rightarrow> bool list \<times> bool" where
  "glob_row t [] nexts =
     (case t of
        GlobLit r \<Rightarrow> ([False], False)
      | GlobOne \<Rightarrow> ([False], False)
      | GlobStar \<Rightarrow> ([hd nexts], False)
      | GlobAny \<Rightarrow> ([hd nexts], False)
      | GlobDirs \<Rightarrow> ([hd nexts], False))"
| "glob_row t (c # s) nexts =
     (let (cur, dirs) = glob_row t s (tl nexts);
          next_j = hd nexts; next_j1 = hd (tl nexts); cur_j1 = hd cur;
          dirs' = (dirs \<or> (t = GlobDirs \<and> c = slash \<and> next_j1));
          m = (case t of
                 GlobLit r \<Rightarrow> c = r \<and> next_j1
               | GlobOne \<Rightarrow> c \<noteq> slash \<and> next_j1
               | GlobStar \<Rightarrow> next_j \<or> (c \<noteq> slash \<and> cur_j1)
               | GlobAny \<Rightarrow> next_j \<or> cur_j1
               | GlobDirs \<Rightarrow> next_j \<or> dirs')
      in (m # cur, dirs'))"

text \<open>The row for the empty token list: only the end of the name matches.\<close>

definition last_row :: "nat list \<Rightarrow> bool list" where
  "last_row s = replicate (length s) False @ [True]"

definition glob_table :: "glob_tok list \<Rightarrow> nat list \<Rightarrow> bool list" where
  "glob_table toks s = foldr (\<lambda>t nexts. fst (glob_row t s nexts)) toks (last_row s)"

definition glob_match :: "string \<Rightarrow> string \<Rightarrow> bool" where
  "glob_match pattern name =
     (if pattern = [] then True
      else hd (glob_table
        (glob_tokens (if 1 < length pattern then trim_prefix ''/'' pattern else pattern))
        (runes name)))"

definition match_any :: "string list \<Rightarrow> string \<Rightarrow> bool" where
  "match_any patterns name = list_ex (\<lambda>p. glob_match p name) patterns"

section \<open>What a pattern means\<close>

text \<open>The language of each token: a run of characters, in the words of the doc comment.\<close>

definition tok_lang :: "glob_tok \<Rightarrow> nat list set" where
  "tok_lang t = (case t of
      GlobLit r \<Rightarrow> {[r]}
    | GlobOne \<Rightarrow> {[c] | c. c \<noteq> slash}
    | GlobStar \<Rightarrow> {w. slash \<notin> set w}
    | GlobAny \<Rightarrow> UNIV
    | GlobDirs \<Rightarrow> {w. w = [] \<or> last w = slash})"

fun glob_sem :: "glob_tok list \<Rightarrow> nat list \<Rightarrow> bool" where
  "glob_sem [] s = (s = [])"
| "glob_sem (t # ts) s = (\<exists>u v. s = u @ v \<and> u \<in> tok_lang t \<and> glob_sem ts v)"

text \<open>The row a token's table should hold: one entry a suffix of the name.\<close>

fun rows :: "(nat list \<Rightarrow> bool) \<Rightarrow> nat list \<Rightarrow> bool list" where
  "rows P [] = [P []]"
| "rows P (c # s) = P (c # s) # rows P s"

lemma rows_hd [simp]: "hd (rows P s) = P s"
  by (cases s) auto

lemma rows_length [simp]: "length (rows P s) = Suc (length s)"
  by (induction s) auto

lemma last_row_rows: "last_row s = rows (glob_sem []) s"
  by (induction s) (auto simp: last_row_def)

lemma glob_row_length: "length nexts = Suc (length s) \<Longrightarrow> length (fst (glob_row t s nexts)) = Suc (length s)"
proof (induction s arbitrary: nexts)
  case Nil
  then show ?case by (cases t) auto
next
  case (Cons c s)
  then have "length (fst (glob_row t s (tl nexts))) = Suc (length s)" by simp
  then show ?case by (cases "glob_row t s (tl nexts)") (simp add: Let_def)
qed

text \<open>How each token's language unfolds at one character of the name.\<close>

lemma sem_lit_Cons [simp]: "glob_sem (GlobLit r # ts) (c # s) \<longleftrightarrow> c = r \<and> glob_sem ts s"
  by (auto simp: tok_lang_def)

lemma sem_one_Cons [simp]: "glob_sem (GlobOne # ts) (c # s) \<longleftrightarrow> c \<noteq> slash \<and> glob_sem ts s"
  by (auto simp: tok_lang_def intro: exI [of _ "[c]"])

lemma sem_run_Cons:
  assumes t: "tok_lang t = {w. list_all P w}"
  shows "glob_sem (t # ts) (c # s) \<longleftrightarrow> glob_sem ts (c # s) \<or> (P c \<and> glob_sem (t # ts) s)"
proof
  assume "glob_sem (t # ts) (c # s)"
  then obtain u v where uv: "c # s = u @ v" "list_all P u" "glob_sem ts v" by (auto simp: t)
  show "glob_sem ts (c # s) \<or> (P c \<and> glob_sem (t # ts) s)"
  proof (cases u)
    case Nil
    with uv show ?thesis by simp
  next
    case (Cons d w)
    with uv have "P c" "s = w @ v \<and> w \<in> tok_lang t \<and> glob_sem ts v" by (auto simp: t)
    then show ?thesis by (simp only: glob_sem.simps) blast
  qed
next
  assume "glob_sem ts (c # s) \<or> (P c \<and> glob_sem (t # ts) s)"
  then show "glob_sem (t # ts) (c # s)"
  proof
    assume "glob_sem ts (c # s)"
    then have "c # s = [] @ (c # s) \<and> [] \<in> tok_lang t \<and> glob_sem ts (c # s)" by (simp add: t)
    then show ?thesis by (simp only: glob_sem.simps) blast
  next
    assume "P c \<and> glob_sem (t # ts) s"
    then obtain u v where "P c" "s = u @ v" "list_all P u" "glob_sem ts v" by (auto simp: t)
    then have "c # s = (c # u) @ v \<and> c # u \<in> tok_lang t \<and> glob_sem ts v" by (simp add: t)
    then show ?thesis by (simp only: glob_sem.simps) blast
  qed
qed

lemma sem_star_Cons [simp]:
  "glob_sem (GlobStar # ts) (c # s) \<longleftrightarrow> glob_sem ts (c # s) \<or> (c \<noteq> slash \<and> glob_sem (GlobStar # ts) s)"
  by (rule sem_run_Cons) (auto simp: tok_lang_def list_all_iff)

lemma sem_any_Cons [simp]:
  "glob_sem (GlobAny # ts) (c # s) \<longleftrightarrow> glob_sem ts (c # s) \<or> glob_sem (GlobAny # ts) s"
  by (subst sem_run_Cons [where P = "\<lambda>_. True"]) (auto simp: tok_lang_def list_all_iff)

lemma sem_Nil_simps [simp]:
  "\<not> glob_sem (GlobLit r # ts) []" "\<not> glob_sem (GlobOne # ts) []"
  "glob_sem (GlobStar # ts) [] \<longleftrightarrow> glob_sem ts []" "glob_sem (GlobAny # ts) [] \<longleftrightarrow> glob_sem ts []"
  by (auto simp: tok_lang_def)

text \<open>Some run of directories, ending in a slash, is followed by a match of the rest.\<close>

definition dirs_then :: "glob_tok list \<Rightarrow> nat list \<Rightarrow> bool" where
  "dirs_then ts s \<longleftrightarrow> (\<exists>u v. s = u @ v \<and> u \<noteq> [] \<and> last u = slash \<and> glob_sem ts v)"

lemma dirs_then_Nil [simp]: "\<not> dirs_then ts []"
  by (simp add: dirs_then_def)

lemma dirs_then_Cons: "dirs_then ts (c # s) \<longleftrightarrow> dirs_then ts s \<or> (c = slash \<and> glob_sem ts s)"
proof
  assume "dirs_then ts (c # s)"
  then obtain u v where "c # s = u @ v" "u \<noteq> []" "last u = slash" "glob_sem ts v"
    by (auto simp: dirs_then_def)
  then obtain w where w: "u = c # w" "s = w @ v" by (cases u) auto
  show "dirs_then ts s \<or> (c = slash \<and> glob_sem ts s)"
  proof (cases "w = []")
    case True
    with w \<open>last u = slash\<close> \<open>glob_sem ts v\<close> show ?thesis by simp
  next
    case False
    with w \<open>last u = slash\<close> \<open>glob_sem ts v\<close> show ?thesis unfolding dirs_then_def by auto
  qed
next
  assume "dirs_then ts s \<or> (c = slash \<and> glob_sem ts s)"
  then show "dirs_then ts (c # s)"
  proof
    assume "dirs_then ts s"
    then obtain u v where "s = u @ v" "u \<noteq> []" "last u = slash" "glob_sem ts v"
      by (auto simp: dirs_then_def)
    then have "c # s = (c # u) @ v \<and> c # u \<noteq> [] \<and> last (c # u) = slash \<and> glob_sem ts v" by simp
    then show ?thesis unfolding dirs_then_def by blast
  next
    assume "c = slash \<and> glob_sem ts s"
    then have "c # s = [c] @ s \<and> [c] \<noteq> [] \<and> last [c] = slash \<and> glob_sem ts s" by simp
    then show ?thesis unfolding dirs_then_def by blast
  qed
qed

lemma sem_GlobDirs [simp]: "glob_sem (GlobDirs # ts) s \<longleftrightarrow> glob_sem ts s \<or> dirs_then ts s"
proof -
  have "glob_sem (GlobDirs # ts) s \<longleftrightarrow>
      (\<exists>u v. s = u @ v \<and> (u = [] \<or> u \<noteq> [] \<and> last u = slash) \<and> glob_sem ts v)"
    unfolding glob_sem.simps tok_lang_def by auto
  also have "\<dots> \<longleftrightarrow> glob_sem ts s \<or> dirs_then ts s"
    unfolding dirs_then_def by (metis append_Nil)
  finally show ?thesis .
qed

declare glob_sem.simps(2) [simp del]

text \<open>The row is right when \<open>next\<close> is, and the flag the loop carries for a directory segment is \<open>dirs_then\<close>.\<close>

lemma glob_row_correct:
  "glob_row t s (rows (glob_sem ts) s) = (rows (glob_sem (t # ts)) s, t = GlobDirs \<and> dirs_then ts s)"
proof (induction s)
  case Nil
  show ?case by (cases t) auto
next
  case (Cons c s)
  then show ?case by (cases t) (auto simp: Let_def dirs_then_Cons)
qed

lemma glob_table_correct: "glob_table ts s = rows (glob_sem ts) s"
  by (induction ts)
     (simp_all add: glob_table_def last_row_rows glob_row_correct del: glob_sem.simps(1))

section \<open>The depth of a name\<close>

text \<open>A pattern without a double star fixes how many slashes the names it matches have.\<close>

definition shallow :: "glob_tok list \<Rightarrow> bool" where
  "shallow ts \<longleftrightarrow> GlobAny \<notin> set ts \<and> GlobDirs \<notin> set ts"

lemma shallow_depth:
  "shallow ts \<Longrightarrow> glob_sem ts s \<Longrightarrow> count_list s slash = count_list ts (GlobLit slash)"
proof (induction ts arbitrary: s)
  case (Cons t ts)
  from Cons.prems(2) obtain u v where uv: "s = u @ v" "u \<in> tok_lang t" "glob_sem ts v"
    by (auto simp: glob_sem.simps(2))
  have "shallow ts" using Cons.prems(1) by (simp add: shallow_def)
  with Cons.IH uv(3) have v: "count_list v slash = count_list ts (GlobLit slash)" by blast
  have "count_list u slash = (if t = GlobLit slash then 1 else 0)"
    using Cons.prems(1) uv(2) by (cases t) (auto simp: tok_lang_def shallow_def count_list_0_iff)
  with uv v show ?case by simp
qed (simp add: shallow_def)

lemma match_any_Nil [simp]: "\<not> match_any [] name"
  by (simp add: match_any_def)

lemma glob_match_Nil [simp]: "glob_match [] name"
  by (simp add: glob_match_def)


section \<open>What Match decides\<close>

definition pattern_tokens :: "string \<Rightarrow> glob_tok list" where
  "pattern_tokens pattern = glob_tokens (if 1 < length pattern then trim_prefix ''/'' pattern else pattern)"

text \<open>C34. \<open>Match\<close> decides the language its doc comment gives a pattern: an empty pattern is every name, and
  any other one is the concatenation of its tokens, a star standing for a run without slashes, a
  double star for any run and a double star before a slash for whole directories or none.\<close>

theorem glob_match_decides:
  "glob_match pattern name = (if pattern = [] then True else glob_sem (pattern_tokens pattern) (runes name))"
  by (simp add: glob_match_def pattern_tokens_def glob_table_correct)

text \<open>A pattern without a double star matches names at one depth only: as many slashes in the name as
  in the pattern, so a star never reaches into a directory.\<close>

theorem single_stars_keep_depth:
  assumes "glob_match pattern name" and "pattern \<noteq> []" and "shallow (pattern_tokens pattern)"
  shows "count_list (runes name) slash = count_list (pattern_tokens pattern) (GlobLit slash)"
  using assms shallow_depth [OF assms(3)] by (simp add: glob_match_def pattern_tokens_def glob_table_correct)

theorem single_stars_keep_depth_witness:
  "count_list (runes ''src/a.go'') slash = count_list (pattern_tokens ''src/*.go'') (GlobLit slash)"
  by (rule single_stars_keep_depth) (code_simp, simp, code_simp)

end
