(* ===== verification/Regexps.thy ===== *)
theory Regexps
  imports GoStrings
begin

text \<open>
  The anchored patterns of Go's \<open>regexp\<close> that the source tests a whole string against. A pattern is a
  value of \<open>rexp\<close>, written constructor for constructor as the source writes it, over classes of
  bytes (every class the source uses is one of ASCII characters, so a byte that belongs to a longer
  rune is in none of them). \<open>rmatch\<close> decides a pattern by Brzozowski derivatives, which is executable,
  and \<open>rmatch_lang\<close> shows it decides the pattern's language.
\<close>

datatype rexp =
    RNone
  | REps
  | RSet "char \<Rightarrow> bool"
  | RAlt rexp rexp
  | RSeq rexp rexp
  | RStar rexp

section \<open>The language of a pattern\<close>

primrec lang :: "rexp \<Rightarrow> string set" where
  "lang RNone = {}"
| "lang REps = {[]}"
| "lang (RSet p) = {[c] | c. p c}"
| "lang (RAlt r s) = lang r \<union> lang s"
| "lang (RSeq r s) = {u @ v | u v. u \<in> lang r \<and> v \<in> lang s}"
| "lang (RStar r) = {concat ws | ws. set ws \<subseteq> lang r}"

text \<open>The characters a pattern can consume.\<close>

primrec atom :: "rexp \<Rightarrow> char \<Rightarrow> bool" where
  "atom RNone c = False"
| "atom REps c = False"
| "atom (RSet p) c = p c"
| "atom (RAlt r s) c = (atom r c \<or> atom s c)"
| "atom (RSeq r s) c = (atom r c \<or> atom s c)"
| "atom (RStar r) c = atom r c"

lemma lang_atoms: "s \<in> lang r \<Longrightarrow> list_all (atom r) s"
proof (induction r arbitrary: s)
  case (RAlt r1 r2)
  then show ?case by (auto simp: list_all_iff)
next
  case (RSeq r1 r2)
  then show ?case by (fastforce simp: list_all_iff)
next
  case (RStar r)
  then show ?case by (fastforce simp: list_all_iff)
qed (auto simp: list_all_iff)

section \<open>Deciding it\<close>

primrec nullable :: "rexp \<Rightarrow> bool" where
  "nullable RNone = False"
| "nullable REps = True"
| "nullable (RSet p) = False"
| "nullable (RAlt r s) = (nullable r \<or> nullable s)"
| "nullable (RSeq r s) = (nullable r \<and> nullable s)"
| "nullable (RStar r) = True"

fun seq :: "rexp \<Rightarrow> rexp \<Rightarrow> rexp" where
  "seq RNone s = RNone"
| "seq REps s = s"
| "seq r s = RSeq r s"

fun alt :: "rexp \<Rightarrow> rexp \<Rightarrow> rexp" where
  "alt RNone s = s"
| "alt r RNone = r"
| "alt r s = RAlt r s"

primrec deriv :: "char \<Rightarrow> rexp \<Rightarrow> rexp" where
  "deriv c RNone = RNone"
| "deriv c REps = RNone"
| "deriv c (RSet p) = (if p c then REps else RNone)"
| "deriv c (RAlt r s) = alt (deriv c r) (deriv c s)"
| "deriv c (RSeq r s) =
     (if nullable r then alt (seq (deriv c r) s) (deriv c s) else seq (deriv c r) s)"
| "deriv c (RStar r) = seq (deriv c r) (RStar r)"

fun rmatch :: "rexp \<Rightarrow> string \<Rightarrow> bool" where
  "rmatch r [] = nullable r"
| "rmatch r (c # s) = rmatch (deriv c r) s"

lemma lang_seq: "lang (seq r s) = lang (RSeq r s)"
  by (cases r) auto

lemma lang_alt: "lang (alt r s) = lang (RAlt r s)"
  by (cases r; cases s) auto

lemma nullable_lang: "nullable r \<longleftrightarrow> [] \<in> lang r"
proof (induction r)
  case (RStar r)
  show ?case by (auto intro: exI [of _ "[]"])
qed auto

lemma star_Cons:
  "c # s \<in> lang (RStar r) \<longleftrightarrow> (\<exists>u v. s = u @ v \<and> c # u \<in> lang r \<and> v \<in> lang (RStar r))"
proof
  assume "c # s \<in> lang (RStar r)"
  then obtain ws where ws: "concat ws = c # s" "set ws \<subseteq> lang r" by auto
  then show "\<exists>u v. s = u @ v \<and> c # u \<in> lang r \<and> v \<in> lang (RStar r)"
  proof (induction ws)
    case (Cons w ws)
    show ?case
    proof (cases w)
      case Nil
      with Cons show ?thesis by auto
    next
      case (Cons d u)
      with Cons.prems show ?thesis by auto
    qed
  qed simp
next
  assume "\<exists>u v. s = u @ v \<and> c # u \<in> lang r \<and> v \<in> lang (RStar r)"
  then obtain u ws where "s = u @ concat ws" "c # u \<in> lang r" "set ws \<subseteq> lang r" by auto
  then have "c # s = concat ((c # u) # ws) \<and> set ((c # u) # ws) \<subseteq> lang r" by simp
  then show "c # s \<in> lang (RStar r)" unfolding lang.simps by blast
qed

lemma deriv_lang: "s \<in> lang (deriv c r) \<longleftrightarrow> c # s \<in> lang r"
proof (induction r arbitrary: s)
  case (RSeq r1 r2)
  then show ?case
    by (auto simp: lang_seq lang_alt nullable_lang Cons_eq_append_conv)
next
  case (RStar r)
  then show ?case by (simp only: deriv.simps lang_seq star_Cons) auto
qed (auto simp: lang_alt)

theorem rmatch_lang: "rmatch r s \<longleftrightarrow> s \<in> lang r"
  by (induction s arbitrary: r) (simp_all add: nullable_lang deriv_lang)

lemma rmatch_atoms: "rmatch r s \<Longrightarrow> list_all (atom r) s"
  by (simp add: rmatch_lang lang_atoms)

section \<open>The operators of the patterns\<close>

definition rplus :: "rexp \<Rightarrow> rexp" where "rplus r = RSeq r (RStar r)"
definition ropt :: "rexp \<Rightarrow> rexp" where "ropt r = RAlt REps r"

fun rlit :: "string \<Rightarrow> rexp" where
  "rlit [] = REps"
| "rlit (c # s) = RSeq (RSet (\<lambda>d. d = c)) (rlit s)"

text \<open>\<open>r{m,m+k}\<close>: \<open>m\<close> times, then up to \<open>k\<close> more.\<close>

fun rupto :: "rexp \<Rightarrow> nat \<Rightarrow> rexp" where
  "rupto r 0 = REps"
| "rupto r (Suc k) = ropt (RSeq r (rupto r k))"

fun rrep :: "rexp \<Rightarrow> nat \<Rightarrow> nat \<Rightarrow> rexp" where
  "rrep r 0 k = rupto r k"
| "rrep r (Suc m) k = RSeq r (rrep r m k)"

definition lower_az :: "char \<Rightarrow> bool" where "lower_az c \<longleftrightarrow> CHR ''a'' \<le> c \<and> c \<le> CHR ''z''"
definition upper_az :: "char \<Rightarrow> bool" where "upper_az c \<longleftrightarrow> CHR ''A'' \<le> c \<and> c \<le> CHR ''Z''"
definition ascii_alnum :: "char \<Rightarrow> bool" where
  "ascii_alnum c \<longleftrightarrow> lower_az c \<or> upper_az c \<or> is_ascii_digit c"

lemma atom_rplus [simp]: "atom (rplus r) c = atom r c"
  by (simp add: rplus_def)

lemma atom_ropt [simp]: "atom (ropt r) c = atom r c"
  by (simp add: ropt_def)

lemma atom_rupto: "atom (rupto r k) c \<Longrightarrow> atom r c"
  by (induction k) auto

lemma atom_rrep: "atom (rrep r m k) c \<Longrightarrow> atom r c"
  by (induction m) (auto dest: atom_rupto)

lemma atom_rlit: "atom (rlit s) c \<longleftrightarrow> c \<in> set s"
  by (induction s) auto

end
