(* ===== verification/TextFacts.thy ===== *)
theory TextFacts
  imports GoStrings
begin

text \<open>
  Facts about text that several components rest on: an ASCII character always ends the rune before it
  and is a rune of its own, the words of a text read back from their joined form, and the source's
  two ways of keeping a list without repeats (\<open>add_new\<close> for \<open>if !slices.Contains ... append\<close>,
  \<open>sorted_set\<close> for \<open>slices.Compact\<close> after \<open>slices.Sort\<close>).
\<close>

section \<open>ASCII characters are rune boundaries\<close>

abbreviation ascii :: "char \<Rightarrow> bool" where "ascii c \<equiv> of_char c < (128 :: nat)"

lemma decode_rune_before_ascii:
  "x \<noteq> [] \<Longrightarrow> ascii c \<Longrightarrow> decode_rune (x @ c # y) = decode_rune x"
  by (cases x) (auto simp: decode_rune_def second_ok_def cont_byte_def split: list.splits if_splits)

lemma chunks_before_ascii: "ascii c \<Longrightarrow> chunks (x @ c # y) = chunks x @ chunks (c # y)"
proof (induction x rule: chunks.induct)
  case (1 x)
  show ?case
  proof (cases "x = []")
    case False
    obtain r w where rw: "decode_rune x = (r, w)" by (cases "decode_rune x")
    have w: "1 \<le> w" "w \<le> length x" using decode_rune_width [of x] rw False by auto
    have "chunks (x @ c # y) = (r, take w x) # chunks (drop w x @ c # y)"
      using False rw w decode_rune_before_ascii [OF False 1(2)] by (subst chunks.simps) auto
    moreover have "chunks x = (r, take w x) # chunks (drop w x)"
      using False rw by (subst chunks.simps) simp
    ultimately show ?thesis using 1(1) [OF False, of "(r, w)" r w] 1(2) rw by simp
  qed simp
qed

lemma decode_rune_bytes:
  assumes "s \<noteq> []"
  shows "(ascii (hd s) \<and> decode_rune s = (of_char (hd s), 1)) \<or>
     list_all (\<lambda>c. \<not> ascii c) (take (snd (decode_rune s)) s)"
proof -
  obtain a u where s: "s = a # u" using assms by (cases s) auto
  show ?thesis
  proof (cases "ascii a")
    case True
    then show ?thesis by (simp add: s decode_rune_ascii)
  next
    case False
    have c: "\<not> ascii d" if "cont_byte (of_char d)" for d using that by (simp add: cont_byte_def)
    have b: "\<not> ascii d" if "second_ok k (of_char d)" for d k using that by (simp add: second_ok_def split: if_splits)
    consider "u = []" | d where "u = [d]" | d e where "u = [d, e]" | d e f v where "u = d # e # f # v"
      by (metis list.exhaust)
    then have "list_all (\<lambda>c. \<not> ascii c) (take (snd (decode_rune s)) s)"
      unfolding s by cases (use False b c in \<open>simp_all add: decode_rune_def numeral_2_eq_2\<close>)
    then show ?thesis ..
  qed
qed

lemma ascii_chunk: "c \<in> set s \<Longrightarrow> ascii c \<Longrightarrow> (of_char c, [c]) \<in> set (chunks s)"
proof (induction s rule: chunks.induct)
  case (1 s)
  obtain r w where rw: "decode_rune s = (r, w)" by (cases "decode_rune s")
  have ne: "s \<noteq> []" using 1(2) by auto
  have cs: "chunks s = (r, take w s) # chunks (drop w s)"
    using ne rw by (subst chunks.simps) simp
  have "c \<in> set (take w s) \<or> c \<in> set (drop w s)"
    using 1(2) by (metis Un_iff append_take_drop_id set_append)
  then show ?case
  proof
    assume c: "c \<in> set (take w s)"
    with decode_rune_bytes [OF ne] rw 1(3) have "ascii (hd s)" "r = of_char (hd s)" "w = 1"
      by (auto simp: list_all_iff)
    with c ne cs show ?thesis by (cases s) auto
  next
    assume "c \<in> set (drop w s)"
    with 1(1) [OF ne, of "(r, w)" r w] rw 1(3) cs show ?thesis by simp
  qed
qed

lemma ascii_rune: "c \<in> set s \<Longrightarrow> ascii c \<Longrightarrow> of_char c \<in> set (runes s)"
  unfolding runes_def by (drule (1) ascii_chunk) force

lemma runes_before_ascii: "ascii c \<Longrightarrow> runes (x @ c # y) = runes x @ of_char c # runes y"
  by (simp add: runes_def chunks_before_ascii)

lemma runes_Nil [simp]: "runes [] = []"
  by (simp add: runes_def)

section \<open>Words\<close>

lemma split_fields_Nil [simp]: "split_fields P [] = []"
  by (subst split_fields.simps) simp

lemma split_fields_word: "list_all (\<lambda>x. \<not> P x) w \<Longrightarrow> w \<noteq> [] \<Longrightarrow> split_fields P w = [w]"
  by (subst split_fields.simps)
     (cases w, auto simp: Let_def list_all_iff dropWhile_none takeWhile_all dropWhile_eq_Nil_conv [symmetric] simp del: dropWhile_eq_Nil_conv)

lemma split_fields_cons:
  assumes w: "list_all (\<lambda>x. \<not> P x) w" "w \<noteq> []" and d: "P d"
  shows "split_fields P (w @ d # xs) = w # split_fields P xs"
proof -
  have "dropWhile P (w @ d # xs) = w @ d # xs" using w by (cases w) auto
  moreover have "takeWhile (\<lambda>x. \<not> P x) (w @ d # xs) = w" "dropWhile (\<lambda>x. \<not> P x) (w @ d # xs) = d # xs"
    using w d by (simp_all add: list_all_iff takeWhile_append dropWhile_append)
  moreover have "split_fields P (d # xs) = split_fields P xs"
    by (subst (1 2) split_fields.simps) (simp add: d)
  ultimately show ?thesis using w(2) by (subst split_fields.simps) simp
qed

definition is_word :: "(nat \<Rightarrow> bool) \<Rightarrow> string \<Rightarrow> bool" where
  "is_word P w \<longleftrightarrow> w \<noteq> [] \<and> list_all (\<lambda>r. \<not> P r) (runes w)"

lemma fields_func_join:
  assumes "P 32" "list_all (is_word P) ws"
  shows "fields_func P (join '' '' ws) = ws"
  using assms
proof (induction "'' ''" ws rule: join.induct)
  case 1
  then show ?case by (simp add: fields_func_def)
next
  case (2 w)
  then show ?case
    by (simp add: fields_func_def is_word_def split_fields_word runes_def list_all_iff)
next
  case (3 w v vs)
  have c: "chunks (join '' '' (w # v # vs)) = chunks w @ (32, '' '') # chunks (join '' '' (v # vs))"
    by (simp add: chunks_before_ascii)
  have "split_fields (\<lambda>c. P (fst c)) (chunks (join '' '' (w # v # vs))) =
      chunks w # split_fields (\<lambda>c. P (fst c)) (chunks (join '' '' (v # vs)))"
    unfolding c by (rule split_fields_cons) (use 3 in \<open>auto simp: is_word_def runes_def list_all_iff\<close>)
  with 3 show ?case by (simp add: fields_func_def)
qed

lemma split_fields_sub: "w \<in> set (split_fields P xs) \<Longrightarrow> \<exists>i j. w = take j (drop i xs)"
proof (induction P xs rule: split_fields.induct)
  case (1 P xs)
  define ys where "ys = dropWhile P xs"
  have drop: "dropWhile Q zs = drop (length (takeWhile Q zs)) zs" for Q and zs :: "'a list"
    by (metis dropWhile_eq_drop)
  have take: "takeWhile Q zs = take (length (takeWhile Q zs)) zs" for Q and zs :: "'a list"
    by (metis takeWhile_eq_take)
  show ?case
  proof (cases "ys = []")
    case True
    then have "split_fields P xs = []" by (subst split_fields.simps) (simp add: ys_def [symmetric] del: dropWhile_eq_Nil_conv)
    with 1(2) show ?thesis by simp
  next
    case False
    then have eq: "split_fields P xs = takeWhile (\<lambda>x. \<not> P x) ys # split_fields P (dropWhile (\<lambda>x. \<not> P x) ys)"
      by (subst split_fields.simps) (simp add: ys_def [symmetric] del: dropWhile_eq_Nil_conv)
    show ?thesis
    proof (cases "w = takeWhile (\<lambda>x. \<not> P x) ys")
      case True
      then show ?thesis using drop take unfolding ys_def by metis
    next
      case other: False
      with 1(2) eq have "w \<in> set (split_fields P (dropWhile (\<lambda>x. \<not> P x) ys))" by simp
      from 1(1) [OF ys_def False this] obtain i j where "w = take j (drop i (dropWhile (\<lambda>x. \<not> P x) ys))" by blast
      then show ?thesis unfolding ys_def using drop by (metis drop_drop)
    qed
  qed
qed

lemma fields_func_words: "list_all (is_word P) (fields_func P s)"
proof -
  have "is_word P (unchunk cs)" if cs: "cs \<in> set (split_fields (\<lambda>c. P (fst c)) (chunks s))" for cs
  proof -
    have "cs \<noteq> []" "list_all (\<lambda>c. \<not> P (fst c)) cs"
      using split_fields_pieces [of "\<lambda>c. P (fst c)" "chunks s"] cs by (auto simp: list_all_iff)
    moreover have "chunks (unchunk cs) = cs" using split_fields_sub [OF cs] chunks_sub by metis
    ultimately show ?thesis by (metis (mono_tags, lifting) chunks_Nil is_word_def list.pred_map list.pred_mono_strong comp_apply runes_def)
  qed
  then show ?thesis by (auto simp: fields_func_def list_all_iff)
qed

definition one_line :: "string \<Rightarrow> string" where
  "one_line s = join '' '' (fields_of s)"

lemma fields_join_fields [simp]: "fields_of (join '' '' (fields_of s)) = fields_of s"
  unfolding fields_of_def using fields_func_words by (intro fields_func_join) (simp_all add: is_space_def)

lemma one_line_idem [simp]: "one_line (one_line s) = one_line s"
  by (simp add: one_line_def)

lemma word_no_space: "is_word P w \<Longrightarrow> P 32 \<Longrightarrow> CHR '' '' \<notin> set w"
  using ascii_rune [of "CHR '' ''" w] by (auto simp: is_word_def list_all_iff)

lemma join_words_inj:
  assumes "list_all (is_word P) us" "list_all (is_word P) vs" "P 32" "join '' '' us = join '' '' vs"
  shows "us = vs"
  by (metis assms fields_func_join)

section \<open>Lists without repeats\<close>

definition add_new :: "'a list \<Rightarrow> 'a \<Rightarrow> 'a list" where
  "add_new xs x = (if x \<in> set xs then xs else xs @ [x])"

lemma set_add_new [simp]: "set (add_new xs x) = insert x (set xs)"
  by (auto simp: add_new_def)

lemma distinct_add_new [simp]: "distinct (add_new xs x) \<longleftrightarrow> distinct xs"
  by (auto simp: add_new_def)

lemma foldl_add_new_set [simp]: "set (foldl add_new xs ys) = set xs \<union> set ys"
  by (induction ys arbitrary: xs) auto

lemma foldl_add_new_distinct [simp]: "distinct (foldl add_new xs ys) \<longleftrightarrow> distinct xs"
  by (induction ys arbitrary: xs) auto

lemma foldl_add_new_prefix: "prefix xs (foldl add_new xs ys)"
  by (induction ys arbitrary: xs) (auto simp: add_new_def dest: append_prefixD split: if_splits)

definition sorted_set :: "('a :: linorder) list \<Rightarrow> 'a list" where
  "sorted_set xs = remdups_adj (sort xs)"

lemma sorted_set_set [simp]: "set (sorted_set xs) = set xs"
  by (simp add: sorted_set_def)

lemma distinct_sorted_adj: "sorted xs \<Longrightarrow> distinct (remdups_adj xs)" for xs :: "('a :: linorder) list"
  by (induction xs rule: remdups_adj.induct) (auto simp: order.antisym)

lemma sorted_set_eq: "sorted_set xs = sorted_list_of_set (set xs)"
proof -
  have "sorted (sorted_set xs)" "distinct (sorted_set xs)"
    by (simp_all add: sorted_set_def distinct_sorted_adj)
  then show ?thesis using sorted_list_of_set.idem_if_sorted_distinct [of "sorted_set xs"] by simp
qed

section \<open>Case mapping\<close>

text \<open>
  What the source relies on in Unicode's tables: mapping a valid rune's case gives a valid rune, twice
  is once, and no rune that is not a space becomes one.
\<close>

definition unicode_ok :: "unicode \<Rightarrow> bool" where
  "unicode_ok U \<longleftrightarrow> (\<forall>r. valid_rune r \<longrightarrow>
     valid_rune (lower_rune U r) \<and> valid_rune (upper_rune U r) \<and>
     lower_rune U (lower_rune U r) = lower_rune U r \<and> upper_rune U (upper_rune U r) = upper_rune U r \<and>
     (\<not> is_space r \<longrightarrow> \<not> is_space (lower_rune U r) \<and> \<not> is_space (upper_rune U r)))"

lemma ascii_tables_ok: "unicode_ok ascii_tables"
  by (auto simp: unicode_ok_def ascii_tables_def lower_rune_def upper_rune_def ascii_lower_def ascii_upper_def valid_rune_def is_space_def)

lemma valid_rune_3: "a < 16 \<Longrightarrow> b < 64 \<Longrightarrow> c < 64 \<Longrightarrow> (a = 13 \<longrightarrow> b < 32) \<Longrightarrow> valid_rune (a * 4096 + b * 64 + c)"
  by (cases "a < 13"; cases "a = 13") (auto simp: valid_rune_def)

lemma valid_rune_4:
  "a < 5 \<Longrightarrow> b < 64 \<Longrightarrow> c < 64 \<Longrightarrow> d < 64 \<Longrightarrow> (a = 0 \<longrightarrow> 16 \<le> b) \<Longrightarrow> (a = 4 \<longrightarrow> b < 16) \<Longrightarrow>
     valid_rune (a * 262144 + b * 4096 + c * 64 + d)"
  by (cases "a = 0"; cases "a = 4") (auto simp: valid_rune_def)

lemma decode_rune_valid: "valid_rune (fst (decode_rune s))"
proof -
  have e: "valid_rune rune_error" by (simp add: valid_rune_def rune_error_def)
  have a: "valid_rune r" if "r < 2048" for r using that by (simp add: valid_rune_def)
  have c: "d - 128 < 64" if "cont_byte d" for d using that by (auto simp: cont_byte_def)
  have s: "d - 128 < 64 \<and> (k = 224 \<longrightarrow> 160 \<le> d) \<and> (k = 237 \<longrightarrow> d - 128 < 32) \<and> (k = 240 \<longrightarrow> 16 \<le> d - 128) \<and> (k = 244 \<longrightarrow> d - 128 < 16)"
    if "second_ok k d" for d k using that by (auto simp: second_ok_def split: if_splits)
  have two: "valid_rune ((k - 192) * 64 + (d - 128))" if "second_ok k d" "k < 224" for k d
    using s [OF that(1)] that(2) by (intro a) linarith
  have three: "valid_rune ((k - 224) * 4096 + (d - 128) * 64 + (f - 128))"
    if "second_ok k d" "cont_byte f" "k < 240" "\<not> k < 224" for k d f
    by (rule valid_rune_3) (use s [OF that(1)] c [OF that(2)] that(3,4) in auto)
  have four: "valid_rune ((k - 240) * 262144 + (d - 128) * 4096 + (f - 128) * 64 + (g - 128))"
    if "second_ok k d" "cont_byte f" "cont_byte g" "\<not> k < 240" "\<not> 244 < k" for k d f g
    by (rule valid_rune_4) (use s [OF that(1)] c [OF that(2)] c [OF that(3)] that(4,5) in auto)
  consider "s = []" | k where "s = [k]" | k l where "s = [k, l]" | k l m where "s = [k, l, m]" | k l m n v where "s = k # l # m # n # v"
    by (metis list.exhaust)
  then show ?thesis
    by cases (simp_all add: decode_rune_def e a two three four split: if_split)
qed

lemma runes_valid: "r \<in> set (runes s) \<Longrightarrow> valid_rune r"
proof (induction s rule: chunks.induct)
  case (1 s)
  show ?case
  proof (cases "s = []")
    case False
    obtain q w where qw: "decode_rune s = (q, w)" by (cases "decode_rune s")
    then have "chunks s = (q, take w s) # chunks (drop w s)" using False by (subst chunks.simps) simp
    then show ?thesis using 1(1) [OF False, of "(q, w)" q w] 1(2) qw decode_rune_valid [of s] by (auto simp: runes_def)
  qed (use 1 in simp)
qed

lemma chunks_encode_all:
  "list_all valid_rune rs \<Longrightarrow> chunks (concat (map encode_rune rs)) = map (\<lambda>r. (r, encode_rune r)) rs"
  by (induction rs) (simp_all add: chunks_encode)

text \<open>A case mapping that keeps validity and spaces, applied to every rune.\<close>

lemma chunks_map_runes:
  assumes "\<And>r. valid_rune r \<Longrightarrow> valid_rune (f r)"
  shows "chunks (map_runes (\<lambda>r. Some (f r)) s) = map (\<lambda>r. (f r, encode_rune (f r))) (runes s)"
proof -
  have "list_all valid_rune (map f (runes s))" using assms runes_valid by (auto simp: list_all_iff)
  from chunks_encode_all [OF this] show ?thesis by (simp add: map_runes_def comp_def)
qed

lemma trim_map_runes:
  assumes v: "\<And>r. valid_rune r \<Longrightarrow> valid_rune (f r)" and s: "\<And>r. valid_rune r \<Longrightarrow> \<not> is_space r \<Longrightarrow> \<not> is_space (f r)"
    and t: "trim_space t = t"
  shows "trim_space (map_runes (\<lambda>r. Some (f r)) t) = map_runes (\<lambda>r. Some (f r)) t"
proof -
  let ?u = "map_runes (\<lambda>r. Some (f r)) t" and ?cs = "chunks t"
  have tl: "trim_list (\<lambda>c. is_space (fst c)) ?cs = ?cs"
    using chunks_trim_func [of is_space t] t by (simp add: trim_space_def)
  have "chunks ?u = [] \<or> (\<not> is_space (fst (hd (chunks ?u))) \<and> \<not> is_space (fst (last (chunks ?u))))"
  proof (cases "?cs = []")
    case False
    then have "\<not> is_space (fst (hd ?cs))" "\<not> is_space (fst (last ?cs))"
      using trim_list_ends [of "\<lambda>c. is_space (fst c)" ?cs] tl by auto
    moreover have "valid_rune (fst (hd ?cs))" "valid_rune (fst (last ?cs))"
      using False runes_valid [of _ t] by (simp_all add: runes_def)
    ultimately show ?thesis using False s
      by (simp add: chunks_map_runes [OF v] runes_def hd_map last_map del: chunks_eq_Nil)
  qed (simp add: chunks_map_runes [OF v] runes_def)
  then have "trim_list (\<lambda>c. is_space (fst c)) (chunks ?u) = chunks ?u" by (intro trim_list_id) auto
  then show ?thesis by (simp add: trim_space_def trim_func_def)
qed

lemma map_runes_idem:
  assumes v: "\<And>r. valid_rune r \<Longrightarrow> valid_rune (f r)" and i: "\<And>r. valid_rune r \<Longrightarrow> f (f r) = f r"
  shows "map_runes (\<lambda>r. Some (f r)) (map_runes (\<lambda>r. Some (f r)) s) = map_runes (\<lambda>r. Some (f r)) s"
proof -
  have "runes (map_runes (\<lambda>r. Some (f r)) s) = map f (runes s)"
    using chunks_map_runes [of f s, OF v] by (simp add: runes_def [of "map_runes _ _"] comp_def)
  then show ?thesis using i runes_valid [of _ s] by (simp add: map_runes_def comp_def cong: map_cong)
qed

lemma lower_trim_idem:
  "unicode_ok U \<Longrightarrow> to_lower U (trim_space (to_lower U (trim_space s))) = to_lower U (trim_space s)"
  unfolding to_lower_def by (simp add: trim_map_runes map_runes_idem unicode_ok_def)

lemma upper_trim_idem:
  "unicode_ok U \<Longrightarrow> to_upper U (trim_space (to_upper U (trim_space s))) = to_upper U (trim_space s)"
  unfolding to_upper_def by (simp add: trim_map_runes map_runes_idem unicode_ok_def)

text \<open>ASCII text that a mapping leaves alone, or that holds no space.\<close>

lemma to_lower_fixed: "list_all (\<lambda>c. ascii c \<and> ascii_lower (of_char c) = of_char c) s \<Longrightarrow> to_lower U s = s"
  by (induction s) (auto simp: to_lower_def map_runes_def runes_def lower_rune_def encode_rune_def)

lemma to_upper_fixed: "list_all (\<lambda>c. ascii c \<and> ascii_upper (of_char c) = of_char c) s \<Longrightarrow> to_upper U s = s"
  by (induction s) (auto simp: to_upper_def map_runes_def runes_def upper_rune_def encode_rune_def)

lemma trim_space_fixed: "list_all (\<lambda>c. ascii c \<and> \<not> is_space (of_char c)) s \<Longrightarrow> trim_space s = s"
proof -
  assume a: "list_all (\<lambda>c. ascii c \<and> \<not> is_space (of_char c)) s"
  then have "chunks s = map (\<lambda>c. (of_char c, [c])) s" using chunks_ascii_string [of s "[]"] by (simp add: list_all_iff)
  then have "trim_list (\<lambda>c. is_space (fst c)) (chunks s) = chunks s"
    using a by (intro trim_list_id) (cases "s = []", auto simp: list_all_iff hd_map last_map)
  then show ?thesis by (simp add: trim_space_def trim_func_def)
qed

end
