(* ===== verification/Finding.thy ===== *)
theory Finding
  imports TextFacts Regexps Diff
begin

text \<open>
  internal/review/finding.go: what a finding is (\<open>finding\<close>, \<open>evidence\<close>, \<open>suggestion\<close>), its canonical
  form (\<open>normalize\<close>), what \<open>Validate\<close> refuses (\<open>validate\<close>, the list of everything wrong, empty for a
  good finding) and when two findings are the same one (\<open>fingerprint\<close>). Go's enums are typed strings
  and stay strings here. An error is a constructor carrying what its message carries; the joined
  error of the source is the list of them, nil exactly when the list is empty.
\<close>

section \<open>Severities and categories\<close>

type_synonym severity = string
type_synonym category = string

abbreviation P0 :: severity where "P0 \<equiv> ''P0''"
abbreviation P1 :: severity where "P1 \<equiv> ''P1''"
abbreviation P2 :: severity where "P2 \<equiv> ''P2''"

definition severity_valid :: "severity \<Rightarrow> bool" where
  "severity_valid s \<longleftrightarrow> s = P0 \<or> s = P1 \<or> s = P2"

text \<open>The error is the clipped text.\<close>

definition parse_severity :: "unicode \<Rightarrow> string \<Rightarrow> (string, severity) result" where
  "parse_severity U s =
     (let v = to_upper U (trim_space s) in if severity_valid v then Inr v else Inl (clip s))"

definition categories :: "category list" where
  "categories = [''bug'', ''security'', ''data'', ''concurrency'', ''contract'', ''perf'', ''a11y'', ''convention'', ''test'']"

definition category_valid :: "category \<Rightarrow> bool" where
  "category_valid c \<longleftrightarrow> c \<in> set categories"

definition parse_category :: "unicode \<Rightarrow> string \<Rightarrow> (string, category) result" where
  "parse_category U s =
     (let v = to_lower U (trim_space s) in if category_valid v then Inr v else Inl (clip s))"

section \<open>Names of types and repositories\<close>

text \<open>\<open>^[a-z][a-z0-9]*(?:-[a-z0-9]+)*$\<close>, of rules.go, and the bound on a key.\<close>

definition lower_alnum :: "char \<Rightarrow> bool" where
  "lower_alnum c \<longleftrightarrow> lower_az c \<or> is_ascii_digit c"

definition type_key :: rexp where
  "type_key = RSeq (RSet lower_az) (RSeq (RStar (RSet lower_alnum))
     (RStar (RSeq (RSet (\<lambda>c. c = CHR ''-'')) (rplus (RSet lower_alnum)))))"

definition valid_type_key :: "string \<Rightarrow> bool" where
  "valid_type_key s \<longleftrightarrow> length s \<le> 40 \<and> rmatch type_key s"

definition default_type :: string where "default_type = ''general''"

text \<open>\<open>^[A-Za-z0-9](?:[A-Za-z0-9-]{0,38})/[A-Za-z0-9._-]{1,100}$\<close>.\<close>

definition repo_name :: rexp where
  "repo_name = RSeq (RSet ascii_alnum) (RSeq (rupto (RSet (\<lambda>c. ascii_alnum c \<or> c = CHR ''-'')) 38)
     (RSeq (RSet (\<lambda>c. c = CHR ''/''))
       (rrep (RSet (\<lambda>c. ascii_alnum c \<or> c = CHR ''.'' \<or> c = CHR ''_'' \<or> c = CHR ''-'')) 1 99)))"

definition valid_repo_name :: "string \<Rightarrow> bool" where
  "valid_repo_name s \<longleftrightarrow> rmatch repo_name s \<and>
     (let name = tl (dropWhile (\<lambda>c. c \<noteq> CHR ''/'') s) in name \<noteq> ''.'' \<and> name \<noteq> ''..'')"

section \<open>Findings\<close>

record evidence =
  e_repo :: string
  e_path :: string
  e_ref :: string
  e_start_line :: int
  e_end_line :: int
  e_quote :: string

record suggestion =
  sg_start_line :: int
  sg_line :: int
  sg_code :: string

record finding =
  fd_path :: string
  fd_side :: side
  fd_start_line :: int
  fd_line :: int
  fd_severity :: severity
  fd_category :: category
  fd_title :: string
  fd_scenario :: string
  fd_symbol :: string
  fd_evidence :: "evidence list"
  fd_rule_ids :: "string list"
  fd_suggestion :: "suggestion option"
  fd_pre_existing :: bool
  fd_confidence :: int
  fd_review_type :: string
  fd_also_types :: "string list"

definition type_keys :: "finding \<Rightarrow> string list" where
  "type_keys f =
     foldl (\<lambda>keys k. if k \<noteq> [] then add_new keys k else keys)
       [if fd_review_type f = [] then default_type else fd_review_type f] (fd_also_types f)"

section \<open>Normalize\<close>

definition normalize_evidence :: "unicode \<Rightarrow> evidence \<Rightarrow> evidence" where
  "normalize_evidence U e =
     e\<lparr>e_repo := trim_space (e_repo e), e_path := trim_space (e_path e),
       e_ref := to_lower U (trim_space (e_ref e)),
       e_end_line := (if e_end_line e = e_start_line e then 0 else e_end_line e)\<rparr>"

text \<open>The suggestion of a finding whose own lines are \<open>start\<close> to \<open>line\<close> (already normalized).\<close>

definition normalize_suggestion :: "int \<Rightarrow> int \<Rightarrow> suggestion \<Rightarrow> suggestion" where
  "normalize_suggestion start line s =
     (let s1 = (if sg_start_line s = 0 \<and> sg_line s = 0 then s\<lparr>sg_start_line := start, sg_line := line\<rparr> else s) in
      if sg_start_line s1 = sg_line s1 then s1\<lparr>sg_start_line := 0\<rparr> else s1)"

definition normalize :: "unicode \<Rightarrow> finding \<Rightarrow> finding" where
  "normalize U f =
     (let side = to_upper U (trim_space (fd_side f));
          start = (if fd_start_line f = fd_line f then 0 else fd_start_line f) in
      f\<lparr>fd_path := trim_space (fd_path f),
        fd_side := (if side = [] then Right else side),
        fd_severity := (case parse_severity U (fd_severity f) of Inr s \<Rightarrow> s | Inl _ \<Rightarrow> fd_severity f),
        fd_category := (case parse_category U (fd_category f) of Inr c \<Rightarrow> c | Inl _ \<Rightarrow> fd_category f),
        fd_title := join '' '' (fields_of (fd_title f)),
        fd_scenario := trim_space (fd_scenario f),
        fd_symbol := trim_space (fd_symbol f),
        fd_review_type := to_lower U (trim_space (fd_review_type f)),
        fd_also_types := map (\<lambda>k. to_lower U (trim_space k)) (fd_also_types f),
        fd_start_line := start,
        fd_evidence := map (normalize_evidence U) (fd_evidence f),
        fd_rule_ids := map trim_space (fd_rule_ids f),
        fd_suggestion := map_option (normalize_suggestion start (fd_line f)) (fd_suggestion f)\<rparr>)"

section \<open>Validate\<close>

definition finding_range :: "finding \<Rightarrow> int \<times> int" where
  "finding_range f = (if fd_start_line f = 0 then (fd_line f, fd_line f) else (fd_start_line f, fd_line f))"

datatype suggestion_problem =
    SugOnLeft
  | SugOtherLines int int int int
  | SugTooManyLines int
  | SugCodeTooLong nat
  | SugFence

definition suggestion_lines :: "string \<Rightarrow> nat" where
  "suggestion_lines code = count_char (CHR 0x0A) code + 1"

definition suggestion_code :: "suggestion \<Rightarrow> string" where
  "suggestion_code s = trim_suffix [CHR 0x0A] (crlf_to_lf (sg_code s))"

text \<open>\<open>None\<close> stands for the empty reason. The method reads \<open>f.Suggestion\<close>, which its caller has checked.\<close>

definition suggestion_problem_of :: "finding \<Rightarrow> suggestion \<Rightarrow> suggestion_problem option" where
  "suggestion_problem_of f s =
     (if fd_side f = Left then Some SugOnLeft
      else let ss = (if sg_start_line s = 0 then sg_line s else sg_start_line s); se = sg_line s;
               fs = fst (finding_range f); fe = snd (finding_range f) in
        if ss \<noteq> fs \<or> se \<noteq> fe then Some (SugOtherLines fs fe ss se)
        else if 10 < wrap64 (se - ss + 1) then Some (SugTooManyLines (wrap64 (se - ss + 1)))
        else let code = suggestion_code s; n = suggestion_lines code in
          if 10 < n then Some (SugCodeTooLong n)
          else if contains ''```'' code then Some SugFence
          else None)"

datatype evidence_error =
    EvRepo string
  | EvPath
  | EvRef string
  | EvStartLine
  | EvEndLine
  | EvQuoteMissing
  | EvQuoteLong

definition lower_hex :: "char \<Rightarrow> bool" where
  "lower_hex c \<longleftrightarrow> is_ascii_digit c \<or> (CHR ''a'' \<le> c \<and> c \<le> CHR ''f'')"

text \<open>\<open>^[0-9a-f]{7,40}$\<close>.\<close>

definition sha_ref :: rexp where
  "sha_ref = rrep (RSet lower_hex) 7 33"

definition evidence_validate :: "evidence \<Rightarrow> evidence_error list" where
  "evidence_validate e =
     (if e_repo e \<noteq> [] \<and> \<not> valid_repo_name (e_repo e) then [EvRepo (clip (e_repo e))] else []) @
     (if e_path e = [] \<or> prefix ''/'' (e_path e) \<or> 1024 < length (e_path e) then [EvPath] else []) @
     (if e_ref e \<in> {[], ''head'', ''base'', ''default''} then []
      else if \<not> rmatch sha_ref (e_ref e) then [EvRef (clip (e_ref e))] else []) @
     (if e_start_line e < 1 then [EvStartLine] else []) @
     (if e_end_line e \<noteq> 0 \<and> e_end_line e < e_start_line e then [EvEndLine] else []) @
     (if trim_space (e_quote e) = [] then [EvQuoteMissing]
      else if 2000 < rune_count (e_quote e) then [EvQuoteLong] else [])"

datatype finding_error =
    PathRequired
  | PathTooLong
  | PathNotRelative string
  | PathControl
  | BadSide string
  | BadLine
  | BadStartLine int int
  | BadSeverity string
  | BadCategory string
  | TitleLength nat
  | TitleLines
  | ScenarioRequired
  | ScenarioTooLong nat
  | BadSymbol
  | BadConfidence int
  | BadReviewType string
  | TooManyTypes nat
  | BadAlsoType string
  | TooMuchEvidence nat
  | BadEvidence nat "evidence_error list"
  | TooManyRuleIDs nat
  | BadRuleID string
  | BadSuggestion suggestion_problem

definition evidence_errors :: "evidence list \<Rightarrow> finding_error list" where
  "evidence_errors es =
     concat (map (\<lambda>(i, e). let errs = evidence_validate e in if errs = [] then [] else [BadEvidence i errs]) (enumerate 0 es))"

definition validate :: "finding \<Rightarrow> finding_error list" where
  "validate f =
     (if fd_path f = [] then [PathRequired]
      else if 1024 < length (fd_path f) then [PathTooLong]
      else if prefix ''/'' (fd_path f) then [PathNotRelative (clip (fd_path f))]
      else if contains_any [CHR 0x00, CHR 0x0A, CHR 0x0D] (fd_path f) then [PathControl] else []) @
     (if fd_side f \<noteq> Right \<and> fd_side f \<noteq> Left then [BadSide (clip (fd_side f))] else []) @
     (if fd_line f < 1 then [BadLine] else []) @
     (if fd_start_line f < 0 \<or> fd_line f < fd_start_line f then [BadStartLine (fd_start_line f) (fd_line f)] else []) @
     (if \<not> severity_valid (fd_severity f) then [BadSeverity (clip (fd_severity f))] else []) @
     (if \<not> category_valid (fd_category f) then [BadCategory (clip (fd_category f))] else []) @
     (let n = rune_count (trim_space (fd_title f)) in if n < 3 \<or> 80 < n then [TitleLength n] else []) @
     (if contains_any [CHR 0x0A, CHR 0x0D] (fd_title f) then [TitleLines] else []) @
     (let n = rune_count (fd_scenario f) in
      if trim_space (fd_scenario f) = [] then [ScenarioRequired]
      else if 900 < n then [ScenarioTooLong n] else []) @
     (if 200 < rune_count (fd_symbol f) \<or> contains_any [CHR 0x0A, CHR 0x0D] (fd_symbol f) then [BadSymbol] else []) @
     (if fd_confidence f < 0 \<or> 100 < fd_confidence f then [BadConfidence (fd_confidence f)] else []) @
     (if fd_review_type f \<noteq> [] \<and> \<not> valid_type_key (fd_review_type f) then [BadReviewType (clip (fd_review_type f))] else []) @
     (if 10 < length (fd_also_types f) then [TooManyTypes (length (fd_also_types f))] else []) @
     concat (map (\<lambda>k. if valid_type_key k then [] else [BadAlsoType (clip k)]) (fd_also_types f)) @
     (if 8 < length (fd_evidence f) then [TooMuchEvidence (length (fd_evidence f))] else []) @
     evidence_errors (fd_evidence f) @
     (if 10 < length (fd_rule_ids f) then [TooManyRuleIDs (length (fd_rule_ids f))] else []) @
     concat (map (\<lambda>i. if i = [] \<or> 40 < length i \<or> contains_func is_space i then [BadRuleID (clip i)] else []) (fd_rule_ids f)) @
     (case fd_suggestion f of
        None \<Rightarrow> []
      | Some s \<Rightarrow> (case suggestion_problem_of f s of None \<Rightarrow> [] | Some p \<Rightarrow> [BadSuggestion p]))"

text \<open>\<open>errors.Is(err, ErrSuggestion)\<close> for one of the joined errors.\<close>

definition is_suggestion_error :: "finding_error \<Rightarrow> bool" where
  "is_suggestion_error e = (case e of BadSuggestion _ \<Rightarrow> True | _ \<Rightarrow> False)"

section \<open>Identity\<close>

definition stop_words :: "string list" where
  "stop_words = [''an'', ''the'', ''of'', ''in'', ''on'', ''at'', ''to'', ''for'', ''from'', ''by'', ''with'', ''into'', ''onto'',
     ''and'', ''or'', ''as'', ''than'', ''then'', ''is'', ''are'', ''was'', ''were'', ''be'', ''been'', ''being'',
     ''can'', ''could'', ''may'', ''might'', ''will'', ''would'', ''should'', ''does'', ''do'', ''did'', ''has'', ''have'', ''had'',
     ''this'', ''that'', ''these'', ''those'', ''it'', ''its'', ''when'', ''if'', ''which'', ''where'', ''while'']"

definition not_term :: "unicode \<Rightarrow> nat \<Rightarrow> bool" where
  "not_term U r \<longleftrightarrow> \<not> is_letter U r \<and> \<not> is_digit U r"

definition title_words :: "unicode \<Rightarrow> string \<Rightarrow> string list" where
  "title_words U title =
     filter (\<lambda>w. \<not> (rune_count w < 2 \<or> w \<in> set stop_words)) (fields_func (not_term U) (to_lower U title))"

definition title_terms :: "unicode \<Rightarrow> string \<Rightarrow> string" where
  "title_terms U title = join '' '' (sorted_set (title_words U title))"

definition fingerprint_parts :: "unicode \<Rightarrow> string \<Rightarrow> finding \<Rightarrow> string list" where
  "fingerprint_parts U repo f =
     [to_lower U (trim_space repo), trim_space (fd_path f), to_lower U (trim_space (fd_category f)),
      trim_space (fd_symbol f), title_terms U (fd_title f)]"

definition fingerprint :: "unicode \<Rightarrow> (string \<Rightarrow> string) \<Rightarrow> string \<Rightarrow> finding \<Rightarrow> string" where
  "fingerprint U sha256_hex repo f =
     sha256_hex (concat (map (\<lambda>part. part @ [CHR 0x00]) (fingerprint_parts U repo f)))"

end
