(* ===== verification/Finding_Spec.thy ===== *)
theory Finding_Spec
  imports Finding
begin

text \<open>
  What finding.go promises: the canonical form is canonical, a finding's types are listed once with
  its own first, a bad suggestion is a fault of its own, and a fingerprint is the same exactly for
  findings that agree on the five things a finding's identity is made of, the title taken as the set
  of its meaningful words.
\<close>

section \<open>Types\<close>

lemma type_keys_step: "(\<lambda>keys k. if k \<noteq> [] then add_new keys k else keys) = (\<lambda>keys k. foldl add_new keys (filter (\<lambda>k. k \<noteq> []) [k]))"
  by (intro ext) simp

lemma type_keys_eq:
  "type_keys f = foldl add_new [if fd_review_type f = [] then default_type else fd_review_type f] (filter (\<lambda>k. k \<noteq> []) (fd_also_types f))"
proof -
  have "foldl (\<lambda>keys k. if k \<noteq> [] then add_new keys k else keys) xs ys = foldl add_new xs (filter (\<lambda>k. k \<noteq> []) ys)"
    for xs ys :: "string list" by (induction ys arbitrary: xs) simp_all
  then show ?thesis by (simp add: type_keys_def)
qed

lemma hd_foldl_add_new: "hd (foldl add_new (x # xs) ys) = x"
  using foldl_add_new_prefix [of "x # xs" ys] by (auto simp: prefix_def)

section \<open>The canonical form\<close>

lemma severities_plain:
  "list_all (list_all (\<lambda>c. ascii c \<and> \<not> is_space (of_char c) \<and> ascii_upper (of_char c) = of_char c)) [P0, P1, P2, Right, Left]"
  by code_simp

lemma upper_fixed: "v \<in> {P0, P1, P2, Right, Left} \<Longrightarrow> to_upper U (trim_space v) = v"
proof -
  assume "v \<in> {P0, P1, P2, Right, Left}"
  with severities_plain have p: "list_all (\<lambda>c. ascii c \<and> \<not> is_space (of_char c) \<and> ascii_upper (of_char c) = of_char c) v"
    unfolding list_all_iff by simp (elim disjE; simp)
  then have "trim_space v = v" "to_upper U v = v"
    by (auto intro: trim_space_fixed to_upper_fixed simp: list_all_iff)
  then show ?thesis by simp
qed

lemma severity_fixed: "severity_valid v \<Longrightarrow> parse_severity U v = Inr v"
  using upper_fixed [of v U] unfolding parse_severity_def severity_valid_def by auto

lemma categories_plain:
  "list_all (list_all (\<lambda>c. ascii c \<and> \<not> is_space (of_char c) \<and> ascii_lower (of_char c) = of_char c)) categories"
  by code_simp

lemma category_fixed: "category_valid v \<Longrightarrow> parse_category U v = Inr v"
proof -
  assume v: "category_valid v"
  with categories_plain have p: "list_all (\<lambda>c. ascii c \<and> \<not> is_space (of_char c) \<and> ascii_lower (of_char c) = of_char c) v"
    by (auto simp: category_valid_def list_all_iff)
  then have "trim_space v = v" "to_lower U v = v"
    by (auto intro: trim_space_fixed to_lower_fixed simp: list_all_iff)
  with v show ?thesis by (simp add: parse_category_def)
qed

lemma parse_severity_valid: "parse_severity U s = Inr v \<Longrightarrow> severity_valid v"
  by (auto simp: parse_severity_def Let_def split: if_splits)

lemma parse_category_valid: "parse_category U s = Inr v \<Longrightarrow> category_valid v"
  by (auto simp: parse_category_def Let_def split: if_splits)

lemma side_fixed: "to_upper U (trim_space Right) = Right"
  by (simp only: upper_fixed insert_iff simp_thms)

lemma to_upper_Nil [simp]: "to_upper U [] = []" and to_lower_Nil [simp]: "to_lower U [] = []"
  by (simp_all add: to_upper_def to_lower_def map_runes_def)

lemma normalize_evidence_idem:
  "unicode_ok U \<Longrightarrow> normalize_evidence U (normalize_evidence U e) = normalize_evidence U e"
  by (simp add: normalize_evidence_def lower_trim_idem)

lemma normalize_suggestion_idem:
  "start = 0 \<or> start \<noteq> line \<Longrightarrow>
     normalize_suggestion start line (normalize_suggestion start line s) = normalize_suggestion start line s"
  by (auto simp: normalize_suggestion_def Let_def)

text \<open>\<open>Normalize\<close> is a canonical form: normalizing a normalized finding changes nothing.\<close>

theorem normalize_idempotent:
  assumes U: "unicode_ok U"
  shows "normalize U (normalize U f) = normalize U f"
proof -
  define sev where "sev s = (case parse_severity U s of Inr v \<Rightarrow> v | Inl _ \<Rightarrow> s)" for s
  define cat where "cat s = (case parse_category U s of Inr v \<Rightarrow> v | Inl _ \<Rightarrow> s)" for s
  define side where "side s = (if to_upper U (trim_space s) = [] then Right else to_upper U (trim_space s))" for s
  define start where "start s l = (if s = l then 0 else s)" for s l :: int
  have norm: "normalize U g = g\<lparr>fd_path := trim_space (fd_path g), fd_side := side (fd_side g), fd_severity := sev (fd_severity g),
      fd_category := cat (fd_category g), fd_title := join '' '' (fields_of (fd_title g)), fd_scenario := trim_space (fd_scenario g),
      fd_symbol := trim_space (fd_symbol g), fd_review_type := to_lower U (trim_space (fd_review_type g)),
      fd_also_types := map (\<lambda>k. to_lower U (trim_space k)) (fd_also_types g), fd_start_line := start (fd_start_line g) (fd_line g),
      fd_evidence := map (normalize_evidence U) (fd_evidence g), fd_rule_ids := map trim_space (fd_rule_ids g),
      fd_suggestion := map_option (normalize_suggestion (start (fd_start_line g) (fd_line g)) (fd_line g)) (fd_suggestion g)\<rparr>" for g
    by (simp only: normalize_def Let_def sev_def cat_def side_def start_def)
  have "sev (sev s) = sev s" for s
    using parse_severity_valid [of U s] severity_fixed [of _ U] by (cases "parse_severity U s") (auto simp: sev_def)
  moreover have "cat (cat s) = cat s" for s
    using parse_category_valid [of U s] category_fixed [of _ U] by (cases "parse_category U s") (auto simp: cat_def)
  moreover have "side (side s) = side s" for s
    by (simp add: side_def side_fixed upper_trim_idem [OF U])
  moreover have "start (start s l) l = start s l" "start s l = 0 \<or> start s l \<noteq> l" for s l
    by (simp_all add: start_def)
  ultimately show ?thesis
    by (simp add: norm comp_def lower_trim_idem [OF U] normalize_evidence_idem [OF U] normalize_suggestion_idem option.map_comp)
qed

definition sample_finding :: finding where
  "sample_finding = \<lparr>fd_path = '' a.go'', fd_side = ''right'', fd_start_line = 4, fd_line = 4, fd_severity = '' p1 '',
     fd_category = ''Bug'', fd_title = ''Missing  tenant check'', fd_scenario = ''s'', fd_symbol = ''f'', fd_evidence = [],
     fd_rule_ids = ['' R1''], fd_suggestion = Some \<lparr>sg_start_line = 0, sg_line = 0, sg_code = ''x''\<rparr>,
     fd_pre_existing = False, fd_confidence = 50, fd_review_type = ''Security'', fd_also_types = [''General'', ''tests'', ''general'']\<rparr>"

theorem normalize_idempotent_witness:
  "normalize ascii_tables (normalize ascii_tables sample_finding) = normalize ascii_tables sample_finding \<and>
   fd_severity (normalize ascii_tables sample_finding) = P1"
proof -
  have "parse_severity ascii_tables '' p1 '' = Inr P1" by code_simp
  then have "fd_severity (normalize ascii_tables sample_finding) = P1"
    by (simp add: normalize_def Let_def sample_finding_def)
  then show ?thesis using normalize_idempotent [OF ascii_tables_ok] by blast
qed

text \<open>\<open>TypeKeys\<close> lists a finding's review types once each, its own (or the default one) first, and is
  never empty.\<close>

theorem type_keys_once:
  "distinct (type_keys f) \<and>
   hd (type_keys f) = (if fd_review_type f = [] then default_type else fd_review_type f) \<and>
   set (type_keys f) = insert (if fd_review_type f = [] then default_type else fd_review_type f) (set (fd_also_types f) - {[]})"
  by (auto simp: type_keys_eq hd_foldl_add_new)

section \<open>A bad suggestion is a fault of its own\<close>

lemma filter_no_suggestion_error:
  "filter (\<lambda>e. \<not> is_suggestion_error e) (evidence_errors es) = evidence_errors es"
proof -
  have "\<not> is_suggestion_error e" if "e \<in> set (evidence_errors es)" for e
    using that by (auto simp: evidence_errors_def is_suggestion_error_def Let_def split: if_splits)
  then show ?thesis by (simp add: filter_id_conv)
qed

text \<open>Every error of a finding but those marked \<open>ErrSuggestion\<close> is there without its suggestion, and
  dropping the suggestion leaves exactly those: a finding whose only faults are the suggestion's
  validates once the suggestion is dropped.\<close>

theorem suggestion_errors_separate:
  "validate (f\<lparr>fd_suggestion := None\<rparr>) = filter (\<lambda>e. \<not> is_suggestion_error e) (validate f)"
proof -
  have k: "filter (\<lambda>e. \<not> is_suggestion_error e) (concat (map (\<lambda>k. if Q k then [] else [BadAlsoType (clip k)]) ks)) =
      concat (map (\<lambda>k. if Q k then [] else [BadAlsoType (clip k)]) ks)" for Q and ks :: "string list"
    by (induction ks) (simp_all add: is_suggestion_error_def)
  have i: "filter (\<lambda>e. \<not> is_suggestion_error e) (concat (map (\<lambda>k. if Q k then [BadRuleID (clip k)] else []) ks)) =
      concat (map (\<lambda>k. if Q k then [BadRuleID (clip k)] else []) ks)" for Q and ks :: "string list"
    by (induction ks) (simp_all add: is_suggestion_error_def)
  have s: "filter (\<lambda>e. \<not> is_suggestion_error e) (case fd_suggestion f of None \<Rightarrow> []
      | Some s \<Rightarrow> (case suggestion_problem_of f s of None \<Rightarrow> [] | Some p \<Rightarrow> [BadSuggestion p])) = []"
    by (simp add: is_suggestion_error_def split: option.split)
  have l: "filter P (if b then [x] else ys) = (if b then (if P x then [x] else []) else filter P ys)" for P b x and ys :: "finding_error list"
    by simp
  have sel: "fd_path (f\<lparr>fd_suggestion := None\<rparr>) = fd_path f"
      "fd_side (f\<lparr>fd_suggestion := None\<rparr>) = fd_side f"
      "fd_start_line (f\<lparr>fd_suggestion := None\<rparr>) = fd_start_line f"
      "fd_line (f\<lparr>fd_suggestion := None\<rparr>) = fd_line f"
      "fd_severity (f\<lparr>fd_suggestion := None\<rparr>) = fd_severity f"
      "fd_category (f\<lparr>fd_suggestion := None\<rparr>) = fd_category f"
      "fd_title (f\<lparr>fd_suggestion := None\<rparr>) = fd_title f"
      "fd_scenario (f\<lparr>fd_suggestion := None\<rparr>) = fd_scenario f"
      "fd_symbol (f\<lparr>fd_suggestion := None\<rparr>) = fd_symbol f"
      "fd_evidence (f\<lparr>fd_suggestion := None\<rparr>) = fd_evidence f"
      "fd_rule_ids (f\<lparr>fd_suggestion := None\<rparr>) = fd_rule_ids f"
      "fd_pre_existing (f\<lparr>fd_suggestion := None\<rparr>) = fd_pre_existing f"
      "fd_confidence (f\<lparr>fd_suggestion := None\<rparr>) = fd_confidence f"
      "fd_review_type (f\<lparr>fd_suggestion := None\<rparr>) = fd_review_type f"
      "fd_also_types (f\<lparr>fd_suggestion := None\<rparr>) = fd_also_types f"
      "fd_suggestion (f\<lparr>fd_suggestion := None\<rparr>) = None"
    by simp_all
  show ?thesis
    unfolding validate_def Let_def filter_append k i s filter_no_suggestion_error sel l
    unfolding is_suggestion_error_def finding_error.case not_False_eq_True if_True option.case filter.simps(1) append_Nil2 by (rule refl)
qed

section \<open>Title terms\<close>

lemma title_words_are_words: "list_all (is_word (not_term U)) (sorted_set (title_words U t))"
  using fields_func_words [of "not_term U" "to_lower U t"] by (auto simp: list_all_iff title_words_def)

lemma not_term_space: "not_term U 32"
  by (simp add: not_term_def is_letter_def is_digit_def)

text \<open>A title counts as the set of its meaningful words: two titles have the same terms exactly when
  they have the same words of two characters or more that are not stop words, in any order, in any
  case, and any number of times.\<close>

theorem title_terms_are_a_set:
  "title_terms U a = title_terms U b \<longleftrightarrow> set (title_words U a) = set (title_words U b)"
proof
  assume "title_terms U a = title_terms U b"
  then have "sorted_set (title_words U a) = sorted_set (title_words U b)"
    unfolding title_terms_def
    by (intro join_words_inj [OF title_words_are_words title_words_are_words not_term_space])
  then show "set (title_words U a) = set (title_words U b)" by (metis sorted_set_set)
qed (simp add: title_terms_def sorted_set_eq)

section \<open>Fingerprints\<close>

lemma terms_no_nul: "CHR 0x00 \<notin> set (title_terms U t)"
proof -
  have "CHR 0x00 \<notin> set w" if "is_word (not_term U) w" for w
  proof -
    have "0 \<notin> set (runes w)" using that by (auto simp: is_word_def list_all_iff not_term_def is_letter_def is_digit_def dest!: bspec [of _ _ 0])
    with ascii_rune [of "CHR 0x00" w] show ?thesis by auto
  qed
  then have "CHR 0x00 \<notin> \<Union> (set ` set (sorted_set (title_words U t)))"
    using title_words_are_words [of U t] unfolding list_all_iff by blast
  moreover have "set (join '' '' ws) \<subseteq> insert CHR '' '' (\<Union> (set ` set ws))" for ws :: "string list"
    by (induction "'' ''" ws rule: join.induct) auto
  ultimately show ?thesis unfolding title_terms_def by blast
qed

definition nul_free :: "string \<Rightarrow> bool" where
  "nul_free s \<longleftrightarrow> CHR 0x00 \<notin> set s"

text \<open>Five fields joined by a separator that may occur in the fourth alone are read back.\<close>

lemma nul_join_inj:
  assumes "concat (map (\<lambda>p. p @ [d]) [a1, a2, a3, x, a5]) = concat (map (\<lambda>p. p @ [d]) [b1, b2, b3, y, b5])"
    and "d \<notin> set a1" "d \<notin> set b1" "d \<notin> set a2" "d \<notin> set b2" "d \<notin> set a3" "d \<notin> set b3" "d \<notin> set a5" "d \<notin> set b5"
  shows "[a1, a2, a3, x, a5] = [b1, b2, b3, y, b5]"
proof -
  have 1: "a1 = b1 \<and> a2 @ d # a3 @ d # x @ d # a5 @ [d] = b2 @ d # b3 @ d # y @ d # b5 @ [d]"
    by (rule append_sep_inj) (use assms in simp_all)
  then have 2: "a2 = b2 \<and> a3 @ d # x @ d # a5 @ [d] = b3 @ d # y @ d # b5 @ [d]"
    by (intro append_sep_inj) (use assms in simp_all)
  then have 3: "a3 = b3 \<and> x @ d # a5 @ [d] = y @ d # b5 @ [d]"
    by (intro append_sep_inj) (use assms in simp_all)
  then have "rev a5 @ d # rev x = rev b5 @ d # rev y"
    by (metis append_butlast_last_id append_is_Nil_conv butlast_snoc rev_append append.assoc append_Cons append_Nil not_Cons_self2 rev.simps(2))
  then have "rev a5 = rev b5 \<and> rev x = rev y" by (rule append_sep_inj) (use assms in simp_all)
  with 1 2 3 show ?thesis by simp
qed

text \<open>C37. A finding's identity: where SHA-256 does not collide on the two inputs and the repository, path and
  category hold no NUL, two findings have one fingerprint exactly when they agree on the repository
  (in any case), the path, the category, the symbol and the set of the title's meaningful words. The
  lines, the severity, the review type and everything else a finding holds have no part in it, and
  no symbol can be written to stand for another finding's fields.\<close>

theorem fingerprint_identity:
  assumes "inj_on sha256_hex {concat (map (\<lambda>part. part @ [CHR 0x00]) (fingerprint_parts U r f)),
                           concat (map (\<lambda>part. part @ [CHR 0x00]) (fingerprint_parts U r' g))}"
    and "list_all nul_free [to_lower U (trim_space r), trim_space (fd_path f), to_lower U (trim_space (fd_category f)),
                        to_lower U (trim_space r'), trim_space (fd_path g), to_lower U (trim_space (fd_category g))]"
  shows "fingerprint U sha256_hex r f = fingerprint U sha256_hex r' g \<longleftrightarrow>
     to_lower U (trim_space r) = to_lower U (trim_space r') \<and> trim_space (fd_path f) = trim_space (fd_path g) \<and>
     to_lower U (trim_space (fd_category f)) = to_lower U (trim_space (fd_category g)) \<and>
     trim_space (fd_symbol f) = trim_space (fd_symbol g) \<and>
     set (title_words U (fd_title f)) = set (title_words U (fd_title g))"
proof -
  have "fingerprint U sha256_hex r f = fingerprint U sha256_hex r' g \<longleftrightarrow>
      concat (map (\<lambda>part. part @ [CHR 0x00]) (fingerprint_parts U r f)) = concat (map (\<lambda>part. part @ [CHR 0x00]) (fingerprint_parts U r' g))"
    using inj_on_eq_iff [OF assms(1)] by (simp add: fingerprint_def)
  also have "\<dots> \<longleftrightarrow> fingerprint_parts U r f = fingerprint_parts U r' g"
  proof
    assume "concat (map (\<lambda>part. part @ [CHR 0x00]) (fingerprint_parts U r f)) = concat (map (\<lambda>part. part @ [CHR 0x00]) (fingerprint_parts U r' g))"
    then show "fingerprint_parts U r f = fingerprint_parts U r' g"
      unfolding fingerprint_parts_def by (rule nul_join_inj) (use assms(2) terms_no_nul [of U] in \<open>simp_all add: nul_free_def\<close>)
  qed simp
  finally show ?thesis by (simp add: fingerprint_parts_def title_terms_are_a_set)
qed

theorem fingerprint_identity_witness:
  "fingerprint ascii_tables id ''Org/Repo'' sample_finding =
   fingerprint ascii_tables id ''org/repo'' (sample_finding\<lparr>fd_line := 9, fd_severity := P0, fd_title := ''The tenant check is missing''\<rparr>)"
proof -
  have "title_words ascii_tables ''Missing  tenant check'' = [''missing'', ''tenant'', ''check'']"
    "title_words ascii_tables ''The tenant check is missing'' = [''tenant'', ''check'', ''missing'']"
    "to_lower ascii_tables (trim_space ''Org/Repo'') = ''org/repo''" "to_lower ascii_tables (trim_space ''org/repo'') = ''org/repo''"
    "trim_space '' a.go'' = ''a.go''" "to_lower ascii_tables (trim_space ''Bug'') = ''bug''"
    by code_simp+
  then show ?thesis
    by (subst fingerprint_identity) (auto simp: nul_free_def sample_finding_def)
qed

end
