(* ===== verification/Score.thy ===== *)
theory Score
  imports Finding "HOL-Library.Multiset"
begin

text \<open>
  internal/review/score.go: the confidence score of the open findings. The loop's three counters are
  the accumulator of \<open>count_open\<close>. The facts are about the multiset of the severities that count, so
  they cover the order of the findings and what pre-existing ones change.
\<close>

definition count_open :: "nat \<times> nat \<times> nat \<Rightarrow> finding \<Rightarrow> nat \<times> nat \<times> nat" where
  "count_open = (\<lambda>(p0, p1, p2) f.
     if fd_pre_existing f then (p0, p1, p2)
     else if fd_severity f = P0 then (p0 + 1, p1, p2)
     else if fd_severity f = P1 then (p0, p1 + 1, p2)
     else (p0, p1, p2 + 1))"

definition score :: "finding list \<Rightarrow> bool \<Rightarrow> bool \<Rightarrow> int" where
  "score opn full_coverage injection_detected =
     (let (p0, p1, p2) = foldl count_open (0, 0, 0) opn;
          s = (if 2 \<le> p0 then 0 else if p0 = 1 then 1 else if 2 \<le> p1 then 2 else if p1 = 1 then 3
               else if 0 < p2 then 4 else 5) in
      if \<not> full_coverage \<or> injection_detected then min s 4 else s)"

section \<open>What counts\<close>

text \<open>The severities the score sees: one for every finding the pull request introduced.\<close>

definition counted :: "finding list \<Rightarrow> severity multiset" where
  "counted opn = mset (map fd_severity (filter (\<lambda>f. \<not> fd_pre_existing f) opn))"

definition others :: "severity multiset \<Rightarrow> nat" where
  "others m = size (filter_mset (\<lambda>s. s \<noteq> P0 \<and> s \<noteq> P1) m)"

lemma count_open_counts:
  "foldl count_open (a, b, c) opn = (a + count (counted opn) P0, b + count (counted opn) P1, c + others (counted opn))"
proof (induction opn arbitrary: a b c)
  case (Cons f opn)
  have "count_open (a, b, c) f =
      (a + (if \<not> fd_pre_existing f \<and> fd_severity f = P0 then 1 else 0),
       b + (if \<not> fd_pre_existing f \<and> fd_severity f = P1 then 1 else 0),
       c + (if \<not> fd_pre_existing f \<and> fd_severity f \<noteq> P0 \<and> fd_severity f \<noteq> P1 then 1 else 0))"
    by (simp add: count_open_def)
  with Cons show ?case by (simp add: counted_def others_def)
qed (simp add: counted_def others_def)

text \<open>The score as a function of the counted severities.\<close>

definition score_of :: "severity multiset \<Rightarrow> bool \<Rightarrow> bool \<Rightarrow> int" where
  "score_of m full steered =
     (let s = (if 2 \<le> count m P0 then 0 else if count m P0 = 1 then 1 else if 2 \<le> count m P1 then 2
               else if count m P1 = 1 then 3 else if 0 < others m then 4 else 5) in
      if \<not> full \<or> steered then min s 4 else s)"

lemma score_counted: "score opn full steered = score_of (counted opn) full steered"
  by (simp add: score_def score_of_def count_open_counts)

lemma counted_empty: "m = {#} \<longleftrightarrow> count m P0 = 0 \<and> count m P1 = 0 \<and> others m = 0"
proof
  assume c: "count m P0 = 0 \<and> count m P1 = 0 \<and> others m = 0"
  then have "set_mset (filter_mset (\<lambda>s. s \<noteq> P0 \<and> s \<noteq> P1) m) = {}" by (simp add: others_def)
  then have "\<forall>x\<in>#m. x = P0 \<or> x = P1" by auto
  moreover have "P0 \<notin># m" "P1 \<notin># m" using c by (simp_all only: not_in_iff simp_thms)
  ultimately show "m = {#}" by (metis multiset_nonemptyE)
qed (simp add: others_def)

lemma score_of_antitone: "m \<subseteq># n \<Longrightarrow> score_of n full steered \<le> score_of m full steered"
proof -
  assume mn: "m \<subseteq># n"
  then have "count m P0 \<le> count n P0" "count m P1 \<le> count n P1" by (simp_all add: subseteq_mset_def)
  moreover have "others m \<le> others n" using multiset_filter_mono [OF mn] by (simp add: others_def size_mset_mono)
  ultimately show ?thesis by (auto simp: score_of_def Let_def min_def)
qed

section \<open>What the score says\<close>

text \<open>The score is between 0 and 5, and 5 means exactly this: no open finding that the pull request
  introduced, of any severity, in a review that saw every changed line and no text written to steer
  it.\<close>

theorem score_five_iff:
  "0 \<le> score opn full steered \<and> score opn full steered \<le> 5 \<and>
   (score opn full steered = 5 \<longleftrightarrow> list_all fd_pre_existing opn \<and> full \<and> \<not> steered)"
proof -
  have e: "counted opn = {#} \<longleftrightarrow> list_all fd_pre_existing opn"
    by (auto simp: counted_def list_all_iff filter_empty_conv)
  have "score_of m full steered = 5 \<longleftrightarrow> m = {#} \<and> full \<and> \<not> steered" for m
    unfolding counted_empty by (simp add: score_of_def Let_def)
  then show ?thesis by (simp add: score_counted e) (simp add: score_of_def Let_def)
qed

text \<open>More findings never raise the score: where every severity counted in one list is counted at least
  as often in the other, the other's score is no higher. The order of the findings and the
  pre-existing ones have no part in it.\<close>

theorem score_antitone:
  assumes "counted xs \<subseteq># counted ys"
  shows "score ys full steered \<le> score xs full steered"
  using score_of_antitone [OF assms] by (simp add: score_counted)

definition open_finding :: "severity \<Rightarrow> bool \<Rightarrow> finding" where
  "open_finding s pre = \<lparr>fd_path = ''a'', fd_side = Right, fd_start_line = 0, fd_line = 1, fd_severity = s, fd_category = ''bug'',
     fd_title = ''t'', fd_scenario = ''s'', fd_symbol = [], fd_evidence = [], fd_rule_ids = [], fd_suggestion = None,
     fd_pre_existing = pre, fd_confidence = 0, fd_review_type = [], fd_also_types = []\<rparr>"

theorem score_antitone_witness:
  "score [open_finding P2 False, open_finding P1 False] True False \<le> score [open_finding P0 True, open_finding P1 False] True False \<and>
   score [open_finding P2 False, open_finding P1 False] True False = 3"
proof -
  have "counted [open_finding P0 True, open_finding P1 False] \<subseteq># counted [open_finding P2 False, open_finding P1 False]"
    by (simp add: counted_def open_finding_def)
  from score_antitone [OF this] show ?thesis by (simp add: score_def count_open_def open_finding_def)
qed

text \<open>Capping: the score of an incomplete or steered review is the full score held to 4, so a cap never
  hides a worse one.\<close>

theorem score_capped:
  "score opn full steered = (if full \<and> \<not> steered then score opn True False else min (score opn True False) 4)"
  by (simp add: score_def Let_def split: prod.split)

end
