(* ===== verification/FixBox.thy ===== *)
theory FixBox
  imports TextFacts
begin

text \<open>
  internal/review/fixbox.go: the task-list item that asks for a fix. \<open>fix_box_line\<close> is the regular
  expression on one trimmed line, \<open>fix_box_state\<close> the loop over a comment's lines, with its early
  return on a second item.
\<close>

definition fix_box_text :: string where
  "fix_box_text = ''Fix this on the pull request '' @ [CHR 0xE2, CHR 0x80, CHR 0x94] @ '' attest_tag pushes a commit to its branch''"

text \<open>The mark of the one box a line holds: \<open>^[-*] \[([ xX])\] text$\<close>.\<close>

definition fix_box_line :: "string \<Rightarrow> char option" where
  "fix_box_line line =
     (case line of
        b # sp # l # m # r # sp' # rest \<Rightarrow>
          if b \<in> {CHR ''-'', CHR ''*''} \<and> sp = CHR '' '' \<and> l = CHR ''['' \<and> m \<in> {CHR '' '', CHR ''x'', CHR ''X''} \<and>
             r = CHR '']'' \<and> sp' = CHR '' '' \<and> rest = fix_box_text
          then Some m else None
      | _ \<Rightarrow> None)"

definition lower_mark :: "char \<Rightarrow> char" where
  "lower_mark m = (if m = CHR ''X'' then CHR ''x'' else m)"

fun box_scan :: "char option \<Rightarrow> string list \<Rightarrow> char option" where
  "box_scan st [] = st"
| "box_scan st (line # lines) =
     (case fix_box_line (trim_space line) of
        None \<Rightarrow> box_scan st lines
      | Some m \<Rightarrow> if st \<noteq> None then None else box_scan (Some (lower_mark m)) lines)"

definition fix_box_state :: "string \<Rightarrow> char option" where
  "fix_box_state body = box_scan None (lines_of (crlf_to_lf body))"

definition fix_box_ticked :: "string \<Rightarrow> string \<Rightarrow> bool" where
  "fix_box_ticked before after \<longleftrightarrow> fix_box_state before = Some CHR '' '' \<and> fix_box_state after = Some CHR ''x''"

section \<open>What a tick is\<close>

text \<open>The marks of all the fix items in a comment.\<close>

definition fix_boxes :: "string \<Rightarrow> char list" where
  "fix_boxes body = List.map_filter (\<lambda>line. fix_box_line (trim_space line)) (lines_of (crlf_to_lf body))"

lemma box_scan_spec:
  "box_scan st lines =
     (case List.map_filter (\<lambda>line. fix_box_line (trim_space line)) lines of
        [] \<Rightarrow> st
      | m # ms \<Rightarrow> if st = None \<and> ms = [] then Some (lower_mark m) else None)"
  by (induction st lines rule: box_scan.induct) (auto split: option.split list.split)

lemma fix_box_line_mark: "fix_box_line line = Some m \<Longrightarrow> m \<in> {CHR '' '', CHR ''x'', CHR ''X''}"
  by (auto simp: fix_box_line_def split: list.splits if_splits)

lemma fix_boxes_marks: "set (fix_boxes body) \<subseteq> {CHR '' '', CHR ''x'', CHR ''X''}"
  using fix_box_line_mark by (fastforce simp: fix_boxes_def map_filter_def)

lemma fix_box_state_spec:
  "fix_box_state body = (case fix_boxes body of [m] \<Rightarrow> Some (lower_mark m) | _ \<Rightarrow> None)"
  unfolding fix_box_state_def box_scan_spec fix_boxes_def by (simp split: list.split)

text \<open>An edit asks for a fix exactly when the comment held one fix item, unticked, before it, and holds one
  fix item, ticked in either case, after it. A second item in either body, or none, asks for
  nothing.\<close>

theorem fix_box_ticked_iff:
  "fix_box_ticked before after \<longleftrightarrow>
     fix_boxes before = [CHR '' ''] \<and> (fix_boxes after = [CHR ''x''] \<or> fix_boxes after = [CHR ''X''])"
proof -
  have "fix_box_state body = Some CHR '' '' \<longleftrightarrow> fix_boxes body = [CHR '' '']"
    "fix_box_state body = Some CHR ''x'' \<longleftrightarrow> fix_boxes body = [CHR ''x''] \<or> fix_boxes body = [CHR ''X'']" for body
    using fix_boxes_marks [of body] by (auto simp: fix_box_state_spec lower_mark_def split: list.splits if_splits)
  then show ?thesis by (simp add: fix_box_ticked_def)
qed

end
