(* ===== verification/Marker.thy ===== *)
theory Marker
  imports Finding
begin

text \<open>
  internal/review/marker.go: the hidden markers that identify the bot's own comments. \<open>hmac_hex\<close>, the
  hex-encoded HMAC-SHA256 of a key and a message, is a parameter. \<open>marker_at\<close> is the marker pattern
  at one place in a text and \<open>parse_markers\<close> its leftmost matches; no alternative of the pattern is a
  prefix of another and no class holds the character that ends it, so there is one way to match.
\<close>

record marker_scope =
  ms_org :: int
  ms_repo :: string
  ms_pr :: int

record parsed_marker =
  pm_kind :: string
  pm_id :: string
  pm_mac :: string

definition scope_valid :: "marker_scope \<Rightarrow> bool" where
  "scope_valid sc \<longleftrightarrow> valid_repo_name (ms_repo sc) \<and> 0 < ms_pr sc"

definition marker_kinds :: "string list" where
  "marker_kinds = [''finding'', ''review'', ''run'']"

definition valid_marker_kind :: "string \<Rightarrow> bool" where
  "valid_marker_kind k \<longleftrightarrow> k = ''finding'' \<or> k = ''review'' \<or> k = ''run''"

definition id_char :: "char \<Rightarrow> bool" where
  "id_char c \<longleftrightarrow> ascii_alnum c \<or> c = CHR ''_'' \<or> c = CHR ''-''"

text \<open>\<open>^[A-Za-z0-9_-]{1,64}$\<close>.\<close>

definition marker_id :: "string \<Rightarrow> bool" where
  "marker_id s \<longleftrightarrow> s \<noteq> [] \<and> length s \<le> 64 \<and> list_all id_char s"

definition mac_len :: nat where "mac_len = 16"

definition mac_message :: "unicode \<Rightarrow> marker_scope \<Rightarrow> string \<Rightarrow> string \<Rightarrow> string" where
  "mac_message U sc kind public_id =
     itoa (ms_org sc) @ ''|'' @ to_lower U (ms_repo sc) @ ''|'' @ itoa (ms_pr sc) @ ''|'' @ kind @ ''|'' @ public_id"

definition marker_mac :: "unicode \<Rightarrow> (string \<Rightarrow> string \<Rightarrow> string) \<Rightarrow> string \<Rightarrow> marker_scope \<Rightarrow> string \<Rightarrow> string \<Rightarrow> string" where
  "marker_mac U hmac_hex key sc kind public_id = take mac_len (hmac_hex key (mac_message U sc kind public_id))"

definition marker_text :: "string \<Rightarrow> string \<Rightarrow> string \<Rightarrow> string" where
  "marker_text kind public_id mac = ''<!-- attest_tag:'' @ kind @ ''='' @ public_id @ ''.'' @ mac @ '' -->''"

definition marker :: "unicode \<Rightarrow> (string \<Rightarrow> string \<Rightarrow> string) \<Rightarrow> string \<Rightarrow> marker_scope \<Rightarrow> string \<Rightarrow> string \<Rightarrow> string" where
  "marker U hmac_hex key sc kind public_id =
     (if \<not> valid_marker_kind kind \<or> \<not> marker_id public_id \<or> \<not> scope_valid sc then []
      else marker_text kind public_id (marker_mac U hmac_hex key sc kind public_id))"

section \<open>Reading markers\<close>

fun first_prefix :: "string list \<Rightarrow> string \<Rightarrow> string option" where
  "first_prefix [] s = None"
| "first_prefix (k # ks) s = (if prefix k s then Some k else first_prefix ks s)"

text \<open>A match at the start of the text, and what follows it.\<close>

definition marker_at :: "string \<Rightarrow> (parsed_marker \<times> string) option" where
  "marker_at s = do {
     s1 \<leftarrow> expect ''<!-- attest_tag:'' s;
     kind \<leftarrow> first_prefix marker_kinds s1;
     s2 \<leftarrow> expect ''='' (drop (length kind) s1);
     let i = takeWhile id_char s2;
     if \<not> marker_id i then None else do {
       s3 \<leftarrow> expect ''.'' (dropWhile id_char s2);
       let mac = take mac_len s3;
       if length mac \<noteq> mac_len \<or> \<not> list_all lower_hex mac then None else do {
         s4 \<leftarrow> expect '' -->'' (drop mac_len s3);
         Some (\<lparr>pm_kind = kind, pm_id = i, pm_mac = mac\<rparr>, s4)
       }
     }
   }"

lemma expect_some: "expect p s = Some t \<longleftrightarrow> s = p @ t"
  by (auto simp: expect_def prefix_def)

lemma first_prefix_some: "first_prefix ks s = Some k \<Longrightarrow> k \<in> set ks \<and> prefix k s"
  by (induction ks) (auto split: if_splits)

lemma marker_at_some:
  assumes "marker_at s = Some (m, rest)"
  shows "s = marker_text (pm_kind m) (pm_id m) (pm_mac m) @ rest \<and> valid_marker_kind (pm_kind m) \<and> marker_id (pm_id m) \<and>
    length (pm_mac m) = mac_len \<and> list_all lower_hex (pm_mac m)"
proof -
  obtain s1 kind s2 s3 where s: "s = ''<!-- attest_tag:'' @ s1" "first_prefix marker_kinds s1 = Some kind"
      "drop (length kind) s1 = ''='' @ s2" "marker_id (takeWhile id_char s2)" "dropWhile id_char s2 = ''.'' @ s3"
      "length (take mac_len s3) = mac_len" "list_all lower_hex (take mac_len s3)" "drop mac_len s3 = '' -->'' @ rest"
      "m = \<lparr>pm_kind = kind, pm_id = takeWhile id_char s2, pm_mac = take mac_len s3\<rparr>"
    using assms unfolding marker_at_def
    by (auto simp: expect_some bind_eq_Some_conv Let_def split: if_splits)
  have "prefix kind s1" "valid_marker_kind kind"
    using first_prefix_some [OF s(2)] by (auto simp: marker_kinds_def valid_marker_kind_def)
  then have s1: "s1 = kind @ ''='' @ s2" using s(3) by (auto simp: prefix_def)
  have "s2 = takeWhile id_char s2 @ ''.'' @ s3" using s(5) by (metis takeWhile_dropWhile_id)
  moreover have "s3 = take mac_len s3 @ '' -->'' @ rest" using s(8) by (metis append_take_drop_id)
  ultimately have "s = marker_text kind (takeWhile id_char s2) (take mac_len s3) @ rest"
    using s(1) s1 unfolding marker_text_def by (metis append.assoc)
  then show ?thesis using s(4,6,7,9) \<open>valid_marker_kind kind\<close> by simp
qed

lemma not_id_char: "\<not> id_char CHR ''.''" "\<not> id_char CHR ''|''"
  by (simp_all add: id_char_def ascii_alnum_def lower_az_def upper_az_def is_ascii_digit_def less_eq_char_def)

lemma marker_at_text:
  assumes "valid_marker_kind kind" "marker_id i" "length mac = mac_len" "list_all lower_hex mac"
  shows "marker_at (marker_text kind i mac @ rest) = Some (\<lparr>pm_kind = kind, pm_id = i, pm_mac = mac\<rparr>, rest)"
proof -
  have i: "list_all id_char i" using assms(2) by (simp add: marker_id_def)
  have id: "takeWhile id_char (i @ ''.'' @ x) = i" "dropWhile id_char (i @ ''.'' @ x) = ''.'' @ x" for x
    using i not_id_char by (simp_all add: takeWhile_append dropWhile_append list_all_iff)
  have k: "first_prefix marker_kinds (kind @ ''='' @ x) = Some kind" for x
    using assms(1) by (auto simp: valid_marker_kind_def marker_kinds_def)
  have e: "expect p (p @ x) = Some x" for p x by (simp add: expect_some)
  have d: "drop (length kind) (kind @ x) = x" for x by simp
  have m: "take mac_len (mac @ x) = mac" "drop mac_len (mac @ x) = x" for x using assms(3) by simp_all
  show ?thesis
    unfolding marker_at_def marker_text_def append.assoc e bind.bind_lunit k Let_def d id m
    by (simp add: assms)
qed

lemma marker_at_shorter: "marker_at s = Some (m, rest) \<Longrightarrow> length rest < length s"
  using marker_at_some [of s m rest] by (auto simp: marker_text_def)

function parse_markers :: "string \<Rightarrow> parsed_marker list" where
  "parse_markers s =
     (if s = [] then []
      else case marker_at s of
          Some (m, rest) \<Rightarrow> m # parse_markers rest
        | None \<Rightarrow> parse_markers (tl s))"
  by pat_completeness auto
termination
  by (relation "measure length") (auto dest: marker_at_shorter)

declare parse_markers.simps [simp del]

section \<open>Verifying them\<close>

definition verify :: "unicode \<Rightarrow> (string \<Rightarrow> string \<Rightarrow> string) \<Rightarrow> string \<Rightarrow> marker_scope \<Rightarrow> parsed_marker \<Rightarrow> bool" where
  "verify U hmac_hex key sc m \<longleftrightarrow>
     (if key = [] \<or> \<not> scope_valid sc \<or> \<not> valid_marker_kind (pm_kind m) \<or> \<not> marker_id (pm_id m) \<or> length (pm_mac m) \<noteq> mac_len
      then False
      else marker_mac U hmac_hex key sc (pm_kind m) (pm_id m) = pm_mac m)"

definition verified_marker ::
  "unicode \<Rightarrow> (string \<Rightarrow> string \<Rightarrow> string) \<Rightarrow> string \<Rightarrow> marker_scope \<Rightarrow> string \<Rightarrow> string \<Rightarrow> string option" where
  "verified_marker U hmac_hex key sc body kind =
     map_option pm_id (List.find (\<lambda>m. pm_kind m = kind \<and> verify U hmac_hex key sc m) (parse_markers body))"

section \<open>Facts\<close>

lemma parse_markers_Nil [simp]: "parse_markers [] = []"
  by (subst parse_markers.simps) simp

lemma parse_markers_skip: "CHR ''<'' \<notin> set pre \<Longrightarrow> parse_markers (pre @ s) = parse_markers s"
proof (induction pre)
  case (Cons c pre)
  then have "marker_at ((c # pre) @ s) = None" by (simp add: marker_at_def expect_def)
  with Cons show ?case by (subst parse_markers.simps) simp
qed simp

lemma parse_markers_hit: "marker_at s = Some (m, rest) \<Longrightarrow> parse_markers s = m # parse_markers rest"
  by (subst parse_markers.simps) (auto simp: marker_at_def expect_def)

lemma parse_markers_contains:
  "m \<in> set (parse_markers s) \<Longrightarrow> contains (marker_text (pm_kind m) (pm_id m) (pm_mac m)) s"
proof (induction s rule: parse_markers.induct)
  case (1 s)
  show ?case
  proof (cases "marker_at s")
    case None
    show ?thesis
    proof (cases "s = []")
      case False
      with None have "parse_markers s = parse_markers (tl s)" by (subst parse_markers.simps) simp
      with 1(1) [OF False None] 1(3) have "contains (marker_text (pm_kind m) (pm_id m) (pm_mac m)) (tl s)" by simp
      with False show ?thesis by (cases s) simp_all
    qed (use 1(3) in simp)
  next
    case (Some mr)
    obtain n rest where mr: "mr = (n, rest)" by (cases mr)
    have s: "s = marker_text (pm_kind n) (pm_id n) (pm_mac n) @ rest" "s \<noteq> []"
      using marker_at_some [of s n rest] Some mr marker_at_shorter [of s n rest] by auto
    have "m = n \<or> m \<in> set (parse_markers rest)" using 1(3) Some mr parse_markers_hit [of s n rest] by simp
    then show ?thesis
    proof
      assume "m = n"
      then show ?thesis using s by (simp add: contains_iff_sublist)
    next
      assume "m \<in> set (parse_markers rest)"
      with 1(2) [OF s(2) Some] mr have "sublist (marker_text (pm_kind m) (pm_id m) (pm_mac m)) rest"
        by (simp add: contains_iff_sublist)
      then obtain us vs where "rest = us @ marker_text (pm_kind m) (pm_id m) (pm_mac m) @ vs" by (auto simp: sublist_def)
      then have "s = (marker_text (pm_kind n) (pm_id n) (pm_mac n) @ us) @ marker_text (pm_kind m) (pm_id m) (pm_mac m) @ vs"
        using s(1) by simp
      then show ?thesis unfolding contains_iff_sublist sublist_def by blast
    qed
  qed
qed


lemma of_char_bar: "of_char CHR ''|'' = (124 :: nat)"
  by simp

lemma to_lower_no_bar: "valid_repo_name r \<Longrightarrow> CHR ''|'' \<notin> set (to_lower U r)"
proof -
  assume "valid_repo_name r"
  then have "list_all (atom repo_name) r" by (simp add: valid_repo_name_def rmatch_atoms)
  moreover have "atom repo_name c \<Longrightarrow> ascii c \<and> ascii_lower (of_char c) \<noteq> 124 \<and> ascii_lower (of_char c) < 128" for c
    by (auto simp: repo_name_def ascii_alnum_def lower_az_def upper_az_def is_ascii_digit_of_char less_eq_char_def ascii_lower_def
        dest!: atom_rupto atom_rrep)
  ultimately have "list_all (\<lambda>c. ascii c \<and> ascii_lower (of_char c) \<noteq> 124 \<and> ascii_lower (of_char c) < 128) r"
    by (simp add: list_all_iff)
  then show ?thesis
  proof (induction r)
    case (Cons c r)
    then have "to_lower U (c # r) = char_of (ascii_lower (of_char c)) # to_lower U r"
      by (simp add: to_lower_def map_runes_def runes_def lower_rune_def encode_rune_def)
    moreover have "CHR ''|'' \<noteq> char_of (ascii_lower (of_char c))"
    proof
      assume "CHR ''|'' = char_of (ascii_lower (of_char c))"
      then have "(124 :: nat) = of_char (char_of (ascii_lower (of_char c)) :: char)" by (metis of_char_bar)
      also have "\<dots> = ascii_lower (of_char c)" using Cons.prems by simp
      finally show False using Cons.prems by simp
    qed
    ultimately show ?case using Cons by simp
  qed (simp add: to_lower_def map_runes_def)
qed

lemma show_nat_no_bar: "CHR ''|'' \<notin> set (show_nat n)"
  using show_nat_digits [of n] by (auto simp: list_all_iff is_ascii_digit_of_char)

lemma itoa_no_bar: "CHR ''|'' \<notin> set (itoa i)"
  by (simp add: itoa_def show_nat_no_bar)

lemma itoa_inj: "itoa i = itoa j \<Longrightarrow> i = j"
proof -
  assume eq: "itoa i = itoa j"
  have h: "hd (show_nat n) \<noteq> CHR ''-''" for n
    using digits_no_sign [OF show_nat_digits [of n]] by simp
  then have c: "show_nat n \<noteq> CHR ''-'' # s" for n s by (metis list.sel(1))
  have n: "show_nat m = show_nat n \<Longrightarrow> m = n" for m n using digits_val_show_nat by metis
  show ?thesis
    using eq c [of "nat i"] c [of "nat j"] not_sym [OF c [of "nat j"]] n [of "nat i" "nat j"] n [of "nat (- i)" "nat (- j)"]
    by (auto simp: itoa_def eq_nat_nat_iff split: if_splits)
qed

section \<open>What a marker proves\<close>

text \<open>C35. A marker reads back: with a key, the text \<open>Marker\<close> renders verifies for its own scope, wherever it
  stands in a comment after text without an angle bracket, and gives its public id, whatever follows
  it.\<close>

theorem marker_verifies:
  assumes "valid_marker_kind kind" and "marker_id public_id" and "scope_valid sc" and "key \<noteq> []"
    and "length (hmac_hex key (mac_message U sc kind public_id)) = 64"
    and "list_all lower_hex (hmac_hex key (mac_message U sc kind public_id))"
    and "CHR ''<'' \<notin> set pre"
  shows "verified_marker U hmac_hex key sc (pre @ marker U hmac_hex key sc kind public_id @ post) kind = Some public_id"
proof -
  let ?mac = "marker_mac U hmac_hex key sc kind public_id"
  have mac: "length ?mac = mac_len" "list_all lower_hex ?mac"
    using assms(5,6) by (auto simp: marker_mac_def mac_len_def list_all_iff dest: in_set_takeD)
  have "parse_markers (pre @ marker U hmac_hex key sc kind public_id @ post) =
      \<lparr>pm_kind = kind, pm_id = public_id, pm_mac = ?mac\<rparr> # parse_markers post"
    using parse_markers_hit [OF marker_at_text [OF assms(1,2) mac]] assms(1-3) by (simp add: marker_def parse_markers_skip [OF assms(7)])
  then show ?thesis using assms(1-4) mac(1) by (simp add: verified_marker_def verify_def)
qed

definition sample_scope :: marker_scope where
  "sample_scope = \<lparr>ms_org = 7, ms_repo = ''Org/repo'', ms_pr = 12\<rparr>"

theorem marker_verifies_witness:
  "verified_marker ascii_tables (\<lambda>k m. replicate 64 CHR ''a'') ''k'' sample_scope
     (''See '' @ marker ascii_tables (\<lambda>k m. replicate 64 CHR ''a'') ''k'' sample_scope ''finding'' ''f1'' @ '' <'') ''finding'' = Some ''f1''"
  by (rule marker_verifies) code_simp+

text \<open>C36. Nothing verifies but what \<open>Marker\<close> rendered: a comment from which \<open>VerifiedMarker\<close> takes an id holds,
  character for character, the marker this key makes for this very scope, kind and id, and no scope
  without a repository and a pull request, and no empty key, verifies anything.\<close>

theorem verified_is_rendered:
  assumes "verified_marker U hmac_hex key sc body kind = Some public_id"
  shows "contains (marker U hmac_hex key sc kind public_id) body \<and> marker U hmac_hex key sc kind public_id \<noteq> [] \<and>
    key \<noteq> [] \<and> scope_valid sc"
proof -
  obtain m where m: "m \<in> set (parse_markers body)" "pm_kind m = kind" "verify U hmac_hex key sc m" "pm_id m = public_id"
    using assms find_some by (fastforce simp: verified_marker_def)
  have "marker U hmac_hex key sc kind public_id = marker_text (pm_kind m) (pm_id m) (pm_mac m)"
    using m(2-4) by (auto simp: marker_def verify_def split: if_splits)
  with parse_markers_contains [OF m(1)] m(3) show ?thesis
    by (auto simp: verify_def marker_text_def split: if_splits)
qed

theorem verified_is_rendered_witness:
  "contains (marker ascii_tables (\<lambda>k m. replicate 64 CHR ''a'') ''k'' sample_scope ''finding'' ''f1'')
     (''x'' @ marker_text ''finding'' ''f1'' (replicate 16 CHR ''a''))"
proof -
  have "verified_marker ascii_tables (\<lambda>k m. replicate 64 CHR ''a'') ''k'' sample_scope
     (''x'' @ marker_text ''finding'' ''f1'' (replicate 16 CHR ''a'')) ''finding'' = Some ''f1''" by code_simp
  from verified_is_rendered [OF this] show ?thesis by blast
qed

text \<open>What is signed tells scopes apart: for valid scopes, kinds and ids two MAC inputs are equal only when
  the organisation, the repository (in any case), the pull request, the kind and the id all are, so a
  marker copied to another pull request or another organisation carries the MAC of another text.\<close>

theorem mac_message_injective:
  assumes "scope_valid sc" and "scope_valid sc'" and "valid_marker_kind kind" and "valid_marker_kind kind'"
    and "marker_id i" and "marker_id i'"
  shows "mac_message U sc kind i = mac_message U sc' kind' i' \<longleftrightarrow>
    ms_org sc = ms_org sc' \<and> to_lower U (ms_repo sc) = to_lower U (ms_repo sc') \<and> ms_pr sc = ms_pr sc' \<and> kind = kind' \<and> i = i'"
proof
  assume eq: "mac_message U sc kind i = mac_message U sc' kind' i'"
  have r: "CHR ''|'' \<notin> set (to_lower U (ms_repo sc))" "CHR ''|'' \<notin> set (to_lower U (ms_repo sc'))"
    using assms(1,2) by (simp_all add: scope_valid_def to_lower_no_bar)
  have k: "CHR ''|'' \<notin> set kind" "CHR ''|'' \<notin> set kind'" using assms(3,4) by (auto simp: valid_marker_kind_def)
  have 1: "itoa (ms_org sc) = itoa (ms_org sc') \<and>
      to_lower U (ms_repo sc) @ CHR ''|'' # itoa (ms_pr sc) @ CHR ''|'' # kind @ CHR ''|'' # i =
      to_lower U (ms_repo sc') @ CHR ''|'' # itoa (ms_pr sc') @ CHR ''|'' # kind' @ CHR ''|'' # i'"
    by (rule append_sep_inj) (use eq itoa_no_bar in \<open>simp_all add: mac_message_def\<close>)
  then have 2: "to_lower U (ms_repo sc) = to_lower U (ms_repo sc') \<and>
      itoa (ms_pr sc) @ CHR ''|'' # kind @ CHR ''|'' # i = itoa (ms_pr sc') @ CHR ''|'' # kind' @ CHR ''|'' # i'"
    by (intro append_sep_inj [where d = "CHR ''|''"]) (use r in simp_all)
  then have 3: "itoa (ms_pr sc) = itoa (ms_pr sc') \<and> kind @ CHR ''|'' # i = kind' @ CHR ''|'' # i'"
    by (intro append_sep_inj [where d = "CHR ''|''"]) (use itoa_no_bar in simp_all)
  then have "kind = kind' \<and> i = i'" by (intro append_sep_inj [where d = "CHR ''|''"]) (use k in simp_all)
  with 1 2 3 itoa_inj show "ms_org sc = ms_org sc' \<and> to_lower U (ms_repo sc) = to_lower U (ms_repo sc') \<and> ms_pr sc = ms_pr sc' \<and> kind = kind' \<and> i = i'"
    by blast
qed (simp add: mac_message_def)

theorem mac_message_injective_witness:
  "mac_message ascii_tables sample_scope ''finding'' ''f1'' \<noteq> mac_message ascii_tables (sample_scope\<lparr>ms_pr := 13\<rparr>) ''finding'' ''f1''"
  proof -
  have "scope_valid sample_scope" "scope_valid (sample_scope\<lparr>ms_pr := 13\<rparr>)" "valid_marker_kind ''finding''" "marker_id ''f1''"
    by code_simp+
  then show ?thesis by (subst mac_message_injective) (simp_all add: sample_scope_def)
qed

end
