(* ===== verification/Command.thy ===== *)
theory Command
  imports Finding
begin

text \<open>
  internal/review/command.go: what a pull request comment asks the bot for. \<open>parse_command\<close> is
  \<open>ParseCommand\<close>, over the lines of the comment; \<open>after_mention\<close> decides whether a line is addressed
  to the bot and \<open>classify\<close> reads the rest of it. The vocabularies are the source's maps, as lists.
\<close>

datatype verb =
    VerbReview
  | VerbFullReview
  | VerbStatus
  | VerbHelp
  | VerbPause
  | VerbResume
  | VerbFix
  | VerbQuestion

record command =
  c_verb :: verb
  c_types :: "string list"
  c_severities :: "severity list"
  c_text :: string

definition plain_command :: "verb \<Rightarrow> command" where
  "plain_command v = \<lparr>c_verb = v, c_types = [], c_severities = [], c_text = []\<rparr>"

section \<open>The mention\<close>

definition mention_sep :: "nat \<Rightarrow> bool" where
  "mention_sep r \<longleftrightarrow> r = 44 \<or> r = 58 \<or> is_space r"

definition after_mention :: "unicode \<Rightarrow> string \<Rightarrow> string \<Rightarrow> string option" where
  "after_mention U line slug =
     (let mention = CHR 0x40 # slug in
      if length line < length mention \<or> \<not> equal_fold U (take (length mention) line) mention then None
      else let rest0 = drop (length mention) line;
               rest = (if 5 \<le> length rest0 \<and> equal_fold U (take 5 rest0) ''[bot]'' then drop 5 rest0 else rest0) in
        if rest = [] then Some []
        else if \<not> mention_sep (fst (decode_rune rest)) then None
        else Some (trim_left_func mention_sep rest))"

section \<open>Vocabularies\<close>

definition command_filler :: "string list" where
  "command_filler = [''please'', ''pls'', ''plz'', ''this'', ''the'', ''pr'', ''it'', ''again'', ''now'', ''and'', ''thanks'', ''thank'', ''you'']"

definition fix_filler :: "string list" where
  "fix_filler = [''all'', ''everything'', ''findings'', ''finding'', ''these'', ''them'', ''that'', ''open'', ''issues'', ''issue'']"

definition pause_words :: "string list" where
  "pause_words = [''review'', ''reviews'', ''reviewing'', ''automatic'', ''auto'']"

definition review_word :: "string \<Rightarrow> bool" where
  "review_word w \<longleftrightarrow> w = ''review'' \<or> w = ''rereview'' \<or> w = ''re-review''"

text \<open>
  \<open>(?i)^why\b.*\bscore\<close>, over runes: case folding also takes U+017F for an s, \<open>\b\<close> is a boundary of
  ASCII word characters and the dot stops at a line break.
\<close>

definition word_rune :: "nat \<Rightarrow> bool" where
  "word_rune r \<longleftrightarrow> (48 \<le> r \<and> r \<le> 57) \<or> (65 \<le> r \<and> r \<le> 90) \<or> (97 \<le> r \<and> r \<le> 122) \<or> r = 95"

definition score_at :: "nat list \<Rightarrow> bool" where
  "score_at rs \<longleftrightarrow> (case rs of
      s # c # o' # r # e # _ \<Rightarrow>
        s \<in> {115, 83, 383} \<and> c \<in> {99, 67} \<and> o' \<in> {111, 79} \<and> r \<in> {114, 82} \<and> e \<in> {101, 69}
    | _ \<Rightarrow> False)"

fun score_follows :: "nat \<Rightarrow> nat list \<Rightarrow> bool" where
  "score_follows prev [] = False"
| "score_follows prev (r # rs) =
     ((word_rune prev \<noteq> word_rune r \<and> score_at (r # rs)) \<or> (r \<noteq> 10 \<and> score_follows r rs))"

definition why_score :: "string \<Rightarrow> bool" where
  "why_score s \<longleftrightarrow> (case runes s of
      w # h # y # rest \<Rightarrow>
        w \<in> {119, 87} \<and> h \<in> {104, 72} \<and> y \<in> {121, 89} \<and> (rest = [] \<or> \<not> word_rune (hd rest)) \<and> score_follows y rest
    | _ \<Rightarrow> False)"

section \<open>The words after a verb\<close>

fun with_severities :: "unicode \<Rightarrow> severity list \<Rightarrow> string list \<Rightarrow> command" where
  "with_severities U sevs [] = (plain_command VerbFix)\<lparr>c_severities := sevs\<rparr>"
| "with_severities U sevs (w0 # ws) =
     (let w = trim_right_set ''.!,:'' w0; sev = to_upper U w in
      if w = [] \<or> w \<in> set command_filler \<or> w \<in> set fix_filler then with_severities U sevs ws
      else if severity_valid sev then with_severities U (add_new sevs sev) ws
      else (plain_command VerbFix)\<lparr>c_severities := sevs\<rparr>)"

definition about_reviews :: "string list \<Rightarrow> bool" where
  "about_reviews ws = list_all (\<lambda>w0. let w = trim_right_set ''.!'' w0 in
     w = [] \<or> w \<in> set command_filler \<or> w \<in> set pause_words) ws"

definition max_command_types :: nat where "max_command_types = 10"

text \<open>\<open>None\<close> is the early return that reads the line as a question.\<close>

fun type_words :: "string list \<Rightarrow> string list \<Rightarrow> string list option" where
  "type_words types [] = Some types"
| "type_words types (w0 # ws) =
     (let w = trim_right_set ''.!'' w0 in
      if w = [] \<or> w \<in> set command_filler then type_words types ws
      else if \<not> valid_type_key w then None
      else type_words (add_new types w) ws)"

definition with_types :: "verb \<Rightarrow> string list \<Rightarrow> command" where
  "with_types v ws = (case type_words [] ws of
     None \<Rightarrow> plain_command VerbQuestion
   | Some types \<Rightarrow>
       if max_command_types < length types then plain_command VerbQuestion
       else (plain_command v)\<lparr>c_types := types\<rparr>)"

section \<open>The line\<close>

definition verb_word :: "string list \<Rightarrow> nat \<Rightarrow> string" where
  "verb_word ws i = (if length ws \<le> i then [] else trim_right_set ''.!?:'' (ws ! i))"

definition command_words :: "unicode \<Rightarrow> string \<Rightarrow> string list" where
  "command_words U rest = fields_func (\<lambda>r. r = 44 \<or> is_space r) (to_lower U rest)"

definition classify_words :: "unicode \<Rightarrow> string list \<Rightarrow> command" where
  "classify_words U ws =
     (let v0 = verb_word ws 0; v1 = verb_word ws 1 in
      if ws = [] \<or> v0 = [] \<or> v0 = ''help'' then plain_command VerbHelp
      else if v0 = ''status'' then plain_command VerbStatus
      else if v0 = ''pause'' \<and> about_reviews (drop 1 ws) then plain_command VerbPause
      else if (v0 = ''resume'' \<or> v0 = ''unpause'') \<and> about_reviews (drop 1 ws) then plain_command VerbResume
      else if v0 = ''full'' \<and> review_word v1 then with_types VerbFullReview (drop 2 ws)
      else if v0 = ''full-review'' then with_types VerbFullReview (drop 1 ws)
      else if review_word v0 then with_types VerbReview (drop 1 ws)
      else if v0 = ''please'' \<and> review_word v1 then with_types VerbReview (drop 2 ws)
      else if v0 = ''fix'' then with_severities U [] (drop 1 ws)
      else if v0 = ''please'' \<and> v1 = ''fix'' then with_severities U [] (drop 2 ws)
      else plain_command VerbQuestion)"

definition classify :: "unicode \<Rightarrow> string \<Rightarrow> command" where
  "classify U rest = (if why_score rest then plain_command VerbStatus else classify_words U (command_words U rest))"

section \<open>The comment\<close>

fun command_lines :: "unicode \<Rightarrow> string \<Rightarrow> string list \<Rightarrow> command option" where
  "command_lines U slug [] = None"
| "command_lines U slug (raw # raws) =
     (let line = trim_space raw in
      if line = [] \<or> prefix ''>'' line then command_lines U slug raws
      else case after_mention U line slug of
          None \<Rightarrow> None
        | Some rest \<Rightarrow>
            Some ((classify U rest)\<lparr>c_text := trim_space (join [CHR 0x0A] (rest # raws))\<rparr>))"

definition parse_command :: "unicode \<Rightarrow> string \<Rightarrow> string \<Rightarrow> command option" where
  "parse_command U body slug0 =
     (let slug = trim_prefix [CHR 0x40] (trim_space slug0) in
      if slug = [] then None else command_lines U slug (lines_of (crlf_to_lf body)))"

section \<open>Well-formed commands\<close>

definition command_ok :: "command \<Rightarrow> bool" where
  "command_ok c \<longleftrightarrow> distinct (c_types c) \<and> list_all valid_type_key (c_types c) \<and> length (c_types c) \<le> 10 \<and>
     distinct (c_severities c) \<and> list_all severity_valid (c_severities c) \<and>
     (c_types c = [] \<or> c_verb c = VerbReview \<or> c_verb c = VerbFullReview) \<and> (c_severities c = [] \<or> c_verb c = VerbFix)"

lemma plain_command_ok [simp]: "command_ok (plain_command v)"
  by (simp add: command_ok_def plain_command_def)

lemma text_ok [simp]: "command_ok (c\<lparr>c_text := s\<rparr>) = command_ok c"
  by (simp add: command_ok_def)

lemma type_words_ok:
  "type_words types ws = Some types' \<Longrightarrow> distinct types \<Longrightarrow> list_all valid_type_key types \<Longrightarrow>
     distinct types' \<and> list_all valid_type_key types'"
proof (induction ws arbitrary: types)
  case (Cons w0 ws)
  have more: "distinct types' \<and> list_all valid_type_key types'"
    if "type_words (add_new types w) ws = Some types'" "valid_type_key w" for w
    by (rule Cons.IH [OF that(1)]) (use Cons.prems that(2) in \<open>simp_all add: list_all_iff\<close>)
  show ?case
    using Cons.prems(1) more Cons.IH [OF _ Cons.prems(2,3)] unfolding type_words.simps Let_def
    by (simp only: split: if_splits) blast+
qed simp

lemma with_types_ok: "v = VerbReview \<or> v = VerbFullReview \<Longrightarrow> command_ok (with_types v ws)"
  using type_words_ok [of "[]" ws]
  by (auto simp: with_types_def command_ok_def plain_command_def max_command_types_def split: option.split)

lemma with_severities_ok:
  "distinct sevs \<Longrightarrow> list_all severity_valid sevs \<Longrightarrow> command_ok (with_severities U sevs ws)"
proof (induction ws arbitrary: sevs)
  case Nil
  then show ?case by (simp add: command_ok_def plain_command_def)
next
  case (Cons w0 ws)
  have stop: "command_ok ((plain_command VerbFix)\<lparr>c_severities := sevs\<rparr>)"
    using Cons.prems by (simp add: command_ok_def plain_command_def)
  have more: "command_ok (with_severities U (add_new sevs s) ws)" if "severity_valid s" for s
    by (rule Cons.IH) (use Cons.prems that in \<open>simp_all add: list_all_iff\<close>)
  show ?case
    unfolding with_severities.simps Let_def using stop more Cons.IH [OF Cons.prems] by (simp only: split: if_split) blast
qed

lemma if_command_ok: "command_ok a \<Longrightarrow> command_ok b \<Longrightarrow> command_ok (if p then a else b)"
  by simp

lemma classify_ok: "command_ok (classify U rest)"
  unfolding classify_def classify_words_def Let_def
  by (intro if_command_ok plain_command_ok with_types_ok with_severities_ok) simp_all

lemma command_lines_ok: "command_lines U slug ls = Some c \<Longrightarrow> command_ok c"
  by (induction ls) (auto simp: Let_def classify_ok split: if_splits option.splits)

text \<open>What \<open>ParseCommand\<close> returns is well formed whatever the comment says: at most ten review types, each
  shaped like a key and named once, and only on a review or a full review; severities that are P0, P1 or
  P2, each once, and only on a fix.\<close>

theorem parse_command_ok:
  assumes "parse_command U body slug = Some c"
  shows "distinct (c_types c) \<and> list_all valid_type_key (c_types c) \<and> length (c_types c) \<le> 10 \<and>
    distinct (c_severities c) \<and> list_all severity_valid (c_severities c) \<and>
    (c_types c = [] \<or> c_verb c = VerbReview \<or> c_verb c = VerbFullReview) \<and> (c_severities c = [] \<or> c_verb c = VerbFix)"
  using assms command_lines_ok by (auto simp: parse_command_def command_ok_def Let_def split: if_splits)

theorem parse_command_ok_witness:
  "distinct [''security'', ''tests''] \<and>
   parse_command ascii_tables ''@bot: review security, tests, security please'' ''bot'' =
     Some \<lparr>c_verb = VerbReview, c_types = [''security'', ''tests''], c_severities = [],
           c_text = ''review security, tests, security please''\<rparr>"
proof -
  have c: "parse_command ascii_tables ''@bot: review security, tests, security please'' ''bot'' =
     Some \<lparr>c_verb = VerbReview, c_types = [''security'', ''tests''], c_severities = [],
           c_text = ''review security, tests, security please''\<rparr>" by code_simp
  from parse_command_ok [OF this] c show ?thesis by simp
qed

section \<open>Who is addressed\<close>

definition ends_mention :: "string \<Rightarrow> bool" where
  "ends_mention s \<longleftrightarrow> s = [] \<or> mention_sep (fst (decode_rune s))"

definition addressed :: "unicode \<Rightarrow> string \<Rightarrow> string \<Rightarrow> bool" where
  "addressed U line slug \<longleftrightarrow>
     (let n = Suc (length slug); rest = drop n line in
      n \<le> length line \<and> equal_fold U (take n line) (CHR 0x40 # slug) \<and>
      (ends_mention rest \<or> (5 \<le> length rest \<and> equal_fold U (take 5 rest) ''[bot]'' \<and> ends_mention (drop 5 rest))))"

lemma after_mention_addressed: "after_mention U line slug = Some rest \<Longrightarrow> addressed U line slug"
  by (auto simp: after_mention_def addressed_def ends_mention_def Let_def not_less Suc_le_eq split: if_splits)

definition passed_over :: "string \<Rightarrow> bool" where
  "passed_over raw \<longleftrightarrow> trim_space raw = [] \<or> prefix ''>'' (trim_space raw)"

lemma command_lines_addressed:
  "command_lines U slug ls = Some c \<Longrightarrow>
     \<exists>pre raw post. ls = pre @ raw # post \<and> list_all passed_over pre \<and> addressed U (trim_space raw) slug"
proof (induction ls)
  case (Cons raw raws)
  show ?case
  proof (cases "passed_over raw")
    case True
    with Cons.prems have "command_lines U slug raws = Some c" by (simp add: passed_over_def Let_def)
    from Cons.IH [OF this] obtain pre r post
      where "raws = pre @ r # post" "list_all passed_over pre" "addressed U (trim_space r) slug" by blast
    with True have "raw # raws = (raw # pre) @ r # post \<and> list_all passed_over (raw # pre) \<and> addressed U (trim_space r) slug" by simp
    then show ?thesis by blast
  next
    case False
    with Cons.prems have "addressed U (trim_space raw) slug"
      using after_mention_addressed by (fastforce simp: passed_over_def Let_def split: option.splits)
    then have "raw # raws = [] @ raw # raws \<and> list_all passed_over [] \<and> addressed U (trim_space raw) slug" by simp
    then show ?thesis by blast
  qed
qed simp

text \<open>Only a comment addressed to the bot is a command: its first line that is neither blank nor quoted
  begins with the mention, in any case, and the mention (with or without the App's suffix) ends at a
  space, a comma, a colon or the end of the line. A mention further down, in a quote or inside a
  sentence starts nothing.\<close>

theorem commands_are_addressed:
  assumes "parse_command U body slug = Some c"
  shows "\<exists>pre raw post. lines_of (crlf_to_lf body) = pre @ raw # post \<and> list_all passed_over pre \<and>
    addressed U (trim_space raw) (trim_prefix [CHR 0x40] (trim_space slug))"
  using assms command_lines_addressed by (auto simp: parse_command_def Let_def split: if_splits)

theorem commands_are_addressed_witness:
  "\<exists>pre raw post. lines_of (crlf_to_lf (''> @bot review'' @ CHR 0x0A # ''@Bot[bot] status'')) = pre @ raw # post \<and>
     list_all passed_over pre \<and> addressed ascii_tables (trim_space raw) (trim_prefix [CHR 0x40] (trim_space ''bot''))"
proof -
  have "parse_command ascii_tables (''> @bot review'' @ CHR 0x0A # ''@Bot[bot] status'') ''bot'' =
      Some \<lparr>c_verb = VerbStatus, c_types = [], c_severities = [], c_text = ''status''\<rparr>" by code_simp
  then show ?thesis by (rule commands_are_addressed)
qed

lemma equal_fold_refl: "equal_fold U s s"
  by (simp add: equal_fold_def list_all2_refl fold_eq_def)

text \<open>A longer name is somebody else's: a line that goes on from the mention with an ASCII character that is
  not a separator and not the bracket of the App's suffix is not addressed to the bot, so a development
  App's commands are never answered by the production one.\<close>

theorem longer_name_is_another:
  assumes "ascii c" and "\<not> mention_sep (of_char c)" and "c \<noteq> CHR ''[''"
  shows "after_mention U (CHR 0x40 # slug @ c # rest) slug = None"
proof -
  have "\<not> equal_fold U (take 5 (c # rest)) ''[bot]''"
  proof
    assume "equal_fold U (take 5 (c # rest)) ''[bot]''"
    then have "fold_eq U (of_char c) 91" using assms(1) by (simp add: equal_fold_def runes_def)
    then have "of_char c = (91 :: nat)" using assms(1) by (auto simp: fold_eq_def ascii_lower_def split: if_splits)
    moreover have "of_char CHR ''['' = (91 :: nat)" by simp
    ultimately have "c = CHR ''[''" by (metis of_char_eq_iff)
    with assms(3) show False ..
  qed
  then show ?thesis using assms(1,2) by (simp add: after_mention_def Let_def equal_fold_refl decode_rune_ascii)
qed

theorem longer_name_is_another_witness: "after_mention ascii_tables ''@bot-dev review'' ''bot'' = None"
  using longer_name_is_another [of "CHR ''-''" ascii_tables "''bot''" "''dev review''"]
  by (simp add: mention_sep_def is_space_def)

end
