(* ===== verification/Rules.thy ===== *)
theory Rules
  imports Finding Glob
begin

text \<open>
  internal/review/rules.go: which branch rule a pull request falls under, what label rules add to it,
  and what a saved list of rules must satisfy. \<open>branch_matcher\<close> is the contract the rules need of the
  glob matcher (an empty pattern is any branch); it is interpreted on \<open>glob_match\<close> below. The announcement
  channel of a rule (\<open>NotifyChannel\<close>, settings.go) is here too, since a rule carries one.
\<close>

section \<open>Channels\<close>

record notify_channel =
  nc_team :: string
  nc_channel :: string

datatype notify_error =
    WorkspaceAlone
  | NotifyIDLong string
  | NotifyNotID string string

definition space_or_control :: "nat \<Rightarrow> bool" where
  "space_or_control r \<longleftrightarrow> is_space r \<or> is_control r"

definition notify_id_errors :: "string \<Rightarrow> string \<Rightarrow> notify_error list" where
  "notify_id_errors name v =
     (if 200 < length v then [NotifyIDLong name] else []) @
     (if contains_func space_or_control v then [NotifyNotID name (clip v)] else [])"

definition notify_validate :: "notify_channel \<Rightarrow> notify_error list" where
  "notify_validate n =
     (if nc_channel n = [] \<and> nc_team n \<noteq> [] then [WorkspaceAlone] else []) @
     notify_id_errors ''team'' (nc_team n) @ notify_id_errors ''channel'' (nc_channel n)"

section \<open>The settings a rule may override\<close>

type_synonym mode = string
type_synonym trigger = string
type_synonym strictness = string

abbreviation ModeOff :: mode where "ModeOff \<equiv> ''off''"
abbreviation ModeShadow :: mode where "ModeShadow \<equiv> ''shadow''"
abbreviation ModeLive :: mode where "ModeLive \<equiv> ''live''"

definition mode_valid :: "mode \<Rightarrow> bool" where
  "mode_valid m \<longleftrightarrow> m = ModeOff \<or> m = ModeShadow \<or> m = ModeLive"

definition trigger_valid :: "trigger \<Rightarrow> bool" where
  "trigger_valid t \<longleftrightarrow> t = ''command'' \<or> t = ''open'' \<or> t = ''push''"

definition strictness_valid :: "strictness \<Rightarrow> bool" where
  "strictness_valid s \<longleftrightarrow> s = ''low'' \<or> s = ''medium'' \<or> s = ''high''"

definition valid_model_name :: "string \<Rightarrow> bool" where
  "valid_model_name s \<longleftrightarrow> s \<noteq> [] \<and> length s \<le> 100 \<and> \<not> contains_func space_or_control s"

section \<open>Branch rules\<close>

record branch_rule =
  br_base :: string
  br_head :: string
  br_labels :: "string list"
  br_types :: "string list"
  br_trigger :: trigger
  br_strictness :: strictness
  br_post :: mode
  br_model :: string
  br_notify :: "notify_channel option"

definition fallback :: "branch_rule \<Rightarrow> bool" where
  "fallback r \<longleftrightarrow> br_base r = [] \<and> br_head r = [] \<and> br_labels r = []"

definition label_rule :: "branch_rule \<Rightarrow> bool" where
  "label_rule r \<longleftrightarrow> br_labels r \<noteq> []"

definition arrow :: string where "arrow = '' '' @ [CHR 0xE2, CHR 0x86, CHR 0x92] @ '' ''"

definition rule_string :: "branch_rule \<Rightarrow> string" where
  "rule_string r =
     (let any = (\<lambda>s. if s = [] then ''any'' else s);
          branches = any (br_head r) @ arrow @ any (br_base r) in
      if \<not> label_rule r then branches
      else ''label:'' @ join ''|'' (br_labels r) @
           (if br_base r \<noteq> [] \<or> br_head r \<noteq> [] then '' on '' @ branches else []))"

section \<open>Matching a rule\<close>

text \<open>The first element that satisfies a test, with its index: Go's \<open>for i, r := range\<close> with a return.\<close>

fun first_where :: "('a \<Rightarrow> bool) \<Rightarrow> nat \<Rightarrow> 'a list \<Rightarrow> (nat \<times> 'a) option" where
  "first_where P i [] = None"
| "first_where P i (x # xs) = (if P x then Some (i, x) else first_where P (Suc i) xs)"

definition on_branches :: "(string \<Rightarrow> string \<Rightarrow> bool) \<Rightarrow> string \<Rightarrow> string \<Rightarrow> branch_rule \<Rightarrow> bool" where
  "on_branches glob base head r \<longleftrightarrow> glob (br_base r) base \<and> glob (br_head r) head"

text \<open>The copy \<open>MatchRule\<close> returns: slices and pointers are values here, so only the default type shows.\<close>

definition with_default_type :: "branch_rule \<Rightarrow> branch_rule" where
  "with_default_type r = (if br_types r = [] then r\<lparr>br_types := [default_type]\<rparr> else r)"

definition match_rule :: "branch_rule list \<Rightarrow> string \<Rightarrow> string \<Rightarrow> (nat \<times> branch_rule) option" where
  "match_rule rules base head =
     map_option (\<lambda>(i, r). (i, with_default_type r))
       (first_where (\<lambda>r. \<not> label_rule r \<and> on_branches glob_match base head r) 0 rules)"

section \<open>Label rules\<close>

text \<open>The pull request's spelling of the first label of the rule it carries, or the empty string.\<close>

fun rule_label :: "unicode \<Rightarrow> string list \<Rightarrow> string list \<Rightarrow> string" where
  "rule_label U labels [] = []"
| "rule_label U labels (want # wants) =
     (case List.find (\<lambda>l. equal_fold U (trim_space l) (trim_space want)) labels of
        Some l \<Rightarrow> l
      | None \<Rightarrow> rule_label U labels wants)"

definition add_type :: "string list \<times> string list \<times> bool \<Rightarrow> string \<Rightarrow> string list \<times> string list \<times> bool" where
  "add_type = (\<lambda>(seen, add, added) t. if t \<in> set seen then (seen, add, added) else (seen @ [t], add @ [t], True))"

definition label_step :: "unicode \<Rightarrow> string \<Rightarrow> string \<Rightarrow> string list \<Rightarrow>
    string list \<times> string list \<times> string list \<Rightarrow> branch_rule \<Rightarrow> string list \<times> string list \<times> string list" where
  "label_step U base head labels = (\<lambda>(seen, add, matched) r.
     if \<not> label_rule r \<or> \<not> on_branches glob_match base head r then (seen, add, matched)
     else let label = rule_label U labels (br_labels r) in
       if label = [] then (seen, add, matched)
       else let (seen', add', added) = foldl add_type (seen, add, False) (br_types r) in
         (seen', add', if added \<and> \<not> list_ex (\<lambda>m. equal_fold U m label) matched then matched @ [label] else matched))"

definition label_types ::
  "unicode \<Rightarrow> branch_rule list \<Rightarrow> string \<Rightarrow> string \<Rightarrow> string list \<Rightarrow> string list \<Rightarrow> string list \<times> string list" where
  "label_types U rules base head labels hav =
     (if labels = [] then ([], [])
      else let (seen, add, matched) = foldl (label_step U base head labels) (hav, [], []) rules in (add, matched))"

section \<open>Validating rules\<close>

datatype rule_error =
    GlobTooLong string
  | GlobSpaces string string
  | TooManyRuleTypes nat
  | NotTypeKey string
  | TypeTwice string
  | TooManyLabels nat
  | LabelLength string
  | LabelLines string
  | LabelTwice string
  | LabelNoTypes
  | LabelOverrides
  | RuleTrigger string
  | RuleStrictness string
  | RulePost string
  | RuleModel string
  | RuleNotify "notify_error list"

definition glob_errors :: "string \<Rightarrow> string \<Rightarrow> rule_error list" where
  "glob_errors name g =
     (if 200 < length g then [GlobTooLong name] else []) @
     (if contains_func space_or_control g then [GlobSpaces name (clip g)] else [])"

fun type_errors :: "string set \<Rightarrow> string list \<Rightarrow> rule_error list" where
  "type_errors seen [] = []"
| "type_errors seen (t # ts) =
     (if \<not> valid_type_key t then [NotTypeKey (clip t)] else if t \<in> seen then [TypeTwice (clip t)] else []) @
     type_errors (insert t seen) ts"

fun label_errors :: "unicode \<Rightarrow> string set \<Rightarrow> string list \<Rightarrow> rule_error list" where
  "label_errors U seen [] = []"
| "label_errors U seen (l # ls) =
     (if trim_space l = [] \<or> 50 < rune_count l then [LabelLength (clip l)]
      else if contains_func is_control l then [LabelLines (clip l)]
      else if to_lower U (trim_space l) \<in> seen then [LabelTwice (clip l)] else []) @
     label_errors U (insert (to_lower U (trim_space l)) seen) ls"

definition rule_validate :: "unicode \<Rightarrow> branch_rule \<Rightarrow> rule_error list" where
  "rule_validate U r =
     glob_errors ''base'' (br_base r) @ glob_errors ''head'' (br_head r) @
     (if 10 < length (br_types r) then [TooManyRuleTypes (length (br_types r))] else []) @
     type_errors {} (br_types r) @
     (if 10 < length (br_labels r) then [TooManyLabels (length (br_labels r))] else []) @
     label_errors U {} (br_labels r) @
     (if label_rule r then
        (if br_types r = [] then [LabelNoTypes] else []) @
        (if br_trigger r \<noteq> [] \<or> br_strictness r \<noteq> [] \<or> br_post r \<noteq> [] \<or> br_model r \<noteq> [] \<or> br_notify r \<noteq> None
         then [LabelOverrides] else [])
      else []) @
     (if br_trigger r \<noteq> [] \<and> \<not> trigger_valid (br_trigger r) then [RuleTrigger (clip (br_trigger r))] else []) @
     (if br_strictness r \<noteq> [] \<and> \<not> strictness_valid (br_strictness r) then [RuleStrictness (clip (br_strictness r))] else []) @
     (if br_post r \<noteq> [] \<and> br_post r \<noteq> ModeShadow \<and> br_post r \<noteq> ModeLive then [RulePost (clip (br_post r))] else []) @
     (if br_model r \<noteq> [] \<and> \<not> valid_model_name (br_model r) then [RuleModel (clip (br_model r))] else []) @
     (case br_notify r of
        None \<Rightarrow> []
      | Some n \<Rightarrow> (let errs = notify_validate n in if errs = [] then [] else [RuleNotify errs]))"

datatype rules_error =
    TooManyRules nat
  | BadRule nat string "rule_error list"
  | FallbackAbove nat nat
  | NoFallback

fun rules_errors :: "unicode \<Rightarrow> nat \<Rightarrow> nat \<Rightarrow> branch_rule list \<Rightarrow> rules_error list" where
  "rules_errors U n i [] = []"
| "rules_errors U n i (r # rs) =
     (let errs = rule_validate U r in if errs = [] then [] else [BadRule (i + 1) (rule_string r) errs]) @
     (if fallback r \<and> i \<noteq> n - 1 then [FallbackAbove (i + 1) (n - 1 - i)] else []) @
     rules_errors U n (i + 1) rs"

definition validate_rules :: "unicode \<Rightarrow> branch_rule list \<Rightarrow> rules_error list" where
  "validate_rules U rules =
     (if 20 < length rules then [TooManyRules (length rules)] else []) @
     rules_errors U (length rules) 0 rules @
     (if rules \<noteq> [] \<and> \<not> fallback (last rules) then [NoFallback] else [])"

section \<open>What the rules need of the matcher\<close>

locale branch_matcher =
  fixes glob :: "string \<Rightarrow> string \<Rightarrow> bool"
  assumes empty_is_any: "glob [] name"
begin

lemma fallback_on_branches: "fallback r \<Longrightarrow> \<not> label_rule r \<and> on_branches glob base head r"
  by (simp add: fallback_def label_rule_def on_branches_def empty_is_any)

lemma last_fallback_found:
  "rs \<noteq> [] \<Longrightarrow> fallback (last rs) \<Longrightarrow> first_where (\<lambda>r. \<not> label_rule r \<and> on_branches glob base head r) i rs \<noteq> None"
  by (induction rs arbitrary: i) (auto simp: fallback_on_branches split: if_splits)

end

interpretation bm: branch_matcher glob_match
  by unfold_locales simp

section \<open>Which rule is chosen\<close>

lemma first_where_some:
  "first_where P i xs = Some (j, x) \<longleftrightarrow>
     i \<le> j \<and> j - i < length xs \<and> x = xs ! (j - i) \<and> P x \<and> list_all (\<lambda>y. \<not> P y) (take (j - i) xs)"
proof (induction xs arbitrary: i)
  case (Cons y ys)
  show ?case
  proof (cases "i < j")
    case True
    then have "j - i = Suc (j - Suc i)" by simp
    then show ?thesis using Cons [of "Suc i"] True by auto
  next
    case False
    then show ?thesis using Cons [of "Suc i"] by auto
  qed
qed simp

text \<open>\<open>MatchRule\<close> chooses the first branch rule whose base and head globs both match, passing label rules
  over, and returns it with its position and with at least one review type.\<close>

theorem match_rule_is_first:
  "match_rule rules base head = Some (i, r) \<longleftrightarrow>
     i < length rules \<and> \<not> label_rule (rules ! i) \<and> on_branches glob_match base head (rules ! i) \<and>
     list_all (\<lambda>q. \<not> (\<not> label_rule q \<and> on_branches glob_match base head q)) (take i rules) \<and>
     r = with_default_type (rules ! i) \<and> br_types r \<noteq> []"
proof -
  have "br_types (with_default_type q) \<noteq> []" for q by (simp add: with_default_type_def)
  moreover have "match_rule rules base head = Some (i, r) \<longleftrightarrow>
      (\<exists>q. first_where (\<lambda>r. \<not> label_rule r \<and> on_branches glob_match base head r) 0 rules = Some (i, q) \<and> r = with_default_type q)"
    by (auto simp: match_rule_def)
  ultimately show ?thesis by (auto simp: first_where_some)
qed

lemma rules_errors_fallback:
  "rules_errors U n i rs = [] \<Longrightarrow> k < length rs \<Longrightarrow> fallback (rs ! k) \<Longrightarrow> i + k = n - 1"
proof (induction U n i rs arbitrary: k rule: rules_errors.induct)
  case (2 U n i r rs)
  then show ?case by (cases k) (auto split: if_splits)
qed simp

lemma validate_rules_last: "validate_rules U rules = [] \<Longrightarrow> rules \<noteq> [] \<Longrightarrow> fallback (last rules)"
  by (simp add: validate_rules_def split: if_splits)

text \<open>A saved rule list leaves no pull request without a rule: when \<open>ValidateRules\<close> accepts a non-empty list,
  its one fallback is its last rule and every pull request matches some rule.\<close>

theorem valid_rules_always_match:
  assumes "validate_rules U rules = []" and "rules \<noteq> []"
  shows "match_rule rules base head \<noteq> None \<and> map fallback rules = replicate (length rules - 1) False @ [True]"
proof
  show "match_rule rules base head \<noteq> None"
    using bm.last_fallback_found [OF assms(2) validate_rules_last [OF assms]] by (simp add: match_rule_def)
  have "fallback (rules ! k) \<longleftrightarrow> k = length rules - 1" if "k < length rules" for k
    using rules_errors_fallback [of U "length rules" 0 rules k] that assms validate_rules_last [OF assms]
    by (auto simp: validate_rules_def last_conv_nth)
  then show "map fallback rules = replicate (length rules - 1) False @ [True]"
    using assms(2) by (intro nth_equalityI) (auto simp: nth_append)
qed

definition plain_rule :: "string \<Rightarrow> string \<Rightarrow> string list \<Rightarrow> string list \<Rightarrow> branch_rule" where
  "plain_rule base head labels types = \<lparr>br_base = base, br_head = head, br_labels = labels, br_types = types,
     br_trigger = [], br_strictness = [], br_post = [], br_model = [], br_notify = None\<rparr>"

definition sample_rules :: "branch_rule list" where
  "sample_rules = [plain_rule ''main'' ''hotfix/*'' [] [''security''], plain_rule [] [] [''perf''] [''performance''], plain_rule [] [] [] []]"

theorem valid_rules_always_match_witness:
  "match_rule sample_rules ''main'' ''feature'' \<noteq> None \<and> map fallback sample_rules = [False, False, True]"
proof -
  have "validate_rules ascii_tables sample_rules = []" by code_simp
  from valid_rules_always_match [OF this, of "''main''" "''feature''"] show ?thesis by (simp add: sample_rules_def numeral_2_eq_2)
qed

section \<open>What labels add\<close>

lemma add_type_fold:
  "foldl add_type (seen, add, added) ts = (seen', add', added') \<Longrightarrow>
     set seen' = set seen \<union> set ts \<and> set add' = set add \<union> (set ts - set seen) \<and>
     (set add \<subseteq> set seen \<longrightarrow> distinct add \<longrightarrow> distinct add' \<and> set add' \<subseteq> set seen') \<and> (added' \<longleftrightarrow> added \<or> \<not> set ts \<subseteq> set seen)"
proof (induction ts arbitrary: seen add added)
  case (Cons t ts)
  show ?case
  proof (cases "t \<in> set seen")
    case True
    with Cons show ?thesis by (auto simp: add_type_def insert_absorb)
  next
    case False
    then have "foldl add_type (seen @ [t], add @ [t], True) ts = (seen', add', added')"
      using Cons.prems by (simp add: add_type_def)
    from Cons.IH [OF this] False show ?thesis by auto
  qed
qed auto

text \<open>The types of the label rules that apply to a pull request on these branches with these labels.\<close>

definition applying :: "unicode \<Rightarrow> string \<Rightarrow> string \<Rightarrow> string list \<Rightarrow> branch_rule \<Rightarrow> bool" where
  "applying U base head labels r \<longleftrightarrow>
     label_rule r \<and> on_branches glob_match base head r \<and> rule_label U labels (br_labels r) \<noteq> []"

definition labelled_types :: "unicode \<Rightarrow> branch_rule list \<Rightarrow> string \<Rightarrow> string \<Rightarrow> string list \<Rightarrow> string set" where
  "labelled_types U rules base head labels = \<Union> (set (map (\<lambda>r. set (br_types r)) (filter (applying U base head labels) rules)))"

lemma rule_label_carried: "rule_label U labels wants \<noteq> [] \<Longrightarrow> rule_label U labels wants \<in> set labels"
  by (induction wants) (auto split: option.splits dest: find_some)

definition label_inv :: "string list \<Rightarrow> string list \<Rightarrow> string set \<Rightarrow> string list \<times> string list \<times> string list \<Rightarrow> bool" where
  "label_inv labels hav ts = (\<lambda>(seen, add, matched).
     set seen = set hav \<union> ts \<and> set add = ts - set hav \<and> distinct add \<and> set matched \<subseteq> set labels \<and> (matched = [] \<longleftrightarrow> add = []))"

lemma label_step_inv:
  assumes "label_inv labels hav ts st"
  shows "label_inv labels hav (ts \<union> (if applying U base head labels r then set (br_types r) else {})) (label_step U base head labels st r)"
proof (cases "applying U base head labels r")
  case True
  obtain seen add matched where st: "st = (seen, add, matched)" by (cases st)
  obtain seen' add' added where f: "foldl add_type (seen, add, False) (br_types r) = (seen', add', added)"
    by (cases "foldl add_type (seen, add, False) (br_types r)")
  have i: "set seen = set hav \<union> ts" "set add = ts - set hav" "distinct add" "set matched \<subseteq> set labels" "matched = [] \<longleftrightarrow> add = []"
    using assms by (simp_all add: st label_inv_def)
  have l: "rule_label U labels (br_labels r) \<in> set labels" "label_rule r" "on_branches glob_match base head r"
      "rule_label U labels (br_labels r) \<noteq> []"
    using True rule_label_carried by (auto simp: applying_def)
  have "set seen' = set hav \<union> (ts \<union> set (br_types r))" "set add' = (ts \<union> set (br_types r)) - set hav" "distinct add'"
      "added \<longleftrightarrow> \<not> set (br_types r) \<subseteq> set hav \<union> ts"
    using add_type_fold [OF f] i by auto
  moreover from this have "\<not> added \<Longrightarrow> (add' = [] \<longleftrightarrow> add = [])" "added \<Longrightarrow> add' \<noteq> []"
    using i by (auto simp flip: set_empty)
  ultimately show ?thesis using True i l
    by (auto simp: label_inv_def st label_step_def f Let_def list_ex_iff)
next
  case False
  then show ?thesis using assms by (auto simp: label_step_def applying_def split: prod.split)
qed

lemma label_fold_inv:
  "label_inv labels hav ts st \<Longrightarrow>
     label_inv labels hav (ts \<union> labelled_types U rules base head labels) (foldl (label_step U base head labels) st rules)"
proof (induction rules arbitrary: ts st)
  case (Cons r rules)
  have "ts \<union> labelled_types U (r # rules) base head labels =
      (ts \<union> (if applying U base head labels r then set (br_types r) else {})) \<union> labelled_types U rules base head labels"
    by (auto simp: labelled_types_def)
  with Cons.IH [OF label_step_inv [OF Cons.prems]] show ?case by simp
qed (simp add: labelled_types_def)

text \<open>Label rules only add: what \<open>LabelTypes\<close> returns is, each once, exactly the types of the label rules
  whose branches match and one of whose labels the pull request carries, less the types it had; the
  labels it names are labels of the pull request, and it names one exactly when a type was added. The
  order of the rules changes nothing but the order of the types.\<close>

theorem label_types_only_add:
  assumes "label_types U rules base head labels hav = (add, matched)" and "labels \<noteq> []"
  shows "set add = labelled_types U rules base head labels - set hav \<and> distinct add \<and>
    set matched \<subseteq> set labels \<and> (matched = [] \<longleftrightarrow> add = [])"
proof -
  have "label_inv labels hav {} (hav, [], [])" by (simp add: label_inv_def)
  from label_fold_inv [OF this, of U rules base head] show ?thesis
    using assms by (auto simp: label_inv_def label_types_def split: prod.splits)
qed

theorem label_types_only_add_witness:
  "set [''performance''] = labelled_types ascii_tables sample_rules ''main'' ''x'' [''Perf''] - set [''general'']"
proof -
  have "label_types ascii_tables sample_rules ''main'' ''x'' [''Perf''] [''general''] = ([''performance''], [''Perf''])"
    by code_simp
  from label_types_only_add [OF this] show ?thesis by simp
qed

end
