(* ===== verification/Settings.thy ===== *)
theory Settings
  imports Complex_Main Rules
begin

text \<open>
  internal/review/settings.go: one level's settings (\<open>settings\<close>, every field optional), how a chain of
  levels resolves (\<open>resolve\<close>, a fold of \<open>apply_level\<close>), what a matched branch rule overrides
  (\<open>with_rule\<close>) and what a level may hold (\<open>settings_validate\<close>). The two ways a field inherits are two
  contracts, \<open>nearest_wins\<close> for a single value and \<open>adds_up\<close> for a list, each interpreted once for
  every field of that kind.

  \<open>MaxUSD\<close> is a Go float64; here it is a rational or not a number. The JSON of a settings value, its
  hash and the list of changed fields are not modelled: they are encoding/json's.
\<close>

section \<open>Levels\<close>

datatype level = LevelDefault | LevelConnection | LevelGroup | LevelRepo | LevelRule

definition level_rank :: "level \<Rightarrow> nat" where
  "level_rank l = (case l of LevelConnection \<Rightarrow> 1 | LevelGroup \<Rightarrow> 2 | LevelRepo \<Rightarrow> 3 | LevelRule \<Rightarrow> 4 | LevelDefault \<Rightarrow> 0)"

lemma level_rank_inj: "level_rank a = level_rank b \<longleftrightarrow> a = b"
  by (cases a; cases b) (simp_all add: level_rank_def)

text \<open>Levels are ordered by how near the repository they are.\<close>

instantiation level :: linorder
begin

definition less_eq_level :: "level \<Rightarrow> level \<Rightarrow> bool" where
  "less_eq_level a b \<longleftrightarrow> level_rank a \<le> level_rank b"

definition less_level :: "level \<Rightarrow> level \<Rightarrow> bool" where
  "less_level a b \<longleftrightarrow> level_rank a < level_rank b"

instance
  by standard (auto simp: less_eq_level_def less_level_def level_rank_inj)

end

text \<open>A level nobody recorded counts as the default.\<close>

type_synonym source = "string \<Rightarrow> level option"

definition source_level :: "source \<Rightarrow> string \<Rightarrow> level" where
  "source_level src f = (case src f of None \<Rightarrow> LevelDefault | Some l \<Rightarrow> l)"

section \<open>Settings\<close>

type_synonym forks = string

definition forks_valid :: "forks \<Rightarrow> bool" where
  "forks_valid f \<longleftrightarrow> f = ''command'' \<or> f = ''off''"

type_synonym notify_event = string

definition notify_events :: "notify_event list" where
  "notify_events = [''started'', ''finished'', ''failed'', ''merged'']"

definition event_valid :: "notify_event \<Rightarrow> bool" where
  "event_valid e \<longleftrightarrow> e \<in> set notify_events"

datatype usd = NaN | Dollars rat

record settings =
  s_mode :: "mode option"
  s_trigger :: "trigger option"
  s_drafts :: "bool option"
  s_forks :: "forks option"
  s_strictness :: "strictness option"
  s_max_comments :: "int option"
  s_comment_header :: "string option"
  s_model :: "string option"
  s_max_usd :: "usd option"
  s_notify :: "notify_channel option"
  s_notify_on :: "notify_event list option"
  s_fixes :: "bool option"
  s_instructions :: "string list"
  s_exclude_authors :: "string list"
  s_review_bots :: "string list"
  s_ignore_paths :: "string list"
  s_context_repos :: "string list"
  s_branch_rules :: "branch_rule list"

definition no_channel :: notify_channel where
  "no_channel = \<lparr>nc_team = [], nc_channel = []\<rparr>"

definition empty_rule :: branch_rule where
  "empty_rule = \<lparr>br_base = [], br_head = [], br_labels = [], br_types = [], br_trigger = [], br_strictness = [],
     br_post = [], br_model = [], br_notify = None\<rparr>"

definition defaults :: settings where
  "defaults = \<lparr>s_mode = Some ModeShadow, s_trigger = Some ''open'', s_drafts = Some False, s_forks = Some ''command'',
     s_strictness = Some ''medium'', s_max_comments = Some 8, s_comment_header = Some [], s_model = Some ''heavy'',
     s_max_usd = Some (Dollars 1), s_notify = Some no_channel, s_notify_on = Some notify_events, s_fixes = Some True,
     s_instructions = [], s_exclude_authors = [], s_review_bots = [], s_ignore_paths = [], s_context_repos = [],
     s_branch_rules = [empty_rule\<lparr>br_types := [default_type]\<rparr>]\<rparr>"

text \<open>\<open>x_notify_on\<close> is the one list of \<open>Effective\<close> whose nil differs from the empty one.\<close>

record effective =
  x_mode :: mode
  x_trigger :: trigger
  x_drafts :: bool
  x_forks :: forks
  x_strictness :: strictness
  x_max_comments :: int
  x_comment_header :: string
  x_model :: string
  x_max_usd :: usd
  x_notify :: notify_channel
  x_notify_on :: "notify_event list option"
  x_fixes :: bool
  x_instructions :: "string list"
  x_exclude_authors :: "string list"
  x_review_bots :: "string list"
  x_ignore_paths :: "string list"
  x_context_repos :: "string list"
  x_branch_rules :: "branch_rule list"
  x_source :: source

definition notifies :: "effective \<Rightarrow> notify_event \<Rightarrow> bool" where
  "notifies e ev = (case x_notify_on e of None \<Rightarrow> True | Some evs \<Rightarrow> ev \<in> set evs)"

section \<open>Resolving a chain\<close>

definition pick :: "'v option \<Rightarrow> 'v \<Rightarrow> 'v" where
  "pick v dst = (case v of None \<Rightarrow> dst | Some x \<Rightarrow> x)"

definition credit :: "bool \<Rightarrow> string \<Rightarrow> level \<Rightarrow> source \<Rightarrow> source" where
  "credit given field lv src = (if given then src(field \<mapsto> lv) else src)"

definition entry_key :: "unicode \<Rightarrow> bool \<Rightarrow> string \<Rightarrow> string" where
  "entry_key U fold_case s = (if fold_case then to_lower U s else s)"

definition add_entry :: "unicode \<Rightarrow> bool \<Rightarrow> string list \<times> bool \<Rightarrow> string \<Rightarrow> string list \<times> bool" where
  "add_entry U fold_case = (\<lambda>(dst, credited) v0.
     let v = trim_space v0 in
     if v = [] \<or> list_ex (\<lambda>d. entry_key U fold_case d = entry_key U fold_case v) dst then (dst, credited)
     else (dst @ [v], True))"

definition add_up :: "unicode \<Rightarrow> bool \<Rightarrow> string list \<Rightarrow> string list \<Rightarrow> string list \<times> bool" where
  "add_up U fold_case dst vs = foldl (add_entry U fold_case) (dst, False) vs"

definition apply_level :: "unicode \<Rightarrow> effective \<Rightarrow> level \<times> settings \<Rightarrow> effective" where
  "apply_level U e ls =
     (let lv = fst ls; s = snd ls;
          ins = add_up U False (x_instructions e) (s_instructions s);
          exc = add_up U True (x_exclude_authors e) (s_exclude_authors s);
          bots = add_up U True (x_review_bots e) (s_review_bots s);
          ign = add_up U False (x_ignore_paths e) (s_ignore_paths s);
          ctx = add_up U True (x_context_repos e) (s_context_repos s) in
      \<lparr>x_mode = pick (s_mode s) (x_mode e),
       x_trigger = pick (s_trigger s) (x_trigger e),
       x_drafts = pick (s_drafts s) (x_drafts e),
       x_forks = pick (s_forks s) (x_forks e),
       x_strictness = pick (s_strictness s) (x_strictness e),
       x_max_comments = pick (s_max_comments s) (x_max_comments e),
       x_comment_header = pick (s_comment_header s) (x_comment_header e),
       x_model = pick (s_model s) (x_model e),
       x_max_usd = pick (s_max_usd s) (x_max_usd e),
       x_notify = pick (s_notify s) (x_notify e),
       x_notify_on = (case s_notify_on s of None \<Rightarrow> x_notify_on e | Some evs \<Rightarrow> Some evs),
       x_fixes = pick (s_fixes s) (x_fixes e),
       x_instructions = fst ins, x_exclude_authors = fst exc, x_review_bots = fst bots, x_ignore_paths = fst ign,
       x_context_repos = fst ctx,
       x_branch_rules = (if s_branch_rules s \<noteq> [] then s_branch_rules s else x_branch_rules e),
       x_source =
         credit (s_branch_rules s \<noteq> []) ''branch_rules'' lv (
         credit (snd ctx) ''context_repos'' lv (
         credit (snd ign) ''ignore_paths'' lv (
         credit (snd bots) ''review_bots'' lv (
         credit (snd exc) ''exclude_authors'' lv (
         credit (snd ins) ''instructions'' lv (
         credit (s_notify_on s \<noteq> None) ''notify_on'' lv (
         credit (s_fixes s \<noteq> None) ''fixes'' lv (
         credit (s_notify s \<noteq> None) ''notify'' lv (
         credit (s_max_usd s \<noteq> None) ''max_usd'' lv (
         credit (s_model s \<noteq> None) ''model'' lv (
         credit (s_comment_header s \<noteq> None) ''comment_header'' lv (
         credit (s_max_comments s \<noteq> None) ''max_comments'' lv (
         credit (s_strictness s \<noteq> None) ''strictness'' lv (
         credit (s_forks s \<noteq> None) ''forks'' lv (
         credit (s_drafts s \<noteq> None) ''drafts'' lv (
         credit (s_trigger s \<noteq> None) ''trigger'' lv (
         credit (s_mode s \<noteq> None) ''mode'' lv (x_source e))))))))))))))))))\<rparr>)"

definition list_fields :: "string list" where
  "list_fields = [''instructions'', ''exclude_authors'', ''review_bots'', ''ignore_paths'', ''context_repos'']"

definition no_settings :: effective where
  "no_settings = \<lparr>x_mode = [], x_trigger = [], x_drafts = False, x_forks = [], x_strictness = [], x_max_comments = 0,
     x_comment_header = [], x_model = [], x_max_usd = Dollars 0, x_notify = no_channel, x_notify_on = None, x_fixes = False,
     x_instructions = [], x_exclude_authors = [], x_review_bots = [], x_ignore_paths = [], x_context_repos = [],
     x_branch_rules = [], x_source = (\<lambda>f. if f \<in> set list_fields then Some LevelDefault else None)\<rparr>"

definition resolve :: "unicode \<Rightarrow> (level \<times> settings) list \<Rightarrow> effective" where
  "resolve U chain = foldl (apply_level U) no_settings ((LevelDefault, defaults) # chain)"

section \<open>A matched rule\<close>

definition with_rule :: "effective \<Rightarrow> branch_rule \<Rightarrow> effective" where
  "with_rule e r =
     (let rule_at = source_level (x_source e) ''branch_rules'';
          overrides = (\<lambda>field. source_level (x_source e) field \<le> rule_at);
          trig = br_trigger r \<noteq> [] \<and> overrides ''trigger'';
          stri = br_strictness r \<noteq> [] \<and> overrides ''strictness'';
          mdl = br_model r \<noteq> [] \<and> overrides ''model'';
          post = br_post r \<noteq> [] \<and> x_mode e \<noteq> ModeOff \<and> overrides ''mode'';
          noti = br_notify r \<noteq> None \<and> overrides ''notify'' in
      e\<lparr>x_trigger := (if trig then br_trigger r else x_trigger e),
        x_strictness := (if stri then br_strictness r else x_strictness e),
        x_model := (if mdl then br_model r else x_model e),
        x_mode := (if post then br_post r else x_mode e),
        x_notify := (if noti then the (br_notify r) else x_notify e),
        x_source := credit noti ''notify'' LevelRule (credit post ''mode'' LevelRule (credit mdl ''model'' LevelRule (
          credit stri ''strictness'' LevelRule (credit trig ''trigger'' LevelRule (x_source e)))))\<rparr>)"

section \<open>Questions asked of the result\<close>

definition excludes_author :: "unicode \<Rightarrow> effective \<Rightarrow> string \<Rightarrow> bool" where
  "excludes_author U e login = list_ex (\<lambda>p. glob_match (to_lower U p) (to_lower U login)) (x_exclude_authors e)"

definition bot_name :: "unicode \<Rightarrow> string \<Rightarrow> string" where
  "bot_name U s = trim_suffix ''[bot]'' (to_lower U s)"

definition reviews_bot :: "unicode \<Rightarrow> effective \<Rightarrow> string \<Rightarrow> bool" where
  "reviews_bot U e login =
     list_ex (\<lambda>p. let q = bot_name U (trim_space p) in q \<noteq> [] \<and> glob_match q (bot_name U login)) (x_review_bots e)"

definition ignores_path :: "effective \<Rightarrow> string \<Rightarrow> bool" where
  "ignores_path e path = match_any (x_ignore_paths e) path"

section \<open>Validating a level\<close>

text \<open>\<open>^[A-Za-z0-9*?][A-Za-z0-9*?-]*(?:\[bot\])?$\<close>.\<close>

definition login_char :: "char \<Rightarrow> bool" where
  "login_char c \<longleftrightarrow> ascii_alnum c \<or> c = CHR ''*'' \<or> c = CHR ''?''"

definition login_glob :: rexp where
  "login_glob = RSeq (RSet login_char) (RSeq (RStar (RSet (\<lambda>c. login_char c \<or> c = CHR ''-''))) (ropt (rlit ''[bot]'')))"

definition valid_path_glob :: "string \<Rightarrow> bool" where
  "valid_path_glob s \<longleftrightarrow> s \<noteq> ''/'' \<and> \<not> contains_func is_control s"

datatype settings_error =
    SMode string
  | STrigger string
  | SForks string
  | SStrictness string
  | SMaxComments
  | SMaxUSD
  | SModel string
  | SHeader
  | SNotify "notify_error list"
  | STooManyEvents
  | SEvent string
  | SEventTwice string
  | STooManyEntries string nat
  | SEntryEmpty string
  | SEntryLong string string
  | SEntryBad string string
  | SRules "rules_error list"

fun event_errors :: "notify_event list \<Rightarrow> notify_event list \<Rightarrow> settings_error list" where
  "event_errors before [] = []"
| "event_errors before (ev # evs) =
     (if \<not> event_valid ev then [SEvent (clip ev)] else if ev \<in> set before then [SEventTwice ev] else []) @
     event_errors (before @ [ev]) evs"

definition list_errors :: "string \<Rightarrow> (string \<Rightarrow> bool) option \<Rightarrow> string list \<Rightarrow> settings_error list" where
  "list_errors field ok vs =
     (if 50 < length vs then [STooManyEntries field (length vs)] else []) @
     concat (map (\<lambda>v.
       if trim_space v = [] then [SEntryEmpty field]
       else if 400 < rune_count v then [SEntryLong field (clip v)]
       else (case ok of None \<Rightarrow> [] | Some p \<Rightarrow> if p (trim_space v) then [] else [SEntryBad field (clip v)])) vs)"

definition bad_usd :: "usd \<Rightarrow> bool" where
  "bad_usd v = (case v of NaN \<Rightarrow> True | Dollars d \<Rightarrow> d < 1/10 \<or> 5 < d)"

definition opt_error :: "'v option \<Rightarrow> ('v \<Rightarrow> settings_error list) \<Rightarrow> settings_error list" where
  "opt_error v f = (case v of None \<Rightarrow> [] | Some x \<Rightarrow> f x)"

definition settings_validate :: "unicode \<Rightarrow> settings \<Rightarrow> settings_error list" where
  "settings_validate U s =
     opt_error (s_mode s) (\<lambda>m. if mode_valid m then [] else [SMode (clip m)]) @
     opt_error (s_trigger s) (\<lambda>t. if trigger_valid t then [] else [STrigger (clip t)]) @
     opt_error (s_forks s) (\<lambda>f. if forks_valid f then [] else [SForks (clip f)]) @
     opt_error (s_strictness s) (\<lambda>t. if strictness_valid t then [] else [SStrictness (clip t)]) @
     opt_error (s_max_comments s) (\<lambda>n. if n < 1 \<or> 20 < n then [SMaxComments] else []) @
     opt_error (s_max_usd s) (\<lambda>v. if bad_usd v then [SMaxUSD] else []) @
     opt_error (s_model s) (\<lambda>m. if valid_model_name m then [] else [SModel (clip m)]) @
     opt_error (s_comment_header s) (\<lambda>h. if 400 < rune_count h then [SHeader] else []) @
     opt_error (s_notify s) (\<lambda>n. let errs = notify_validate n in if errs = [] then [] else [SNotify errs]) @
     opt_error (s_notify_on s) (\<lambda>evs. if length notify_events < length evs then [STooManyEvents] else event_errors [] evs) @
     list_errors ''instructions'' None (s_instructions s) @
     list_errors ''exclude_authors'' (Some (rmatch login_glob)) (s_exclude_authors s) @
     list_errors ''review_bots'' (Some (rmatch login_glob)) (s_review_bots s) @
     list_errors ''ignore_paths'' (Some valid_path_glob) (s_ignore_paths s) @
     list_errors ''context_repos'' (Some valid_repo_name) (s_context_repos s) @
     (let errs = validate_rules U (s_branch_rules s) in if errs = [] then [] else [SRules errs])"

end
