(* ===== verification/Settings_Spec.thy ===== *)
theory Settings_Spec
  imports Settings
begin

text \<open>
  How settings inherit. A field that takes a single value satisfies the contract \<open>nearest_wins\<close>, a list
  field the contract \<open>adds_up\<close>; each is interpreted on every field of its kind, and the properties
  are read off the interpretations: the nearest level that sets a value wins, lists add up without
  repeats, a rule never overrules a nearer choice, and what validates at every level is valid where
  it runs.
\<close>

section \<open>Fields that take the nearest value\<close>

text \<open>The value of the nearest level of a chain that sets one, and that level.\<close>

definition nearest :: "(settings \<Rightarrow> 'v option) \<Rightarrow> (level \<times> settings) list \<Rightarrow> ('v \<times> level) option" where
  "nearest get chain =
     map_option (\<lambda>(lv, s). (the (get s), lv)) (List.find (\<lambda>(lv, s). get s \<noteq> None) (rev chain))"

text \<open>What a field and its recorded source are: the nearest level's, or the built-in value.\<close>

definition nearest_or :: "(settings \<Rightarrow> 'v option) \<Rightarrow> (level \<times> settings) list \<Rightarrow> 'v \<times> level option" where
  "nearest_or get chain =
     (case nearest get chain of Some (v, lv) \<Rightarrow> (v, Some lv) | None \<Rightarrow> (the (get defaults), Some LevelDefault))"

lemma find_snoc: "List.find P (xs @ ys) = (case List.find P xs of None \<Rightarrow> List.find P ys | Some x \<Rightarrow> Some x)"
  by (induction xs) auto

lemma nearest_Cons:
  "nearest get (ls # chain) =
     (case nearest get chain of Some r \<Rightarrow> Some r | None \<Rightarrow> map_option (\<lambda>v. (v, fst ls)) (get (snd ls)))"
  by (cases ls; cases "get (snd ls)") (auto simp: nearest_def find_snoc split: option.split)

locale nearest_wins =
  fixes U :: unicode and get :: "settings \<Rightarrow> 'v option" and val :: "effective \<Rightarrow> 'v" and field :: string
  assumes step_val: "val (apply_level U e ls) = pick (get (snd ls)) (val e)"
    and step_source: "x_source (apply_level U e ls) field = (if get (snd ls) = None then x_source e field else Some (fst ls))"
    and has_default: "get defaults \<noteq> None"
begin

lemma fold_levels:
  "(val (foldl (apply_level U) e chain), x_source (foldl (apply_level U) e chain) field) =
     (case nearest get chain of Some (v, lv) \<Rightarrow> (v, Some lv) | None \<Rightarrow> (val e, x_source e field))"
proof (induction chain arbitrary: e)
  case Nil
  show ?case by (simp add: nearest_def)
next
  case (Cons ls chain)
  show ?case
    using Cons [of "apply_level U e ls"]
    by (auto simp: nearest_Cons step_val step_source pick_def split: option.splits)
qed

theorem resolves_to_nearest: "(val (resolve U chain), x_source (resolve U chain) field) = nearest_or get chain"
proof -
  obtain d where "get defaults = Some d" using has_default by blast
  then show ?thesis
    unfolding resolve_def fold_levels nearest_or_def by (auto simp: nearest_Cons split: option.split)
qed

end

named_theorems levels "the effect of one level on the fields of the effective settings"

lemma credit_apply [levels]: "credit g f lv src name = (if g \<and> name = f then Some lv else src name)"
  by (simp add: credit_def)

lemmas level_simps = apply_level_def Let_def credit_apply pick_def defaults_def

interpretation nw_mode: nearest_wins U s_mode x_mode "''mode''" for U
  by unfold_locales (simp_all add: level_simps)

interpretation nw_trigger: nearest_wins U s_trigger x_trigger "''trigger''" for U
  by unfold_locales (simp_all add: level_simps)

interpretation nw_drafts: nearest_wins U s_drafts x_drafts "''drafts''" for U
  by unfold_locales (simp_all add: level_simps)

interpretation nw_forks: nearest_wins U s_forks x_forks "''forks''" for U
  by unfold_locales (simp_all add: level_simps)

interpretation nw_strictness: nearest_wins U s_strictness x_strictness "''strictness''" for U
  by unfold_locales (simp_all add: level_simps)

interpretation nw_max_comments: nearest_wins U s_max_comments x_max_comments "''max_comments''" for U
  by unfold_locales (simp_all add: level_simps)

interpretation nw_comment_header: nearest_wins U s_comment_header x_comment_header "''comment_header''" for U
  by unfold_locales (simp_all add: level_simps)

interpretation nw_model: nearest_wins U s_model x_model "''model''" for U
  by unfold_locales (simp_all add: level_simps)

interpretation nw_max_usd: nearest_wins U s_max_usd x_max_usd "''max_usd''" for U
  by unfold_locales (simp_all add: level_simps)

interpretation nw_notify: nearest_wins U s_notify x_notify "''notify''" for U
  by unfold_locales (simp_all add: level_simps)

interpretation nw_fixes: nearest_wins U s_fixes x_fixes "''fixes''" for U
  by unfold_locales (simp_all add: level_simps)

text \<open>A set of events and a list of rules are taken whole, so they are single values too.\<close>

definition get_notify_on :: "settings \<Rightarrow> notify_event list option option" where
  "get_notify_on s = map_option Some (s_notify_on s)"

definition get_branch_rules :: "settings \<Rightarrow> branch_rule list option" where
  "get_branch_rules s = (if s_branch_rules s = [] then None else Some (s_branch_rules s))"

interpretation nw_notify_on: nearest_wins U get_notify_on x_notify_on "''notify_on''" for U
  by unfold_locales (auto simp: level_simps get_notify_on_def split: option.split)

interpretation nw_branch_rules: nearest_wins U get_branch_rules x_branch_rules "''branch_rules''" for U
  by unfold_locales (simp_all add: level_simps get_branch_rules_def)

text \<open>C38. Every single-valued setting, the set of announced events and the list of branch rules are taken from
  the nearest level of the chain that sets one, and are credited to that level; where none does, they
  are the built-in default, credited to the default level.\<close>

theorem resolve_nearest_wins:
  "(x_mode (resolve U chain), x_source (resolve U chain) ''mode'') = nearest_or s_mode chain \<and>
   (x_trigger (resolve U chain), x_source (resolve U chain) ''trigger'') = nearest_or s_trigger chain \<and>
   (x_drafts (resolve U chain), x_source (resolve U chain) ''drafts'') = nearest_or s_drafts chain \<and>
   (x_forks (resolve U chain), x_source (resolve U chain) ''forks'') = nearest_or s_forks chain \<and>
   (x_strictness (resolve U chain), x_source (resolve U chain) ''strictness'') = nearest_or s_strictness chain \<and>
   (x_max_comments (resolve U chain), x_source (resolve U chain) ''max_comments'') = nearest_or s_max_comments chain \<and>
   (x_comment_header (resolve U chain), x_source (resolve U chain) ''comment_header'') = nearest_or s_comment_header chain \<and>
   (x_model (resolve U chain), x_source (resolve U chain) ''model'') = nearest_or s_model chain \<and>
   (x_max_usd (resolve U chain), x_source (resolve U chain) ''max_usd'') = nearest_or s_max_usd chain \<and>
   (x_notify (resolve U chain), x_source (resolve U chain) ''notify'') = nearest_or s_notify chain \<and>
   (x_fixes (resolve U chain), x_source (resolve U chain) ''fixes'') = nearest_or s_fixes chain \<and>
   (x_notify_on (resolve U chain), x_source (resolve U chain) ''notify_on'') = nearest_or get_notify_on chain \<and>
   (x_branch_rules (resolve U chain), x_source (resolve U chain) ''branch_rules'') = nearest_or get_branch_rules chain"
  by (intro conjI nw_mode.resolves_to_nearest nw_trigger.resolves_to_nearest nw_drafts.resolves_to_nearest
      nw_forks.resolves_to_nearest nw_strictness.resolves_to_nearest nw_max_comments.resolves_to_nearest
      nw_comment_header.resolves_to_nearest nw_model.resolves_to_nearest nw_max_usd.resolves_to_nearest
      nw_notify.resolves_to_nearest nw_fixes.resolves_to_nearest nw_notify_on.resolves_to_nearest
      nw_branch_rules.resolves_to_nearest)

section \<open>Fields that add up\<close>

definition blank :: "string \<Rightarrow> bool" where
  "blank v \<longleftrightarrow> trim_space v = []"

lemma add_entry_fold:
  fixes U fc
  defines "key \<equiv> entry_key U fc"
  assumes "foldl (add_entry U fc) (dst, b) vs = (dst', b')"
  shows "prefix dst dst' \<and> (b' \<longleftrightarrow> b \<or> dst' \<noteq> dst) \<and>
    key ` set dst' = key ` set dst \<union> key ` trim_space ` set (filter (\<lambda>v. \<not> blank v) vs) \<and>
    (distinct (map key dst) \<longrightarrow> distinct (map key dst'))"
  using assms(2)
proof (induction vs arbitrary: dst b)
  case (Cons v vs)
  show ?case
  proof (cases "blank v \<or> key (trim_space v) \<in> key ` set dst")
    case True
    then have "add_entry U fc (dst, b) v = (dst, b)"
      by (auto simp: add_entry_def Let_def key_def blank_def list_ex_iff)
    with Cons have "prefix dst dst' \<and> (b' \<longleftrightarrow> b \<or> dst' \<noteq> dst) \<and>
        key ` set dst' = key ` set dst \<union> key ` trim_space ` set (filter (\<lambda>v. \<not> blank v) vs) \<and>
        (distinct (map key dst) \<longrightarrow> distinct (map key dst'))" by simp
    with True show ?thesis by auto
  next
    case False
    then have "add_entry U fc (dst, b) v = (dst @ [trim_space v], True)"
      by (auto simp: add_entry_def Let_def key_def blank_def list_ex_iff image_iff)
    with Cons.prems have "foldl (add_entry U fc) (dst @ [trim_space v], True) vs = (dst', b')" by simp
    note Cons.IH [OF this]
    with False show ?thesis by (auto simp: prefix_def)
  qed
qed simp

text \<open>Every entry a chain gives a list, spaces trimmed, blank ones left out.\<close>

definition all_entries :: "(settings \<Rightarrow> string list) \<Rightarrow> (level \<times> settings) list \<Rightarrow> string set" where
  "all_entries get chain = (\<Union>ls\<in>set chain. trim_space ` set (filter (\<lambda>v. \<not> blank v) (get (snd ls))))"

text \<open>A list setting of the effective settings: no two entries alike, and every level's entries there.\<close>

definition summed :: "unicode \<Rightarrow> bool \<Rightarrow> (settings \<Rightarrow> string list) \<Rightarrow> (level \<times> settings) list \<Rightarrow> string list \<Rightarrow> bool" where
  "summed U fc get chain vs \<longleftrightarrow>
     distinct (map (entry_key U fc) vs) \<and> entry_key U fc ` set vs = entry_key U fc ` all_entries get chain"

locale adds_up =
  fixes U :: unicode and fc :: bool and get :: "settings \<Rightarrow> string list" and val :: "effective \<Rightarrow> string list" and field :: string
  assumes step_list: "val (apply_level U e ls) = fst (add_up U fc (val e) (get (snd ls)))"
    and step_credit: "x_source (apply_level U e ls) field =
        (if snd (add_up U fc (val e) (get (snd ls))) then Some (fst ls) else x_source e field)"
    and starts_empty: "val no_settings = []" "x_source no_settings field = Some LevelDefault" "get defaults = []"
begin

lemma step_summed:
  assumes "summed U fc get chain (val e)"
  shows "summed U fc get (chain @ [ls]) (val (apply_level U e ls)) \<and> prefix (val e) (val (apply_level U e ls)) \<and>
    x_source (apply_level U e ls) field = (if val (apply_level U e ls) = val e then x_source e field else Some (fst ls))"
proof -
  obtain dst b where f: "foldl (add_entry U fc) (val e, False) (get (snd ls)) = (dst, b)"
    by (cases "foldl (add_entry U fc) (val e, False) (get (snd ls))")
  then have v: "val (apply_level U e ls) = dst" "x_source (apply_level U e ls) field = (if b then Some (fst ls) else x_source e field)"
    by (simp_all add: step_list step_credit add_up_def)
  have "all_entries get (chain @ [ls]) = all_entries get chain \<union> trim_space ` set (filter (\<lambda>v. \<not> blank v) (get (snd ls)))"
    by (auto simp: all_entries_def)
  with add_entry_fold [OF f] assms v show ?thesis by (auto simp: summed_def image_Un)
qed

lemma fold_summed: "summed U fc get pre (val e) \<Longrightarrow> summed U fc get (pre @ chain) (val (foldl (apply_level U) e chain))"
proof (induction chain arbitrary: pre e)
  case (Cons ls chain)
  from Cons.IH [of "pre @ [ls]" "apply_level U e ls"] step_summed [OF Cons.prems] show ?case by simp
qed simp

theorem resolves_to_sum: "summed U fc get chain (val (resolve U chain))"
proof -
  have "summed U fc get ([] @ (LevelDefault, defaults) # chain) (val (resolve U chain))"
    unfolding resolve_def by (rule fold_summed) (simp add: summed_def all_entries_def starts_empty)
  then show ?thesis by (simp add: summed_def all_entries_def starts_empty)
qed

text \<open>A level added at the repository's end keeps every entry there was, and is credited exactly when it
  added one.\<close>

theorem one_more_level:
  "prefix (val (resolve U chain)) (val (resolve U (chain @ [ls]))) \<and>
   x_source (resolve U (chain @ [ls])) field =
     (if val (resolve U (chain @ [ls])) = val (resolve U chain) then x_source (resolve U chain) field else Some (fst ls))"
proof -
  have "resolve U (chain @ [ls]) = apply_level U (resolve U chain) ls" by (simp add: resolve_def)
  with step_summed [OF resolves_to_sum] show ?thesis by simp
qed

end

interpretation au_instructions: adds_up U False s_instructions x_instructions "''instructions''" for U
  by unfold_locales (simp_all add: level_simps no_settings_def list_fields_def)

interpretation au_exclude_authors: adds_up U True s_exclude_authors x_exclude_authors "''exclude_authors''" for U
  by unfold_locales (simp_all add: level_simps no_settings_def list_fields_def)

interpretation au_review_bots: adds_up U True s_review_bots x_review_bots "''review_bots''" for U
  by unfold_locales (simp_all add: level_simps no_settings_def list_fields_def)

interpretation au_ignore_paths: adds_up U False s_ignore_paths x_ignore_paths "''ignore_paths''" for U
  by unfold_locales (simp_all add: level_simps no_settings_def list_fields_def)

interpretation au_context_repos: adds_up U True s_context_repos x_context_repos "''context_repos''" for U
  by unfold_locales (simp_all add: level_simps no_settings_def list_fields_def)

text \<open>The list settings add up: each resolved list holds every entry of every level, blank ones aside, no
  two alike (logins and repository names compared in lower case); and adding a level keeps every entry
  that was there, in order, so no repository can lose the organisation's basics by adding to them.\<close>

theorem resolve_lists_add_up:
  "summed U False s_instructions chain (x_instructions (resolve U chain)) \<and>
   summed U True s_exclude_authors chain (x_exclude_authors (resolve U chain)) \<and>
   summed U True s_review_bots chain (x_review_bots (resolve U chain)) \<and>
   summed U False s_ignore_paths chain (x_ignore_paths (resolve U chain)) \<and>
   summed U True s_context_repos chain (x_context_repos (resolve U chain)) \<and>
   prefix (x_instructions (resolve U chain)) (x_instructions (resolve U (chain @ [ls]))) \<and>
   prefix (x_exclude_authors (resolve U chain)) (x_exclude_authors (resolve U (chain @ [ls]))) \<and>
   prefix (x_review_bots (resolve U chain)) (x_review_bots (resolve U (chain @ [ls]))) \<and>
   prefix (x_ignore_paths (resolve U chain)) (x_ignore_paths (resolve U (chain @ [ls]))) \<and>
   prefix (x_context_repos (resolve U chain)) (x_context_repos (resolve U (chain @ [ls])))"
  by (intro conjI au_instructions.resolves_to_sum au_exclude_authors.resolves_to_sum au_review_bots.resolves_to_sum
      au_ignore_paths.resolves_to_sum au_context_repos.resolves_to_sum
      au_instructions.one_more_level [THEN conjunct1] au_exclude_authors.one_more_level [THEN conjunct1]
      au_review_bots.one_more_level [THEN conjunct1] au_ignore_paths.one_more_level [THEN conjunct1]
      au_context_repos.one_more_level [THEN conjunct1])

section \<open>Rules and nearness\<close>

text \<open>A matched branch rule never turns on a repository that is off, and never overrules a mode set nearer the
  repository than the rule list itself: where the nearest level that sets the mode is nearer than the
  nearest one that has rules, the mode stays what that level chose.\<close>

theorem rule_never_overrules_nearer:
  assumes "nearest s_mode chain = Some (m, lm)" and "nearest get_branch_rules chain = Some (rs, lr)"
    and "m = ModeOff \<or> lr < lm"
  shows "x_mode (with_rule (resolve U chain) r) = m"
proof -
  have "x_mode (resolve U chain) = m" "x_source (resolve U chain) ''mode'' = Some lm"
    using nw_mode.resolves_to_nearest [of U chain] assms(1) by (simp_all add: nearest_or_def)
  moreover have "x_source (resolve U chain) ''branch_rules'' = Some lr"
    using nw_branch_rules.resolves_to_nearest [of U chain] assms(2) by (simp add: nearest_or_def)
  ultimately show ?thesis using assms(3) by (auto simp: with_rule_def Let_def source_level_def)
qed

definition unset :: settings where
  "unset = \<lparr>s_mode = None, s_trigger = None, s_drafts = None, s_forks = None, s_strictness = None, s_max_comments = None,
     s_comment_header = None, s_model = None, s_max_usd = None, s_notify = None, s_notify_on = None, s_fixes = None,
     s_instructions = [], s_exclude_authors = [], s_review_bots = [], s_ignore_paths = [], s_context_repos = [],
     s_branch_rules = []\<rparr>"

definition sample_chain :: "(level \<times> settings) list" where
  "sample_chain = [(LevelConnection, unset\<lparr>s_mode := Some ModeLive, s_branch_rules := [empty_rule\<lparr>br_post := ModeLive\<rparr>], s_ignore_paths := ['' vendor/** '']\<rparr>),
     (LevelRepo, unset\<lparr>s_mode := Some ModeShadow\<rparr>)]"

theorem rule_never_overrules_nearer_witness:
  "x_mode (with_rule (resolve ascii_tables sample_chain) (empty_rule\<lparr>br_post := ModeLive\<rparr>)) = ModeShadow"
  by (rule rule_never_overrules_nearer [of _ _ LevelRepo "[empty_rule\<lparr>br_post := ModeLive\<rparr>]" LevelConnection])
    (simp_all add: nearest_def sample_chain_def unset_def get_branch_rules_def less_level_def level_rank_def)

section \<open>Validity survives resolution\<close>

lemma nearest_or_all:
  assumes "get defaults = Some d" "P d" "\<And>ls v. ls \<in> set chain \<Longrightarrow> get (snd ls) = Some v \<Longrightarrow> P v"
  shows "P (fst (nearest_or get chain))"
proof (cases "List.find (\<lambda>(lv, s). get s \<noteq> None) (rev chain)")
  case None
  with assms(1,2) show ?thesis by (simp add: nearest_or_def nearest_def)
next
  case (Some ls)
  with find_some [OF Some] assms(3) [of ls] show ?thesis by (auto simp: nearest_or_def nearest_def)
qed

lemma opt_error_Nil: "opt_error v f = [] \<longleftrightarrow> (\<forall>x. v = Some x \<longrightarrow> f x = [])"
  by (cases v) (auto simp: opt_error_def)

lemma valid_fields:
  assumes "settings_validate U s = []"
  shows "s_mode s = Some m \<Longrightarrow> mode_valid m" "s_trigger s = Some t \<Longrightarrow> trigger_valid t" "s_forks s = Some f \<Longrightarrow> forks_valid f"
    "s_strictness s = Some st \<Longrightarrow> strictness_valid st" "s_model s = Some md \<Longrightarrow> valid_model_name md"
    "s_max_comments s = Some n \<Longrightarrow> 1 \<le> n \<and> n \<le> 20" "s_max_usd s = Some d \<Longrightarrow> \<not> bad_usd d"
    "s_branch_rules s = rs \<Longrightarrow> validate_rules U rs = []"
  using assms unfolding settings_validate_def append_is_Nil_conv
  by (simp_all add: opt_error_Nil Let_def split: if_splits)

lemma default_rules_match: "match_rule [empty_rule\<lparr>br_types := [default_type]\<rparr>] base head \<noteq> None"
  by (simp add: match_rule_def label_rule_def on_branches_def empty_rule_def)

lemma valid_rules_match: "validate_rules U rules = [] \<Longrightarrow> rules \<noteq> [] \<Longrightarrow> match_rule rules base head \<noteq> None"
  using bm.last_fallback_found [OF _ validate_rules_last] by (simp add: match_rule_def)

text \<open>What runs is always valid: when \<open>Validate\<close> accepted every level of a chain, the effective mode, trigger,
  fork policy, strictness, model, comment count and spending cap are all within their bounds, and
  every pull request falls under some branch rule.\<close>

theorem resolved_settings_valid:
  assumes "list_all (\<lambda>ls. settings_validate U (snd ls) = []) chain"
  shows "mode_valid (x_mode (resolve U chain)) \<and> trigger_valid (x_trigger (resolve U chain)) \<and> forks_valid (x_forks (resolve U chain)) \<and>
    strictness_valid (x_strictness (resolve U chain)) \<and> valid_model_name (x_model (resolve U chain)) \<and>
    1 \<le> x_max_comments (resolve U chain) \<and> x_max_comments (resolve U chain) \<le> 20 \<and> \<not> bad_usd (x_max_usd (resolve U chain)) \<and>
    match_rule (x_branch_rules (resolve U chain)) base head \<noteq> None"
proof -
  have v: "settings_validate U (snd ls) = []" if "ls \<in> set chain" for ls using assms that by (simp add: list_all_iff)
  have at: "x_mode (resolve U chain) = fst (nearest_or s_mode chain)"
      "x_trigger (resolve U chain) = fst (nearest_or s_trigger chain)"
      "x_forks (resolve U chain) = fst (nearest_or s_forks chain)"
      "x_strictness (resolve U chain) = fst (nearest_or s_strictness chain)"
      "x_model (resolve U chain) = fst (nearest_or s_model chain)"
      "x_max_comments (resolve U chain) = fst (nearest_or s_max_comments chain)"
      "x_max_usd (resolve U chain) = fst (nearest_or s_max_usd chain)"
      "x_branch_rules (resolve U chain) = fst (nearest_or get_branch_rules chain)"
    by (simp_all flip: nw_mode.resolves_to_nearest [of U] nw_trigger.resolves_to_nearest [of U] nw_forks.resolves_to_nearest [of U] nw_strictness.resolves_to_nearest [of U] nw_model.resolves_to_nearest [of U] nw_max_comments.resolves_to_nearest [of U] nw_max_usd.resolves_to_nearest [of U] nw_branch_rules.resolves_to_nearest [of U])
  have m: "mode_valid (fst (nearest_or s_mode chain))" "trigger_valid (fst (nearest_or s_trigger chain))"
      "forks_valid (fst (nearest_or s_forks chain))" "strictness_valid (fst (nearest_or s_strictness chain))"
      "valid_model_name (fst (nearest_or s_model chain))"
      "1 \<le> fst (nearest_or s_max_comments chain) \<and> fst (nearest_or s_max_comments chain) \<le> 20"
      "\<not> bad_usd (fst (nearest_or s_max_usd chain))"
    by (rule nearest_or_all, simp add: defaults_def, code_simp, rule valid_fields [OF v], assumption+)+
  have r: "match_rule (fst (nearest_or get_branch_rules chain)) base head \<noteq> None"
  proof (rule nearest_or_all)
    show "get_branch_rules defaults = Some [empty_rule\<lparr>br_types := [default_type]\<rparr>]" by (simp add: get_branch_rules_def defaults_def)
    show "match_rule [empty_rule\<lparr>br_types := [default_type]\<rparr>] base head \<noteq> None" by (rule default_rules_match)
    show "match_rule rs base head \<noteq> None" if "ls \<in> set chain" "get_branch_rules (snd ls) = Some rs" for ls rs
      using valid_fields(8) [OF v [OF that(1)]] that(2)
      by (intro valid_rules_match [of U]) (auto simp: get_branch_rules_def split: if_splits)
  qed
  show ?thesis
    using m r by (simp add: at)
qed

theorem resolved_settings_valid_witness: "mode_valid (x_mode (resolve ascii_tables sample_chain))"
proof -
  have "list_all (\<lambda>ls. settings_validate ascii_tables (snd ls) = []) sample_chain" by code_simp
  from resolved_settings_valid [OF this] show ?thesis by blast
qed

end
