(* ===== verification/Skills.thy ===== *)
theory Skills
  imports Finding
begin

text \<open>
  internal/review/skills.go: the skills a review type follows, and the ids findings cite rules and skills
  by. \<open>citation\<close> is the contract of such ids (a place in a list, read back), interpreted here for
  skills and in \<open>Types\<close> for rules. \<open>SkillLink.Name\<close>, which needs Go's path cleaning, is not modelled.
\<close>

section \<open>Citing by place\<close>

text \<open>The place a cited id names: \<open>TrimSpace\<close>, the prefix letter, then \<open>strconv.Atoi\<close>, from 1 to the length.\<close>

definition cited_place :: "char \<Rightarrow> string \<Rightarrow> nat \<Rightarrow> nat option" where
  "cited_place p cid len =
     (let s = trim_space cid in
      case atoi (trim_prefix [p] s) of
        None \<Rightarrow> None
      | Some n \<Rightarrow> if \<not> prefix [p] s \<or> n < 1 \<or> int len < n then None else Some (nat (n - 1)))"

definition place_id :: "char \<Rightarrow> nat \<Rightarrow> string" where
  "place_id p i = p # itoa (int i + 1)"

locale citation =
  fixes id_of :: "nat \<Rightarrow> string" and lookup :: "'a list \<Rightarrow> string \<Rightarrow> 'a option"
  assumes reads_back: "fits64 (int (length xs)) \<Longrightarrow> i < length xs \<Longrightarrow> lookup xs (id_of i) = Some (xs ! i)"
    and only_places: "lookup xs s = Some x \<Longrightarrow> x \<in> set xs"
begin

text \<open>An id keeps naming the same entry when others change, and when entries are added after it.\<close>

lemma update_other:
  "fits64 (int (length xs)) \<Longrightarrow> i < length xs \<Longrightarrow> i \<noteq> j \<Longrightarrow> lookup (xs[j := y]) (id_of i) = lookup xs (id_of i)"
  by (simp add: reads_back)

lemma append_more:
  "fits64 (int (length (xs @ ys))) \<Longrightarrow> i < length xs \<Longrightarrow> lookup (xs @ ys) (id_of i) = lookup xs (id_of i)"
  by (simp add: reads_back fits64_def min_int64_def nth_append)

lemma ids_differ: "fits64 (int (length (xs :: 'a list))) \<Longrightarrow> distinct xs \<Longrightarrow> i < length xs \<Longrightarrow> j < length xs \<Longrightarrow> id_of i = id_of j \<Longrightarrow> i = j"
  by (metis nth_eq_iff_index_eq option.inject reads_back)

end

lemma plain_id_trim: "ascii p \<Longrightarrow> \<not> is_space (of_char p) \<Longrightarrow> trim_space (place_id p i) = place_id p i"
proof -
  assume p: "ascii p" "\<not> is_space (of_char p)"
  have d: "ascii c \<and> \<not> is_space (of_char c)" if "is_ascii_digit c" for c
    using that by (auto simp: is_ascii_digit_of_char is_space_def)
  have "list_all (\<lambda>c. ascii c \<and> \<not> is_space (of_char c)) (show_nat n)" for n
    using show_nat_digits [of n] d by (auto simp: list_all_iff)
  then show ?thesis using p by (intro trim_space_fixed) (simp add: place_id_def itoa_def)
qed

lemma cited_place_id:
  assumes "ascii p" "\<not> is_space (of_char p)" "fits64 (int len)" "i < len"
  shows "cited_place p (place_id p i) len = Some i"
proof -
  have "fits64 (int i + 1)" using assms(3,4) by (auto simp: fits64_def min_int64_def max_int64_def)
  then have "atoi (show_nat (nat (int i + 1))) = Some (int i + 1)" using atoi_show_nat [of "nat (int i + 1)"] by simp
  then have "atoi (itoa (int i + 1)) = Some (int i + 1)" by (simp add: itoa_def)
  then show ?thesis
    using plain_id_trim [OF assms(1,2), of i] assms(4)
    by (simp add: cited_place_def Let_def) (simp add: place_id_def trim_prefix_def)
qed

lemma cited_place_bound: "cited_place p cid len = Some i \<Longrightarrow> i < len"
  by (auto simp: cited_place_def Let_def split: option.splits if_splits)

section \<open>Skill links\<close>

record skill_link =
  sk_repo :: string
  sk_path :: string
  sk_ref :: string

definition skill_id :: "nat \<Rightarrow> string" where
  "skill_id i = place_id CHR ''S'' i"

text \<open>\<open>Type.Skill\<close>, over the type's list of skills: the link and its index.\<close>

definition skill_of :: "skill_link list \<Rightarrow> string \<Rightarrow> (skill_link \<times> nat) option" where
  "skill_of skills cid = map_option (\<lambda>i. (skills ! i, i)) (cited_place CHR ''S'' cid (length skills))"

definition link_string :: "skill_link \<Rightarrow> string" where
  "link_string l =
     (if sk_repo l = [] then sk_path l
      else if sk_ref l \<noteq> [] then sk_repo l @ [CHR 0x40] @ sk_ref l @ '':'' @ sk_path l
      else sk_repo l @ '':'' @ sk_path l)"

fun strip_dot_slash :: "string \<Rightarrow> string" where
  "strip_dot_slash (a # b # s) = (if a = CHR ''.'' \<and> b = CHR ''/'' then strip_dot_slash s else a # b # s)"
| "strip_dot_slash s = s"

definition normalize_skill_link :: "skill_link \<Rightarrow> skill_link" where
  "normalize_skill_link l =
     l\<lparr>sk_repo := trim_space (sk_repo l), sk_ref := trim_space (sk_ref l),
       sk_path := trim_set ''/'' (strip_dot_slash (trim_space (sk_path l)))\<rparr>"

section \<open>Validating links\<close>

definition ref_char :: "char \<Rightarrow> bool" where
  "ref_char c \<longleftrightarrow> ascii_alnum c \<or> c = CHR ''.'' \<or> c = CHR ''_'' \<or> c = CHR ''/'' \<or> c = CHR ''-''"

text \<open>\<open>^[A-Za-z0-9._/-]+$\<close> and git's own rules.\<close>

definition valid_skill_ref :: "string \<Rightarrow> bool" where
  "valid_skill_ref r \<longleftrightarrow>
     (if 100 < length r \<or> r = [] \<or> \<not> list_all ref_char r then False
      else if prefix ''-'' r \<or> prefix ''/'' r \<or> prefix ''.'' r \<or> suffix ''/'' r \<or> suffix ''.'' r \<or> suffix ''.lock'' r \<or>
        contains ''..'' r \<or> contains ''//'' r \<or> contains ''/.'' r then False
      else True)"

definition valid_skill_path :: "string \<Rightarrow> bool" where
  "valid_skill_path p \<longleftrightarrow>
     (if p = [] \<or> 300 < length p \<or> contains_func is_control p \<or> contains_any (CHR 0x5C # ''*?[]{}'') p then False
      else list_all (\<lambda>seg. seg \<noteq> [] \<and> seg \<noteq> ''.'' \<and> seg \<noteq> ''..'' \<and> seg \<noteq> ''.git'') (split_on CHR ''/'' p))"

datatype skill_error =
    TooManySkills nat
  | SkillNotPlain nat string string
  | SkillRepo nat string
  | SkillPath nat string
  | SkillRefHere nat
  | SkillRef nat string
  | SkillTwice nat string

definition link_key :: "unicode \<Rightarrow> skill_link \<Rightarrow> string" where
  "link_key U l = to_lower U (sk_repo l) @ ''|'' @ sk_ref l @ ''|'' @ sk_path l"

text \<open>A link that is not written plainly ends its turn of the loop: the rest of it is not checked.\<close>

fun skill_errors :: "unicode \<Rightarrow> string set \<Rightarrow> nat \<Rightarrow> skill_link list \<Rightarrow> skill_error list" where
  "skill_errors U seen i [] = []"
| "skill_errors U seen i (l # ls) =
     (if normalize_skill_link l \<noteq> l
      then SkillNotPlain i (clip (link_string l)) (clip (link_string (normalize_skill_link l))) # skill_errors U seen (i + 1) ls
      else
        (if sk_repo l \<noteq> [] \<and> \<not> valid_repo_name (sk_repo l) then [SkillRepo i (clip (sk_repo l))] else []) @
        (if \<not> valid_skill_path (sk_path l) then [SkillPath i (clip (sk_path l))] else []) @
        (if sk_ref l \<noteq> [] \<and> sk_repo l = [] then [SkillRefHere i]
         else if sk_ref l \<noteq> [] \<and> \<not> valid_skill_ref (sk_ref l) then [SkillRef i (clip (sk_ref l))] else []) @
        (if link_key U l \<in> seen then [SkillTwice i (clip (link_string l))] else []) @
        skill_errors U (insert (link_key U l) seen) (i + 1) ls)"

definition validate_skills :: "unicode \<Rightarrow> skill_link list \<Rightarrow> skill_error list" where
  "validate_skills U links =
     (if 5 < length links then [TooManySkills (length links)] else []) @ skill_errors U {} 0 links"

section \<open>Reading a pasted address\<close>

definition strip_prefix_opt :: "string \<Rightarrow> string \<Rightarrow> string" where
  "strip_prefix_opt p s = (if prefix p s then drop (length p) s else s)"

definition repo_char :: "char \<Rightarrow> bool" where
  "repo_char c \<longleftrightarrow> ascii_alnum c \<or> c = CHR ''.'' \<or> c = CHR ''_'' \<or> c = CHR ''-''"

definition owner_char :: "char \<Rightarrow> bool" where
  "owner_char c \<longleftrightarrow> ascii_alnum c \<or> c = CHR ''-''"

definition strip_git :: "string \<Rightarrow> string" where
  "strip_git seg = (if suffix ''.git'' seg \<and> seg \<noteq> ''.git'' then take (length seg - 4) seg else seg)"

text \<open>
  The three groups of the pattern on an address that has a path after the ref (the only kind
  \<open>ParseSkillURL\<close> accepts): the repository, the ref and the path, all still escaped.
\<close>

definition tree_url :: "string \<Rightarrow> (string \<times> string \<times> string) option" where
  "tree_url s = do {
     s0 \<leftarrow> expect ''http'' s;
     s1 \<leftarrow> expect ''://'' (strip_prefix_opt ''s'' s0);
     s2 \<leftarrow> expect ''github.com/'' (strip_prefix_opt ''www.'' s1);
     let owner = takeWhile owner_char s2;
     s3 \<leftarrow> expect ''/'' (dropWhile owner_char s2);
     let seg = takeWhile repo_char s3;
     s4 \<leftarrow> expect ''/'' (dropWhile repo_char s3);
     s5 \<leftarrow> (if prefix ''tree'' s4 then expect ''tree/'' s4 else expect ''blob/'' s4);
     let ref = takeWhile (\<lambda>c. c \<noteq> CHR ''/'' \<and> c \<noteq> CHR ''?'' \<and> c \<noteq> CHR ''#'') s5;
     s6 \<leftarrow> expect ''/'' (drop (length ref) s5);
     let path = takeWhile (\<lambda>c. c \<noteq> CHR ''?'' \<and> c \<noteq> CHR ''#'') s6;
     if owner = [] \<or> seg = [] \<or> ref = [] \<or> path = [] \<or> CHR 0x0A \<in> set (drop (length path) s6) then None
     else Some (owner @ ''/'' @ strip_git seg, ref, path)
   }"

definition hex_digit :: "char \<Rightarrow> nat option" where
  "hex_digit c =
     (if is_ascii_digit c then Some (of_char c - 48)
      else if CHR ''a'' \<le> c \<and> c \<le> CHR ''f'' then Some (of_char c - 87)
      else if CHR ''A'' \<le> c \<and> c \<le> CHR ''F'' then Some (of_char c - 55) else None)"

text \<open>\<open>url.PathUnescape\<close>.\<close>

fun path_unescape :: "string \<Rightarrow> string option" where
  "path_unescape [] = Some []"
| "path_unescape (c # s) =
     (if c = CHR ''%'' then
        (case s of
          h # l # t \<Rightarrow>
            (case (hex_digit h, hex_digit l) of
               (Some a, Some b) \<Rightarrow> map_option (\<lambda>u. char_of (a * 16 + b) # u) (path_unescape t)
             | _ \<Rightarrow> None)
        | _ \<Rightarrow> None)
      else map_option (\<lambda>u. c # u) (path_unescape s))"

definition parse_skill_url :: "string \<Rightarrow> skill_link option" where
  "parse_skill_url raw = do {
     (repo, ref, esc) \<leftarrow> tree_url (trim_space raw);
     p \<leftarrow> path_unescape esc;
     let l = normalize_skill_link \<lparr>sk_repo = repo, sk_path = p, sk_ref = ref\<rparr>;
     if \<not> valid_repo_name (sk_repo l) \<or> \<not> valid_skill_path (sk_path l) \<or> \<not> valid_skill_ref (sk_ref l) then None else Some l
   }"

section \<open>Facts\<close>

interpretation sk: citation skill_id "\<lambda>skills cid. map_option fst (skill_of skills cid)"
proof unfold_locales
  show "map_option fst (skill_of xs (skill_id i)) = Some (xs ! i)" if "fits64 (int (length xs))" "i < length xs" for xs i
    using cited_place_id [of "CHR ''S''" "length xs" i] that by (simp add: skill_of_def skill_id_def is_space_def)
  show "x \<in> set xs" if "map_option fst (skill_of xs s) = Some x" for xs s x
    using that by (auto simp: skill_of_def dest: cited_place_bound)
qed

lemma skill_errors_ok:
  "skill_errors U seen i ls = [] \<Longrightarrow>
     list_all (\<lambda>l. normalize_skill_link l = l \<and> valid_skill_path (sk_path l) \<and> (sk_repo l = [] \<or> valid_repo_name (sk_repo l)) \<and>
       (sk_ref l = [] \<or> (sk_repo l \<noteq> [] \<and> valid_skill_ref (sk_ref l)))) ls \<and>
     distinct (map (link_key U) ls) \<and> set (map (link_key U) ls) \<inter> seen = {}"
  by (induction U seen i ls rule: skill_errors.induct) (auto split: if_splits)

text \<open>What validates stays inside the repository: every link of an accepted list is written plainly, its
  path is at most 300 bytes with no empty segment, no dot segment and no git directory, and no two links
  of the list are the same folder at the same ref.\<close>

theorem valid_skill_links:
  assumes "validate_skills U links = []"
  shows "length links \<le> 5 \<and> distinct (map (link_key U) links) \<and>
    list_all (\<lambda>l. normalize_skill_link l = l \<and> length (sk_path l) \<le> 300 \<and>
      list_all (\<lambda>seg. seg \<notin> {[], ''.'', ''..'', ''.git''}) (split_on CHR ''/'' (sk_path l))) links"
proof -
  have "skill_errors U {} 0 links = []" "length links \<le> 5" using assms by (auto simp: validate_skills_def split: if_splits)
  with skill_errors_ok [OF this(1)] show ?thesis
    by (auto simp: list_all_iff valid_skill_path_def split: if_splits)
qed

theorem valid_skill_links_witness:
  "list_all (\<lambda>seg. seg \<notin> {[], ''.'', ''..'', ''.git''}) (split_on CHR ''/'' ''skills/review'')"
proof -
  have "validate_skills ascii_tables [\<lparr>sk_repo = [], sk_path = ''skills/review'', sk_ref = []\<rparr>] = []" by code_simp
  from valid_skill_links [OF this] show ?thesis by simp
qed

text \<open>The canonical form is not one: a path written from the root with a dot segment keeps its dot segment,
  and an address whose folder name ends in a space is read as a link that does not validate.\<close>

lemma normalize_not_idempotent:
  "sk_path (normalize_skill_link \<lparr>sk_repo = [], sk_path = ''/./x'', sk_ref = []\<rparr>) = ''./x'' \<and>
   sk_path (normalize_skill_link \<lparr>sk_repo = [], sk_path = ''./x'', sk_ref = []\<rparr>) = ''x''"
  by code_simp

lemma parsed_link_not_valid:
  "parse_skill_url ''https://github.com/o/r/tree/main/x%20/'' = Some \<lparr>sk_repo = ''o/r'', sk_path = ''x '', sk_ref = ''main''\<rparr> \<and>
   validate_skills ascii_tables [\<lparr>sk_repo = ''o/r'', sk_path = ''x '', sk_ref = ''main''\<rparr>] \<noteq> []"
  by code_simp

end
