(* ===== verification/Types_Spec.thy ===== *)
theory Types_Spec
  imports Types
begin

text \<open>
  What types.go and prompt.go promise: a rule's id is its place, whatever happens to the others; a type
  read from the rubric format is valid, with a severity on every rule; no text of a type can open or
  close the criteria section; and a rule somebody turned off leaves no trace in the prompt.
\<close>

section \<open>Ids\<close>

text \<open>A rule's id names its place for good: turning another rule off, or any other edit of it, and adding
  rules after it leave the rule an id names as it was.\<close>

theorem rule_ids_stable:
  assumes "fits64 (int (length (rules @ added)))" and "i < length rules" and "i \<noteq> j"
  shows "rule_of (rules[j := r] @ added) (rule_id i) = Some (rules ! i)"
  using ru.append_more [of "rules[j := r]" added i] ru.update_other [of rules i j r] ru.reads_back [of rules i] assms
  by (simp add: fits64_def min_int64_def)

theorem rule_ids_stable_witness:
  "rule_of [new_rule ''a'' P0, (new_rule ''b'' P1)\<lparr>tr_off := True\<rparr>, new_rule ''c'' P2] ''R1'' = Some (new_rule ''a'' P0)"
proof -
  have "rule_id 0 = ''R1''" by code_simp
  then show ?thesis
    using rule_ids_stable [of "[new_rule ''a'' P0, new_rule ''b'' P1]" "[new_rule ''c'' P2]" 0 1 "(new_rule ''b'' P1)\<lparr>tr_off := True\<rparr>"]
    by (simp add: fits64_def min_int64_def max_int64_def)
qed

section \<open>Types read from text\<close>

definition parsed_rule :: "type_rule \<Rightarrow> bool" where
  "parsed_rule r \<longleftrightarrow> severity_valid (tr_cap r) \<and> \<not> tr_off r \<and> tr_source r = [] \<and> tr_bad r = [] \<and> tr_good r = []"

definition parse_inv :: "parse_state \<Rightarrow> bool" where
  "parse_inv st \<longleftrightarrow> list_all parsed_rule (ty_rules (ps_type st)) \<and> ty_skills (ps_type st) = [] \<and>
     (if ps_rules st then ty_rules (ps_type st) \<noteq> [] else True)"

lemma rule_options_parsed: "rule_options U r parts = Inr r' \<Longrightarrow> parsed_rule r \<Longrightarrow> parsed_rule r'"
  by (induction U r parts rule: rule_options.induct) (auto simp: parsed_rule_def Let_def split: prod.splits if_splits)

lemma parse_severity_ok: "parse_severity U s = Inr v \<Longrightarrow> severity_valid v"
  by (auto simp: parse_severity_def Let_def split: if_splits)

lemma parse_rule_line_parsed: "parse_rule_line U line = Inr r \<Longrightarrow> parsed_rule r"
  by (auto simp: parse_rule_line_def Let_def parsed_rule_def new_rule_def dest!: rule_options_parsed parse_severity_ok
      split: option.splits sum.splits)

lemma end_para_type [simp]: "ps_type (end_para st) = ps_type st" "ps_rules (end_para st) = ps_rules st" "ps_body (end_para st) = ps_body st"
  by (simp_all add: end_para_def)

lemma set_key_inv: "set_key U n k v st = Inr st' \<Longrightarrow> parse_inv st \<Longrightarrow> parse_inv st'"
  by (auto simp: set_key_def Let_def parse_inv_def split: if_splits sum.splits)

lemma parse_inv_end_para: "parse_inv st \<Longrightarrow> parse_inv (end_para st)"
  by (simp add: parse_inv_def)

lemma add_rule_inv:
  "parse_inv st \<Longrightarrow> ps_type st1 = ps_type st \<Longrightarrow> parsed_rule r \<Longrightarrow>
     parse_inv (st1\<lparr>ps_type := (ps_type st)\<lparr>ty_rules := ty_rules (ps_type st) @ [r]\<rparr>\<rparr>)"
  by (simp add: parse_inv_def)

lemma more_text_inv:
  assumes "parse_inv st" "ps_rules st"
  shows "parse_inv (st\<lparr>ps_type := (ps_type st)\<lparr>ty_rules := butlast (ty_rules (ps_type st)) @ [(last (ty_rules (ps_type st)))\<lparr>tr_text := s\<rparr>]\<rparr>\<rparr>)"
proof -
  have "ty_rules (ps_type st) \<noteq> []" using assms by (simp add: parse_inv_def)
  then have "parsed_rule (last (ty_rules (ps_type st)))" "list_all parsed_rule (butlast (ty_rules (ps_type st)))"
    using assms(1) by (auto simp: parse_inv_def list_all_iff dest: in_set_butlastD)
  then show ?thesis using assms by (simp add: parse_inv_def parsed_rule_def)
qed

lemma type_step_inv:
  assumes step: "type_step U n prev raw st = Inr st'" and inv: "parse_inv st"
  shows "parse_inv st'"
proof -
  let ?line = "trim_space raw"
  consider (comment) "prefix ''#'' ?line" | (head) "\<not> prefix ''#'' ?line" "\<not> ps_body st"
    | (item) "\<not> prefix ''#'' ?line" "ps_body st" "prefix ''- ['' ?line"
    | (blank) "\<not> prefix ''#'' ?line" "ps_body st" "\<not> prefix ''- ['' ?line" "?line = []"
    | (cont) "\<not> prefix ''#'' ?line" "ps_body st" "\<not> prefix ''- ['' ?line" "?line \<noteq> []" "ps_rules st"
    | (prose) "\<not> prefix ''#'' ?line" "ps_body st" "\<not> prefix ''- ['' ?line" "?line \<noteq> []" "\<not> ps_rules st"
    by blast
  then show ?thesis
  proof cases
    case head
    show ?thesis
    proof (cases "?line = []")
      case False
      with head step obtain k v seen where "set_key U n k v (st\<lparr>ps_seen := seen\<rparr>) = Inr st'"
        by (auto simp: type_step_def Let_def split: prod.splits if_splits)
      then show ?thesis by (rule set_key_inv) (use inv in \<open>simp add: parse_inv_def\<close>)
    qed (use head step inv in \<open>simp add: type_step_def\<close>)
  next
    case item
    let ?st = "if ps_rules st then st else (end_para st)\<lparr>ps_rules := True\<rparr>"
    from item step obtain r where r: "parse_rule_line U ?line = Inr r"
      and st': "st' = ?st\<lparr>ps_type := (ps_type st)\<lparr>ty_rules := ty_rules (ps_type st) @ [r]\<rparr>\<rparr>"
      by (simp add: type_step_def Let_def split: sum.splits)
    show ?thesis unfolding st' by (rule add_rule_inv [OF inv _ parse_rule_line_parsed [OF r]]) simp
  next
    case cont
    with step have st': "st' = st\<lparr>ps_type := (ps_type st)\<lparr>ty_rules := butlast (ty_rules (ps_type st)) @
        [(last (ty_rules (ps_type st)))\<lparr>tr_text := tr_text (last (ty_rules (ps_type st))) @ '' '' @ ?line\<rparr>]\<rparr>\<rparr>"
      by (simp add: type_step_def Let_def split: if_splits)
    show ?thesis unfolding st' by (rule more_text_inv [OF inv cont(5)])
  next
    case blank
    with step have "st' = end_para st" by (simp add: type_step_def Let_def)
    then show ?thesis by (simp add: parse_inv_end_para [OF inv])
  next
    case prose
    with step have "st' = st\<lparr>ps_para := ps_para st @ [?line]\<rparr>" by (simp add: type_step_def Let_def)
    then show ?thesis using inv by (simp add: parse_inv_def)
  qed (use step inv in \<open>simp add: type_step_def Let_def\<close>)
qed

lemma type_loop_inv: "type_loop U n prev raws st = Inr st' \<Longrightarrow> parse_inv st \<Longrightarrow> parse_inv st'"
proof (induction raws arbitrary: n prev st)
  case (Cons raw raws)
  then obtain st1 where "type_step U (n + 1) prev raw st = Inr st1" "type_loop U (n + 1) raw raws st1 = Inr st'"
    by (auto simp: bind_result_Inr_iff)
  with Cons.IH type_step_inv [OF _ Cons.prems(2)] show ?case by blast
qed simp

lemma valid_type_rules:
  assumes "validate_type U t = []" and "r \<in> set (ty_rules t)"
  shows "type_rule_errors i r = [] \<or> (\<exists>j. type_rule_errors j r = [])"
proof -
  from assms(2) obtain j where "j < length (ty_rules t)" "ty_rules t ! j = r" by (auto simp: in_set_conv_nth)
  then have "(j, r) \<in> set (enumerate 0 (ty_rules t))" by (force simp: in_set_enumerate_eq)
  then show ?thesis using assms(1) unfolding validate_type_def append_is_Nil_conv concat_eq_Nil_conv by force
qed

text \<open>A type read from the rubric format is one \<open>ValidateType\<close> accepts: at most forty rules, each one line of
  1 to 400 characters, on, without a source of its own and with a severity no finding citing it may
  exceed; and it follows no skills.\<close>

theorem parsed_type_valid:
  assumes "parse_type U text = Inr t"
  shows "validate_type U t = [] \<and> length (ty_rules t) \<le> 40 \<and> ty_skills t = [] \<and>
    list_all (\<lambda>r. severity_valid (tr_cap r) \<and> \<not> tr_off r \<and> tr_source r = [] \<and>
      1 \<le> rune_count (trim_space (tr_text r)) \<and> rune_count (trim_space (tr_text r)) \<le> 400 \<and>
      \<not> contains_func is_control (tr_text r)) (ty_rules t)"
proof -
  obtain st where st: "type_loop U 0 [] (lines_of (crlf_to_lf text)) parse_init = Inr st"
    and t: "validate_type U t = []"
      "t = (ps_type st)\<lparr>ty_rules := map (\<lambda>r. r\<lparr>tr_text := trim_space (tr_text r)\<rparr>) (ty_rules (ps_type st)),
                        ty_purpose := join [CHR 0x0A, CHR 0x0A] (ps_paras (end_para st))\<rparr>"
    using assms by (auto simp: parse_type_def bind_result_Inr_iff Let_def split: if_splits)
  have "parse_inv parse_init" by (simp add: parse_inv_def parse_init_def no_type_def)
  from type_loop_inv [OF st this] have inv: "list_all parsed_rule (ty_rules t)" "ty_skills t = []"
    by (auto simp: t(2) parse_inv_def list_all_iff parsed_rule_def)
  have "1 \<le> rune_count (trim_space (tr_text r)) \<and> rune_count (trim_space (tr_text r)) \<le> 400 \<and> \<not> contains_func is_control (tr_text r)"
    if "r \<in> set (ty_rules t)" for r
    using valid_type_rules [OF t(1) that, of 0] by (auto simp: type_rule_errors_def Let_def split: if_splits)
  moreover have "length (ty_rules t) \<le> 40"
    using t(1) unfolding validate_type_def append_is_Nil_conv by (auto split: if_splits)
  ultimately show ?thesis using inv t(1) by (simp add: list_all_iff parsed_rule_def)
qed

definition sample_type_text :: string where
  "sample_type_text = ''# Security'' @ nl @ ''key: security'' @ nl @ ''name: Security'' @ nl @ ''purpose: Find holes'' @ nl @ nl @
     ''- [P0] No secrets'' @ nl @ ''  in the repository.'' @ nl @ ''- [P1; paths: **/api/**] Check the tenant.''"

theorem parsed_type_valid_witness:
  "length [(new_rule ''No secrets in the repository.'' P0), (new_rule ''Check the tenant.'' P1)\<lparr>tr_globs := [''**/api/**'']\<rparr>] \<le> 40"
proof -
  have "parse_type ascii_tables sample_type_text =
      Inr \<lparr>ty_key = ''security'', ty_name = ''Security'', ty_purpose = ''Find holes'', ty_strictness = [], ty_globs = [], ty_inline = [],
        ty_rules = [(new_rule ''No secrets in the repository.'' P0), (new_rule ''Check the tenant.'' P1)\<lparr>tr_globs := [''**/api/**'']\<rparr>],
        ty_skills = []\<rparr>" by code_simp
  from parsed_type_valid [OF this] show ?thesis by simp
qed

section \<open>The section cannot be closed early\<close>

fun tag_free :: "string \<Rightarrow> bool" where
  "tag_free [] = True"
| "tag_free (c # s) = (\<not> (c = CHR ''<'' \<and> tag_follows s) \<and> tag_free s)"

lemma not_re_space [simp]: "\<not> re_space CHR ''<''" "\<not> re_space CHR ''&''" "\<not> re_space CHR ''/''"
  by (simp_all add: re_space_def)

lemma dropWhile_defang: "dropWhile re_space (defang_prompt s) = defang_prompt (dropWhile re_space s)"
  by (induction s) auto

lemma defang_Nil_iff [simp]: "defang_prompt s = [] \<longleftrightarrow> s = []"
  by (cases s) auto

lemma low_marks: "low CHR ''<'' = CHR ''<''" "low CHR ''&'' = CHR ''&''"
  by code_simp+

lemma take_defang:
  "CHR ''<'' \<notin> set w \<Longrightarrow> CHR ''&'' \<notin> set w \<Longrightarrow>
     map low (take (length w) (defang_prompt v)) = w \<longleftrightarrow> map low (take (length w) v) = w"
proof (induction w arbitrary: v)
  case (Cons d w)
  then show ?case by (cases v) (auto simp: low_marks)
qed simp

lemma tag_follows_defang: "tag_follows (defang_prompt s) = tag_follows s"
proof -
  let ?u = "dropWhile re_space s"
  have "(defang_prompt ?u \<noteq> [] \<and> hd (defang_prompt ?u) = CHR ''/'') = (?u \<noteq> [] \<and> hd ?u = CHR ''/'')"
    by (cases ?u) auto
  moreover have "tl (defang_prompt ?u) = defang_prompt (tl ?u)" if "?u \<noteq> [] \<and> hd ?u = CHR ''/''"
    using that by (cases ?u) auto
  moreover have "map low (take (length criteria_tag) (defang_prompt v)) = criteria_tag \<longleftrightarrow> map low (take (length criteria_tag) v) = criteria_tag" for v
    by (rule take_defang) (simp_all add: criteria_tag_def)
  ultimately show ?thesis by (simp add: tag_follows_def Let_def dropWhile_defang)
qed

lemma defang_tag_free: "tag_free (defang_prompt s)"
  by (induction s) (auto simp: tag_follows_defang)

text \<open>No text of a type can open or close the criteria section: what \<open>defangPrompt\<close> returns holds no tag of
  the section, in any case and with any spacing, and a text that held none is returned as it was
  written.\<close>

theorem defang_no_tag: "tag_free (defang_prompt s) \<and> (defang_prompt s = s \<longleftrightarrow> tag_free s)"
proof -
  have "tag_free s \<Longrightarrow> defang_prompt s = s" by (induction s) auto
  then show ?thesis using defang_tag_free [of s] by auto
qed

section \<open>Rules that are off\<close>

text \<open>A rule that is off, with everything about it erased.\<close>

definition erased :: "type_rule \<Rightarrow> type_rule" where
  "erased r = (if tr_off r then (new_rule [] [])\<lparr>tr_off := True\<rparr> else r)"

lemma prompt_rules_erased: "prompt_rules b i (map erased rs) = prompt_rules b i rs"
  by (induction rs arbitrary: b i) (auto simp: shown_def erased_def)

text \<open>No model is shown a rule that is off: the prompt section is the same whatever such a rule says, and
  the ids of the rules after it do not move.\<close>

theorem off_rules_not_shown:
  "type_prompt_section (t\<lparr>ty_rules := map erased (ty_rules t)\<rparr>) = type_prompt_section t"
  by (simp add: type_prompt_section_def prompt_rules_erased)

end
