(* ===== verification/Lease.thy ===== *)
theory Lease
  imports Main
begin

text \<open>
  The single-writer lease of \<^verbatim>\<open>internal/app/lease.go\<close>: the lock object in the bucket, the four
  conditional operations on it, one process's attempt to take the lease, its renewals, its loss and its
  release. Times are integers counting nanoseconds, as \<^verbatim>\<open>time.Duration\<close> does; a lock object
  carries the decoded \<^verbatim>\<open>LeaseInfo\<close> its JSON body says (for an unreadable body, what decoding left in
  the zero value). \<open>Lease_Run\<close> puts many such processes beside one bucket.
\<close>

section \<open>The timings\<close>

definition second :: int where "second = 1000000000"

definition lease_ttl :: int where "lease_ttl = 60 * second"
definition lease_renew :: int where "lease_renew = 10 * second"
definition lease_self_fence :: int where "lease_self_fence = 30 * second"
definition lease_shutdown :: int where "lease_shutdown = 9 * second"
definition lease_op_timeout :: int where "lease_op_timeout = 5 * second"
definition lease_poll :: int where "lease_poll = 5 * second"
definition lease_steal_after :: int where "lease_steal_after = 15 * second"
definition lease_give_up :: int where "lease_give_up = 90 * second"

lemmas lease_times = second_def lease_ttl_def lease_renew_def lease_self_fence_def lease_shutdown_def
  lease_op_timeout_def lease_poll_def lease_steal_after_def lease_give_up_def

section \<open>The lock object and its conditional operations\<close>

record lease_info =
  li_holder :: string
  li_revision :: string
  li_commit :: string
  li_db_path :: string
  li_replica :: string
  li_pid :: int
  li_acquired :: int
  li_renewed :: int
  li_expires :: int
  li_ttl_sec :: int

text \<open>An object: its generation, the server's modification time, and what its body says.\<close>

record lease_object =
  lo_gen :: int
  lo_modified :: int
  lo_body :: lease_info

datatype lease_error = ErrLeaseTaken | ErrLeaseMissing | ErrCanceled | ErrOther

text \<open>
  The bucket: the object, if there is one, and the number of the next generation. Every successful write
  makes a generation never used before. \<open>clk\<close> is the server's clock at the call.
\<close>

record bucket =
  bk_object :: "lease_object option"
  bk_next :: int

datatype lease_request = Create lease_info | Replace lease_info int | Remove int

definition write_object :: "int \<Rightarrow> lease_info \<Rightarrow> bucket \<Rightarrow> bucket" where
  "write_object clk body b =
     b\<lparr>bk_object := Some \<lparr>lo_gen = bk_next b, lo_modified = clk, lo_body = body\<rparr>, bk_next := bk_next b + 1\<rparr>"

fun apply_request :: "int \<Rightarrow> lease_request \<Rightarrow> bucket \<Rightarrow> bucket \<times> (lease_error + int)" where
  "apply_request clk (Create body) b =
     (case bk_object b of Some ob \<Rightarrow> (b, Inl ErrLeaseTaken)
      | None \<Rightarrow> (write_object clk body b, Inr (bk_next b)))"
| "apply_request clk (Replace body gen) b =
     (case bk_object b of None \<Rightarrow> (b, Inl ErrLeaseTaken)
      | Some ob \<Rightarrow> if lo_gen ob \<noteq> gen then (b, Inl ErrLeaseTaken) else (write_object clk body b, Inr (bk_next b)))"
| "apply_request clk (Remove gen) b =
     (case bk_object b of None \<Rightarrow> (b, Inl ErrLeaseTaken)
      | Some ob \<Rightarrow> if lo_gen ob \<noteq> gen then (b, Inl ErrLeaseTaken) else (b\<lparr>bk_object := None\<rparr>, Inr gen))"

type_synonym lease_read = "lease_error + lease_object"

definition read_object :: "bucket \<Rightarrow> lease_read" where
  "read_object b = (case bk_object b of None \<Rightarrow> Inl ErrLeaseMissing | Some ob \<Rightarrow> Inr ob)"

section \<open>One process\<close>

record lease =
  l_info :: lease_info
  l_gen :: int
  l_last_ok :: int
  l_seen_gen :: int
  l_seen_at :: int
  l_state :: string
  l_lost :: bool

definition new_lease :: "lease_info \<Rightarrow> lease" where
  "new_lease info = \<lparr>l_info = info, l_gen = 0, l_last_ok = 0, l_seen_gen = 0, l_seen_at = 0,
     l_state = ''starting'', l_lost = False\<rparr>"

definition mark_lost :: "lease \<Rightarrow> lease" where
  "mark_lost l = (if l_lost l then l else l\<lparr>l_state := ''lost'', l_lost := True\<rparr>)"

definition held :: "lease \<Rightarrow> bool \<times> int" where
  "held l = (l_gen l \<noteq> 0, l_last_ok l)"

text \<open>When the object of a read expires: the server's time and the lifetime, or the payload's claim if later.\<close>

definition expires :: "lease_object \<Rightarrow> int" where
  "expires ob = (let e = lo_modified ob + lease_ttl in if li_expires (lo_body ob) > e then li_expires (lo_body ob) else e)"

definition who :: "lease_info \<Rightarrow> string" where
  "who cur = (if li_revision cur \<noteq> '''' then li_revision cur
     else if li_holder cur \<noteq> '''' then li_holder cur else ''an unidentified writer'')"

text \<open>
  An attempt: \<open>Take\<close> with the generation to replace (0 to create), or not this time, with the holder for
  the logs, or an error. \<open>now\<close> is the local clock; the readings of one attempt are taken as one.
\<close>

datatype verdict = Take int | Wait string | Fail lease_error

definition confirming :: string where "confirming = '' (expired; confirming)''"

definition try_lease :: "int \<Rightarrow> lease_read \<Rightarrow> lease \<Rightarrow> lease \<times> verdict" where
  "try_lease now rd l = (case rd of
     Inl ErrLeaseMissing \<Rightarrow> (l, Take 0)
   | Inl e \<Rightarrow> (l, Fail e)
   | Inr ob \<Rightarrow>
       let w = who (lo_body ob); gen = lo_gen ob; seen = l\<lparr>l_seen_gen := gen, l_seen_at := now\<rparr> in
       if expires ob > now then (if gen \<noteq> l_seen_gen l then seen else l, Wait w)
       else if gen \<noteq> l_seen_gen l then (seen, Wait (w @ confirming))
       else if now - l_seen_at l < lease_steal_after then (l, Wait (w @ confirming))
       else (l, Take gen))"

text \<open>
  Taking: the lock is written under the generation seen, and the answer decides. What an attempt returns
  is \<open>Got\<close>, or who holds the lease, or an error with it.
\<close>

datatype outcome = Got | Held_by string | Failed string lease_error

definition take_request :: "int \<Rightarrow> int \<Rightarrow> lease \<Rightarrow> lease \<times> lease_request" where
  "take_request now gen l =
     (let info = (l_info l)\<lparr>li_acquired := now, li_renewed := now, li_expires := now + lease_ttl,
            li_ttl_sec := lease_ttl div second\<rparr>
      in (l\<lparr>l_info := info\<rparr>, if gen = 0 then Create info else Replace info gen))"

definition take_answer :: "int \<Rightarrow> lease_error + int \<Rightarrow> lease \<Rightarrow> lease \<times> outcome" where
  "take_answer now ans l = (case ans of
     Inl e \<Rightarrow> (l, if e = ErrLeaseTaken then Held_by ''another container'' else Failed ''unknown'' e)
   | Inr gen \<Rightarrow> (l\<lparr>l_gen := gen, l_last_ok := now, l_state := ''held''\<rparr>, Got))"

text \<open>Renewing: nothing is sent by a process that holds nothing.\<close>

definition renew_request :: "int \<Rightarrow> lease \<Rightarrow> lease \<times> lease_request option" where
  "renew_request now l =
     (let info = (l_info l)\<lparr>li_renewed := now, li_expires := now + lease_ttl\<rparr>
      in (l\<lparr>l_info := info\<rparr>, if l_gen l = 0 then None else Some (Replace info (l_gen l))))"

definition renew_answer :: "int \<Rightarrow> lease_error + int \<Rightarrow> lease \<Rightarrow> lease \<times> lease_error option" where
  "renew_answer now ans l = (case ans of Inl e \<Rightarrow> (l, Some e)
     | Inr gen \<Rightarrow> (l\<lparr>l_gen := gen, l_last_ok := now, l_state := ''held''\<rparr>, None))"

text \<open>The renewal loop after one attempt: go on, stop because the context ended, or stop because it is lost.\<close>

datatype loop = Continue | Cancelled | Stand_down

definition run_after :: "int \<Rightarrow> lease_error option \<Rightarrow> lease \<Rightarrow> lease \<times> loop" where
  "run_after now err l = (case err of
     None \<Rightarrow> (l, Continue)
   | Some ErrLeaseTaken \<Rightarrow> (mark_lost l, Stand_down)
   | Some ErrCanceled \<Rightarrow> (l, Cancelled)
   | Some e \<Rightarrow> if now - snd (held l) > lease_self_fence then (mark_lost l, Stand_down) else (l, Continue))"

definition release_request :: "lease \<Rightarrow> lease \<times> lease_request option" where
  "release_request l = (l\<lparr>l_gen := 0\<rparr>, if l_gen l = 0 then None else Some (Remove (l_gen l)))"

definition release_answer :: "lease_error + int \<Rightarrow> lease_error option" where
  "release_answer ans = (case ans of Inr _ \<Rightarrow> None
     | Inl e \<Rightarrow> if e = ErrLeaseTaken \<or> e = ErrLeaseMissing then None else Some e)"

section \<open>The attempts until the lease is held\<close>

text \<open>
  What one round of \<^verbatim>\<open>Acquire\<close> meets: the local time of the attempt, what the read returned, what the
  write would be answered, and the time when the round ends.
\<close>

record round =
  rd_now :: int
  rd_read :: lease_read
  rd_answer :: "lease_error + int"
  rd_end :: int

datatype acquisition = Acquired | Gave_up string | Still_waiting

definition attempt :: "round \<Rightarrow> lease \<Rightarrow> lease \<times> outcome" where
  "attempt r l = (case try_lease (rd_now r) (rd_read r) l of
     (l1, Take gen) \<Rightarrow> take_answer (rd_now r) (rd_answer r) (fst (take_request (rd_now r) gen l1))
   | (l1, Wait w) \<Rightarrow> (l1, Held_by w)
   | (l1, Fail e) \<Rightarrow> (l1, Failed ''unknown'' e))"

text \<open>The three cases of the loop: an error is only logged, unless it says that the lease is taken.\<close>

definition after_attempt :: "lease \<times> outcome \<Rightarrow> lease \<times> string option" where
  "after_attempt x = (case x of
     (l, Got) \<Rightarrow> (l, None)
   | (l, Held_by w) \<Rightarrow> (l\<lparr>l_state := ''waiting for '' @ w\<rparr>, Some w)
   | (l, Failed w e) \<Rightarrow> (if e = ErrLeaseTaken then l\<lparr>l_state := ''waiting for '' @ w\<rparr> else l, Some w))"

fun acquire :: "int \<Rightarrow> round list \<Rightarrow> lease \<Rightarrow> lease \<times> acquisition" where
  "acquire deadline [] l = (l, Still_waiting)"
| "acquire deadline (r # rs) l = (case after_attempt (attempt r l) of
     (l1, None) \<Rightarrow> (l1, Acquired)
   | (l1, Some w) \<Rightarrow> if rd_end r > deadline then (l1, Gave_up w) else acquire deadline rs l1)"

section \<open>What a verdict means\<close>

lemma try_lease_Inl: "try_lease now (Inl e) l = (l, if e = ErrLeaseMissing then Take 0 else Fail e)"
  by (cases e) (simp_all add: try_lease_def)

lemma try_lease_kept [simp]:
  "l_info (fst (try_lease now rd l)) = l_info l"
  "l_gen (fst (try_lease now rd l)) = l_gen l"
  "l_last_ok (fst (try_lease now rd l)) = l_last_ok l"
  by (cases rd; simp add: try_lease_Inl; simp add: try_lease_def Let_def)+

text \<open>Nobody's object is taken over before it expires, by the clock of the reader.\<close>

lemma take_is_expired:
  assumes "try_lease now (Inr ob) l = (l', Take gen)"
  shows "gen = lo_gen ob" and "lo_modified ob + lease_ttl \<le> now" and "li_expires (lo_body ob) \<le> now"
    and "l_seen_gen l = gen" and "l_seen_at l + lease_steal_after \<le> now" and "l' = l"
  using assms by (auto simp: try_lease_def Let_def expires_def split: if_splits)

lemma take_vacant:
  assumes "try_lease now rd l = (l', Take 0)" and "\<And>ob. rd = Inr ob \<Longrightarrow> lo_gen ob \<noteq> 0"
  shows "rd = Inl ErrLeaseMissing"
proof (cases rd)
  case (Inl e)
  with assms(1) show ?thesis by (simp add: try_lease_Inl split: if_splits)
next
  case (Inr ob)
  with assms take_is_expired(1) [of now ob l l' 0] show ?thesis by simp
qed

section \<open>An abandoned lease is taken\<close>

text \<open>
  Rounds paced as the loop paces them: each begins at most seven seconds (the poll and its jitter) after the
  one before ended, and lasts at most the five of its operations.
\<close>

fun paced :: "int \<Rightarrow> round list \<Rightarrow> bool" where
  "paced t [] \<longleftrightarrow> True"
| "paced t (r # rs) \<longleftrightarrow> t \<le> rd_now r \<and> rd_now r \<le> t + lease_poll + 2 * second \<and> rd_now r \<le> rd_end r \<and>
     rd_end r \<le> rd_now r + lease_op_timeout \<and> paced (rd_end r) rs"

definition meets :: "lease_object \<Rightarrow> round \<Rightarrow> bool" where
  "meets ob r \<longleftrightarrow> rd_read r = Inr ob \<and> (\<exists>g. rd_answer r = Inr g)"

lemma new_lease_seen: "l_seen_gen (new_lease info) = 0"
  by (simp add: new_lease_def)

text \<open>Once the object was seen, the first round after its expiry and the confirmation takes it.\<close>

lemma acquire_seen:
  assumes "paced t rs" and "list_all (meets ob) rs" and "l_seen_gen l = lo_gen ob"
    and "l_seen_at l + lease_steal_after \<le> start + 60 * second" and "expires ob \<le> start + 60 * second"
    and "t \<le> start + 65 * second" and "\<exists>r\<in>set rs. start + 60 * second \<le> rd_now r"
  shows "snd (acquire (start + lease_give_up) rs l) = Acquired"
  using assms
proof (induction rs arbitrary: t l)
  case Nil
  then show ?case by simp
next
  case (Cons r rs)
  from Cons.prems(2) obtain g where r: "rd_read r = Inr ob" "rd_answer r = Inr g" by (auto simp: meets_def)
  show ?case
  proof (cases "try_lease (rd_now r) (rd_read r) l")
    case (Pair l1 v)
    show ?thesis
    proof (cases v)
      case (Take gen)
      with Pair r show ?thesis by (simp add: attempt_def take_answer_def after_attempt_def)
    next
      case (Wait w)
      with Pair r Cons.prems(3) have l1: "l1 = l"
        by (auto simp: try_lease_def Let_def split: if_splits)
      have early: "rd_now r < start + 60 * second"
      proof (rule ccontr)
        assume "\<not> rd_now r < start + 60 * second"
        with Pair r Cons.prems(3-5) have "v = Take (lo_gen ob)" by (simp add: try_lease_def Let_def)
        with Wait show False by simp
      qed
      with Cons.prems(1) have e: "rd_end r \<le> start + 65 * second" "\<not> rd_end r > start + lease_give_up"
        by (simp_all add: lease_times)
      have "snd (acquire (start + lease_give_up) rs (l1\<lparr>l_state := ''waiting for '' @ w\<rparr>)) = Acquired"
        by (rule Cons.IH [of "rd_end r"]) (use Cons.prems e early l1 in auto)
      with e Pair Wait show ?thesis by (simp add: attempt_def after_attempt_def)
    next
      case (Fail e)
      with Pair r show ?thesis by (auto simp: try_lease_def Let_def split: if_splits)
    qed
  qed
qed

text \<open>C39. A process that starts beside an abandoned lease takes it before it gives up: as long as the object stays
  as it is, expires within the lifetime of a lease and the bucket answers, the rounds end with the lease held,
  whatever the process has seen before the first.\<close>

theorem abandoned_is_acquired:
  assumes "paced start rs" and "list_all (meets ob) rs" and "lo_gen ob \<noteq> 0" and "expires ob \<le> start + lease_ttl"
    and "\<exists>r\<in>set rs. start + lease_ttl \<le> rd_now r"
  shows "snd (acquire (start + lease_give_up) rs (new_lease info)) = Acquired"
proof (cases rs)
  case Nil
  with assms(5) show ?thesis by simp
next
  case (Cons r rs')
  with assms(2) have r: "rd_read r = Inr ob" by (simp add: meets_def)
  have now: "rd_now r \<le> start + 7 * second" "rd_end r \<le> start + 12 * second" "\<not> rd_end r > start + lease_give_up"
    using assms(1) Cons by (simp_all add: lease_times)
  obtain w where w: "try_lease (rd_now r) (Inr ob) (new_lease info) =
      ((new_lease info)\<lparr>l_seen_gen := lo_gen ob, l_seen_at := rd_now r\<rparr>, Wait w)"
    using assms(3) new_lease_seen [of info] by (cases "expires ob > rd_now r") (simp_all add: try_lease_def Let_def)
  have "snd (acquire (start + lease_give_up) rs'
      ((new_lease info)\<lparr>l_seen_gen := lo_gen ob, l_seen_at := rd_now r, l_state := ''waiting for '' @ w\<rparr>)) = Acquired"
    by (rule acquire_seen [of "rd_end r"]) (use assms Cons now in \<open>auto simp: lease_times\<close>)
  with w r now(3) Cons show ?thesis by (simp add: attempt_def after_attempt_def)
qed

definition left_over :: lease_object where
  "left_over = \<lparr>lo_gen = 7, lo_modified = 0, lo_body =
     \<lparr>li_holder = ''h'', li_revision = ''r'', li_commit = '''', li_db_path = '''', li_replica = '''', li_pid = 1,
      li_acquired = 0, li_renewed = 0, li_expires = 60 * second, li_ttl_sec = 60\<rparr>\<rparr>"

definition sample_rounds :: "round list" where
  "sample_rounds = [\<lparr>rd_now = t * second, rd_read = Inr left_over, rd_answer = Inr 8, rd_end = t * second\<rparr>.
     t \<leftarrow> [0, 5, 10, 15, 20, 25, 30, 35, 40, 45, 50, 55, 60]]"

theorem abandoned_is_acquired_witness: "snd (acquire (0 + lease_give_up) sample_rounds (new_lease (lo_body left_over))) = Acquired"
  by (rule abandoned_is_acquired [of _ _ left_over])
    (simp_all add: sample_rounds_def left_over_def meets_def expires_def new_lease_def lease_times)

text \<open>
  The comment on the timings has nobody take a lease until \<^verbatim>\<open>leaseStealAfter\<close> past its expiry, and has a
  holder stop \<^verbatim>\<open>leaseSelfFence\<close> after its last success. The confirmation counts sightings before the expiry too,
  so the take comes at the expiry itself; and the fence is looked at when a renewal fails, so a failure
  at the fence does not stop the holder, which goes on until its next attempt has failed. What is left between the two is
  six seconds: \<open>Lease_Run.one_writer\<close> needs clocks that run ahead by less.
\<close>

lemma taken_at_expiry: "snd (try_lease (60 * second) (Inr left_over)
    ((new_lease (lo_body left_over))\<lparr>l_seen_gen := 7, l_seen_at := 45 * second\<rparr>)) = Take 7"
  by (simp add: try_lease_def left_over_def expires_def new_lease_def lease_times)

lemma fence_is_checked_late: "run_after (l_last_ok l + lease_self_fence) (Some ErrOther) l = (l, Continue)"
  by (simp add: run_after_def held_def)

end
