(* ===== verification/Lease_Run.thy ===== *)
theory Lease_Run
  imports Lease
begin

text \<open>
  Many processes beside one bucket: the step relation of \<^verbatim>\<open>Acquire\<close>, \<^verbatim>\<open>Run\<close> and \<^verbatim>\<open>Release\<close>, and
  the proof that no two of them may write to the database at once. A request and its answer are separate
  steps; a call may fail after its request was applied, and a request given up on may still be applied later,
  or twice. Each process has its own clock, off by a constant from the server's. Time cannot pass a process's
  deadlines: a call ends within \<^verbatim>\<open>leaseOpTimeout\<close>, the renewal ticker fires on time, and a process that
  stands down has stopped after \<^verbatim>\<open>leaseShutdown\<close>. (A process that is paused past them is outside the model, as
  the comment on \<^verbatim>\<open>Release\<close> says it is outside the mechanism.) Local times are as the process reads them.
\<close>

section \<open>The steps\<close>

datatype phase =
    Idle
  | Judging lease_read
  | Taking int lease_request "(lease_error + int) option"
  | Holding int
  | Renewing int int lease_request "(lease_error + int) option"
  | Stopping int bool
  | Gone

record process =
  pr_lease :: lease
  pr_phase :: phase

record world =
  w_time :: int
  w_bucket :: bucket
  w_flight :: "lease_request set"
  w_proc :: "nat \<Rightarrow> process"

definition set_proc :: "nat \<Rightarrow> lease \<Rightarrow> phase \<Rightarrow> world \<Rightarrow> world" where
  "set_proc p l ph w = w\<lparr>w_proc := (w_proc w)(p := \<lparr>pr_lease = l, pr_phase = ph\<rparr>)\<rparr>"

definition in_time :: "int \<Rightarrow> int \<Rightarrow> phase \<Rightarrow> bool" where
  "in_time off t ph = (case ph of
     Taking s _ _ \<Rightarrow> t + off \<le> s + lease_op_timeout
   | Holding next \<Rightarrow> t \<le> next
   | Renewing s _ _ _ \<Rightarrow> t + off \<le> s + lease_op_timeout
   | Stopping since _ \<Rightarrow> t \<le> since + lease_shutdown
   | _ \<Rightarrow> True)"

text \<open>What is still on its way when a call is given up.\<close>

definition unanswered :: "phase \<Rightarrow> lease_request set" where
  "unanswered ph = (case ph of Taking _ req None \<Rightarrow> {req} | Renewing _ _ req None \<Rightarrow> {req} | _ \<Rightarrow> {})"

definition after_loop :: "int \<Rightarrow> int \<Rightarrow> loop \<Rightarrow> phase" where
  "after_loop t tick r = (case r of Continue \<Rightarrow> Holding (tick + lease_renew)
     | Cancelled \<Rightarrow> Stopping t True | Stand_down \<Rightarrow> Stopping t False)"

inductive lease_step :: "(nat \<Rightarrow> int) \<Rightarrow> world \<Rightarrow> world \<Rightarrow> bool" for off where
  time_passes: "0 \<le> d \<Longrightarrow> \<forall>p. in_time (off p) (w_time w + d) (pr_phase (w_proc w p)) \<Longrightarrow>
    lease_step off w (w\<lparr>w_time := w_time w + d\<rparr>)"
| reads: "w_proc w p = \<lparr>pr_lease = l, pr_phase = Idle\<rparr> \<Longrightarrow>
    rd = read_object (w_bucket w) \<or> rd \<in> {Inl ErrOther, Inl ErrCanceled, Inl ErrLeaseTaken} \<Longrightarrow>
    lease_step off w (set_proc p l (Judging rd) w)"
| waits: "w_proc w p = \<lparr>pr_lease = l, pr_phase = Judging rd\<rparr> \<Longrightarrow>
    try_lease (w_time w + off p) rd l = (l1, v) \<Longrightarrow> \<forall>g. v \<noteq> Take g \<Longrightarrow>
    lease_step off w (set_proc p l1 Idle w)"
| takes: "w_proc w p = \<lparr>pr_lease = l, pr_phase = Judging rd\<rparr> \<Longrightarrow>
    try_lease (w_time w + off p) rd l = (l1, Take g) \<Longrightarrow>
    take_request (w_time w + off p) g l1 = (l2, req) \<Longrightarrow>
    lease_step off w (set_proc p l2 (Taking (w_time w + off p) req None) w)"
| take_applied: "w_proc w p = \<lparr>pr_lease = l, pr_phase = Taking s req None\<rparr> \<Longrightarrow>
    apply_request (w_time w) req (w_bucket w) = (b, ans) \<Longrightarrow>
    lease_step off w (set_proc p l (Taking s req (Some ans)) (w\<lparr>w_bucket := b\<rparr>))"
| take_answered: "w_proc w p = \<lparr>pr_lease = l, pr_phase = Taking s req (Some ans)\<rparr> \<Longrightarrow>
    take_answer s ans l = (l1, r) \<Longrightarrow>
    lease_step off w (set_proc p l1 (if r = Got then Holding (w_time w + lease_renew) else Idle) w)"
| take_failed: "w_proc w p = \<lparr>pr_lease = l, pr_phase = Taking s req ans\<rparr> \<Longrightarrow>
    take_answer s (Inl e) l = (l1, r) \<Longrightarrow>
    lease_step off w (set_proc p l1 Idle (w\<lparr>w_flight := w_flight w \<union> unanswered (Taking s req ans)\<rparr>))"
| renews: "w_proc w p = \<lparr>pr_lease = l, pr_phase = Holding tick\<rparr> \<Longrightarrow> w_time w = tick \<Longrightarrow>
    renew_request (tick + off p) l = (l1, Some req) \<Longrightarrow>
    lease_step off w (set_proc p l1 (Renewing (tick + off p) tick req None) w)"
| renews_nothing: "w_proc w p = \<lparr>pr_lease = l, pr_phase = Holding tick\<rparr> \<Longrightarrow> w_time w = tick \<Longrightarrow>
    renew_request (tick + off p) l = (l1, None) \<Longrightarrow> run_after (tick + off p) (Some ErrLeaseTaken) l1 = (l2, r) \<Longrightarrow>
    lease_step off w (set_proc p l2 (after_loop (w_time w) tick r) w)"
| renew_applied: "w_proc w p = \<lparr>pr_lease = l, pr_phase = Renewing s tick req None\<rparr> \<Longrightarrow>
    apply_request (w_time w) req (w_bucket w) = (b, ans) \<Longrightarrow>
    lease_step off w (set_proc p l (Renewing s tick req (Some ans)) (w\<lparr>w_bucket := b\<rparr>))"
| renew_answered: "w_proc w p = \<lparr>pr_lease = l, pr_phase = Renewing s tick req (Some ans)\<rparr> \<Longrightarrow>
    renew_answer s ans l = (l1, err) \<Longrightarrow> run_after (w_time w + off p) err l1 = (l2, r) \<Longrightarrow>
    lease_step off w (set_proc p l2 (after_loop (w_time w) tick r) w)"
| renew_failed: "w_proc w p = \<lparr>pr_lease = l, pr_phase = Renewing s tick req ans\<rparr> \<Longrightarrow>
    renew_answer s (Inl e) l = (l1, err) \<Longrightarrow> run_after (w_time w + off p) err l1 = (l2, r) \<Longrightarrow>
    lease_step off w (set_proc p l2 (after_loop (w_time w) tick r)
      (w\<lparr>w_flight := w_flight w \<union> unanswered (Renewing s tick req ans)\<rparr>))"
| shuts_down: "w_proc w p = \<lparr>pr_lease = l, pr_phase = Holding tick\<rparr> \<Longrightarrow>
    lease_step off w (set_proc p l (Stopping (w_time w) True) w)"
| exits: "w_proc w p = \<lparr>pr_lease = l, pr_phase = Stopping since False\<rparr> \<Longrightarrow>
    lease_step off w (set_proc p l Gone w)"
| releases: "w_proc w p = \<lparr>pr_lease = l, pr_phase = Stopping since True\<rparr> \<Longrightarrow>
    release_request l = (l1, req) \<Longrightarrow>
    lease_step off w (set_proc p l1 Gone (w\<lparr>w_flight := w_flight w \<union> set_option req\<rparr>))"
| crashes: "w_proc w p = \<lparr>pr_lease = l, pr_phase = ph\<rparr> \<Longrightarrow>
    lease_step off w (set_proc p l Gone (w\<lparr>w_flight := w_flight w \<union> unanswered ph\<rparr>))"
| delivered_late: "req \<in> w_flight w \<Longrightarrow> apply_request (w_time w) req (w_bucket w) = (b, ans) \<Longrightarrow>
    lease_step off w (w\<lparr>w_bucket := b\<rparr>)"

text \<open>
  At the start no process runs and nothing is on its way; a lock object may be left from before.
\<close>

definition lease_start :: "world \<Rightarrow> bool" where
  "lease_start w \<longleftrightarrow> (\<forall>p. \<exists>info. w_proc w p = \<lparr>pr_lease = new_lease info, pr_phase = Idle\<rparr>) \<and> w_flight w = {} \<and>
     0 < bk_next (w_bucket w) \<and>
     (\<forall>ob. bk_object (w_bucket w) = Some ob \<longrightarrow> lo_gen ob < bk_next (w_bucket w) \<and> lo_modified ob \<le> w_time w)"

inductive lease_reachable :: "(nat \<Rightarrow> int) \<Rightarrow> world \<Rightarrow> bool" for off where
  start: "lease_start w \<Longrightarrow> lease_reachable off w"
| step: "lease_reachable off w \<Longrightarrow> lease_step off w w' \<Longrightarrow> lease_reachable off w'"

definition may_write :: "world \<Rightarrow> nat \<Rightarrow> bool" where
  "may_write w p = (case pr_phase (w_proc w p) of Holding _ \<Rightarrow> True | Renewing _ _ _ _ \<Rightarrow> True
     | Stopping _ _ \<Rightarrow> True | _ \<Rightarrow> False)"

section \<open>The invariant\<close>

text \<open>
  The generation a process was granted last, and the true time when that call began. A process whose take was
  applied counts before it has heard so.
\<close>

definition granted :: "int \<Rightarrow> process \<Rightarrow> (int \<times> int) option" where
  "granted off pr = (case pr_phase pr of
     Taking s _ (Some (Inr g)) \<Rightarrow> Some (g, s - off)
   | Holding _ \<Rightarrow> Some (l_gen (pr_lease pr), l_last_ok (pr_lease pr) - off)
   | Renewing _ _ _ _ \<Rightarrow> Some (l_gen (pr_lease pr), l_last_ok (pr_lease pr) - off)
   | Stopping _ _ \<Rightarrow> Some (l_gen (pr_lease pr), l_last_ok (pr_lease pr) - off)
   | _ \<Rightarrow> None)"

definition covered :: "bucket \<Rightarrow> int \<Rightarrow> int \<Rightarrow> bool" where
  "covered b g s \<longleftrightarrow> (\<exists>ob. bk_object b = Some ob \<and> g \<le> lo_gen ob \<and> s \<le> lo_modified ob)"

definition timely :: "int \<Rightarrow> int \<Rightarrow> process \<Rightarrow> bool" where
  "timely off t pr = (let s0 = l_last_ok (pr_lease pr) - off in case pr_phase pr of
     Taking s _ _ \<Rightarrow> s \<le> t + off \<and> t + off \<le> s + lease_op_timeout
   | Holding next \<Rightarrow> t \<le> next \<and> next \<le> s0 + 40 * second
   | Renewing s tick _ _ \<Rightarrow> s = tick + off \<and> tick \<le> t \<and> tick \<le> s0 + 40 * second \<and> t \<le> tick + lease_op_timeout
   | Stopping since _ \<Rightarrow> since \<le> s0 + 45 * second \<and> t \<le> since + lease_shutdown
   | _ \<Rightarrow> True)"

definition is_remove :: "lease_request \<Rightarrow> bool" where
  "is_remove req = (case req of Remove _ \<Rightarrow> True | _ \<Rightarrow> False)"

lemma is_remove_simps [simp]: "\<not> is_remove (Create body)" "\<not> is_remove (Replace body g)" "is_remove (Remove g)"
  by (simp_all add: is_remove_def)

definition known :: "bucket \<Rightarrow> int \<Rightarrow> (int \<Rightarrow> bool) \<Rightarrow> bool" where
  "known b g P \<longleftrightarrow> g < bk_next b \<and> (\<forall>ob. bk_object b = Some ob \<and> lo_gen ob = g \<longrightarrow> P (lo_modified ob))"

definition asked :: "int \<Rightarrow> bucket \<Rightarrow> process \<Rightarrow> bool" where
  "asked off b pr = (case pr_phase pr of
     Judging (Inr ob) \<Rightarrow> known b (lo_gen ob) (\<lambda>m. m = lo_modified ob)
   | Taking s req a \<Rightarrow> \<not> is_remove req \<and>
       (case (req, a) of (Replace _ g, None) \<Rightarrow> known b g (\<lambda>m. m + lease_ttl \<le> s) | _ \<Rightarrow> True)
   | Renewing s tick req a \<Rightarrow> \<not> is_remove req \<and>
       (case a of Some (Inr g) \<Rightarrow> l_gen (pr_lease pr) \<le> g \<and> covered b g tick | _ \<Rightarrow> True)
   | _ \<Rightarrow> True)"

definition proc_ok :: "int \<Rightarrow> int \<Rightarrow> bucket \<Rightarrow> process \<Rightarrow> bool" where
  "proc_ok off t b pr \<longleftrightarrow> (\<forall>g s. granted off pr = Some (g, s) \<longrightarrow> covered b g s) \<and> timely off t pr \<and> asked off b pr \<and>
     l_gen (pr_lease pr) < bk_next b"

definition bucket_ok :: "int \<Rightarrow> bucket \<Rightarrow> bool" where
  "bucket_ok t b \<longleftrightarrow> 0 < bk_next b \<and> (\<forall>ob. bk_object b = Some ob \<longrightarrow> lo_gen ob < bk_next b \<and> lo_modified ob \<le> t)"

definition alone :: "(nat \<Rightarrow> int) \<Rightarrow> world \<Rightarrow> nat \<Rightarrow> bool" where
  "alone off w p \<longleftrightarrow> (\<forall>g s. granted (off p) (w_proc w p) = Some (g, s) \<longrightarrow>
     (\<forall>q. q \<noteq> p \<longrightarrow> granted (off q) (w_proc w q) = None \<and> l_gen (pr_lease (w_proc w q)) < g) \<and>
     (\<forall>r. Remove r \<in> w_flight w \<longrightarrow> r < g))"

definition lease_inv :: "(nat \<Rightarrow> int) \<Rightarrow> world \<Rightarrow> bool" where
  "lease_inv off w \<longleftrightarrow> bucket_ok (w_time w) (w_bucket w) \<and>
     (\<forall>p. proc_ok (off p) (w_time w) (w_bucket w) (w_proc w p)) \<and> (\<forall>p. alone off w p) \<and>
     (\<forall>r. Remove r \<in> w_flight w \<longrightarrow> r < bk_next (w_bucket w))"

lemmas phase_defs = granted_def timely_def asked_def Let_def

section \<open>The bucket keeps the invariant\<close>

lemma granted_deadline:
  assumes "timely off t pr" "granted off pr = Some (g, s)"
  shows "t \<le> s + 54 * second"
  using assms by (cases "pr_phase pr") (auto simp: phase_defs lease_times split: option.splits sum.splits)

lemma covered_write: "bucket_ok t b \<Longrightarrow> covered b g s \<Longrightarrow> covered (write_object t body b) g s"
  by (fastforce simp: bucket_ok_def covered_def write_object_def)

lemma known_write: "known b g P \<Longrightarrow> known (write_object t body b) g P"
  by (auto simp: known_def write_object_def)

lemma known_mono: "known b g P \<Longrightarrow> (\<And>m. P m \<Longrightarrow> Q m) \<Longrightarrow> known b g Q"
  by (auto simp: known_def)

lemma bucket_ok_write: "bucket_ok t b \<Longrightarrow> bucket_ok t (write_object t body b)"
  by (simp add: bucket_ok_def write_object_def)

lemma asked_write:
  assumes "bucket_ok t b" "asked off b pr"
  shows "asked off (write_object t body b) pr"
  using assms covered_write [OF assms(1)] known_write
  by (cases "pr_phase pr") (auto simp: asked_def split: sum.splits option.splits lease_request.splits)

lemma proc_ok_write:
  assumes "bucket_ok t b" "proc_ok off t b pr"
  shows "proc_ok off t (write_object t body b) pr"
proof -
  have "bk_next (write_object t body b) = bk_next b + 1" by (simp add: write_object_def)
  with assms covered_write [OF assms(1)] asked_write [OF assms(1)] show ?thesis by (auto simp: proc_ok_def)
qed

lemma proc_ok_remove:
  assumes ok: "proc_ok off t b pr" and ob: "bk_object b = Some ob"
    and less: "\<And>g s. granted off pr = Some (g, s) \<Longrightarrow> lo_gen ob < g"
  shows "proc_ok off t (b\<lparr>bk_object := None\<rparr>) pr"
proof -
  have none: "granted off pr = None"
  proof (rule ccontr)
    assume "granted off pr \<noteq> None"
    then obtain g s where g: "granted off pr = Some (g, s)" by auto
    with ok have "covered b g s" by (simp add: proc_ok_def)
    with ob less [OF g] show False by (simp add: covered_def)
  qed
  have "asked off (b\<lparr>bk_object := None\<rparr>) pr"
    using ok none by (cases "pr_phase pr")
      (auto simp: proc_ok_def asked_def known_def granted_def split: sum.splits option.splits lease_request.splits)
  with ok none show ?thesis by (simp add: proc_ok_def)
qed

lemma apply_request_cases:
  assumes "apply_request t req b = (b', ans)"
  obtains (refused) e where "b' = b" "ans = Inl e"
  | (written) body where "b' = write_object t body b" "ans = Inr (bk_next b)" "\<not> is_remove req"
  | (removed) ob where "req = Remove (lo_gen ob)" "bk_object b = Some ob" "b' = b\<lparr>bk_object := None\<rparr>"
      "ans = Inr (lo_gen ob)"
  using assms by (cases req) (auto simp: is_remove_def split: option.splits if_splits)

lemma inv_proc: "lease_inv off w \<Longrightarrow> proc_ok (off p) (w_time w) (w_bucket w) (w_proc w p)"
  by (simp add: lease_inv_def)

lemma inv_alone:
  assumes "lease_inv off w" "granted (off p) (w_proc w p) = Some (g, s)"
  shows "q \<noteq> p \<Longrightarrow> granted (off q) (w_proc w q) = None" "q \<noteq> p \<Longrightarrow> l_gen (pr_lease (w_proc w q)) < g"
    "Remove r \<in> w_flight w \<Longrightarrow> r < g"
proof -
  have "alone off w p" using assms(1) by (simp add: lease_inv_def)
  then show "q \<noteq> p \<Longrightarrow> granted (off q) (w_proc w q) = None" "q \<noteq> p \<Longrightarrow> l_gen (pr_lease (w_proc w q)) < g"
    "Remove r \<in> w_flight w \<Longrightarrow> r < g"
    unfolding alone_def using assms(2) by blast+
qed

lemma bucket_step:
  assumes inv: "lease_inv off w" and app: "apply_request (w_time w) req (w_bucket w) = (b, ans)"
    and rem: "is_remove req \<Longrightarrow> req \<in> w_flight w"
  shows "lease_inv off (w\<lparr>w_bucket := b\<rparr>)"
  using app
proof (cases rule: apply_request_cases)
  case refused
  with inv show ?thesis by (simp add: lease_inv_def alone_def)
next
  case (written body)
  have "bk_next b = bk_next (w_bucket w) + 1" by (simp add: written write_object_def)
  with inv written(1) bucket_ok_write proc_ok_write show ?thesis
    by (fastforce simp: lease_inv_def alone_def)
next
  case (removed ob)
  have "Remove (lo_gen ob) \<in> w_flight w" using rem removed(1) by (simp add: is_remove_def)
  then have "lo_gen ob < g" if "granted (off p) (w_proc w p) = Some (g, s)" for p g s
    using inv_alone(3) [OF inv that] by simp
  then have "proc_ok (off p) (w_time w) b (w_proc w p)" for p
    using inv removed(2,3) by (auto simp: lease_inv_def intro: proc_ok_remove)
  with inv removed(3) show ?thesis by (simp add: lease_inv_def alone_def bucket_ok_def)
qed

section \<open>The processes keep it\<close>

text \<open>A process that was granted nothing new takes a step.\<close>

lemma process_step:
  assumes inv: "lease_inv off w" and ok: "proc_ok (off p) (w_time w) (w_bucket w) pr"
    and kept: "\<And>g s. granted (off p) pr = Some (g, s) \<Longrightarrow> \<exists>g0 s0. granted (off p) (w_proc w p) = Some (g0, s0) \<and> g0 \<le> g"
    and gen: "granted (off p) (w_proc w p) = None \<Longrightarrow> l_gen (pr_lease pr) \<le> l_gen (pr_lease (w_proc w p))"
    and flight: "\<And>r. Remove r \<in> w_flight w' \<Longrightarrow> Remove r \<in> w_flight w \<or>
      granted (off p) pr = None \<and> (\<exists>s. granted (off p) (w_proc w p) = Some (r, s))"
    and w': "w_time w' = w_time w" "w_bucket w' = w_bucket w" "w_proc w' = (w_proc w)(p := pr)"
  shows "lease_inv off w'"
proof -
  have "(\<forall>q'. q' \<noteq> q \<longrightarrow> granted (off q') (w_proc w' q') = None \<and> l_gen (pr_lease (w_proc w' q')) < g) \<and>
      (\<forall>r. Remove r \<in> w_flight w' \<longrightarrow> r < g)" if g: "granted (off q) (w_proc w' q) = Some (g, s)" for q g s
  proof (cases "q = p")
    case True
    with g kept w' obtain g0 s0 where g0: "granted (off p) (w_proc w p) = Some (g0, s0)" "g0 \<le> g" by auto
    have "r < g" if "Remove r \<in> w_flight w'" for r
      using flight [OF that] g inv_alone(3) [OF inv g0(1), of r] g0(2) True w' by auto
    moreover have "granted (off q') (w_proc w q') = None \<and> l_gen (pr_lease (w_proc w q')) < g" if "q' \<noteq> p" for q'
      using inv_alone(1,2) [OF inv g0(1) that] g0(2) by simp
    ultimately show ?thesis using True w' by simp
  next
    case False
    with g w' have gq: "granted (off q) (w_proc w q) = Some (g, s)" by simp
    from False have p: "granted (off p) (w_proc w p) = None" "l_gen (pr_lease (w_proc w p)) < g"
      using inv_alone(1,2) [OF inv gq, of p] by simp_all
    with gen have "l_gen (pr_lease pr) < g" by simp
    moreover have "granted (off p) pr = None" using kept p by (cases "granted (off p) pr") auto
    moreover have "r < g" if "Remove r \<in> w_flight w'" for r
      using flight [OF that] p inv_alone(3) [OF inv gq, of r] by auto
    ultimately show ?thesis using inv_alone(1,2) [OF inv gq] w' by simp
  qed
  then have "alone off w' q" for q by (simp add: alone_def)
  moreover have "r < bk_next (w_bucket w)" if "Remove r \<in> w_flight w'" for r
  proof (cases "Remove r \<in> w_flight w")
    case True with inv show ?thesis by (auto simp: lease_inv_def)
  next
    case False
    with flight [OF that] obtain s where "granted (off p) (w_proc w p) = Some (r, s)" by auto
    with inv have "covered (w_bucket w) r s" by (auto simp: lease_inv_def proc_ok_def)
    with inv show ?thesis by (auto simp: lease_inv_def bucket_ok_def covered_def)
  qed
  ultimately show ?thesis using inv ok w' by (simp add: lease_inv_def)
qed

text \<open>A take is granted: nobody else holds anything.\<close>

lemma grant_step:
  assumes inv: "lease_inv off (w\<lparr>w_bucket := b\<rparr>)" and ok: "proc_ok (off p) (w_time w) b pr"
    and none: "\<And>q. granted (off q) (w_proc w q) = None"
    and old: "\<And>q. l_gen (pr_lease (w_proc w q)) < g" "\<And>r. Remove r \<in> w_flight w \<Longrightarrow> r < g"
    and gr: "granted (off p) pr = Some (g, s)"
    and w': "w_time w' = w_time w" "w_bucket w' = b" "w_proc w' = (w_proc w)(p := pr)" "w_flight w' = w_flight w"
  shows "lease_inv off w'"
  using inv ok none old gr w' by (auto simp: lease_inv_def alone_def)

text \<open>The heart of it: a take that is applied finds no process that may still write.\<close>

lemma taken_from_nobody:
  assumes inv: "lease_inv off w" and fast: "\<And>q. off q < 6 * second"
    and p: "w_proc w p = \<lparr>pr_lease = l, pr_phase = Taking s req None\<rparr>"
    and app: "apply_request (w_time w) req (w_bucket w) = (b, Inr g)"
  shows "granted (off q) (w_proc w q) = None"
proof (rule ccontr)
  assume "granted (off q) (w_proc w q) \<noteq> None"
  then obtain h t where h: "granted (off q) (w_proc w q) = Some (h, t)" by auto
  have okq: "proc_ok (off q) (w_time w) (w_bucket w) (w_proc w q)" and
    okp: "proc_ok (off p) (w_time w) (w_bucket w) (w_proc w p)" using inv by (auto simp: lease_inv_def)
  from okq h obtain ob where ob: "bk_object (w_bucket w) = Some ob" "t \<le> lo_modified ob"
    by (auto simp: proc_ok_def covered_def)
  from okp p have req: "\<not> is_remove req" and s: "s \<le> w_time w + off p"
    and know: "\<And>body g. req = Replace body g \<Longrightarrow> known (w_bucket w) g (\<lambda>m. m + lease_ttl \<le> s)"
    by (auto simp: proc_ok_def asked_def timely_def)
  from app ob(1) req obtain body where "req = Replace body (lo_gen ob)"
    by (cases req) (auto simp: is_remove_def split: if_splits)
  with know ob(1) have "lo_modified ob + lease_ttl \<le> s" by (auto simp: known_def)
  moreover have "w_time w \<le> t + 54 * second" using okq h granted_deadline by (auto simp: proc_ok_def)
  ultimately show False using ob(2) s fast [of p] by (simp add: lease_times)
qed

lemma set_proc_simps [simp]:
  "w_time (set_proc p l ph w) = w_time w" "w_bucket (set_proc p l ph w) = w_bucket w"
  "w_flight (set_proc p l ph w) = w_flight w"
  "w_proc (set_proc p l ph w) = (w_proc w)(p := \<lparr>pr_lease = l, pr_phase = ph\<rparr>)"
  by (simp_all add: set_proc_def)

lemma time_step:
  assumes "lease_inv off w" "0 \<le> d" "\<forall>p. in_time (off p) (w_time w + d) (pr_phase (w_proc w p))"
  shows "lease_inv off (w\<lparr>w_time := w_time w + d\<rparr>)"
proof -
  have "timely (off p) (w_time w + d) (w_proc w p)" for p
    using assms(2) assms(3) [rule_format, of p] inv_proc [OF assms(1), of p]
    by (cases "pr_phase (w_proc w p)") (auto simp: proc_ok_def timely_def in_time_def)
  with assms(1,2) show ?thesis by (auto simp: lease_inv_def alone_def proc_ok_def bucket_ok_def)
qed

text \<open>The functions of the code, as far as the invariant sees them.\<close>

lemma take_request_ok:
  assumes "take_request now g l = (l1, req)"
  shows "l_gen l1 = l_gen l" "l_last_ok l1 = l_last_ok l" "\<not> is_remove req"
    "g \<noteq> 0 \<Longrightarrow> \<exists>body. req = Replace body g" "g = 0 \<Longrightarrow> \<exists>body. req = Create body"
  using assms by (auto simp: take_request_def Let_def split: if_splits)

lemma take_answer_ok:
  assumes "take_answer s ans l = (l1, r)"
  shows "r = Got \<longleftrightarrow> (\<exists>g. ans = Inr g)" "r \<noteq> Got \<Longrightarrow> l1 = l"
    "ans = Inr g \<Longrightarrow> l_gen l1 = g \<and> l_last_ok l1 = s"
  using assms by (auto simp: take_answer_def split: sum.splits if_splits)

lemma renew_request_ok:
  assumes "renew_request now l = (l1, req)"
  shows "l_gen l1 = l_gen l" "l_last_ok l1 = l_last_ok l" "req = Some r \<Longrightarrow> \<not> is_remove r"
  using assms by (auto simp: renew_request_def Let_def split: if_splits)

lemma mark_lost_kept [simp]: "l_gen (mark_lost l) = l_gen l" "l_last_ok (mark_lost l) = l_last_ok l"
  by (simp_all add: mark_lost_def)

lemma run_after_ok:
  assumes "run_after now err l = (l1, r)"
  shows "l_gen l1 = l_gen l" "l_last_ok l1 = l_last_ok l"
    "r = Continue \<Longrightarrow> err = None \<or> now - l_last_ok l \<le> lease_self_fence"
  using assms by (auto simp: run_after_def held_def split: option.splits lease_error.splits if_splits)

text \<open>A step that leaves a process without a grant, its generation unchanged.\<close>

lemma quiet_step:
  assumes inv: "lease_inv off w" and gen: "l_gen l = l_gen (pr_lease (w_proc w p))"
    and ph: "granted (off p) \<lparr>pr_lease = l, pr_phase = ph\<rparr> = None"
    and ok: "timely (off p) (w_time w) \<lparr>pr_lease = l, pr_phase = ph\<rparr>"
      "asked (off p) (w_bucket w) \<lparr>pr_lease = l, pr_phase = ph\<rparr>"
    and fl: "\<And>r. Remove r \<in> F \<Longrightarrow> Remove r \<in> w_flight w"
  shows "lease_inv off (set_proc p l ph (w\<lparr>w_flight := F\<rparr>))"
  using assms inv_proc [OF inv, of p]
  by (intro process_step [OF inv, of p "\<lparr>pr_lease = l, pr_phase = ph\<rparr>"]) (auto simp: proc_ok_def)

lemmas quiet_step' = quiet_step [where F = "w_flight w" and w = w for w, simplified]

text \<open>A step of a process that holds the lease and may have got a later generation.\<close>

lemma holder_step:
  assumes inv: "lease_inv off w" and gr: "granted (off p) (w_proc w p) = Some (h, s)"
    and g: "h \<le> l_gen l" "covered (w_bucket w) (l_gen l) (l_last_ok l - off p)"
    and ph: "granted (off p) \<lparr>pr_lease = l, pr_phase = ph\<rparr> = Some (l_gen l, l_last_ok l - off p)"
    and ok: "timely (off p) (w_time w) \<lparr>pr_lease = l, pr_phase = ph\<rparr>"
      "asked (off p) (w_bucket w) \<lparr>pr_lease = l, pr_phase = ph\<rparr>"
    and fl: "\<And>r. Remove r \<in> F \<Longrightarrow> Remove r \<in> w_flight w"
  shows "lease_inv off (set_proc p l ph (w\<lparr>w_flight := F\<rparr>))"
proof -
  have "l_gen l < bk_next (w_bucket w)"
    using g(2) inv by (auto simp: covered_def lease_inv_def bucket_ok_def)
  with assms show ?thesis
    by (intro process_step [OF inv, of p "\<lparr>pr_lease = l, pr_phase = ph\<rparr>"]) (auto simp: proc_ok_def)
qed

lemmas holder_step' = holder_step [where F = "w_flight w" and w = w for w, simplified]

lemma granted_phases [simp]:
  "granted off \<lparr>pr_lease = l, pr_phase = Idle\<rparr> = None"
  "granted off \<lparr>pr_lease = l, pr_phase = Judging rd\<rparr> = None"
  "granted off \<lparr>pr_lease = l, pr_phase = Gone\<rparr> = None"
  "granted off \<lparr>pr_lease = l, pr_phase = Holding next\<rparr> = Some (l_gen l, l_last_ok l - off)"
  "granted off \<lparr>pr_lease = l, pr_phase = Renewing s tick req a\<rparr> = Some (l_gen l, l_last_ok l - off)"
  "granted off \<lparr>pr_lease = l, pr_phase = Stopping since c\<rparr> = Some (l_gen l, l_last_ok l - off)"
  "granted off \<lparr>pr_lease = l, pr_phase = Taking s req None\<rparr> = None"
  "granted off \<lparr>pr_lease = l, pr_phase = Taking s req (Some (Inl e))\<rparr> = None"
  "granted off \<lparr>pr_lease = l, pr_phase = Taking s req (Some (Inr g))\<rparr> = Some (g, s - off)"
  by (simp_all add: granted_def)

text \<open>After an answered or failed renewal.\<close>

lemma loop_step:
  assumes inv: "lease_inv off w" and p: "w_proc w p = \<lparr>pr_lease = l, pr_phase = Renewing s tick req ans\<rparr>"
    and l1: "l_gen l1 = l_gen l \<and> l_last_ok l1 = l_last_ok l \<and> err \<noteq> None \<or>
      l_gen l \<le> l_gen l1 \<and> l_last_ok l1 = s \<and> covered (w_bucket w) (l_gen l1) tick"
    and run: "run_after (w_time w + off p) err l1 = (l2, r)"
    and fl: "\<And>r. Remove r \<in> F \<Longrightarrow> Remove r \<in> w_flight w"
  shows "lease_inv off (set_proc p l2 (after_loop (w_time w) tick r) (w\<lparr>w_flight := F\<rparr>))"
proof (rule holder_step [OF inv, where h = "l_gen l" and s = "l_last_ok l - off p"])
  have ok: "proc_ok (off p) (w_time w) (w_bucket w) \<lparr>pr_lease = l, pr_phase = Renewing s tick req ans\<rparr>"
    using inv_proc [OF inv, of p] p by simp
  then have t: "s = tick + off p" "tick \<le> w_time w" "tick \<le> l_last_ok l - off p + 40 * second"
      "w_time w \<le> tick + lease_op_timeout" by (auto simp: proc_ok_def timely_def Let_def)
  have cov: "covered (w_bucket w) (l_gen l) (l_last_ok l - off p)" using ok by (simp add: proc_ok_def)
  note after = run_after_ok [OF run]
  show "l_gen l \<le> l_gen l2" using l1 after by auto
  show "covered (w_bucket w) (l_gen l2) (l_last_ok l2 - off p)" using l1 after cov t by auto
  show "granted (off p) \<lparr>pr_lease = l2, pr_phase = after_loop (w_time w) tick r\<rparr> = Some (l_gen l2, l_last_ok l2 - off p)"
    by (simp add: after_loop_def split: loop.splits)
  show "asked (off p) (w_bucket w) \<lparr>pr_lease = l2, pr_phase = after_loop (w_time w) tick r\<rparr>"
    by (simp add: after_loop_def asked_def split: loop.splits)
  show "timely (off p) (w_time w) \<lparr>pr_lease = l2, pr_phase = after_loop (w_time w) tick r\<rparr>"
    using l1 after t by (cases r) (auto simp: after_loop_def timely_def Let_def lease_times)
qed (use p fl in simp_all)

lemma take_inv:
  assumes inv: "lease_inv off w" and p: "w_proc w p = \<lparr>pr_lease = l, pr_phase = Judging rd\<rparr>"
    and v: "try_lease (w_time w + off p) rd l = (l1, Take g)"
    and req: "take_request (w_time w + off p) g l1 = (l2, req)"
  shows "lease_inv off (set_proc p l2 (Taking (w_time w + off p) req None) w)"
proof (rule quiet_step' [OF inv])
  have l1: "l_gen l1 = l_gen l" using try_lease_kept(2) [of "w_time w + off p" rd l] v by simp
  with p take_request_ok(1) [OF req] show "l_gen l2 = l_gen (pr_lease (w_proc w p))" by simp
  show "timely (off p) (w_time w) \<lparr>pr_lease = l2, pr_phase = Taking (w_time w + off p) req None\<rparr>"
    by (simp add: timely_def lease_times)
  have known: "known (w_bucket w) g (\<lambda>m. m + lease_ttl \<le> w_time w + off p)" if nz: "g \<noteq> 0"
  proof (cases rd)
    case (Inl e)
    with v nz show ?thesis by (simp add: try_lease_Inl split: if_splits)
  next
    case (Inr ob)
    have g: "g = lo_gen ob" "lo_modified ob + lease_ttl \<le> w_time w + off p"
      using take_is_expired(1,2) [OF v [unfolded Inr]] .
    have "known (w_bucket w) (lo_gen ob) (\<lambda>m. m = lo_modified ob)"
      using Inr inv_proc [OF inv, of p] p by (simp add: proc_ok_def asked_def)
    then show ?thesis unfolding g(1) by (rule known_mono) (use g(2) in simp)
  qed
  show "asked (off p) (w_bucket w) \<lparr>pr_lease = l2, pr_phase = Taking (w_time w + off p) req None\<rparr>"
  proof (cases "g = 0")
    case True
    then obtain body where "req = Create body" using take_request_ok(5) [OF req] by blast
    then show ?thesis by (simp add: asked_def)
  next
    case False
    then obtain body where "req = Replace body g" using take_request_ok(4) [OF req] by blast
    with known [OF False] show ?thesis by (simp add: asked_def)
  qed
qed simp_all

lemma take_applied_inv:
  assumes inv: "lease_inv off w" and fast: "\<And>q. off q < 6 * second"
    and p: "w_proc w p = \<lparr>pr_lease = l, pr_phase = Taking s req None\<rparr>"
    and app: "apply_request (w_time w) req (w_bucket w) = (b, ans)"
  shows "lease_inv off (set_proc p l (Taking s req (Some ans)) (w\<lparr>w_bucket := b\<rparr>))"
proof -
  have ok: "\<not> is_remove req" "timely (off p) (w_time w) \<lparr>pr_lease = l, pr_phase = Taking s req (Some ans)\<rparr>"
    using inv_proc [OF inv, of p] p by (auto simp: proc_ok_def asked_def timely_def)
  have inv1: "lease_inv off (w\<lparr>w_bucket := b\<rparr>)" using bucket_step [OF inv app] ok(1) by blast
  have asked: "asked (off p) b \<lparr>pr_lease = l, pr_phase = Taking s req (Some ans)\<rparr>"
    using ok(1) by (simp add: asked_def split: lease_request.splits)
  show ?thesis
  proof (cases ans)
    case (Inl e)
    with asked ok p inv1 show ?thesis by (intro quiet_step') simp_all
  next
    case (Inr g)
    with app ok(1) obtain body where w: "b = write_object (w_time w) body (w_bucket w)" "g = bk_next (w_bucket w)"
      by (cases rule: apply_request_cases) auto
    have old: "l_gen (pr_lease (w_proc w q)) < g" "Remove r \<in> w_flight w \<Longrightarrow> r < g" for q r
      using inv_proc [OF inv, of q] inv w(2) by (auto simp: proc_ok_def lease_inv_def)
    have "covered b g (s - off p)" "l_gen l < bk_next b"
      using ok(2) old(1) [of p] p w by (auto simp: covered_def write_object_def timely_def)
    with asked ok Inr have "proc_ok (off p) (w_time w) b \<lparr>pr_lease = l, pr_phase = Taking s req (Some ans)\<rparr>"
      by (simp add: proc_ok_def)
    from grant_step [OF inv1 this taken_from_nobody [OF inv fast p app [unfolded Inr]] old]
    show ?thesis using Inr by simp
  qed
qed

lemma take_answered_inv:
  assumes inv: "lease_inv off w" and p: "w_proc w p = \<lparr>pr_lease = l, pr_phase = Taking s req (Some ans)\<rparr>"
    and ans: "take_answer s ans l = (l1, r)"
  shows "lease_inv off (set_proc p l1 (if r = Got then Holding (w_time w + lease_renew) else Idle) w)"
proof (cases ans)
  case (Inl e)
  with ans take_answer_ok(1,2) [OF ans] p show ?thesis
    by (auto intro!: quiet_step' [OF inv] simp: timely_def asked_def)
next
  case (Inr g)
  with ans take_answer_ok(1,3) [OF ans] have g: "r = Got" "l_gen l1 = g" "l_last_ok l1 = s" by simp_all
  have ok: "proc_ok (off p) (w_time w) (w_bucket w) \<lparr>pr_lease = l, pr_phase = Taking s req (Some (Inr g))\<rparr>"
    using inv_proc [OF inv, of p] p Inr by simp
  then have "s \<le> w_time w + off p" "w_time w + off p \<le> s + lease_op_timeout" "covered (w_bucket w) g (s - off p)"
    by (simp_all add: proc_ok_def timely_def)
  then show ?thesis using p g Inr
    by (simp, intro holder_step' [OF inv]) (auto simp: timely_def asked_def lease_times)
qed

lemma renews_inv:
  assumes inv: "lease_inv off w" and p: "w_proc w p = \<lparr>pr_lease = l, pr_phase = Holding tick\<rparr>"
    and now: "w_time w = tick" and req: "renew_request (tick + off p) l = (l1, Some req)"
  shows "lease_inv off (set_proc p l1 (Renewing (tick + off p) tick req None) w)"
proof -
  have ok: "proc_ok (off p) (w_time w) (w_bucket w) \<lparr>pr_lease = l, pr_phase = Holding tick\<rparr>"
    using inv_proc [OF inv, of p] p by simp
  show ?thesis using ok p now renew_request_ok(1,2) [OF req] renew_request_ok(3) [OF req refl]
    by (intro holder_step' [OF inv]) (auto simp: proc_ok_def timely_def asked_def lease_times)
qed

lemma stops_inv:
  assumes inv: "lease_inv off w" and p: "w_proc w p = \<lparr>pr_lease = l, pr_phase = Holding tick\<rparr>"
    and l1: "l_gen l1 = l_gen l" "l_last_ok l1 = l_last_ok l"
  shows "lease_inv off (set_proc p l1 (Stopping (w_time w) c) w)"
proof -
  have ok: "proc_ok (off p) (w_time w) (w_bucket w) \<lparr>pr_lease = l, pr_phase = Holding tick\<rparr>"
    using inv_proc [OF inv, of p] p by simp
  show ?thesis using ok p l1
    by (intro holder_step' [OF inv]) (auto simp: proc_ok_def timely_def asked_def lease_times Let_def)
qed

lemma renew_applied_inv:
  assumes inv: "lease_inv off w" and p: "w_proc w p = \<lparr>pr_lease = l, pr_phase = Renewing s tick req None\<rparr>"
    and app: "apply_request (w_time w) req (w_bucket w) = (b, ans)"
  shows "lease_inv off (set_proc p l (Renewing s tick req (Some ans)) (w\<lparr>w_bucket := b\<rparr>))"
proof -
  have ok: "proc_ok (off p) (w_time w) (w_bucket w) \<lparr>pr_lease = l, pr_phase = Renewing s tick req None\<rparr>"
    using inv_proc [OF inv, of p] p by simp
  then have rem: "\<not> is_remove req" and tick: "tick \<le> w_time w" and gen: "l_gen l < bk_next (w_bucket w)"
    by (auto simp: proc_ok_def asked_def timely_def Let_def)
  have inv1: "lease_inv off (w\<lparr>w_bucket := b\<rparr>)" using bucket_step [OF inv app] rem by blast
  have cov: "covered b (l_gen l) (l_last_ok l - off p)"
    using inv_proc [OF inv1, of p] p by (simp add: proc_ok_def)
  have "asked (off p) b \<lparr>pr_lease = l, pr_phase = Renewing s tick req (Some ans)\<rparr>"
    using app rem tick gen by (cases rule: apply_request_cases) (auto simp: asked_def covered_def write_object_def)
  moreover have "timely (off p) (w_time w) \<lparr>pr_lease = l, pr_phase = Renewing s tick req (Some ans)\<rparr>"
    using ok by (simp add: proc_ok_def timely_def)
  ultimately show ?thesis using p cov
    by (intro holder_step' [OF inv1, where h = "l_gen l" and s = "l_last_ok l - off p"]) simp_all
qed

lemma renew_answered_inv:
  assumes inv: "lease_inv off w" and p: "w_proc w p = \<lparr>pr_lease = l, pr_phase = Renewing s tick req (Some ans)\<rparr>"
    and ans: "renew_answer s ans l = (l1, err)" and run: "run_after (w_time w + off p) err l1 = (l2, r)"
  shows "lease_inv off (set_proc p l2 (after_loop (w_time w) tick r) w)"
proof -
  have "asked (off p) (w_bucket w) \<lparr>pr_lease = l, pr_phase = Renewing s tick req (Some ans)\<rparr>"
    using inv_proc [OF inv, of p] p by (simp add: proc_ok_def)
  then have "l_gen l1 = l_gen l \<and> l_last_ok l1 = l_last_ok l \<and> err \<noteq> None \<or>
      l_gen l \<le> l_gen l1 \<and> l_last_ok l1 = s \<and> covered (w_bucket w) (l_gen l1) tick"
    using ans by (auto simp: renew_answer_def asked_def split: sum.splits)
  from loop_step [OF inv p this run, of "w_flight w"] show ?thesis by simp
qed

lemma renew_failed_inv:
  assumes inv: "lease_inv off w" and p: "w_proc w p = \<lparr>pr_lease = l, pr_phase = Renewing s tick req ans\<rparr>"
    and ans: "renew_answer s (Inl e) l = (l1, err)" and run: "run_after (w_time w + off p) err l1 = (l2, r)"
  shows "lease_inv off (set_proc p l2 (after_loop (w_time w) tick r)
    (w\<lparr>w_flight := w_flight w \<union> unanswered (Renewing s tick req ans)\<rparr>))"
proof -
  have "\<not> is_remove req" using inv_proc [OF inv, of p] p by (simp add: proc_ok_def asked_def)
  then have "Remove g \<notin> unanswered (Renewing s tick req ans)" for g
    by (auto simp: unanswered_def split: option.splits)
  then show ?thesis using ans by (intro loop_step [OF inv p _ run]) (auto simp: renew_answer_def)
qed

lemma crash_inv:
  assumes inv: "lease_inv off w" and p: "w_proc w p = \<lparr>pr_lease = l, pr_phase = ph\<rparr>"
  shows "lease_inv off (set_proc p l Gone (w\<lparr>w_flight := w_flight w \<union> unanswered ph\<rparr>))"
    and "ph = Taking s req ans \<Longrightarrow> lease_inv off (set_proc p l Idle (w\<lparr>w_flight := w_flight w \<union> unanswered ph\<rparr>))"
proof -
  have "asked (off p) (w_bucket w) \<lparr>pr_lease = l, pr_phase = ph\<rparr>" using inv_proc [OF inv, of p] p by (simp add: proc_ok_def)
  then have "Remove g \<notin> unanswered ph" for g
    by (cases ph) (auto simp: unanswered_def asked_def split: option.splits)
  then show "lease_inv off (set_proc p l Gone (w\<lparr>w_flight := w_flight w \<union> unanswered ph\<rparr>))"
    "ph = Taking s req ans \<Longrightarrow> lease_inv off (set_proc p l Idle (w\<lparr>w_flight := w_flight w \<union> unanswered ph\<rparr>))"
    using p by (auto intro!: quiet_step [OF inv] simp: timely_def asked_def)
qed

lemma release_inv:
  assumes inv: "lease_inv off w" and p: "w_proc w p = \<lparr>pr_lease = l, pr_phase = Stopping since c\<rparr>"
    and rel: "release_request l = (l1, req)"
  shows "lease_inv off (set_proc p l1 Gone (w\<lparr>w_flight := w_flight w \<union> set_option req\<rparr>))"
proof (rule process_step [OF inv])
  have "l_gen l1 = 0" using rel by (auto simp: release_request_def)
  moreover have "0 < bk_next (w_bucket w)"
    using inv by (simp add: lease_inv_def bucket_ok_def)
  ultimately show "proc_ok (off p) (w_time w) (w_bucket w) \<lparr>pr_lease = l1, pr_phase = Gone\<rparr>"
    by (simp add: proc_ok_def timely_def asked_def)
qed (use p rel in \<open>auto simp: release_request_def split: if_splits\<close>)

theorem lease_step_inv:
  assumes step: "lease_step off w w'" and inv: "lease_inv off w" and fast: "\<And>q. off q < 6 * second"
  shows "lease_inv off w'"
  using step
proof (cases rule: lease_step.cases)
  case (reads p l rd)
  have "asked (off p) (w_bucket w) \<lparr>pr_lease = l, pr_phase = Judging rd\<rparr>"
    using reads(3) inv by (auto simp: asked_def read_object_def known_def lease_inv_def bucket_ok_def split: option.splits)
  with reads show ?thesis by (auto intro!: quiet_step' [OF inv] simp: timely_def)
next
  case (waits p l rd l1 v)
  with try_lease_kept(2) [of "w_time w + off p" rd l] show ?thesis
    by (auto intro!: quiet_step' [OF inv] simp: timely_def asked_def)
next
  case (take_failed p l s req ans e l1 r)
  from take_answer_ok(1,2) [OF take_failed(3)] have "l1 = l" by auto
  with take_failed crash_inv(2) [OF inv take_failed(2) refl] show ?thesis by simp
next
  case (renews_nothing p l tick l1 l2 r)
  from renews_nothing(5) have "l2 = mark_lost l1" "r = Stand_down" by (simp_all add: run_after_def)
  with renews_nothing renew_request_ok(1,2) [OF renews_nothing(4)] show ?thesis
    using stops_inv [OF inv renews_nothing(2), of l2 False] by (simp add: after_loop_def)
next
  case (take_answered p l s req ans l1 r)
  then show ?thesis using take_answered_inv [OF inv take_answered(2,3)] by simp
next
  case (exits p l since)
  then show ?thesis by (auto intro!: quiet_step' [OF inv] simp: timely_def asked_def)
next
  case (delivered_late req b ans)
  then show ?thesis using bucket_step [OF inv] by blast
qed (use inv fast in \<open>auto intro: time_step take_inv take_applied_inv take_answered_inv renews_inv renew_applied_inv
  renew_answered_inv renew_failed_inv stops_inv release_inv crash_inv(1)\<close>)

lemma lease_start_inv: "lease_start w \<Longrightarrow> lease_inv off w"
proof -
  assume s: "lease_start w"
  have p: "\<exists>info. w_proc w p = \<lparr>pr_lease = new_lease info, pr_phase = Idle\<rparr>" for p using s by (simp add: lease_start_def)
  have nz: "0 < bk_next (w_bucket w)" using s by (simp add: lease_start_def)
  have "proc_ok (off p) (w_time w) (w_bucket w) (w_proc w p) \<and> granted (off p) (w_proc w p) = None" for p
  proof -
    from p obtain info where "w_proc w p = \<lparr>pr_lease = new_lease info, pr_phase = Idle\<rparr>" by blast
    with nz show ?thesis by (simp add: proc_ok_def timely_def asked_def new_lease_def)
  qed
  with s show ?thesis by (simp add: lease_inv_def alone_def bucket_ok_def lease_start_def)
qed

lemma lease_reachable_inv:
  assumes "lease_reachable off w" "\<And>q. off q < 6 * second"
  shows "lease_inv off w"
  using assms by (induction rule: lease_reachable.induct) (auto intro: lease_start_inv lease_step_inv)

lemma may_write_granted: "may_write w p \<Longrightarrow> \<exists>s. granted off (w_proc w p) = Some (l_gen (pr_lease (w_proc w p)), s)"
  by (cases "pr_phase (w_proc w p)") (auto simp: may_write_def granted_def)

section \<open>One writer\<close>

text \<open>C1. Two processes never may write at once. In every state that processes, failures and late requests can
  reach, if no local clock runs six seconds or more ahead of the bucket's, at most one process holds the lease,
  renews it or is still shutting down after it.\<close>

theorem one_writer:
  assumes "lease_reachable off w" and "\<And>q. off q < 6 * second" and "may_write w p" and "may_write w q"
  shows "p = q"
proof (rule ccontr)
  assume "p \<noteq> q"
  have inv: "lease_inv off w" using assms(1,2) by (rule lease_reachable_inv)
  from may_write_granted [OF assms(3)] obtain s
    where "granted (off p) (w_proc w p) = Some (l_gen (pr_lease (w_proc w p)), s)" by blast
  from inv_alone(1) [OF inv this, of q] \<open>p \<noteq> q\<close> may_write_granted [OF assms(4), of "off q"] show False by auto
qed

definition blank_info :: lease_info where
  "blank_info = \<lparr>li_holder = '''', li_revision = '''', li_commit = '''', li_db_path = '''', li_replica = '''', li_pid = 0,
     li_acquired = 0, li_renewed = 0, li_expires = 0, li_ttl_sec = 0\<rparr>"

definition first_world :: world where
  "first_world = \<lparr>w_time = 0, w_bucket = \<lparr>bk_object = None, bk_next = 1\<rparr>, w_flight = {},
     w_proc = (\<lambda>_. \<lparr>pr_lease = new_lease blank_info, pr_phase = Idle\<rparr>)\<rparr>"

lemma first_process_holds:
  "\<exists>w. lease_reachable (\<lambda>_. 0) w \<and> may_write w 0"
proof -
  let ?l = "new_lease blank_info"
  obtain l2 req where req: "take_request 0 0 ?l = (l2, req)" by fastforce
  then obtain body where body: "req = Create body" using take_request_ok(5) by blast
  let ?b = "\<lparr>bk_object = None, bk_next = 1\<rparr>"
  let ?b1 = "write_object 0 body ?b"
  let ?w1 = "set_proc 0 ?l (Judging (Inl ErrLeaseMissing)) first_world"
  let ?w2 = "set_proc 0 l2 (Taking 0 req None) ?w1"
  let ?w3 = "set_proc 0 l2 (Taking 0 req (Some (Inr 1))) (?w2\<lparr>w_bucket := ?b1\<rparr>)"
  obtain l3 where l3: "take_answer 0 (Inr 1) l2 = (l3, Got)" by (simp add: take_answer_def)
  let ?w4 = "set_proc 0 l3 (if Got = Got then Holding (w_time ?w3 + lease_renew) else Idle) ?w3"
  have "lease_reachable (\<lambda>_. 0) first_world"
    by (rule lease_reachable.start) (auto simp: lease_start_def first_world_def)
  moreover have "lease_step (\<lambda>_. 0) first_world ?w1"
    by (rule lease_step.reads) (simp_all add: first_world_def read_object_def)
  moreover have "lease_step (\<lambda>_. 0) ?w1 ?w2"
    using lease_step.takes [of ?w1 0 ?l "Inl ErrLeaseMissing" "\<lambda>_. 0" ?l 0 l2 req] req
    by (simp add: first_world_def try_lease_Inl)
  moreover have "lease_step (\<lambda>_. 0) ?w2 ?w3"
    by (rule lease_step.take_applied) (simp_all add: first_world_def body)
  moreover have "lease_step (\<lambda>_. 0) ?w3 ?w4"
    by (rule lease_step.take_answered [OF _ l3]) simp
  ultimately have "lease_reachable (\<lambda>_. 0) ?w4" by (meson lease_reachable.step)
  moreover have "may_write ?w4 0" by (simp add: may_write_def)
  ultimately show ?thesis by blast
qed

theorem one_writer_witness: "\<exists>w. lease_reachable (\<lambda>_. 0) w \<and> may_write w 0 \<and> \<not> may_write w 1"
proof -
  obtain w where w: "lease_reachable (\<lambda>_. 0) w" "may_write w 0" using first_process_holds by blast
  have "\<not> may_write w 1" using one_writer [OF w(1) _ w(2), of 1] by (auto simp: second_def)
  with w show ?thesis by blast
qed

end
