(* ===== verification/Jobs.thy ===== *)
theory Jobs
  imports Complex_Main GoStrings
begin

text \<open>
  Fix jobs as the store keeps them: \<^verbatim>\<open>internal/app/jobs_store.go\<close> (the rows, and the statements that move
  them), the runner's \<open>cancel\<close> and \<open>finish\<close> of \<^verbatim>\<open>jobs.go\<close>, the worker's claim, events and result of
  \<^verbatim>\<open>jobs_api.go\<close>, and the reconciler of \<^verbatim>\<open>jobs_reconcile.go\<close>.

  The database is a list of rows, a map of events under the unique index on job and sequence number, and the
  usage log. A statement of the code is one function on it. A column of text that holds a time is a
  \<open>stamp\<close>: \<open>None\<close> for the empty text, else the instant in seconds, which orders as the text does. Costs
  are rationals where Go has float64, and the JSON bodies are the values they encode. A database call that
  fails is not modelled: the functions are what the statements do when they are carried out. What other
  systems answer (the dispatcher's \<^verbatim>\<open>Status\<close>, the key provider's usage, a price, the scrubber) is an argument.
\<close>

section \<open>Rows\<close>

datatype job_status = Queued | Starting | Running | Stale | Cancelling | Succeeded | Failed | Cancelled | Timeout

definition job_active_statuses :: "job_status list" where
  "job_active_statuses = [Queued, Starting, Running, Stale, Cancelling]"

definition job_terminal :: "job_status \<Rightarrow> bool" where
  "job_terminal s \<longleftrightarrow> s \<in> {Succeeded, Failed, Cancelled, Timeout}"

lemma job_terminal_active: "job_terminal s \<longleftrightarrow> s \<notin> set job_active_statuses"
  by (cases s) (auto simp: job_terminal_def job_active_statuses_def)

record job_usage =
  us_in :: int
  us_cached :: int
  us_out :: int
  us_cost :: rat

definition no_usage :: job_usage where "no_usage = \<lparr>us_in = 0, us_cached = 0, us_out = 0, us_cost = 0\<rparr>"

definition add_usage :: "job_usage \<Rightarrow> job_usage \<Rightarrow> job_usage" where
  "add_usage u v = \<lparr>us_in = us_in u + us_in v, us_cached = us_cached u + us_cached v, us_out = us_out u + us_out v,
     us_cost = us_cost u + us_cost v\<rparr>"

definition spends :: "job_usage \<Rightarrow> bool" where
  "spends u \<longleftrightarrow> us_in u > 0 \<or> us_out u > 0 \<or> us_cost u > 0"

text \<open>The parts of a worker's result that the bot stores in columns of their own, its number and its usage.\<close>

record job_result =
  rs_seq :: int
  rs_status :: job_status
  rs_pr_url :: "string option"
  rs_branch :: string
  rs_usage :: job_usage
  rs_error_code :: string
  rs_error_message :: string

definition empty_result :: job_result where
  "empty_result = \<lparr>rs_seq = 0, rs_status = Failed, rs_pr_url = None, rs_branch = '''', rs_usage = no_usage,
     rs_error_code = '''', rs_error_message = ''''\<rparr>"

definition error_result :: "string \<Rightarrow> string \<Rightarrow> job_result" where
  "error_result code msg = empty_result\<lparr>rs_error_code := code, rs_error_message := msg\<rparr>"

record job =
  j_id :: int
  j_status :: job_status
  j_org :: int
  j_team :: string
  j_channel :: string
  j_thread :: string
  j_requester :: string
  j_approved_by :: string
  j_approval :: string
  j_connection :: int
  j_repo :: string
  j_base_branch :: string
  j_branch :: string
  j_title :: string
  j_spec :: string
  j_engine :: string
  j_model :: string
  j_budget :: rat
  j_timeout :: int
  j_draft :: bool
  j_dispatcher :: string
  j_execution :: string
  j_token_hash :: string
  j_token_expires :: stamp
  j_claimed_at :: stamp
  j_claims :: int
  j_worker_info :: string
  j_status_ts :: string
  j_phase :: string
  j_last_seq :: int
  j_last_event :: stamp
  j_cancel_requested :: bool
  j_cancel_by :: string
  j_cancel_reason :: string
  j_cancel_at :: stamp
  j_result :: "job_result option"
  j_pr_url :: string
  j_error :: string
  j_cost :: rat
  j_tokens_in :: int
  j_tokens_out :: int
  j_tokens_cached :: int
  j_key_hash :: string
  j_key_enc :: "string option"
  j_key_owner :: string
  j_created :: stamp
  j_started :: stamp
  j_finished :: stamp

definition job_github_channel :: string where "job_github_channel = ''github:''"

definition on_github :: "job \<Rightarrow> bool" where
  "on_github j \<longleftrightarrow> j_team j = '''' \<and> prefix job_github_channel (j_channel j)"

datatype event_kind = KPhase | KLog | KTests | KUsage | KHeartbeat | KWarn | KOther string

record job_event =
  ev_seq :: int
  ev_at :: string
  ev_kind :: event_kind
  ev_phase :: string
  ev_status :: string
  ev_message :: string
  ev_data :: string
  ev_usage :: "job_usage option"

record jobs_db =
  db_jobs :: "job list"
  db_events :: "int \<times> int \<Rightarrow> (int \<times> job_event) option"
  db_log :: "(int \<times> job_usage) list"

text \<open>An update of one row where a condition holds, and whether it found it.\<close>

definition hits :: "int \<Rightarrow> int \<Rightarrow> (job \<Rightarrow> bool) \<Rightarrow> job \<Rightarrow> bool" where
  "hits org i P j \<longleftrightarrow> j_org j = org \<and> j_id j = i \<and> P j"

definition update_job :: "int \<Rightarrow> int \<Rightarrow> (job \<Rightarrow> bool) \<Rightarrow> (job \<Rightarrow> job) \<Rightarrow> jobs_db \<Rightarrow> jobs_db \<times> bool" where
  "update_job org i P f db =
     (db\<lparr>db_jobs := map (\<lambda>j. if hits org i P j then f j else j) (db_jobs db)\<rparr>,
      length (filter (hits org i P) (db_jobs db)) = 1)"

section \<open>The statements\<close>

definition find_job :: "int \<Rightarrow> int \<Rightarrow> jobs_db \<Rightarrow> job option" where
  "find_job org i db = List.find (\<lambda>j. j_org j = org \<and> j_id j = i) (db_jobs db)"

definition job_by_id :: "int \<Rightarrow> jobs_db \<Rightarrow> job option" where
  "job_by_id i db = List.find (\<lambda>j. j_id j = i) (db_jobs db)"

text \<open>Inserting gives the next number and the columns the statement does not name their defaults.\<close>

definition fresh_row :: "stamp \<Rightarrow> int \<Rightarrow> job \<Rightarrow> job" where
  "fresh_row now i j = j\<lparr>j_id := i, j_execution := '''', j_token_hash := '''', j_token_expires := None, j_claimed_at := None,
     j_claims := 0, j_worker_info := '''', j_status_ts := '''', j_phase := '''', j_last_seq := 0, j_last_event := None,
     j_cancel_requested := False, j_cancel_by := '''', j_cancel_reason := '''', j_cancel_at := None,
     j_result := None, j_pr_url := '''', j_error := '''', j_cost := 0, j_tokens_in := 0, j_tokens_out := 0,
     j_tokens_cached := 0, j_key_hash := '''', j_key_enc := None,
     j_key_owner := (if j_key_owner j = '''' then ''platform'' else j_key_owner j),
     j_created := now, j_started := None, j_finished := None\<rparr>"

definition insert_job :: "stamp \<Rightarrow> job \<Rightarrow> jobs_db \<Rightarrow> jobs_db \<times> int" where
  "insert_job now j db = (let i = foldr max (map j_id (db_jobs db)) 0 + 1
     in (db\<lparr>db_jobs := db_jobs db @ [fresh_row now i j]\<rparr>, i))"

text \<open>The newest first, at most so many.\<close>

definition query_jobs :: "(job \<Rightarrow> bool) \<Rightarrow> nat \<Rightarrow> jobs_db \<Rightarrow> job list" where
  "query_jobs P n db = take n (rev (sort_key j_id (filter P (db_jobs db))))"

definition is_active :: "job \<Rightarrow> bool" where
  "is_active j \<longleftrightarrow> j_status j \<in> set job_active_statuses"

definition active_jobs :: "jobs_db \<Rightarrow> job list" where
  "active_jobs db = query_jobs is_active 500 db"

definition active_jobs_in_thread :: "int \<Rightarrow> string \<Rightarrow> string \<Rightarrow> string \<Rightarrow> jobs_db \<Rightarrow> job list" where
  "active_jobs_in_thread org team channel thread db =
     query_jobs (\<lambda>j. j_org j = org \<and> j_team j = team \<and> j_channel j = channel \<and> j_thread j = thread \<and> is_active j) 50 db"

definition active_jobs_for :: "int \<Rightarrow> jobs_db \<Rightarrow> job list" where
  "active_jobs_for org db = query_jobs (\<lambda>j. j_org j = org \<and> is_active j) 200 db"

definition count_active_jobs_for :: "int \<Rightarrow> jobs_db \<Rightarrow> nat" where
  "count_active_jobs_for org db = length (filter (\<lambda>j. j_org j = org \<and> is_active j) (db_jobs db))"

definition count_active_jobs :: "jobs_db \<Rightarrow> nat" where
  "count_active_jobs db = length (filter is_active (db_jobs db))"

text \<open>The columns that may be set by name, each with its value.\<close>

datatype job_field = FStatusTs string | FExecution string | FDispatcher string | FPhase string | FKeyHash string
  | FKeyEnc "string option" | FError string | FBranch string | FSpec string | FTokenHash string | FTokenExpires stamp
  | FFinished stamp | FStarted stamp | FWorkerInfo string | FLastEvent stamp | FCost rat | FPrUrl string

fun set_field :: "job_field \<Rightarrow> job \<Rightarrow> job" where
  "set_field (FStatusTs v) j = j\<lparr>j_status_ts := v\<rparr>"
| "set_field (FExecution v) j = j\<lparr>j_execution := v\<rparr>"
| "set_field (FDispatcher v) j = j\<lparr>j_dispatcher := v\<rparr>"
| "set_field (FPhase v) j = j\<lparr>j_phase := v\<rparr>"
| "set_field (FKeyHash v) j = j\<lparr>j_key_hash := v\<rparr>"
| "set_field (FKeyEnc v) j = j\<lparr>j_key_enc := v\<rparr>"
| "set_field (FError v) j = j\<lparr>j_error := v\<rparr>"
| "set_field (FBranch v) j = j\<lparr>j_branch := v\<rparr>"
| "set_field (FSpec v) j = j\<lparr>j_spec := v\<rparr>"
| "set_field (FTokenHash v) j = j\<lparr>j_token_hash := v\<rparr>"
| "set_field (FTokenExpires v) j = j\<lparr>j_token_expires := v\<rparr>"
| "set_field (FFinished v) j = j\<lparr>j_finished := v\<rparr>"
| "set_field (FStarted v) j = j\<lparr>j_started := v\<rparr>"
| "set_field (FWorkerInfo v) j = j\<lparr>j_worker_info := v\<rparr>"
| "set_field (FLastEvent v) j = j\<lparr>j_last_event := v\<rparr>"
| "set_field (FCost v) j = j\<lparr>j_cost := v\<rparr>"
| "set_field (FPrUrl v) j = j\<lparr>j_pr_url := v\<rparr>"

definition set_job_fields :: "int \<Rightarrow> int \<Rightarrow> job_field list \<Rightarrow> jobs_db \<Rightarrow> jobs_db" where
  "set_job_fields org i fs db = (if fs = [] then db else fst (update_job org i (\<lambda>_. True) (fold set_field fs) db))"

text \<open>Compare and set: an empty list of statuses is no condition.\<close>

definition set_job_status :: "int \<Rightarrow> int \<Rightarrow> job_status list \<Rightarrow> job_status \<Rightarrow> job_field list \<Rightarrow> jobs_db \<Rightarrow> jobs_db \<times> bool" where
  "set_job_status org i from to fs db =
     update_job org i (\<lambda>j. from = [] \<or> j_status j \<in> set from) (\<lambda>j. (fold set_field fs j)\<lparr>j_status := to\<rparr>) db"

subsection \<open>The claim\<close>

datatype refusal = No_such_job | Finished | Claim_cancelled | Not_dispatched | Already_claimed

definition claim_check :: "job option \<Rightarrow> refusal option" where
  "claim_check r = (case r of None \<Rightarrow> Some No_such_job
     | Some j \<Rightarrow>
         if job_terminal (j_status j) then Some Finished
         else if j_cancel_requested j \<or> j_status j = Cancelling then Some Claim_cancelled
         else if j_status j \<notin> {Starting, Running, Stale} then Some Not_dispatched
         else if j_claims j \<ge> 3 then Some Already_claimed else None)"

definition if_unset :: "stamp \<Rightarrow> stamp \<Rightarrow> stamp" where
  "if_unset s now = (case s of None \<Rightarrow> now | Some t \<Rightarrow> Some t)"

definition claimed_row :: "stamp \<Rightarrow> string \<Rightarrow> job \<Rightarrow> job" where
  "claimed_row now info j = j\<lparr>j_status := Running, j_claimed_at := if_unset (j_claimed_at j) now,
     j_started := if_unset (j_started j) now, j_claims := j_claims j + 1, j_last_event := now, j_worker_info := info\<rparr>"

definition claim_update :: "stamp \<Rightarrow> int \<Rightarrow> int \<Rightarrow> string \<Rightarrow> jobs_db \<Rightarrow> jobs_db \<times> bool" where
  "claim_update now org i info db =
     update_job org i (\<lambda>j. j_status j \<in> {Starting, Running, Stale} \<and> j_claims j < 3 \<and> \<not> j_cancel_requested j)
       (claimed_row now info) db"

definition claim_job :: "stamp \<Rightarrow> int \<Rightarrow> int \<Rightarrow> string \<Rightarrow> jobs_db \<Rightarrow> jobs_db \<times> (refusal + job option)" where
  "claim_job now org i info db = (case claim_check (find_job org i db) of
     Some why \<Rightarrow> (db, Inl why)
   | None \<Rightarrow> (let (db', ok) = claim_update now org i info db
             in if ok then (db', Inr (find_job org i db')) else (db', Inl Already_claimed)))"

subsection \<open>Cancelling\<close>

definition cancelling_row :: "stamp \<Rightarrow> string \<Rightarrow> string \<Rightarrow> job \<Rightarrow> job" where
  "cancelling_row now who why j = j\<lparr>j_cancel_requested := True, j_cancel_by := who, j_cancel_reason := why, j_cancel_at := now,
     j_status := (if j_status j \<in> {Starting, Running, Stale} then Cancelling else j_status j)\<rparr>"

definition request_job_cancel :: "stamp \<Rightarrow> int \<Rightarrow> int \<Rightarrow> string \<Rightarrow> string \<Rightarrow> jobs_db \<Rightarrow> jobs_db \<times> bool" where
  "request_job_cancel now org i who why db =
     update_job org i (\<lambda>j. is_active j \<and> \<not> j_cancel_requested j) (cancelling_row now who why) db"

subsection \<open>Events\<close>

record batch =
  bt_db :: jobs_db
  bt_accepted :: nat
  bt_used :: job_usage
  bt_max_seq :: int
  bt_phase :: string

definition event_usage :: "job_event \<Rightarrow> job_usage" where
  "event_usage e = (case ev_usage e of None \<Rightarrow> no_usage | Some u \<Rightarrow> u)"

definition stored_event :: "job_event \<Rightarrow> job_event" where
  "stored_event e = e\<lparr>ev_data := (if trim_space (ev_data e) = '''' then ''{}'' else ev_data e),
     ev_usage := Some (event_usage e)\<rparr>"

text \<open>One event: a number that was seen is ignored.\<close>

definition add_event :: "int \<Rightarrow> int \<Rightarrow> job_event \<Rightarrow> batch \<Rightarrow> batch" where
  "add_event org i e b =
     (case db_events (bt_db b) (i, ev_seq e) of Some _ \<Rightarrow> b
      | None \<Rightarrow> b\<lparr>bt_db := (bt_db b)\<lparr>db_events := (db_events (bt_db b))((i, ev_seq e) := Some (org, stored_event e))\<rparr>,
          bt_accepted := bt_accepted b + 1,
          bt_max_seq := (if ev_seq e > bt_max_seq b then ev_seq e else bt_max_seq b),
          bt_phase := (if ev_kind e = KPhase \<and> ev_phase e \<noteq> '''' then ev_phase e else bt_phase b),
          bt_used := (if spends (event_usage e) then add_usage (bt_used b) (event_usage e) else bt_used b)\<rparr>)"

definition counted_row :: "stamp \<Rightarrow> batch \<Rightarrow> job \<Rightarrow> job" where
  "counted_row now b j = j\<lparr>j_last_seq := (if j_last_seq j > bt_max_seq b then j_last_seq j else bt_max_seq b), j_last_event := now,
     j_status := (if j_status j = Stale then Running else j_status j),
     j_cost := j_cost j + us_cost (bt_used b), j_tokens_in := j_tokens_in j + us_in (bt_used b),
     j_tokens_cached := j_tokens_cached j + us_cached (bt_used b), j_tokens_out := j_tokens_out j + us_out (bt_used b),
     j_phase := (if bt_phase b \<noteq> '''' then bt_phase b else j_phase j)\<rparr>"

definition events_update :: "stamp \<Rightarrow> int \<Rightarrow> int \<Rightarrow> batch \<Rightarrow> jobs_db" where
  "events_update now org i b = fst (update_job org i (\<lambda>_. True) (counted_row now b) (bt_db b))"

definition add_job_events :: "stamp \<Rightarrow> int \<Rightarrow> int \<Rightarrow> job_event list \<Rightarrow> jobs_db \<Rightarrow> jobs_db \<times> nat \<times> job_usage" where
  "add_job_events now org i evs db =
     (let b = fold (add_event org i) evs
            \<lparr>bt_db = db, bt_accepted = 0, bt_used = no_usage, bt_max_seq = 0, bt_phase = ''''\<rparr>
      in (if bt_accepted b = 0 then bt_db b else events_update now org i b, bt_accepted b, bt_used b))"

subsection \<open>The end\<close>

definition error_text :: "job_result \<Rightarrow> string" where
  "error_text r = truncate_text (trim_suffix '':'' (trim_prefix '': ''
     (trim_space (trim_space (rs_error_code r @ '': '' @ rs_error_message r))))) 500"

text \<open>What a total adds to a count, and the count after it.\<close>

definition beyond :: "'a :: {linorder, minus, zero} \<Rightarrow> 'a \<Rightarrow> 'a" where
  "beyond u counted = (if u > counted then u - counted else 0)"

definition finish_delta :: "job_usage \<Rightarrow> job \<Rightarrow> job_usage" where
  "finish_delta u j = \<lparr>us_in = beyond (us_in u) (j_tokens_in j), us_cached = beyond (us_cached u) (j_tokens_cached j),
     us_out = beyond (us_out u) (j_tokens_out j), us_cost = beyond (us_cost u) (j_cost j)\<rparr>"

text \<open>
  The write of \<open>FinishJob\<close>, with the row \<open>cur\<close> it read before: totals are written as computed from what was
  read, not added to what is there.
\<close>

definition finished_row :: "stamp \<Rightarrow> job_status \<Rightarrow> job_result option \<Rightarrow> job \<Rightarrow> job \<Rightarrow> job" where
  "finished_row now status res cur j =
     (let pr = (case res of None \<Rightarrow> '''' | Some r \<Rightarrow> (case rs_pr_url r of None \<Rightarrow> '''' | Some u \<Rightarrow> u));
          br = (case res of None \<Rightarrow> '''' | Some r \<Rightarrow> rs_branch r);
          d = (case res of None \<Rightarrow> no_usage | Some r \<Rightarrow> finish_delta (rs_usage r) cur)
      in j\<lparr>j_status := status, j_result := res, j_pr_url := (if pr \<noteq> '''' then pr else j_pr_url j),
           j_branch := (if br \<noteq> '''' then br else j_branch j),
           j_error := (case res of None \<Rightarrow> '''' | Some r \<Rightarrow> error_text r),
           j_cost := j_cost cur + us_cost d, j_tokens_in := j_tokens_in cur + us_in d,
           j_tokens_cached := j_tokens_cached cur + us_cached d, j_tokens_out := j_tokens_out cur + us_out d,
           j_finished := now\<rparr>)"

definition finish_write :: "stamp \<Rightarrow> int \<Rightarrow> int \<Rightarrow> job_status \<Rightarrow> job_result option \<Rightarrow> job \<Rightarrow> jobs_db \<Rightarrow> jobs_db \<times> bool" where
  "finish_write now org i status res cur db =
     update_job org i (\<lambda>j. \<not> job_terminal (j_status j)) (finished_row now status res cur) db"

definition finish_job :: "stamp \<Rightarrow> int \<Rightarrow> int \<Rightarrow> job_status \<Rightarrow> job_result option \<Rightarrow> jobs_db \<Rightarrow> jobs_db \<times> job_usage \<times> bool" where
  "finish_job now org i status res db = (case find_job org i db of
     None \<Rightarrow> (db, no_usage, False)
   | Some cur \<Rightarrow>
       if job_terminal (j_status cur) then (db, no_usage, False)
       else (let (db', ok) = finish_write now org i status res cur db
         in (db', (case res of None \<Rightarrow> no_usage | Some r \<Rightarrow> finish_delta (rs_usage r) cur), ok)))"

text \<open>The tokens of jobs that ended before the cutoff are forgotten.\<close>

definition before_cutoff :: "int \<Rightarrow> stamp \<Rightarrow> bool" where
  "before_cutoff c s = (case s of None \<Rightarrow> False | Some t \<Rightarrow> t < c)"

definition revoked :: "int \<Rightarrow> job \<Rightarrow> job" where
  "revoked cutoff j = (if j_token_hash j \<noteq> '''' \<and> job_terminal (j_status j) \<and> before_cutoff cutoff (j_finished j)
     then j\<lparr>j_token_hash := '''', j_key_enc := None\<rparr> else j)"

definition revoke_job_tokens :: "int \<Rightarrow> jobs_db \<Rightarrow> jobs_db" where
  "revoke_job_tokens cutoff db = db\<lparr>db_jobs := map (revoked cutoff) (db_jobs db)\<rparr>"

definition purge_job_data :: "int \<Rightarrow> int \<Rightarrow> jobs_db \<Rightarrow> jobs_db" where
  "purge_job_data org cutoff db = db\<lparr>db_events := (\<lambda>k. case db_events db k of None \<Rightarrow> None
     | Some (o', e) \<Rightarrow> if o' = org \<and> list_ex (\<lambda>j. j_id j = fst k \<and> j_org j = org \<and> before_cutoff cutoff (j_finished j)) (db_jobs db)
         then None else Some (o', e))\<rparr>"

section \<open>The runner\<close>

definition log_usage :: "int \<Rightarrow> job_usage \<Rightarrow> jobs_db \<Rightarrow> jobs_db" where
  "log_usage org u db = (if spends u then db\<lparr>db_log := db_log db @ [(org, u)]\<rparr> else db)"

text \<open>
  The key's own account of its spend, when keys are minted per job and the provider answers, is the last word
  on the cost.
\<close>

datatype key_account = Keys_off | No_answer | Spent rat

definition settle_key :: "key_account \<Rightarrow> job \<Rightarrow> jobs_db \<Rightarrow> jobs_db \<times> rat" where
  "settle_key spent j db = (if j_key_hash j = '''' \<or> spent = Keys_off then (db, 0)
     else (let extra = (case spent of Spent u \<Rightarrow> beyond u (j_cost j) | _ \<Rightarrow> 0);
               db1 = (if extra > 0 then set_job_fields (j_org j) (j_id j) [FCost (j_cost j + extra)] db else db)
           in (set_job_fields (j_org j) (j_id j) [FKeyEnc None] db1, extra)))"

text \<open>
  \<open>finish\<close> up to the usage log; what follows it (the checklist, the report, the alert) only tells people.
\<close>

definition finish :: "key_account \<Rightarrow> stamp \<Rightarrow> int \<Rightarrow> int \<Rightarrow> job_status \<Rightarrow> job_result \<Rightarrow> jobs_db \<Rightarrow> jobs_db" where
  "finish spent now org i status res db =
     (let (db1, delta, ok) = finish_job now org i status (Some (res\<lparr>rs_status := status\<rparr>)) db
      in if \<not> ok then db1
         else (case find_job org i db1 of None \<Rightarrow> db1
           | Some j \<Rightarrow> (let (db2, extra) = settle_key spent j db1
                       in log_usage org (delta\<lparr>us_cost := us_cost delta + extra\<rparr>) db2)))"

definition cancel :: "key_account \<Rightarrow> stamp \<Rightarrow> job \<Rightarrow> string \<Rightarrow> string \<Rightarrow> jobs_db \<Rightarrow> jobs_db \<times> bool" where
  "cancel spent now j who why db =
     (if job_terminal (j_status j) then (db, False)
      else if j_status j = Queued then (finish spent now (j_org j) (j_id j) Cancelled
        (error_result ''cancelled'' ''cancelled before the worker started'') db, True)
      else (let (db1, ok) = request_job_cancel now (j_org j) (j_id j) who why db
        in if \<not> ok then (db1, False)
           else if j_status j = Starting then (finish spent now (j_org j) (j_id j) Cancelled
             (error_result ''cancelled'' ''cancelled before the worker claimed the job'') db1, True)
           else (db1, True)))"

fun cancel_all :: "key_account \<Rightarrow> stamp \<Rightarrow> string \<Rightarrow> string \<Rightarrow> job list \<Rightarrow> jobs_db \<Rightarrow> jobs_db \<times> nat" where
  "cancel_all spent now who why [] db = (db, 0)"
| "cancel_all spent now who why (j # js) db =
     (let (db1, ok) = cancel spent now j who why db; (db2, n) = cancel_all spent now who why js db1
      in (db2, if ok then n + 1 else n))"

definition cancel_in_thread where
  "cancel_in_thread spent now org team channel thread who db =
     cancel_all spent now who ''user'' (active_jobs_in_thread org team channel thread db) db"

definition cancel_for_org where
  "cancel_for_org spent now org why db = cancel_all spent now '''' why (active_jobs_for org db) db"

section \<open>The worker's calls\<close>

definition job_event_max_bytes :: nat where "job_event_max_bytes = 4096"
definition job_events_batch_max :: nat where "job_events_batch_max = 50"

datatype reply = Gone string | Too_large string | Bad_request string | Event_reply nat bool string | Result_reply bool

definition clean_event :: "(string \<Rightarrow> string) \<Rightarrow> (job_usage \<Rightarrow> job_usage) \<Rightarrow> job_event \<Rightarrow> job_event" where
  "clean_event scrub price e = e\<lparr>ev_message := scrub (ev_message e),
     ev_data := (if length (ev_data e) > 32768 then '''' else ev_data e),
     ev_kind := (case ev_kind e of KOther _ \<Rightarrow> KLog | k \<Rightarrow> k),
     ev_usage := map_option price (ev_usage e)\<rparr>"

definition over_budget :: "job \<Rightarrow> bool" where
  "over_budget j \<longleftrightarrow> j_budget j > 0 \<and> j_cost j > j_budget j * (5/4) \<and> \<not> j_cancel_requested j"

text \<open>\<open>j\<close> is the row the token check read.\<close>

definition handle_job_events ::
  "(string \<Rightarrow> string) \<Rightarrow> (job_usage \<Rightarrow> job_usage) \<Rightarrow> stamp \<Rightarrow> job \<Rightarrow> job_event list \<Rightarrow> jobs_db \<Rightarrow> jobs_db \<times> reply" where
  "handle_job_events scrub price now j evs db =
     (if job_terminal (j_status j) then (db, Gone ''finished'')
      else if length evs > job_events_batch_max then (db, Too_large ''at most 50 events per call'')
      else (case List.find (\<lambda>e. length (ev_message e) > job_event_max_bytes) evs of
        Some e \<Rightarrow> (db, Too_large (''event '' @ itoa (ev_seq e) @ '' text is over 4096 bytes''))
      | None \<Rightarrow>
          (let (db1, accepted, used) = add_job_events now (j_org j) (j_id j) (map (clean_event scrub price) evs) db;
               db2 = log_usage (j_org j) used db1;
               j2 = (case find_job (j_org j) (j_id j) db2 of None \<Rightarrow> j | Some j' \<Rightarrow> j');
               (db3, ok) = (if over_budget j2 then request_job_cancel now (j_org j) (j_id j) '''' ''budget'' db2 else (db2, False))
           in (db3, if ok then Event_reply accepted True ''budget''
                    else Event_reply accepted (j_cancel_requested j2) (j_cancel_reason j2)))))"

text \<open>A result: \<open>clean\<close> scrubs and cuts its texts and prices its usage.\<close>

definition clean_pr_url :: "job_result \<Rightarrow> job_result" where
  "clean_pr_url r = r\<lparr>rs_pr_url := map_option (\<lambda>u. if prefix ''https://'' u then u else '''') (rs_pr_url r)\<rparr>"

definition handle_job_result ::
  "(job_result \<Rightarrow> job_result) \<Rightarrow> key_account \<Rightarrow> stamp \<Rightarrow> job \<Rightarrow> job_result \<Rightarrow> jobs_db \<Rightarrow> jobs_db \<times> reply" where
  "handle_job_result clean spent now j res db =
     (if job_terminal (j_status j) then
        (let prev = (case j_result j of None \<Rightarrow> 0 | Some r \<Rightarrow> rs_seq r)
         in (db, if rs_seq res \<noteq> 0 \<and> prev = rs_seq res then Result_reply True else Gone ''finished''))
      else if \<not> job_terminal (rs_status res) then (db, Bad_request ''status must be succeeded, failed, cancelled or timeout'')
      else (finish spent now (j_org j) (j_id j) (rs_status res) (clean_pr_url (clean res)) db, Result_reply False))"

section \<open>The reconciler\<close>

definition job_queued_grace :: int where "job_queued_grace = 2 * 60"
definition job_claim_grace :: int where "job_claim_grace = 10 * 60"
definition job_silent_stale :: int where "job_silent_stale = 5 * 60"
definition job_stale_fail :: int where "job_stale_fail = 15 * 60"
definition job_cancel_grace :: int where "job_cancel_grace = 90"
definition job_deadline_grace :: int where "job_deadline_grace = 5 * 60"
definition job_token_grace :: int where "job_token_grace = 2 * 60"

lemmas job_times = job_queued_grace_def job_claim_grace_def job_silent_stale_def job_stale_fail_def job_cancel_grace_def
  job_deadline_grace_def job_token_grace_def

datatype exec_state = Unknown | Pending | Exec_running | Exec_succeeded | Exec_failed | Exec_cancelled

fun exec_word :: "exec_state \<Rightarrow> string" where
  "exec_word Unknown = ''unknown''"
| "exec_word Pending = ''pending''"
| "exec_word Exec_running = ''running''"
| "exec_word Exec_succeeded = ''succeeded''"
| "exec_word Exec_failed = ''failed''"
| "exec_word Exec_cancelled = ''cancelled''"

type_synonym exec_report = "exec_state \<times> string"

definition exec_over :: "exec_report \<Rightarrow> bool" where
  "exec_over st \<longleftrightarrow> fst st \<in> {Exec_succeeded, Exec_failed, Exec_cancelled}"

text \<open>\<open>ask\<close> is what the job's dispatcher says of an execution; a job without one is not asked about.\<close>

definition exec_status :: "(job \<Rightarrow> exec_report) \<Rightarrow> job \<Rightarrow> exec_report" where
  "exec_status ask j = (if j_execution j = '''' then (Unknown, '''') else ask j)"

definition exec_detail :: "exec_report \<Rightarrow> string" where
  "exec_detail st = (if fst st = Unknown then '''' else '' (execution '' @ exec_word (fst st) @
     (if snd st \<noteq> '''' then '': '' @ truncate_text (snd st) 200 else '''') @ '')'')"

definition fmt_duration :: "int \<Rightarrow> string" where
  "fmt_duration d = (if d < 60 then itoa d @ ''s'' else itoa (d div 60) @ ''m'')"

text \<open>A text that holds no time is read as Go's zero time, the first second of year 1.\<close>

definition zero_time :: int where "zero_time = - 62135596800"

definition instant :: "stamp \<Rightarrow> int" where
  "instant s = (case s of None \<Rightarrow> zero_time | Some t \<Rightarrow> t)"

definition silence :: "int \<Rightarrow> job \<Rightarrow> int" where
  "silence now j = now - instant (if_unset (j_last_event j) (if_unset (j_started j) (j_created j)))"

definition deadline :: "job \<Rightarrow> int" where
  "deadline j = instant (j_created j) + j_timeout j + job_deadline_grace"

text \<open>What one pass does with a job: \<open>End\<close> says whether its execution is stopped too.\<close>

datatype verdict = Leave | Mark_stale | End bool job_status string string

definition reconcile_job :: "int \<Rightarrow> exec_report \<Rightarrow> job \<Rightarrow> verdict" where
  "reconcile_job now st j = (let age = now - instant (j_created j) in case j_status j of
     Queued \<Rightarrow> if age > job_queued_grace
       then End False Failed ''dispatch_failed'' ''the dispatch never completed (was the bot restarted?)'' else Leave
   | Starting \<Rightarrow> if age < job_claim_grace then Leave
       else if fst st \<in> {Exec_running, Pending} \<and> age < 2 * job_claim_grace then Leave
       else End True Failed ''dispatch_failed'' (''the worker never claimed the job'' @ exec_detail st)
   | Running \<Rightarrow> if now > deadline j then End True Timeout ''timeout'' (''no result within '' @ fmt_duration (j_timeout j))
       else if silence now j < job_silent_stale then Leave
       else if exec_over st then End False Failed ''stale'' (''the worker exited without reporting a result'' @ exec_detail st)
       else Mark_stale
   | Stale \<Rightarrow> if exec_over st then End False Failed ''stale'' (''the worker exited without reporting a result'' @ exec_detail st)
       else if now > deadline j \<or> silence now j > job_silent_stale + job_stale_fail
         then End True Failed ''stale'' (''no word from the worker for '' @ fmt_duration (silence now j) @ ''; its execution was stopped'') else Leave
   | Cancelling \<Rightarrow> (case j_cancel_at j of
         Some t \<Rightarrow> if now - t > job_cancel_grace
           then End True Cancelled ''cancelled'' ''the worker did not confirm the cancel in time; its execution was stopped'' else Leave
       | None \<Rightarrow> End True Cancelled ''cancelled'' ''the worker did not confirm the cancel in time; its execution was stopped'')
   | _ \<Rightarrow> Leave)"

definition carry_out :: "(job \<Rightarrow> key_account) \<Rightarrow> int \<Rightarrow> job \<Rightarrow> verdict \<Rightarrow> jobs_db \<Rightarrow> jobs_db" where
  "carry_out spent now j v db = (case v of
     Leave \<Rightarrow> db
   | Mark_stale \<Rightarrow> fst (set_job_status (j_org j) (j_id j) [Running] Stale [] db)
   | End _ s code msg \<Rightarrow> finish (spent j) (Some now) (j_org j) (j_id j) s (error_result code msg) db)"

definition reconcile :: "(job \<Rightarrow> exec_report) \<Rightarrow> (job \<Rightarrow> key_account) \<Rightarrow> int \<Rightarrow> jobs_db \<Rightarrow> jobs_db" where
  "reconcile ask spent now db = revoke_job_tokens (now - job_token_grace)
     (fold (\<lambda>j. carry_out spent now j (reconcile_job now (exec_status ask j) j)) (active_jobs db) db)"

end
