(* ===== verification/Jobs_Spec.thy ===== *)
theory Jobs_Spec
  imports Jobs
begin

text \<open>
  What a job promises: its life as an abstract machine, that every statement of the store refines it for
  every row whatever the interleaving, and what follows for runs of statements: an end is final, a cancelled job is
  never claimed again, and no job is claimed more than three times.
\<close>

section \<open>The life of a job\<close>

record life =
  lf_status :: job_status
  lf_cancel :: bool
  lf_claims :: int
  lf_result :: "job_result option"

definition life_of :: "job \<Rightarrow> life" where
  "life_of j = \<lparr>lf_status = j_status j, lf_cancel = j_cancel_requested j, lf_claims = j_claims j, lf_result = j_result j\<rparr>"

definition newborn :: life where
  "newborn = \<lparr>lf_status = Queued, lf_cancel = False, lf_claims = 0, lf_result = None\<rparr>"

inductive life_step :: "life \<Rightarrow> life \<Rightarrow> bool" where
  dispatched: "lf_status a = Queued \<Longrightarrow> life_step a (a\<lparr>lf_status := Starting\<rparr>)"
| claimed: "lf_status a \<in> {Starting, Running, Stale} \<Longrightarrow> \<not> lf_cancel a \<Longrightarrow> lf_claims a < 3 \<Longrightarrow>
    life_step a (a\<lparr>lf_status := Running, lf_claims := lf_claims a + 1\<rparr>)"
| fell_silent: "lf_status a = Running \<Longrightarrow> life_step a (a\<lparr>lf_status := Stale\<rparr>)"
| spoke_again: "lf_status a = Stale \<Longrightarrow> life_step a (a\<lparr>lf_status := Running\<rparr>)"
| cancel_asked: "\<not> job_terminal (lf_status a) \<Longrightarrow> \<not> lf_cancel a \<Longrightarrow>
    life_step a (a\<lparr>lf_cancel := True,
      lf_status := (if lf_status a \<in> {Starting, Running, Stale} then Cancelling else lf_status a)\<rparr>)"
| ended: "\<not> job_terminal (lf_status a) \<Longrightarrow> job_terminal s \<Longrightarrow> life_step a (a\<lparr>lf_status := s, lf_result := r\<rparr>)"

definition settled :: "life \<Rightarrow> life \<Rightarrow> bool" where
  "settled a b \<longleftrightarrow> (job_terminal (lf_status a) \<longrightarrow> lf_status b = lf_status a \<and> lf_result b = lf_result a) \<and>
     (lf_cancel a \<longrightarrow> lf_cancel b \<and> lf_claims b = lf_claims a) \<and>
     lf_claims a \<le> lf_claims b \<and> (lf_claims b = lf_claims a \<or> lf_claims b \<le> 3)"

lemma settled_refl: "settled a a"
  by (simp add: settled_def)

lemma settled_trans: "settled a b \<Longrightarrow> settled b c \<Longrightarrow> settled a c"
  by (auto simp: settled_def)

lemma life_step_settled: "life_step a b \<Longrightarrow> settled a b"
  by (induction rule: life_step.induct) (auto simp: settled_def job_terminal_def)

section \<open>The machine of statements\<close>

text \<open>
  Any statement, with any arguments the code may have computed from rows it read earlier: the row \<open>cur\<close> of
  the finishing write and the batch of an events update need not be what the database holds now.
\<close>

inductive job_step :: "jobs_db \<Rightarrow> jobs_db \<Rightarrow> bool" where
  inserts: "j_status j = Queued \<Longrightarrow> job_step db (fst (insert_job now j db))"
| sets_fields: "job_step db (set_job_fields org i fs db)"
| dispatches: "job_step db (fst (set_job_status org i [Queued] Starting fs db))"
| marks_stale: "job_step db (fst (set_job_status org i [Running] Stale [] db))"
| claims: "job_step db (fst (claim_update now org i info db))"
| asks_to_cancel: "job_step db (fst (request_job_cancel now org i who why db))"
| adds_event: "bt_db b = db \<Longrightarrow> job_step db (bt_db (add_event org i e b))"
| counts_events: "bt_db b = db \<Longrightarrow> job_step db (events_update now org i b)"
| finishes: "job_terminal s \<Longrightarrow> job_step db (fst (finish_write now org i s res cur db))"
| revokes: "job_step db (revoke_job_tokens cutoff db)"
| purges: "job_step db (purge_job_data org cutoff db)"
| logs: "job_step db (log_usage org u db)"

text \<open>The rows of a database, each moved as \<open>R\<close> says, with new ones behind.\<close>

definition moved :: "(life \<Rightarrow> life \<Rightarrow> bool) \<Rightarrow> jobs_db \<Rightarrow> jobs_db \<Rightarrow> bool" where
  "moved R db db' \<longleftrightarrow> (\<exists>old new. db_jobs db' = old @ new \<and>
     list_all2 (\<lambda>j j'. j_id j' = j_id j \<and> j_org j' = j_org j \<and> R (life_of j) (life_of j')) (db_jobs db) old \<and>
     list_all (\<lambda>j. R newborn (life_of j)) new)"

definition one_or_none :: "life \<Rightarrow> life \<Rightarrow> bool" where
  "one_or_none a b \<longleftrightarrow> a = b \<or> life_step a b"

lemma set_field_kept [simp]: "life_of (set_field f j) = life_of j" "j_id (set_field f j) = j_id j" "j_org (set_field f j) = j_org j"
  by (cases f; simp add: life_of_def)+

lemma set_fields_kept [simp]: "life_of (fold set_field fs j) = life_of j" "j_id (fold set_field fs j) = j_id j"
  "j_org (fold set_field fs j) = j_org j"
  by (induction fs arbitrary: j) simp_all

lemma moved_rows:
  assumes "db_jobs db' = map f (db_jobs db)"
    and "\<And>j. j_id (f j) = j_id j \<and> j_org (f j) = j_org j \<and> R (life_of j) (life_of (f j))"
  shows "moved R db db'"
  unfolding moved_def using assms by (intro exI [of _ "map f (db_jobs db)"] exI [of _ "[]"]) (simp add: list_all2_conv_all_nth)

lemma moved_same: "db_jobs db' = db_jobs db \<Longrightarrow> (\<And>a. R a a) \<Longrightarrow> moved R db db'"
  by (rule moved_rows [of _ "\<lambda>j. j"]) simp_all

lemma update_job_jobs: "db_jobs (fst (update_job org i P f db)) = map (\<lambda>j. if hits org i P j then f j else j) (db_jobs db)"
  by (simp add: update_job_def)

lemma moved_update:
  assumes "\<And>j. P j \<Longrightarrow> j_id (f j) = j_id j \<and> j_org (f j) = j_org j \<and> R (life_of j) (life_of (f j))" "\<And>a. R a a"
  shows "moved R db (fst (update_job org i P f db))"
  by (rule moved_rows [OF update_job_jobs]) (use assms in \<open>auto simp: hits_def\<close>)

lemma moved_set_status:
  assumes "\<And>j :: job. j_status j = s \<Longrightarrow> life_step (life_of j) ((life_of j)\<lparr>lf_status := t\<rparr>)"
  shows "moved one_or_none db (fst (set_job_status org i [s] t fs db))"
  unfolding set_job_status_def
proof (rule moved_update)
  fix j :: job assume "[s] = [] \<or> j_status j \<in> set [s]"
  with assms have "life_step (life_of j) ((life_of j)\<lparr>lf_status := t\<rparr>)" by simp
  moreover have "life_of ((fold set_field fs j)\<lparr>j_status := t\<rparr>) = (life_of (fold set_field fs j))\<lparr>lf_status := t\<rparr>"
    by (simp add: life_of_def)
  ultimately show "j_id ((fold set_field fs j)\<lparr>j_status := t\<rparr>) = j_id j \<and> j_org ((fold set_field fs j)\<lparr>j_status := t\<rparr>) = j_org j \<and>
      one_or_none (life_of j) (life_of ((fold set_field fs j)\<lparr>j_status := t\<rparr>))"
    by (simp add: one_or_none_def)
qed (simp add: one_or_none_def)

lemma job_step_moves:
  assumes "job_step db db'"
  shows "moved one_or_none db db'"
  using assms
proof cases
  case (inserts j now)
  then obtain row where "db_jobs db' = db_jobs db @ [row]" "life_of row = newborn"
    by (simp add: insert_job_def fresh_row_def Let_def life_of_def newborn_def)
  then show ?thesis
    unfolding moved_def by (intro exI [of _ "db_jobs db"] exI [of _ "[row]"]) (simp add: one_or_none_def list_all2_refl)
next
  case (sets_fields org i fs)
  then show ?thesis
    by (cases "fs = []") (auto simp: set_job_fields_def one_or_none_def intro: moved_same moved_update)
next
  case (dispatches org i fs)
  then show ?thesis by (auto simp: life_of_def intro!: moved_set_status life_step.dispatched)
next
  case (marks_stale org i)
  then show ?thesis by (auto simp: life_of_def intro!: moved_set_status life_step.fell_silent)
next
  case (claims now org i info)
  then show ?thesis
    by (auto simp: claim_update_def claimed_row_def one_or_none_def life_of_def life_step.simps intro!: moved_update)
next
  case (asks_to_cancel now org i who why)
  then show ?thesis
    by (auto simp: request_job_cancel_def cancelling_row_def one_or_none_def life_of_def life_step.simps is_active_def job_terminal_active intro!: moved_update)
next
  case (adds_event b org i e)
  then show ?thesis by (auto simp: add_event_def one_or_none_def split: option.splits intro!: moved_same)
next
  case (counts_events b now org i)
  then show ?thesis
    by (auto simp: events_update_def counted_row_def one_or_none_def life_of_def life_step.simps intro!: moved_update)
next
  case (finishes s now org i res cur)
  then show ?thesis
    by (auto simp: finish_write_def finished_row_def Let_def one_or_none_def life_of_def life_step.simps intro!: moved_update)
next
  case (revokes cutoff)
  then show ?thesis
    by (intro moved_rows [of _ "revoked cutoff"]) (auto simp: revoke_job_tokens_def revoked_def one_or_none_def life_of_def)
qed (auto simp: purge_job_data_def log_usage_def one_or_none_def intro!: moved_same)

text \<open>C29. Every statement refines the life of a job. Whatever statement the store carries out, with whatever
  arguments, every row it holds takes one step of the abstract machine or none and keeps its number and its organisation,
  and a row that is new starts as the machine does.\<close>

theorem statements_refine_life:
  assumes "job_step db db'"
  shows "moved one_or_none db db'"
  using assms by (rule job_step_moves)

section \<open>Runs\<close>

lemma moved_refl: "(\<And>a. R a a) \<Longrightarrow> moved R db db"
  by (rule moved_same) simp_all

lemma moved_mono:
  assumes "moved Q db db'" and QR: "\<And>a b. Q a b \<Longrightarrow> R a b"
  shows "moved R db db'"
proof -
  from assms(1) obtain old new where n: "db_jobs db' = old @ new"
    "list_all2 (\<lambda>j j'. j_id j' = j_id j \<and> j_org j' = j_org j \<and> Q (life_of j) (life_of j')) (db_jobs db) old"
    "list_all (\<lambda>j. Q newborn (life_of j)) new" by (auto simp: moved_def)
  have "list_all2 (\<lambda>j j'. j_id j' = j_id j \<and> j_org j' = j_org j \<and> R (life_of j) (life_of j')) (db_jobs db) old"
    by (rule list_all2_mono [OF n(2)]) (simp add: QR)
  moreover have "list_all (\<lambda>j. R newborn (life_of j)) new"
    by (rule list.pred_mono_strong [OF n(3)]) (rule QR)
  ultimately show ?thesis unfolding moved_def using n(1) by blast
qed

lemma moved_trans:
  assumes "moved R db db1" "moved R db1 db2" and R: "\<And>a b c. R a b \<Longrightarrow> R b c \<Longrightarrow> R a c"
  shows "moved R db db2"
proof -
  let ?Q = "\<lambda>j j'. j_id j' = j_id j \<and> j_org j' = j_org j \<and> R (life_of j) (life_of j')"
  from assms(1) obtain o1 n1 where 1: "db_jobs db1 = o1 @ n1" "list_all2 ?Q (db_jobs db) o1"
    "list_all (\<lambda>j. R newborn (life_of j)) n1" by (auto simp: moved_def)
  from assms(2) obtain o2 n2 where 2: "db_jobs db2 = o2 @ n2" "list_all2 ?Q (o1 @ n1) o2"
    "list_all (\<lambda>j. R newborn (life_of j)) n2" by (auto simp: moved_def 1(1))
  from 2(2) obtain a b where ab: "o2 = a @ b" "list_all2 ?Q o1 a" "list_all2 ?Q n1 b"
    by (auto simp: list_all2_append1)
  have "list_all2 ?Q (db_jobs db) a"
    by (rule list_all2_trans [OF _ 1(2) ab(2)]) (auto intro: R)
  moreover have "list_all (\<lambda>j. R newborn (life_of j)) b"
    using ab(3) 1(3) by (induction rule: list_all2_induct) (auto intro: R)
  then have "list_all (\<lambda>j. R newborn (life_of j)) (b @ n2)" using 2(3) by simp
  ultimately show ?thesis unfolding moved_def using 2(1) ab(1) by (intro exI [of _ a] exI [of _ "b @ n2"]) simp
qed

lemma run_settled: "job_step\<^sup>*\<^sup>* db db' \<Longrightarrow> moved settled db db'"
proof (induction rule: rtranclp_induct)
  case base
  show ?case by (rule moved_refl) (rule settled_refl)
next
  case (step db1 db2)
  have "moved settled db1 db2"
    by (rule moved_mono [OF job_step_moves [OF step.hyps(2)]])
      (auto simp: one_or_none_def settled_refl life_step_settled)
  with step.IH show ?case by (rule moved_trans) (rule settled_trans)
qed

text \<open>C30. Jobs settle. Along any run of statements, in any interleaving, a job that has ended keeps its status and its
  result; one whose cancel was asked for stays asked and is never claimed again; no job is claimed more than three
  times; and no row goes away.\<close>

theorem jobs_settle:
  assumes "job_step\<^sup>*\<^sup>* db db'"
  shows "list_all2 (\<lambda>j j'. j_id j' = j_id j \<and>
      (job_terminal (j_status j) \<longrightarrow> j_status j' = j_status j \<and> j_result j' = j_result j) \<and>
      (j_cancel_requested j \<longrightarrow> j_cancel_requested j' \<and> j_claims j' = j_claims j) \<and>
      (j_claims j \<le> 3 \<longrightarrow> j_claims j' \<le> 3)) (db_jobs db) (take (length (db_jobs db)) (db_jobs db')) \<and>
    list_all (\<lambda>j. j_claims j \<le> 3) (drop (length (db_jobs db)) (db_jobs db'))"
proof -
  from run_settled [OF assms] obtain old new where n: "db_jobs db' = old @ new"
    "list_all2 (\<lambda>j j'. j_id j' = j_id j \<and> j_org j' = j_org j \<and> settled (life_of j) (life_of j')) (db_jobs db) old"
    "list_all (\<lambda>j. settled newborn (life_of j)) new" by (auto simp: moved_def)
  have len: "length old = length (db_jobs db)" using n(2) by (simp add: list_all2_lengthD)
  have "list_all (\<lambda>j. j_claims j \<le> 3) new"
    using n(3) by (rule list.pred_mono_strong) (auto simp: settled_def newborn_def life_of_def)
  with n(1) len show ?thesis
    by (auto simp: life_of_def settled_def intro!: list_all2_mono [OF n(2)])
qed

definition sample_job :: job where
  "sample_job = \<lparr>j_id = 1, j_status = Running, j_org = 1, j_team = ''T'', j_channel = ''C'', j_thread = '''', j_requester = '''',
     j_approved_by = '''', j_approval = '''', j_connection = 1, j_repo = '''', j_base_branch = '''', j_branch = '''', j_title = '''',
     j_spec = '''', j_engine = '''', j_model = '''', j_budget = 2, j_timeout = 600, j_draft = True, j_dispatcher = '''',
     j_execution = '''', j_token_hash = '''', j_token_expires = None, j_claimed_at = None, j_claims = 0, j_worker_info = '''',
     j_status_ts = '''', j_phase = '''', j_last_seq = 0, j_last_event = None, j_cancel_requested = False, j_cancel_by = '''',
     j_cancel_reason = '''', j_cancel_at = None, j_result = None, j_pr_url = '''', j_error = '''', j_cost = 0, j_tokens_in = 0,
     j_tokens_out = 0, j_tokens_cached = 0, j_key_hash = '''', j_key_enc = None, j_key_owner = ''platform'', j_created = Some 0,
     j_started = None, j_finished = None\<rparr>"

definition sample_db :: jobs_db where
  "sample_db = \<lparr>db_jobs = [sample_job], db_events = Map.empty, db_log = []\<rparr>"

theorem statements_refine_life_witness: "moved one_or_none sample_db (fst (claim_update (Some 5) 1 1 ''w'' sample_db))"
  by (rule statements_refine_life [OF job_step.claims])

theorem jobs_settle_witness: "list_all (\<lambda>j. j_claims j \<le> 3) (db_jobs (fst (claim_update (Some 5) 1 1 ''w'' sample_db)))"
proof -
  have "job_step\<^sup>*\<^sup>* sample_db (fst (claim_update (Some 5) 1 1 ''w'' sample_db))" by (blast intro: job_step.claims)
  from jobs_settle [OF this] show ?thesis
    by (simp add: sample_db_def sample_job_def claim_update_def claimed_row_def update_job_def hits_def)
qed

end
