(* ===== verification/Jobs_Books.thy ===== *)
theory Jobs_Books
  imports Jobs_Spec
begin

text \<open>
  What the runner's calls, one after another, keep: the usage log of an organisation and the totals on its jobs
  stay in step, and a pass of the reconciler ends every job that is overdue.
\<close>

section \<open>One row\<close>

definition well_numbered :: "jobs_db \<Rightarrow> bool" where
  "well_numbered db \<longleftrightarrow> distinct (map j_id (db_jobs db))"

definition keeps_key :: "(job \<Rightarrow> job) \<Rightarrow> bool" where
  "keeps_key f \<longleftrightarrow> (\<forall>j. j_id (f j) = j_id j \<and> j_org (f j) = j_org j)"

lemma update_numbers: "keeps_key f \<Longrightarrow> map j_id (db_jobs (fst (update_job org i P f db))) = map j_id (db_jobs db)"
  by (auto simp: update_job_def keeps_key_def)

lemma update_well_numbered: "keeps_key f \<Longrightarrow> well_numbered (fst (update_job org i P f db)) = well_numbered db"
  by (simp add: well_numbered_def update_numbers)

lemma update_rest [simp]: "db_log (fst (update_job org i P f db)) = db_log db"
  "db_events (fst (update_job org i P f db)) = db_events db"
  by (simp_all add: update_job_def)

lemma find_row_map:
  assumes "keeps_key f"
  shows "List.find (\<lambda>j. j_org j = o' \<and> j_id j = k) (map (\<lambda>j. if hits org i P j then f j else j) js) =
    map_option (\<lambda>j. if hits org i P j then f j else j) (List.find (\<lambda>j. j_org j = o' \<and> j_id j = k) js)"
  using assms by (induction js) (auto simp: keeps_key_def)

lemma find_job_update:
  assumes "keeps_key f"
  shows "find_job o' k (fst (update_job org i P f db)) =
    map_option (\<lambda>j. if org = o' \<and> i = k \<and> P j then f j else j) (find_job o' k db)"
proof -
  have "find_job o' k (fst (update_job org i P f db)) = map_option (\<lambda>j. if hits org i P j then f j else j) (find_job o' k db)"
    unfolding find_job_def update_job_jobs by (rule find_row_map [OF assms])
  also have "\<dots> = map_option (\<lambda>j. if org = o' \<and> i = k \<and> P j then f j else j) (find_job o' k db)"
  proof (cases "find_job o' k db")
    case (Some j)
    then have "j_org j = o'" "j_id j = k" using find_some [of _ "db_jobs db" j] by (auto simp: find_job_def)
    with Some show ?thesis by (auto simp: hits_def)
  qed simp
  finally show ?thesis .
qed

lemma find_job_key: "find_job org i db = Some j \<Longrightarrow> j_org j = org \<and> j_id j = i \<and> j \<in> set (db_jobs db)"
  using find_some [of _ "db_jobs db" j] by (auto simp: find_job_def)

lemma find_row_unique: "distinct (map j_id js) \<Longrightarrow> j \<in> set js \<Longrightarrow> List.find (\<lambda>j'. j_org j' = j_org j \<and> j_id j' = j_id j) js = Some j"
  by (induction js) (auto simp: image_iff)

lemma find_job_row: "well_numbered db \<Longrightarrow> j \<in> set (db_jobs db) \<Longrightarrow> find_job (j_org j) (j_id j) db = Some j"
  by (simp add: well_numbered_def find_job_def find_row_unique)

text \<open>The row that is found is the one row an update of it reaches.\<close>

lemma no_hits: "distinct (map j_id (x # js)) \<Longrightarrow> j_id x = i \<Longrightarrow> filter (hits org i P) js = []"
  by (auto simp: filter_empty_conv hits_def image_iff)

lemma hits_one:
  assumes "distinct (map j_id js)"
  shows "length (filter (hits org i P) js) = 1 \<longleftrightarrow>
    (\<exists>j. List.find (\<lambda>j. j_org j = org \<and> j_id j = i) js = Some j \<and> P j)"
  using assms
proof (induction js)
  case (Cons x js)
  have x: "hits org i P x \<longleftrightarrow> j_org x = org \<and> j_id x = i \<and> P x" by (simp add: hits_def)
  show ?case
  proof (cases "j_id x = i")
    case True
    with no_hits [OF Cons.prems True, of org P] have "filter (hits org i P) js = []" by simp
    moreover have "List.find (\<lambda>j. j_org j = org \<and> j_id j = i) js = None"
      using Cons.prems True by (auto simp: find_None_iff image_iff)
    ultimately show ?thesis using True x by auto
  next
    case False
    with Cons x show ?thesis by auto
  qed
qed simp

lemma update_found:
  assumes "well_numbered db"
  shows "snd (update_job org i P f db) = (case find_job org i db of Some j \<Rightarrow> P j | None \<Rightarrow> False)"
  using hits_one [of "db_jobs db" org i P] assms
  by (auto simp: update_job_def well_numbered_def find_job_def split: option.splits)

section \<open>Meters\<close>

datatype meter = Tokens_in | Tokens_out | Dollars

fun used :: "meter \<Rightarrow> job_usage \<Rightarrow> rat" where
  "used Tokens_in u = of_int (us_in u)"
| "used Tokens_out u = of_int (us_out u)"
| "used Dollars u = us_cost u"

fun counted :: "meter \<Rightarrow> job \<Rightarrow> rat" where
  "counted Tokens_in j = of_int (j_tokens_in j)"
| "counted Tokens_out j = of_int (j_tokens_out j)"
| "counted Dollars j = j_cost j"

definition tally :: "meter \<Rightarrow> int \<Rightarrow> jobs_db \<Rightarrow> rat" where
  "tally m org db = sum_list (map (\<lambda>j. if j_org j = org then counted m j else 0) (db_jobs db))"

definition logged :: "meter \<Rightarrow> int \<Rightarrow> jobs_db \<Rightarrow> rat" where
  "logged m org db = sum_list (map (\<lambda>(o', u). if o' = org then used m u else 0) (db_log db))"

definition balance :: "meter \<Rightarrow> int \<Rightarrow> jobs_db \<Rightarrow> rat" where
  "balance m org db = logged m org db - tally m org db"

lemma sum_unhit: "filter (hits org i P) js = [] \<Longrightarrow> map (\<lambda>j. h (if hits org i P j then f j else j)) js = map h js"
  by (induction js) (auto split: if_splits)

lemma sum_update:
  fixes h :: "job \<Rightarrow> rat"
  assumes "distinct (map j_id js)"
  shows "sum_list (map (\<lambda>j. h (if hits org i P j then f j else j)) js) = sum_list (map h js) +
    (case List.find (\<lambda>j. j_org j = org \<and> j_id j = i) js of None \<Rightarrow> 0 | Some j \<Rightarrow> if P j then h (f j) - h j else 0)"
  using assms
proof (induction js)
  case (Cons x js)
  have x: "hits org i P x \<longleftrightarrow> j_org x = org \<and> j_id x = i \<and> P x" by (simp add: hits_def)
  show ?case
  proof (cases "j_id x = i \<and> j_org x = org")
    case True
    with Cons.prems have "filter (hits org i P) js = []" using no_hits by blast
    from arg_cong [OF sum_unhit [OF this, of h f], of sum_list]
    have "sum_list (map (\<lambda>j. h (if hits org i P j then f j else j)) js) = sum_list (map h js)" .
    with True x show ?thesis by simp
  next
    case False
    with Cons x show ?thesis by auto
  qed
qed simp

lemma tally_update:
  assumes "well_numbered db" "keeps_key f"
  shows "tally m o' (fst (update_job org i P f db)) = tally m o' db +
    (case find_job org i db of None \<Rightarrow> 0 | Some j \<Rightarrow> if P j \<and> org = o' then counted m (f j) - counted m j else 0)"
proof -
  let ?h = "\<lambda>j. if j_org j = o' then counted m j else 0"
  have "tally m o' (fst (update_job org i P f db)) = sum_list (map (\<lambda>j. ?h (if hits org i P j then f j else j)) (db_jobs db))"
    by (simp add: tally_def update_job_jobs comp_def)
  also have "\<dots> = tally m o' db + (case find_job org i db of None \<Rightarrow> 0 | Some j \<Rightarrow> if P j then ?h (f j) - ?h j else 0)"
    using assms(1) sum_update [of "db_jobs db" ?h org i P f] by (simp add: tally_def find_job_def well_numbered_def)
  also have "\<dots> = tally m o' db + (case find_job org i db of None \<Rightarrow> 0 | Some j \<Rightarrow> if P j \<and> org = o' then counted m (f j) - counted m j else 0)"
    using assms(2) find_job_key [of org i db] by (auto simp: keeps_key_def split: option.splits)
  finally show ?thesis .
qed

text \<open>An update that leaves the counts alone leaves the books alone.\<close>

lemma quiet_update:
  assumes "well_numbered db" "keeps_key f" "\<And>j. counted m (f j) = counted m j"
  shows "balance m o' (fst (update_job org i P f db)) = balance m o' db"
  using tally_update [OF assms(1,2)] assms(3) by (simp add: balance_def logged_def split: option.splits)

section \<open>The operations and the books\<close>

lemma balance_log: "balance m o' (log_usage org u db) = balance m o' db + (if spends u \<and> org = o' then used m u else 0)"
  by (simp add: balance_def logged_def tally_def log_usage_def)

lemma well_numbered_log [simp]: "well_numbered (log_usage org u db) = well_numbered db"
  by (simp add: well_numbered_def log_usage_def)

definition usage_ok :: "job_usage \<Rightarrow> bool" where
  "usage_ok u \<longleftrightarrow> us_in u \<ge> 0 \<and> us_out u \<ge> 0 \<and> us_cost u \<ge> 0"

lemma not_spending: "usage_ok u \<Longrightarrow> \<not> spends u \<Longrightarrow> used m u = 0"
  by (cases m) (auto simp: usage_ok_def spends_def)

lemma used_add: "used m (add_usage u v) = used m u + used m v"
  by (cases m) (simp_all add: add_usage_def)

lemma used_no [simp]: "used m no_usage = 0"
  by (cases m) (simp_all add: no_usage_def)

subsection \<open>Events\<close>

definition batch_ok :: "jobs_db \<Rightarrow> batch \<Rightarrow> bool" where
  "batch_ok db b \<longleftrightarrow> db_jobs (bt_db b) = db_jobs db \<and> db_log (bt_db b) = db_log db \<and> usage_ok (bt_used b) \<and>
     (bt_accepted b = 0 \<longrightarrow> bt_used b = no_usage)"

lemma add_event_ok: "batch_ok db b \<Longrightarrow> usage_ok (event_usage e) \<Longrightarrow> batch_ok db (add_event org i e b)"
  by (auto simp: batch_ok_def add_event_def usage_ok_def add_usage_def split: option.splits)

lemma add_events_ok:
  "batch_ok db b \<Longrightarrow> list_all (\<lambda>e. usage_ok (event_usage e)) evs \<Longrightarrow> batch_ok db (fold (add_event org i) evs b)"
  by (induction evs arbitrary: b) (auto intro: add_event_ok)

lemma start_batch_ok: "batch_ok db \<lparr>bt_db = db, bt_accepted = 0, bt_used = no_usage, bt_max_seq = 0, bt_phase = ''''\<rparr>"
  by (simp add: batch_ok_def usage_ok_def no_usage_def)

lemma same_jobs_tally: "db_jobs db = db_jobs db' \<Longrightarrow> tally m o' db = tally m o' db'"
  by (simp add: tally_def)

lemma add_job_events_books:
  assumes wf: "well_numbered db" and row: "find_job org i db = Some j" and ok: "list_all (\<lambda>e. usage_ok (event_usage e)) evs"
    and run: "add_job_events now org i evs db = (db', n, u)"
  shows "balance m o' db' = balance m o' db - (if org = o' then used m u else 0)" and "usage_ok u" and "well_numbered db'"
proof -
  define b where "b = fold (add_event org i) evs
    \<lparr>bt_db = db, bt_accepted = 0, bt_used = no_usage, bt_max_seq = 0, bt_phase = ''''\<rparr>"
  have b: "batch_ok db b" unfolding b_def by (rule add_events_ok [OF start_batch_ok ok])
  have db': "db' = (if bt_accepted b = 0 then bt_db b else events_update now org i b)" and u: "u = bt_used b"
    using run by (auto simp: add_job_events_def b_def Let_def)
  have wfb: "well_numbered (bt_db b)" and rowb: "find_job org i (bt_db b) = Some j"
    using b wf row by (simp_all add: batch_ok_def well_numbered_def find_job_def)
  show "usage_ok u" using b u by (simp add: batch_ok_def)
  let ?f = "counted_row now b"
  have f: "keeps_key ?f" by (simp add: keeps_key_def counted_row_def)
  have cf: "counted m (?f j) = counted m j + used m u" for j by (cases m) (simp_all add: u counted_row_def)
  note up = events_update_def
  show "well_numbered db'" using wfb update_well_numbered [OF f] by (simp add: db' up)
  show "balance m o' db' = balance m o' db - (if org = o' then used m u else 0)"
  proof (cases "bt_accepted b = 0")
    case True
    with b u show ?thesis by (simp add: db' balance_def tally_def logged_def batch_ok_def)
  next
    case False
    have "tally m o' db' = tally m o' (bt_db b) + (if org = o' then used m u else 0)"
      using False tally_update [OF wfb f, of m o' org i "\<lambda>_. True"] rowb cf by (simp add: db' up)
    moreover have "db_log db' = db_log db" using b False by (simp add: db' up batch_ok_def)
    moreover have "tally m o' (bt_db b) = tally m o' db" using b by (simp add: batch_ok_def tally_def)
    ultimately show ?thesis by (simp add: balance_def logged_def)
  qed
qed

subsection \<open>The end\<close>

lemma beyond_ge: "0 \<le> beyond (u :: 'a :: linordered_idom) c"
  by (simp add: beyond_def)

lemma finish_delta_ok: "usage_ok (finish_delta u j)"
  by (simp add: usage_ok_def finish_delta_def beyond_ge)

lemma finish_write_books:
  assumes wf: "well_numbered db" and cur: "find_job org i db = Some cur" "\<not> job_terminal (j_status cur)"
    and run: "finish_write now org i s (Some r) cur db = (db', ok)"
  shows "balance m o' db' = balance m o' db - (if org = o' then used m (finish_delta (rs_usage r) cur) else 0)"
    and "well_numbered db'" and ok
proof -
  let ?d = "finish_delta (rs_usage r) cur" and ?f = "finished_row now s (Some r) cur"
  have k: "keeps_key ?f" by (simp add: keeps_key_def finished_row_def Let_def)
  have c: "counted m (?f j) = counted m cur + used m ?d" for j by (cases m) (simp_all add: finished_row_def Let_def)
  have db': "db' = fst (update_job org i (\<lambda>j. \<not> job_terminal (j_status j)) ?f db)"
    and ok_def: "ok = snd (update_job org i (\<lambda>j. \<not> job_terminal (j_status j)) ?f db)"
    using run by (simp_all add: finish_write_def)
  show "balance m o' db' = balance m o' db - (if org = o' then used m ?d else 0)"
    using tally_update [OF wf k, of m o' org i "\<lambda>j. \<not> job_terminal (j_status j)"] cur c
    by (simp add: db' balance_def logged_def)
  show "well_numbered db'" using wf update_well_numbered [OF k] by (simp add: db')
  show ok using update_found [OF wf, of org i "\<lambda>j. \<not> job_terminal (j_status j)" ?f] cur by (simp add: ok_def)
qed

lemma finish_job_books:
  assumes wf: "well_numbered db" and run: "finish_job now org i s (Some r) db = (db', d, ok)"
  shows "balance m o' db' = balance m o' db - (if org = o' \<and> ok then used m d else 0)" and "well_numbered db'"
    and "usage_ok d" and "\<not> ok \<Longrightarrow> db' = db"
proof -
  have "(balance m o' db' = balance m o' db - (if org = o' \<and> ok then used m d else 0)) \<and> well_numbered db' \<and> usage_ok d \<and>
      (\<not> ok \<longrightarrow> db' = db)"
  proof (cases "find_job org i db")
    case None
    with run wf show ?thesis by (auto simp: finish_job_def usage_ok_def no_usage_def)
  next
    case (Some cur)
    show ?thesis
    proof (cases "job_terminal (j_status cur)")
      case True
      with run wf Some show ?thesis by (auto simp: finish_job_def usage_ok_def no_usage_def)
    next
      case False
      with run Some have w: "finish_write now org i s (Some r) cur db = (db', ok)" and d: "d = finish_delta (rs_usage r) cur"
        by (auto simp: finish_job_def Let_def split: prod.splits)
      from finish_write_books [OF wf Some False w] show ?thesis by (simp add: d finish_delta_ok)
    qed
  qed
  then show "balance m o' db' = balance m o' db - (if org = o' \<and> ok then used m d else 0)" "well_numbered db'" "usage_ok d"
    "\<not> ok \<Longrightarrow> db' = db" by simp_all
qed

lemma set_one_field: "set_job_fields org i [f] db = fst (update_job org i (\<lambda>_. True) (set_field f) db)"
  by (simp add: set_job_fields_def)

lemma set_field_key: "keeps_key (set_field f)"
  by (simp add: keeps_key_def)

lemma settle_key_books:
  assumes wf: "well_numbered db" and row: "find_job org i db = Some j" and run: "settle_key spent j db = (db', extra)"
  shows "balance m o' db' = balance m o' db - (if org = o' \<and> m = Dollars then extra else 0)" and "well_numbered db'" and "0 \<le> extra"
proof -
  have j: "j_org j = org" "j_id j = i" using find_job_key [OF row] by simp_all
  have "(balance m o' db' = balance m o' db - (if org = o' \<and> m = Dollars then extra else 0)) \<and> well_numbered db' \<and> 0 \<le> extra"
  proof (cases "j_key_hash j = '''' \<or> spent = Keys_off")
    case True
    with run wf show ?thesis by (auto simp: settle_key_def)
  next
    case False
    define x where "x = (case spent of Spent u \<Rightarrow> beyond u (j_cost j) | _ \<Rightarrow> 0)"
    have x: "0 \<le> x" by (simp add: x_def beyond_ge split: key_account.splits)
    define db1 where "db1 = (if x > 0 then set_job_fields (j_org j) (j_id j) [FCost (j_cost j + x)] db else db)"
    have db': "db' = set_job_fields (j_org j) (j_id j) [FKeyEnc None] db1" and e: "extra = x"
      using run False by (auto simp: settle_key_def x_def db1_def Let_def)
    have wf1: "well_numbered db1"
      using wf by (simp add: db1_def set_one_field update_well_numbered [OF set_field_key])
    have "balance m o' db1 = balance m o' db - (if org = o' \<and> m = Dollars then x else 0)"
      using tally_update [OF wf set_field_key, of m o' org i "\<lambda>_. True" "FCost (j_cost j + x)"] row j x
      by (cases m) (auto simp: db1_def set_one_field balance_def logged_def)
    moreover have "balance m o' db' = balance m o' db1"
      unfolding db' set_one_field by (rule quiet_update [OF wf1 set_field_key]) (cases m; simp)
    moreover have "well_numbered db'" using wf1 by (simp add: db' set_one_field update_well_numbered [OF set_field_key])
    ultimately show ?thesis using x e by simp
  qed
  then show "balance m o' db' = balance m o' db - (if org = o' \<and> m = Dollars then extra else 0)" "well_numbered db'" "0 \<le> extra"
    by simp_all
qed

lemma finish_books:
  assumes wf: "well_numbered db"
  shows "balance m o' (finish spent now org i s r db) = balance m o' db" and "well_numbered (finish spent now org i s r db)"
proof -
  obtain db1 d ok where f: "finish_job now org i s (Some (r\<lparr>rs_status := s\<rparr>)) db = (db1, d, ok)" by (metis prod_cases3)
  note b1 = finish_job_books [OF wf f]
  have "balance m o' (finish spent now org i s r db) = balance m o' db \<and> well_numbered (finish spent now org i s r db)"
  proof (cases ok)
    case False
    with f b1 wf show ?thesis by (simp add: finish_def)
  next
    case True
    have "find_job org i db1 \<noteq> None"
      using f True find_job_update [of "finished_row now s (Some (r\<lparr>rs_status := s\<rparr>)) cur" for cur]
      by (auto simp: finish_job_def finish_write_def keeps_key_def finished_row_def Let_def split: option.splits if_splits prod.splits
          dest!: arg_cong [of _ _ fst])
    then obtain j where j: "find_job org i db1 = Some j" by blast
    obtain db2 extra where s: "settle_key spent j db1 = (db2, extra)" by fastforce
    note b2 = settle_key_books [OF b1(2) j s]
    let ?u = "d\<lparr>us_cost := us_cost d + extra\<rparr>"
    have u: "usage_ok ?u" using b1(3) b2(3) by (simp add: usage_ok_def)
    have "used m ?u = used m d + (if m = Dollars then extra else 0)" by (cases m) simp_all
    with not_spending [OF u, of m] b1(1) b2(1) True
    have "balance m o' (log_usage org ?u db2) = balance m o' db" by (auto simp: balance_log)
    with f True j s b2(2) show ?thesis by (simp add: finish_def)
  qed
  then show "balance m o' (finish spent now org i s r db) = balance m o' db" "well_numbered (finish spent now org i s r db)"
    by simp_all
qed

subsection \<open>The calls\<close>

lemma cancel_row_kept: "keeps_key (cancelling_row now who why)" "counted m (cancelling_row now who why j) = counted m j"
  by (cases m; simp add: keeps_key_def cancelling_row_def)+

lemma request_job_cancel_books:
  assumes "well_numbered db"
  shows "balance m o' (fst (request_job_cancel now org i who why db)) = balance m o' db"
    "well_numbered (fst (request_job_cancel now org i who why db))"
  using assms by (simp_all add: request_job_cancel_def quiet_update cancel_row_kept update_well_numbered)

lemma cancel_books:
  assumes "well_numbered db"
  shows "balance m o' (fst (cancel spent now j who why db)) = balance m o' db" "well_numbered (fst (cancel spent now j who why db))"
  using assms finish_books [OF assms] request_job_cancel_books [OF assms] finish_books [OF request_job_cancel_books(2) [OF assms]]
  by (auto simp: cancel_def Let_def split: prod.splits dest!: arg_cong [of _ _ fst])

lemma claim_job_books:
  assumes "well_numbered db"
  shows "balance m o' (fst (claim_job now org i info db)) = balance m o' db" "well_numbered (fst (claim_job now org i info db))"
proof -
  have k: "keeps_key (claimed_row now info)" by (simp add: keeps_key_def claimed_row_def)
  have c: "counted m (claimed_row now info j) = counted m j" for j by (cases m) (simp_all add: claimed_row_def)
  have fst: "fst (claim_job now org i info db) = db \<or> fst (claim_job now org i info db) = fst (claim_update now org i info db)"
    by (simp add: claim_job_def Let_def split: option.splits prod.splits)
  with assms show "balance m o' (fst (claim_job now org i info db)) = balance m o' db"
    "well_numbered (fst (claim_job now org i info db))"
    using quiet_update [OF assms k c] update_well_numbered [OF k] by (auto simp: claim_update_def)
qed

lemma handle_job_events_books:
  assumes wf: "well_numbered db" and row: "find_job (j_org j) (j_id j) db = Some j"
    and ok: "list_all (\<lambda>e. usage_ok (event_usage (clean_event scrub price e))) evs"
  shows "balance m o' (fst (handle_job_events scrub price now j evs db)) = balance m o' db"
    and "well_numbered (fst (handle_job_events scrub price now j evs db))"
proof -
  let ?evs = "map (clean_event scrub price) evs"
  obtain db1 n u where a: "add_job_events now (j_org j) (j_id j) ?evs db = (db1, n, u)" by (metis prod_cases3)
  have "list_all (\<lambda>e. usage_ok (event_usage e)) ?evs" using ok by (simp add: list_all_iff)
  note b1 = add_job_events_books [OF wf row this a]
  let ?db2 = "log_usage (j_org j) u db1"
  have b2: "balance m o' ?db2 = balance m o' db" "well_numbered ?db2"
    using b1 not_spending [OF b1(2), of m] by (auto simp: balance_log)
  have "fst (handle_job_events scrub price now j evs db) \<in> {db, ?db2} \<union>
      {fst (request_job_cancel now (j_org j) (j_id j) '''' ''budget'' ?db2)}"
    using a by (auto simp: handle_job_events_def Let_def split: option.splits prod.splits)
  with b2 wf request_job_cancel_books [OF b2(2)]
  show "balance m o' (fst (handle_job_events scrub price now j evs db)) = balance m o' db"
    "well_numbered (fst (handle_job_events scrub price now j evs db))" by auto
qed

lemma set_job_status_books:
  assumes "well_numbered db" "fs = [] \<or> fs = [FExecution a, FDispatcher b]"
  shows "balance m o' (fst (set_job_status org i from to fs db)) = balance m o' db"
    "well_numbered (fst (set_job_status org i from to fs db))"
proof -
  let ?f = "\<lambda>j. (fold set_field fs j)\<lparr>j_status := to\<rparr>"
  have k: "keeps_key ?f" by (simp add: keeps_key_def)
  have c: "counted m (?f j) = counted m j" for j using assms(2) by (cases m) auto
  show "balance m o' (fst (set_job_status org i from to fs db)) = balance m o' db"
    "well_numbered (fst (set_job_status org i from to fs db))"
    using quiet_update [OF assms(1) k c] update_well_numbered [OF k] assms(1) by (simp_all add: set_job_status_def)
qed

lemma carry_out_books:
  assumes "well_numbered db"
  shows "balance m o' (carry_out spent now j v db) = balance m o' db" "well_numbered (carry_out spent now j v db)"
  using assms set_job_status_books [OF assms, of "[]"] finish_books [OF assms]
  by (simp_all add: carry_out_def split: verdict.splits)

lemma revoke_books:
  "balance m o' (revoke_job_tokens c db) = balance m o' db" "well_numbered (revoke_job_tokens c db) = well_numbered db"
proof -
  have "counted m (revoked c j) = counted m j \<and> j_org (revoked c j) = j_org j \<and> j_id (revoked c j) = j_id j" for j
    by (cases m) (simp_all add: revoked_def)
  then show "balance m o' (revoke_job_tokens c db) = balance m o' db" "well_numbered (revoke_job_tokens c db) = well_numbered db"
    by (simp_all add: balance_def tally_def logged_def revoke_job_tokens_def well_numbered_def comp_def cong: if_cong)
qed

lemma reconcile_books:
  assumes "well_numbered db"
  shows "balance m o' (reconcile ask spent now db) = balance m o' db" "well_numbered (reconcile ask spent now db)"
proof -
  have "balance m o' (fold (\<lambda>j. carry_out spent now j (v j)) js db) = balance m o' db \<and>
      well_numbered (fold (\<lambda>j. carry_out spent now j (v j)) js db)" for v js
    using assms carry_out_books by (induction js arbitrary: db) simp_all
  then show "balance m o' (reconcile ask spent now db) = balance m o' db" "well_numbered (reconcile ask spent now db)"
    by (simp_all add: reconcile_def revoke_books)
qed

text \<open>The calls the bot serves one after another; \<open>id\<close> and \<open>org\<close> name the job that the call's token is for.\<close>

datatype job_call =
    Call_insert stamp job
  | Call_dispatched int int string string
  | Call_claim stamp int int string
  | Call_events "string \<Rightarrow> string" "job_usage \<Rightarrow> job_usage" stamp int int "job_event list"
  | Call_result "job_result \<Rightarrow> job_result" key_account stamp int int job_result
  | Call_cancel key_account stamp int int string string
  | Call_reconcile "job \<Rightarrow> exec_report" "job \<Rightarrow> key_account" int

definition with_job :: "int \<Rightarrow> int \<Rightarrow> (job \<Rightarrow> jobs_db \<Rightarrow> jobs_db) \<Rightarrow> jobs_db \<Rightarrow> jobs_db" where
  "with_job org i f db = (case find_job org i db of None \<Rightarrow> db | Some j \<Rightarrow> f j db)"

fun serve :: "job_call \<Rightarrow> jobs_db \<Rightarrow> jobs_db" where
  "serve (Call_insert now j) db = fst (insert_job now j db)"
| "serve (Call_dispatched org i ref name) db = fst (set_job_status org i [Queued] Starting [FExecution ref, FDispatcher name] db)"
| "serve (Call_claim now org i info) db = fst (claim_job now org i info db)"
| "serve (Call_events scrub price now org i evs) db = with_job org i (\<lambda>j db. fst (handle_job_events scrub price now j evs db)) db"
| "serve (Call_result clean spent now org i r) db = with_job org i (\<lambda>j db. fst (handle_job_result clean spent now j r db)) db"
| "serve (Call_cancel spent now org i who why) db = with_job org i (\<lambda>j db. fst (cancel spent now j who why db)) db"
| "serve (Call_reconcile ask spent now) db = reconcile ask spent now db"

definition call_ok :: "job_call \<Rightarrow> bool" where
  "call_ok c \<longleftrightarrow> (case c of
     Call_events scrub price _ _ _ evs \<Rightarrow> list_all (\<lambda>e. usage_ok (event_usage (clean_event scrub price e))) evs
   | _ \<Rightarrow> True)"

lemma foldr_max_le: "x \<in> set xs \<Longrightarrow> (x :: int) \<le> foldr max xs 0"
  by (induction xs) auto

lemma insert_books:
  assumes "well_numbered db"
  shows "balance m o' (fst (insert_job now j db)) = balance m o' db" "well_numbered (fst (insert_job now j db))"
proof -
  let ?i = "foldr max (map j_id (db_jobs db)) 0 + 1"
  let ?row = "fresh_row now ?i j"
  have db': "fst (insert_job now j db) = db\<lparr>db_jobs := db_jobs db @ [?row]\<rparr>" by (simp add: insert_job_def Let_def)
  have row: "j_id ?row = ?i" "counted m ?row = 0" by (simp add: fresh_row_def, cases m, simp_all add: fresh_row_def)
  have "?i \<notin> j_id ` set (db_jobs db)" using foldr_max_le [of _ "map j_id (db_jobs db)"] by fastforce
  with assms row show "balance m o' (fst (insert_job now j db)) = balance m o' db" "well_numbered (fst (insert_job now j db))"
    by (simp_all add: db' balance_def tally_def logged_def well_numbered_def)
qed

lemma serve_books:
  assumes wf: "well_numbered db" and ok: "call_ok c"
  shows "balance m o' (serve c db) = balance m o' db \<and> well_numbered (serve c db)"
proof (cases c)
  case (Call_events scrub price now org i evs)
  have "find_job (j_org j) (j_id j) db = Some j" if "find_job org i db = Some j" for j
    using find_job_key [OF that] that by simp
  with Call_events ok wf handle_job_events_books [OF wf] show ?thesis
    by (auto simp: with_job_def call_ok_def split: option.splits)
next
  case (Call_result clean spent now org i r)
  with wf finish_books [OF wf] show ?thesis
    by (auto simp: with_job_def handle_job_result_def Let_def split: option.splits)
qed (use wf in \<open>simp_all add: with_job_def insert_books set_job_status_books claim_job_books cancel_books reconcile_books split: option.splits\<close>)

text \<open>C31. The books balance. Served one after another, whatever calls come, for whatever jobs, and however they end,
  keep the difference between the tokens and dollars logged to an organisation and those on its jobs what it was: every unit a
  job shows is logged once, if no event carries a negative amount.\<close>

theorem books_balance:
  assumes "well_numbered db" and "list_all call_ok cs"
  shows "balance m org (fold serve cs db) = balance m org db"
proof -
  have "balance m org (fold serve cs db) = balance m org db \<and> well_numbered (fold serve cs db)"
    using assms serve_books by (induction cs arbitrary: db) auto
  then show ?thesis ..
qed

definition spent_event :: "int \<Rightarrow> rat \<Rightarrow> job_event" where
  "spent_event n cost = \<lparr>ev_seq = n, ev_at = '''', ev_kind = KUsage, ev_phase = '''', ev_status = '''', ev_message = '''',
     ev_data = '''', ev_usage = Some \<lparr>us_in = 10, us_cached = 0, us_out = 2, us_cost = cost\<rparr>\<rparr>"

definition sample_calls :: "job_call list" where
  "sample_calls = [Call_claim (Some 5) 1 1 ''w'', Call_events (\<lambda>s. s) (\<lambda>u. u) (Some 6) 1 1 [spent_event 1 (1/2), spent_event 1 (1/2)],
     Call_result (\<lambda>r. r) Keys_off (Some 9) 1 1
       (empty_result\<lparr>rs_usage := \<lparr>us_in = 30, us_cached = 0, us_out = 2, us_cost = 3/4\<rparr>\<rparr>)]"

theorem books_balance_witness: "balance Dollars 1 (fold serve sample_calls sample_db) = 0"
proof -
  have calls: "list_all call_ok sample_calls"
    by (simp add: sample_calls_def call_ok_def clean_event_def spent_event_def event_usage_def usage_ok_def)
  have "well_numbered sample_db" by (simp add: well_numbered_def sample_db_def)
  from books_balance [OF this calls]
  have "balance Dollars 1 (fold serve sample_calls sample_db) = balance Dollars 1 sample_db" .
  also have "\<dots> = 0" by (simp add: balance_def logged_def tally_def sample_db_def sample_job_def)
  finally show ?thesis .
qed

text \<open>
  The statements by themselves do not keep the books. \<open>FinishJob\<close> writes totals it computed from an earlier read: events
  that are counted in between are logged, and then written over.
\<close>

lemma late_events_are_lost:
  fixes db1 defines "db1 \<equiv> fst (add_job_events (Some 6) 1 1 [spent_event 1 (1/2)] sample_db)"
  shows "tally Dollars 1 db1 = 1/2"
    and "tally Dollars 1 (fst (finish_write (Some 9) 1 1 Cancelled (Some empty_result) sample_job db1)) = 0"
proof -
  have jobs: "db_jobs db1 = [sample_job\<lparr>j_last_seq := 1, j_last_event := Some 6, j_cost := 1/2, j_tokens_in := 10, j_tokens_out := 2\<rparr>]"
    by (simp add: db1_def add_job_events_def add_event_def event_usage_def spent_event_def sample_db_def spends_def add_usage_def
        no_usage_def events_update_def counted_row_def update_job_def hits_def sample_job_def)
  show "tally Dollars 1 db1 = 1/2" by (simp add: tally_def jobs sample_job_def)
  show "tally Dollars 1 (fst (finish_write (Some 9) 1 1 Cancelled (Some empty_result) sample_job db1)) = 0"
    by (simp add: tally_def finish_write_def update_job_def hits_def jobs sample_job_def job_terminal_def finished_row_def
        finish_delta_def beyond_def empty_result_def no_usage_def Let_def)
qed

text \<open>Cached tokens that only the result reports reach the job and not the log.\<close>

lemma cached_alone_is_not_logged:
  "us_cached (finish_delta \<lparr>us_in = 0, us_cached = 5, us_out = 0, us_cost = 0\<rparr> sample_job) = 5"
  "\<not> spends (finish_delta \<lparr>us_in = 0, us_cached = 5, us_out = 0, us_cost = 0\<rparr> sample_job)"
  by (simp_all add: finish_delta_def beyond_def spends_def sample_job_def)

section \<open>Overdue jobs end\<close>

definition overdue :: "int \<Rightarrow> job \<Rightarrow> bool" where
  "overdue now j \<longleftrightarrow> is_active j \<and> now > deadline j \<and> now \<ge> instant (j_created j) + 2 * job_claim_grace \<and>
     (case j_cancel_at j of None \<Rightarrow> True | Some t \<Rightarrow> now - t > job_cancel_grace)"

lemma overdue_verdict: "overdue now j \<Longrightarrow> \<exists>b s code msg. reconcile_job now st j = End b s code msg \<and> job_terminal s"
  by (cases "j_status j")
    (auto simp: overdue_def reconcile_job_def Let_def is_active_def job_active_statuses_def job_terminal_def job_times
      split: option.splits)

definition status_of :: "int \<Rightarrow> int \<Rightarrow> jobs_db \<Rightarrow> job_status option" where
  "status_of org i db = map_option j_status (find_job org i db)"

lemma status_update:
  assumes "keeps_key f" "\<And>j. P j \<Longrightarrow> j_status (f j) = g (j_status j)" "\<And>j. P j \<longleftrightarrow> Q (j_status j)"
  shows "status_of o' k (fst (update_job org i P f db)) =
    map_option (\<lambda>s. if org = o' \<and> i = k \<and> Q s then g s else s) (status_of o' k db)"
  using assms by (cases "find_job o' k db") (auto simp: status_of_def find_job_update)

lemma status_log [simp]: "status_of o' k (log_usage org u db) = status_of o' k db"
  by (simp add: status_of_def find_job_def log_usage_def)

lemma status_field [simp]: "status_of o' k (set_job_fields org i [f] db) = status_of o' k db"
proof -
  have "j_status (set_field f j) = j_status j" for j by (cases f) simp_all
  with status_update [OF set_field_key, of "\<lambda>_. True" f "\<lambda>s. s" "\<lambda>_. True" o' k org i db] show ?thesis
    by (simp add: set_one_field option.map_ident)
qed

lemma status_settle [simp]: "settle_key spent j db = (db', x) \<Longrightarrow> status_of o' k db' = status_of o' k db"
  by (auto simp: settle_key_def Let_def split: if_splits)

lemma status_finish:
  "status_of o' k (finish spent now org i s r db) =
    map_option (\<lambda>s0. if org = o' \<and> i = k \<and> \<not> job_terminal s0 then s else s0) (status_of o' k db)"
proof (cases "find_job org i db")
  case None
  then show ?thesis
    by (cases "org = o' \<and> i = k") (auto simp: finish_def finish_job_def status_of_def option.map_ident)
next
  case (Some cur)
  show ?thesis
  proof (cases "job_terminal (j_status cur)")
    case True
    with Some show ?thesis
      by (cases "org = o' \<and> i = k") (auto simp: finish_def finish_job_def status_of_def option.map_ident)
  next
    case False
    let ?r = "Some (r\<lparr>rs_status := s\<rparr>)"
    obtain db1 ok where w: "finish_write now org i s ?r cur db = (db1, ok)" by fastforce
    have k: "keeps_key (finished_row now s ?r cur)" by (simp add: keeps_key_def finished_row_def Let_def)
    have st: "status_of o' k db1 = map_option (\<lambda>s0. if org = o' \<and> i = k \<and> \<not> job_terminal s0 then s else s0) (status_of o' k db)"
      using status_update [OF k, of "\<lambda>j. \<not> job_terminal (j_status j)" "\<lambda>_. s" "\<lambda>s. \<not> job_terminal s" o' k org i db] w
      by (simp add: finish_write_def finished_row_def Let_def)
    have "status_of o' k (finish spent now org i s r db) = status_of o' k db1"
      using w Some False by (auto simp: finish_def finish_job_def Let_def split: option.splits prod.splits)
    with st show ?thesis by simp
  qed
qed

lemma status_carry_out:
  "\<exists>g. status_of o' k (carry_out spent now j v db) = map_option g (status_of o' k db) \<and> (\<forall>s. job_terminal s \<longrightarrow> g s = s)"
  "v = End b s code msg \<Longrightarrow> job_terminal s \<Longrightarrow>
    \<exists>g. status_of (j_org j) (j_id j) (carry_out spent now j v db) = map_option g (status_of (j_org j) (j_id j) db) \<and>
      (\<forall>s. job_terminal (g s))"
proof -
  show "\<exists>g. status_of o' k (carry_out spent now j v db) = map_option g (status_of o' k db) \<and> (\<forall>s. job_terminal s \<longrightarrow> g s = s)"
  proof (cases v)
    case Mark_stale
    have k: "keeps_key (\<lambda>j. (fold set_field [] j)\<lparr>j_status := Stale\<rparr>)" by (simp add: keeps_key_def)
    show ?thesis unfolding Mark_stale carry_out_def verdict.case set_job_status_def
      by (subst status_update [OF k, where g = "\<lambda>_. Stale" and Q = "\<lambda>s. s = Running"], simp, simp)
        (rule exI, rule conjI [OF refl], auto simp: job_terminal_def)
  next
    case (End b s code msg)
    show ?thesis unfolding End carry_out_def verdict.case status_finish
      by (rule exI, rule conjI [OF refl]) auto
  qed (auto simp: carry_out_def intro: exI [of _ "\<lambda>s. s"] simp: option.map_ident)
next
  assume "v = End b s code msg" "job_terminal s"
  then show "\<exists>g. status_of (j_org j) (j_id j) (carry_out spent now j v db) = map_option g (status_of (j_org j) (j_id j) db) \<and>
      (\<forall>s. job_terminal (g s))"
    by (auto simp: carry_out_def status_finish intro!: exI [of _ "\<lambda>s0. if \<not> job_terminal s0 then s else s0"])
qed

definition ended :: "int \<Rightarrow> int \<Rightarrow> jobs_db \<Rightarrow> bool" where
  "ended org i db \<longleftrightarrow> (\<exists>s. status_of org i db = Some s \<and> job_terminal s)"

lemma ended_stays: "ended org i db \<Longrightarrow> ended org i (fold (\<lambda>j. carry_out spent now j (v j)) js db)"
proof (induction js arbitrary: db)
  case (Cons j js)
  from status_carry_out(1) [of org i spent now j "v j" db] Cons.prems have "ended org i (carry_out spent now j (v j) db)"
    by (auto simp: ended_def)
  with Cons.IH show ?case by simp
qed simp

lemma pass_ends:
  assumes "j \<in> set js" "v j = End b s code msg" "job_terminal s" "status_of (j_org j) (j_id j) db \<noteq> None"
  shows "ended (j_org j) (j_id j) (fold (\<lambda>j. carry_out spent now j (v j)) js db)"
  using assms
proof (induction js arbitrary: db)
  case (Cons x js)
  let ?db1 = "carry_out spent now x (v x) db"
  show ?case
  proof (cases "x = j")
    case True
    with status_carry_out(2) [OF Cons.prems(2,3), of j spent now db] Cons.prems(4) have "ended (j_org j) (j_id j) ?db1"
      by (auto simp: ended_def)
    then show ?thesis by (simp add: ended_stays)
  next
    case False
    have "status_of (j_org j) (j_id j) ?db1 \<noteq> None"
      using status_carry_out(1) [of "j_org j" "j_id j" spent now x "v x" db] Cons.prems(4) by auto
    with Cons False show ?thesis by simp
  qed
qed simp

lemma status_revoke: "status_of o' k (revoke_job_tokens c db) = status_of o' k db"
proof -
  have r: "j_status (revoked c j) = j_status j \<and> j_org (revoked c j) = j_org j \<and> j_id (revoked c j) = j_id j" for j
    by (simp add: revoked_def)
  have "map_option j_status (List.find (\<lambda>j. j_org j = o' \<and> j_id j = k) (map (revoked c) js)) =
      map_option j_status (List.find (\<lambda>j. j_org j = o' \<and> j_id j = k) js)" for js
    by (induction js) (simp_all add: r)
  then show ?thesis by (simp add: status_of_def find_job_def revoke_job_tokens_def)
qed

text \<open>C32. One pass of the reconciler ends every overdue job. Whatever the dispatchers and the key provider say, a job
  that is active past its deadline and its second claim window, with a cancel (if one was asked for) older than its
  grace, has a terminal status after the pass, as long as at most 500 jobs are active.\<close>

theorem overdue_jobs_end:
  assumes "length (filter is_active (db_jobs db)) \<le> 500" and "j \<in> set (db_jobs db)" and "overdue now j"
  shows "\<exists>j'. find_job (j_org j) (j_id j) (reconcile ask spent now db) = Some j' \<and> job_terminal (j_status j')"
proof -
  have "j \<in> set (active_jobs db)" using assms by (simp add: active_jobs_def query_jobs_def overdue_def)
  moreover obtain b s code msg where "reconcile_job now (exec_status ask j) j = End b s code msg" "job_terminal s"
    using overdue_verdict [OF assms(3)] by blast
  moreover have "status_of (j_org j) (j_id j) db \<noteq> None"
    using assms(2) by (auto simp: status_of_def find_job_def find_None_iff)
  ultimately have "ended (j_org j) (j_id j)
      (fold (\<lambda>j. carry_out spent now j (reconcile_job now (exec_status ask j) j)) (active_jobs db) db)"
    by (intro pass_ends [where v = "\<lambda>j. reconcile_job now (exec_status ask j) j"])
  then have "ended (j_org j) (j_id j) (reconcile ask spent now db)"
    by (simp add: reconcile_def ended_def status_revoke)
  then show ?thesis by (auto simp: ended_def status_of_def)
qed

theorem overdue_jobs_end_witness:
  "\<exists>j'. find_job 1 1 (reconcile (\<lambda>_. (Unknown, '''')) (\<lambda>_. Keys_off) 2000 sample_db) = Some j' \<and> job_terminal (j_status j')"
  using overdue_jobs_end [of sample_db sample_job 2000 "\<lambda>_. (Unknown, '''')" "\<lambda>_. Keys_off"]
  by (simp add: sample_db_def sample_job_def overdue_def is_active_def job_active_statuses_def deadline_def instant_def job_times)

end
