(* ===== verification/Guard.thy ===== *)
theory Guard
  imports GoStrings
begin

text \<open>
  The guard against a turn that repeats itself: \<^verbatim>\<open>internal/app/repeat_guard.go\<close>, the round of tool calls that
  \<^verbatim>\<open>review_engine.go\<close> (\<open>toolResults\<close>) and \<^verbatim>\<open>agent.go\<close> run under it, and the choice at the start of
  a round whether to go on, skip or land. \<open>canon\<close> is JSON's: the canonical form of arguments that are
  JSON. \<open>digest\<close> is the hexadecimal SHA-256. What a tool would return is part of the call.
\<close>

section \<open>The guard\<close>

definition repeat_runs_allowed :: nat where "repeat_runs_allowed = 3"
definition stuck_after_rounds :: nat where "stuck_after_rounds = 4"
definition routine_skips_allowed :: nat where "routine_skips_allowed = 5"

record repeat_guard =
  rg_seen :: "string \<Rightarrow> nat"
  rg_answers :: "string \<Rightarrow> nat"
  rg_quiet :: nat
  rg_total :: nat
  rg_skips :: nat

definition new_repeat_guard :: repeat_guard where
  "new_repeat_guard = \<lparr>rg_seen = (\<lambda>_. 0), rg_answers = (\<lambda>_. 0), rg_quiet = 0, rg_total = 0, rg_skips = 0\<rparr>"

definition call_fingerprint :: "(string \<Rightarrow> string option) \<Rightarrow> string \<Rightarrow> string \<Rightarrow> string" where
  "call_fingerprint canon name raw = (case canon raw of Some b \<Rightarrow> name @ '' '' @ b | None \<Rightarrow> name @ '' '' @ trim_space raw)"

text \<open>Every run of digits becomes one sign.\<close>

fun mask_digits :: "bool \<Rightarrow> string \<Rightarrow> string" where
  "mask_digits inside [] = []"
| "mask_digits inside (c # s) = (if is_ascii_digit c then (if inside then mask_digits True s else CHR ''#'' # mask_digits True s)
     else c # mask_digits False s)"

definition shape_fingerprint :: "(string \<Rightarrow> string option) \<Rightarrow> string \<Rightarrow> string \<Rightarrow> string" where
  "shape_fingerprint canon name raw = mask_digits False (call_fingerprint canon name raw)"

definition count_call :: "(string \<Rightarrow> string option) \<Rightarrow> string \<Rightarrow> string \<Rightarrow> repeat_guard \<Rightarrow> repeat_guard \<times> nat" where
  "count_call canon name raw g =
     (let fp = call_fingerprint canon name raw; n = rg_seen g fp + 1
      in (g\<lparr>rg_seen := (rg_seen g)(fp := n), rg_total := (if n > 1 then rg_total g + 1 else rg_total g)\<rparr>, n))"

definition answer_key :: "(string \<Rightarrow> string option) \<Rightarrow> (string \<Rightarrow> string) \<Rightarrow> string \<Rightarrow> string \<Rightarrow> string \<Rightarrow> string" where
  "answer_key canon digest name raw answer = shape_fingerprint canon name raw @ CHR 0x00 # digest answer"

definition progressed ::
  "(string \<Rightarrow> string option) \<Rightarrow> (string \<Rightarrow> string) \<Rightarrow> string \<Rightarrow> string \<Rightarrow> string \<Rightarrow> repeat_guard \<Rightarrow> repeat_guard \<times> bool" where
  "progressed canon digest name raw answer g =
     (let fp = answer_key canon digest name raw answer; n = rg_answers g fp + 1
      in (g\<lparr>rg_answers := (rg_answers g)(fp := n), rg_total := (if n > 1 then rg_total g + 1 else rg_total g)\<rparr>, \<not> n > 1))"

definition end_round :: "bool \<Rightarrow> repeat_guard \<Rightarrow> repeat_guard" where
  "end_round fresh g = (if fresh then g\<lparr>rg_quiet := 0\<rparr> else g\<lparr>rg_quiet := rg_quiet g + 1\<rparr>)"

definition stuck :: "repeat_guard \<Rightarrow> bool" where
  "stuck g \<longleftrightarrow> rg_quiet g \<ge> stuck_after_rounds"

definition skip_item :: "repeat_guard \<Rightarrow> repeat_guard" where
  "skip_item g = g\<lparr>rg_quiet := 0, rg_skips := rg_skips g + 1\<rparr>"

definition can_skip :: "string \<Rightarrow> repeat_guard \<Rightarrow> bool" where
  "can_skip kind g \<longleftrightarrow> kind = ''routine'' \<and> rg_skips g < routine_skips_allowed"

section \<open>The notes\<close>

definition ordinal :: "nat \<Rightarrow> string" where
  "ordinal n = show_nat n @ (if 11 \<le> n mod 100 \<and> n mod 100 \<le> 13 then ''th''
     else if n mod 10 = 1 then ''st'' else if n mod 10 = 2 then ''nd'' else if n mod 10 = 3 then ''rd'' else ''th'')"

definition repeat_note :: "string \<Rightarrow> nat \<Rightarrow> string" where
  "repeat_note name n = ''Note: this is the '' @ ordinal n @ '' time this turn you have run '' @ name @
     '' with exactly these arguments, and it returns what it already returned. Use that, change the arguments, or move on to the next step; after '' @
     show_nat repeat_runs_allowed @ '' identical calls it will not run again.'' @ [CHR 0x0A]"

definition same_result_note :: "string \<Rightarrow> string" where
  "same_result_note name = ''Note: this '' @ name @
     '' call differs from an earlier one this turn only in its numbers, and it returned exactly what that one returned. '' @
     ''Nothing carries between calls, so stepping through something a batch at a time collects nothing '' @
     map char_of [0xE2, 0x80, 0x94 :: nat] @ '' each call discards what it read. '' @
     ''Do the whole job in one call and return the answer from inside it, or use what you already have and move on.'' @ [CHR 0x0A]"

section \<open>A round of tool calls\<close>

text \<open>A call: the tool, its arguments, and what the tool returns if it is run.\<close>

record tool_call =
  tc_name :: string
  tc_args :: string
  tc_returns :: string

text \<open>What became of a call: it ran and this is shown, it was refused, or the round was for landing.\<close>

datatype handled = Ran string | Refused string | No_more_reads string

definition refusal_text :: "string \<Rightarrow> string" where
  "refusal_text name = ''error: refused '' @ map char_of [0xE2, 0x80, 0x94 :: nat] @ '' you have already run '' @ name @
     '' with exactly these arguments '' @ show_nat repeat_runs_allowed @ '' times, and its result is above.''"

definition tool_step ::
  "(string \<Rightarrow> string option) \<Rightarrow> (string \<Rightarrow> string) \<Rightarrow> string \<Rightarrow> tool_call \<Rightarrow> repeat_guard \<times> bool \<Rightarrow> (repeat_guard \<times> bool) \<times> handled" where
  "tool_step canon digest land_tool tc st =
     (let (g, fresh) = st; (g1, n) = count_call canon (tc_name tc) (tc_args tc) g
      in if land_tool \<noteq> '''' then ((g1, fresh), No_more_reads (''error: there are no more reads; call '' @ land_tool))
         else if n = 1 then
           (let (g2, new) = progressed canon digest (tc_name tc) (tc_args tc) (tc_returns tc) g1
            in if new then ((g2, True), Ran (tc_returns tc))
               else ((g2, fresh), Ran (same_result_note (tc_name tc) @ tc_returns tc)))
         else if n \<le> repeat_runs_allowed then ((g1, fresh), Ran (repeat_note (tc_name tc) n @ tc_returns tc))
         else ((g1, fresh), Refused (refusal_text (tc_name tc))))"

fun tool_steps ::
  "(string \<Rightarrow> string option) \<Rightarrow> (string \<Rightarrow> string) \<Rightarrow> string \<Rightarrow> tool_call list \<Rightarrow> repeat_guard \<times> bool \<Rightarrow> (repeat_guard \<times> bool) \<times> handled list" where
  "tool_steps canon digest land_tool [] st = (st, [])"
| "tool_steps canon digest land_tool (tc # tcs) st =
     (let (st1, h) = tool_step canon digest land_tool tc st; (st2, hs) = tool_steps canon digest land_tool tcs st1 in (st2, h # hs))"

definition tool_results ::
  "(string \<Rightarrow> string option) \<Rightarrow> (string \<Rightarrow> string) \<Rightarrow> string \<Rightarrow> tool_call list \<Rightarrow> repeat_guard \<Rightarrow> repeat_guard \<times> handled list" where
  "tool_results canon digest land_tool tcs g =
     (let ((g1, fresh), hs) = tool_steps canon digest land_tool tcs (g, False) in (end_round fresh g1, hs))"

section \<open>The start of a round\<close>

text \<open>What the guard has a turn do before its next round: skip the item, land, or go on.\<close>

datatype course = Go_on | Skip_item | Land

definition guard_course :: "string \<Rightarrow> repeat_guard \<Rightarrow> repeat_guard \<times> course" where
  "guard_course kind g = (if stuck g \<and> can_skip kind g then (skip_item g, Skip_item)
     else if stuck g then (g, Land) else (g, Go_on))"

text \<open>Rounds under the guard, until it lands the turn; the rounds given and how many of them ran.\<close>

fun guarded :: "(string \<Rightarrow> string option) \<Rightarrow> (string \<Rightarrow> string) \<Rightarrow> string \<Rightarrow> tool_call list list \<Rightarrow> repeat_guard \<Rightarrow> repeat_guard \<times> handled list list" where
  "guarded canon digest kind [] g = (g, [])"
| "guarded canon digest kind (tcs # rounds) g =
     (let (g1, c) = guard_course kind g
      in if c = Land then (g1, [])
         else (let (g2, hs) = tool_results canon digest '''' tcs g1; (g3, hss) = guarded canon digest kind rounds g2
               in (g3, hs # hss)))"

section \<open>How often a call runs\<close>

definition is_ran :: "handled \<Rightarrow> bool" where
  "is_ran h \<longleftrightarrow> (case h of Ran _ \<Rightarrow> True | _ \<Rightarrow> False)"

text \<open>The runs of one call among calls and what became of them.\<close>

definition runs_of :: "(string \<Rightarrow> string option) \<Rightarrow> string \<Rightarrow> tool_call list \<Rightarrow> handled list \<Rightarrow> nat" where
  "runs_of canon fp tcs hs = length (filter (\<lambda>(tc, h). call_fingerprint canon (tc_name tc) (tc_args tc) = fp \<and> is_ran h) (zip tcs hs))"

lemma runs_of_simps [simp]: "runs_of canon fp [] [] = 0"
  "runs_of canon fp (tc # tcs) (h # hs) =
     (if call_fingerprint canon (tc_name tc) (tc_args tc) = fp \<and> is_ran h then 1 else 0) + runs_of canon fp tcs hs"
  by (simp_all add: runs_of_def)

lemma tool_step_seen:
  assumes "tool_step canon digest lt tc (g, fresh) = ((g1, fresh1), h)"
  defines "fp \<equiv> call_fingerprint canon (tc_name tc) (tc_args tc)"
  shows "rg_seen g1 = (rg_seen g)(fp := rg_seen g fp + 1)" and "is_ran h \<Longrightarrow> rg_seen g fp < repeat_runs_allowed"
    and "rg_skips g1 = rg_skips g" and "rg_quiet g1 = rg_quiet g"
  using assms by (auto simp: tool_step_def count_call_def progressed_def Let_def is_ran_def repeat_runs_allowed_def split: if_splits)

text \<open>The runs so far are bounded by what the guard has seen, and by the allowance.\<close>

lemma tool_steps_runs:
  assumes "tool_steps canon digest lt tcs (g, fresh) = ((g1, fresh1), hs)"
  shows "rg_seen g fp \<le> rg_seen g1 fp \<and> length hs = length tcs \<and> rg_skips g1 = rg_skips g \<and> rg_quiet g1 = rg_quiet g \<and>
    min (rg_seen g fp) 3 + runs_of canon fp tcs hs \<le> min (rg_seen g1 fp) 3"
  using assms
proof (induction tcs arbitrary: g fresh hs)
  case Nil
  then show ?case by simp
next
  case (Cons tc tcs)
  obtain g0 fresh0 h where 1: "tool_step canon digest lt tc (g, fresh) = ((g0, fresh0), h)" by (metis surj_pair)
  obtain hs' where 2: "tool_steps canon digest lt tcs (g0, fresh0) = ((g1, fresh1), hs')" and hs: "hs = h # hs'"
    using Cons.prems 1 by (auto simp: Let_def split: prod.splits)
  note IH = Cons.IH [OF 2]
  note s = tool_step_seen [OF 1]
  show ?case
    using IH s hs by (auto simp: repeat_runs_allowed_def split: if_splits)
qed

lemma tool_results_runs:
  assumes "tool_results canon digest lt tcs g = (g1, hs)"
  shows "length hs = length tcs \<and> rg_skips g1 = rg_skips g \<and>
    min (rg_seen g fp) 3 + runs_of canon fp tcs hs \<le> min (rg_seen g1 fp) 3"
proof -
  obtain g0 fresh where s: "tool_steps canon digest lt tcs (g, False) = ((g0, fresh), hs)" and g1: "g1 = end_round fresh g0"
    using assms by (auto simp: tool_results_def Let_def split: prod.splits)
  have "rg_seen g1 = rg_seen g0" "rg_skips g1 = rg_skips g0" by (simp_all add: g1 end_round_def)
  with tool_steps_runs [OF s, of fp] show ?thesis by simp
qed

definition total_runs :: "(string \<Rightarrow> string option) \<Rightarrow> string \<Rightarrow> tool_call list list \<Rightarrow> handled list list \<Rightarrow> nat" where
  "total_runs canon fp rounds hss = sum_list (map (\<lambda>(tcs, hs). runs_of canon fp tcs hs) (zip rounds hss))"

lemma guard_course_seen: "guard_course kind g = (g1, c) \<Longrightarrow> rg_seen g1 = rg_seen g"
  by (auto simp: guard_course_def skip_item_def split: if_splits)

lemma guarded_runs: "min (rg_seen g fp) 3 + total_runs canon fp rounds (snd (guarded canon digest kind rounds g)) \<le> 3"
proof (induction rounds arbitrary: g)
  case Nil
  then show ?case by (simp add: total_runs_def)
next
  case (Cons tcs rounds)
  obtain g1 c where 1: "guard_course kind g = (g1, c)" by fastforce
  obtain g2 hs where 2: "tool_results canon digest '''' tcs g1 = (g2, hs)" by fastforce
  show ?case
  proof (cases "c = Land")
    case True
    with 1 show ?thesis by (simp add: total_runs_def)
  next
    case False
    obtain g3 hss where 3: "guarded canon digest kind rounds g2 = (g3, hss)" by fastforce
    have hss: "snd (guarded canon digest kind (tcs # rounds) g) = hs # hss" using 1 2 3 False by simp
    have "min (rg_seen g fp) 3 + runs_of canon fp tcs hs \<le> min (rg_seen g2 fp) 3"
      using tool_results_runs [OF 2, of fp] guard_course_seen [OF 1] by simp
    moreover have "min (rg_seen g2 fp) 3 + total_runs canon fp rounds hss \<le> 3" using Cons.IH [of g2] by (simp add: 3)
    moreover have "total_runs canon fp (tcs # rounds) (hs # hss) = runs_of canon fp tcs hs + total_runs canon fp rounds hss"
      by (simp add: total_runs_def)
    ultimately show ?thesis unfolding hss by linarith
  qed
qed


section \<open>How long a turn can go on\<close>

definition fingerprints :: "(string \<Rightarrow> string option) \<Rightarrow> tool_call list \<Rightarrow> string set" where
  "fingerprints canon tcs = (\<lambda>tc. call_fingerprint canon (tc_name tc) (tc_args tc)) ` set tcs"

definition unseen :: "string set \<Rightarrow> repeat_guard \<Rightarrow> nat" where
  "unseen A g = card {fp \<in> A. rg_seen g fp = 0}"

lemma tool_step_fresh:
  assumes "tool_step canon digest lt tc (g, fresh) = ((g1, fresh1), h)" "fresh1"
  shows "fresh \<or> rg_seen g (call_fingerprint canon (tc_name tc) (tc_args tc)) = 0"
  using assms by (auto simp: tool_step_def count_call_def Let_def split: if_splits prod.splits)

lemma tool_steps_fresh:
  assumes "tool_steps canon digest lt tcs (g, fresh) = ((g1, fresh1), hs)" "fresh1" "\<not> fresh"
  shows "\<exists>fp \<in> fingerprints canon tcs. rg_seen g fp = 0 \<and> rg_seen g1 fp > 0"
  using assms
proof (induction tcs arbitrary: g fresh hs)
  case Nil
  then show ?case by simp
next
  case (Cons tc tcs)
  let ?fp = "call_fingerprint canon (tc_name tc) (tc_args tc)"
  obtain g0 fresh0 h where 1: "tool_step canon digest lt tc (g, fresh) = ((g0, fresh0), h)" by (metis surj_pair)
  obtain hs' where 2: "tool_steps canon digest lt tcs (g0, fresh0) = ((g1, fresh1), hs')"
    using Cons.prems 1 by (auto simp: Let_def split: prod.splits)
  show ?case
  proof (cases fresh0)
    case True
    with tool_step_fresh [OF 1] Cons.prems have "rg_seen g ?fp = 0" by simp
    moreover have "rg_seen g1 ?fp > 0"
      using tool_steps_runs [OF 2, of ?fp] tool_step_seen(1) [OF 1] by simp
    ultimately show ?thesis by (auto simp: fingerprints_def)
  next
    case False
    from Cons.IH [OF 2 Cons.prems(2) False] obtain fp
      where "fp \<in> fingerprints canon tcs" "rg_seen g0 fp = 0" "rg_seen g1 fp > 0" by blast
    moreover from this have "rg_seen g fp = 0" using tool_step_seen(1) [OF 1] by (auto split: if_splits)
    ultimately show ?thesis by (auto simp: fingerprints_def)
  qed
qed

lemma tool_results_unseen:
  assumes res: "tool_results canon digest lt tcs g = (g1, hs)" and A: "fingerprints canon tcs \<subseteq> A" "finite A"
  shows "unseen A g1 < unseen A g \<and> rg_quiet g1 = 0 \<or> unseen A g1 \<le> unseen A g \<and> rg_quiet g1 = rg_quiet g + 1"
proof -
  obtain g0 fresh where s: "tool_steps canon digest lt tcs (g, False) = ((g0, fresh), hs)" and g1: "g1 = end_round fresh g0"
    using res by (auto simp: tool_results_def Let_def split: prod.splits)
  have le: "{fp \<in> A. rg_seen g1 fp = 0} \<subseteq> {fp \<in> A. rg_seen g fp = 0}"
  proof -
    have "rg_seen g fp \<le> rg_seen g0 fp" for fp using tool_steps_runs [OF s, of fp] by blast
    then have "rg_seen g fp = 0" if "rg_seen g0 fp = 0" for fp using that by (metis le_zero_eq)
    then show ?thesis by (auto simp: g1 end_round_def)
  qed
  show ?thesis
  proof (cases fresh)
    case True
    obtain fp where "fp \<in> fingerprints canon tcs" "rg_seen g fp = 0" "rg_seen g0 fp > 0"
      using tool_steps_fresh [OF s True] by blast
    moreover have "rg_seen g1 = rg_seen g0" by (simp add: g1 end_round_def)
    ultimately have "fp \<in> A" "rg_seen g fp = 0" "rg_seen g1 fp \<noteq> 0" using A(1) by auto
    then have "fp \<in> {fp \<in> A. rg_seen g fp = 0}" "fp \<notin> {fp \<in> A. rg_seen g1 fp = 0}" by simp_all
    then have "{fp \<in> A. rg_seen g1 fp = 0} \<noteq> {fp \<in> A. rg_seen g fp = 0}" by metis
    then have "{fp \<in> A. rg_seen g1 fp = 0} \<subset> {fp \<in> A. rg_seen g fp = 0}" by (rule psubsetI [OF le])
    with A(2) have "unseen A g1 < unseen A g" by (simp add: unseen_def psubset_card_mono)
    with True show ?thesis by (simp add: g1 end_round_def)
  next
    case False
    have "unseen A g1 \<le> unseen A g" unfolding unseen_def using le A(2) by (simp add: card_mono)
    moreover have "rg_quiet g0 = rg_quiet g" using tool_steps_runs [OF s, of "''''"] by blast
    ultimately show ?thesis using False by (simp add: g1 end_round_def)
  qed
qed

definition skip_budget :: "string \<Rightarrow> nat" where
  "skip_budget kind = (if kind = ''routine'' then routine_skips_allowed else 0)"

lemma guarded_length:
  assumes "finite A" "\<Union> (fingerprints canon ` set rounds) \<subseteq> A" "rg_quiet g \<le> 4" "rg_skips g \<le> skip_budget kind"
  shows "length (snd (guarded canon digest kind rounds g)) \<le>
    5 * unseen A g + 4 * (skip_budget kind - rg_skips g) + (4 - rg_quiet g)"
  using assms
proof (induction rounds arbitrary: g)
  case Nil
  then show ?case by simp
next
  case (Cons tcs rounds)
  obtain g1 c where 1: "guard_course kind g = (g1, c)" by fastforce
  obtain g2 hs where 2: "tool_results canon digest '''' tcs g1 = (g2, hs)" by fastforce
  show ?case
  proof (cases "c = Land")
    case True
    with 1 show ?thesis by simp
  next
    case False
    with 1 Cons.prems(3,4) have g1: "rg_quiet g1 \<le> 3" "rg_skips g1 \<le> skip_budget kind" "unseen A g1 = unseen A g"
        "4 * (skip_budget kind - rg_skips g1) + (4 - rg_quiet g1) \<le> 4 * (skip_budget kind - rg_skips g) + (4 - rg_quiet g)"
      by (auto simp: guard_course_def stuck_def can_skip_def skip_item_def unseen_def skip_budget_def
          stuck_after_rounds_def routine_skips_allowed_def split: if_splits)
    have sub: "fingerprints canon tcs \<subseteq> A" "\<Union> (fingerprints canon ` set rounds) \<subseteq> A" using Cons.prems(2) by auto
    have skips: "rg_skips g2 = rg_skips g1" using tool_results_runs [OF 2] by simp
    note step = tool_results_unseen [OF 2 sub(1) Cons.prems(1)]
    have "length (snd (guarded canon digest kind rounds g2)) \<le>
        5 * unseen A g2 + 4 * (skip_budget kind - rg_skips g2) + (4 - rg_quiet g2)"
      using Cons.prems(1) sub(2) step g1 skips by (intro Cons.IH) auto
    then have le: "1 + length (snd (guarded canon digest kind rounds g2)) \<le>
        5 * unseen A g1 + 4 * (skip_budget kind - rg_skips g1) + (4 - rg_quiet g1)"
      using step g1(1) skips by auto
    obtain g3 hss where 3: "guarded canon digest kind rounds g2 = (g3, hss)" by fastforce
    have hss: "snd (guarded canon digest kind (tcs # rounds) g) = hs # hss" using 1 2 3 False by simp
    show ?thesis unfolding hss using le 3 g1(3,4) by simp
  qed
qed

text \<open>A turn that keeps asking the same things is landed. If all the calls a model ever asks for have no more than
  \<open>k\<close> fingerprints, the guard lets at most \<open>5 * k + 4\<close> rounds run, and twenty more for a routine, however many
  are asked for and whatever the tools return.\<close>

theorem stuck_turns_land:
  assumes "card (\<Union> (fingerprints canon ` set rounds)) \<le> k"
  shows "length (snd (guarded canon digest kind rounds new_repeat_guard)) \<le> 5 * k + 4 + (if kind = ''routine'' then 20 else 0)"
proof -
  let ?A = "\<Union> (fingerprints canon ` set rounds)"
  have fin: "finite ?A" by (simp add: fingerprints_def)
  have "{fp \<in> ?A. rg_seen new_repeat_guard fp = 0} = ?A" by (auto simp: new_repeat_guard_def)
  then have "unseen ?A new_repeat_guard = card ?A" unfolding unseen_def by (rule arg_cong)
  with guarded_length [OF fin subset_refl, of new_repeat_guard kind digest] assms show ?thesis
    by (simp add: new_repeat_guard_def skip_budget_def routine_skips_allowed_def split: if_splits)
qed

definition same_search :: tool_call where
  "same_search = \<lparr>tc_name = ''search'', tc_args = ''leads'', tc_returns = ''none''\<rparr>"

theorem stuck_turns_land_witness:
  "length (snd (guarded (\<lambda>_. None) (\<lambda>s. s) ''chat'' (replicate 200 [same_search]) new_repeat_guard)) \<le> 9"
proof -
  have "card (\<Union> (fingerprints (\<lambda>_. None) ` set (replicate 200 [same_search]))) \<le> 1"
    by (simp add: fingerprints_def)
  from stuck_turns_land [OF this, of "\<lambda>s. s" "''chat''"] show ?thesis by simp
qed

end
