(* ===== verification/Shellwords.thy ===== *)
theory Shellwords
  imports TextFacts
begin

text \<open>
  A test command as a program and its arguments, without a shell: \<^verbatim>\<open>internal/app/shellwords.go\<close>. The
  loop over the runes of the line is a fold of \<open>split_step\<close>.
\<close>

datatype split_error = Not_plain | Unclosed_quote

definition shell_chars :: string where
  "shell_chars = ''|&;<>`$(){}'' @ [CHR 0x0A, CHR 0x0D, CHR 0x5C]"

record splitting =
  sp_argv :: "string list"
  sp_cur :: string
  sp_quote :: nat
  sp_in :: bool

definition split_step :: "nat \<Rightarrow> splitting \<Rightarrow> splitting" where
  "split_step r s =
     (if sp_quote s \<noteq> 0 then
        (if r = sp_quote s then s\<lparr>sp_quote := 0\<rparr> else s\<lparr>sp_cur := sp_cur s @ encode_rune r\<rparr>)
      else if r = 39 \<or> r = 34 then s\<lparr>sp_quote := r, sp_in := True\<rparr>
      else if r = 32 \<or> r = 9 then
        (if sp_in s then s\<lparr>sp_argv := sp_argv s @ [sp_cur s], sp_cur := [], sp_in := False\<rparr> else s)
      else s\<lparr>sp_cur := sp_cur s @ encode_rune r, sp_in := True\<rparr>)"

definition split_end :: "splitting \<Rightarrow> split_error + string list" where
  "split_end s = (if sp_quote s \<noteq> 0 then Inl Unclosed_quote
     else Inr (if sp_in s then sp_argv s @ [sp_cur s] else sp_argv s))"

definition split_command :: "string \<Rightarrow> split_error + string list" where
  "split_command raw = (let line = trim_space raw in
     if line = [] then Inr []
     else if contains_any shell_chars line then Inl Not_plain
     else split_end (fold split_step (runes line) \<lparr>sp_argv = [], sp_cur = [], sp_quote = 0, sp_in = False\<rparr>))"

section \<open>Quoting and splitting\<close>

text \<open>An argument that can be written: well-formed UTF-8, no character of a shell, and not both kinds of quotes.\<close>

definition writable :: "string \<Rightarrow> bool" where
  "writable w \<longleftrightarrow> concat (map encode_rune (runes w)) = w \<and> \<not> contains_any shell_chars w \<and>
     (CHR 0x27 \<notin> set w \<or> CHR 0x22 \<notin> set w)"

definition quote_of :: "string \<Rightarrow> char" where
  "quote_of w = (if CHR 0x27 \<in> set w then CHR 0x22 else CHR 0x27)"

definition quoted :: "string \<Rightarrow> string" where
  "quoted w = quote_of w # w @ [quote_of w]"

lemma quote_of: "quote_of w = CHR 0x27 \<or> quote_of w = CHR 0x22"
  by (simp add: quote_of_def)

lemma quote_of_ascii: "ascii (quote_of w)"
  using quote_of [of w] by auto

lemma runes_Cons_ascii: "ascii c \<Longrightarrow> runes (c # s) = of_char c # runes s"
  using runes_before_ascii [of c "[]" s] by simp

lemma quote_not_inside:
  assumes "writable w"
  shows "of_char (quote_of w) \<notin> set (runes w)"
proof
  assume r: "of_char (quote_of w) \<in> set (runes w)"
  have "encode_rune (of_char (quote_of w)) = [quote_of w]" using quote_of_ascii [of w] by (simp add: encode_rune_def)
  with r have "quote_of w \<in> set (concat (map encode_rune (runes w)))" by force
  with assms show False by (auto simp: writable_def quote_of_def split: if_splits)
qed

lemma fold_inside:
  assumes "q \<noteq> 0" "q \<notin> set rs" "sp_quote s = q"
  shows "fold split_step rs s = s\<lparr>sp_cur := sp_cur s @ concat (map encode_rune rs)\<rparr>"
  using assms by (induction rs arbitrary: s) (auto simp: split_step_def)

lemma fold_quoted:
  assumes "writable w" "sp_cur s = []" "sp_quote s = 0"
  shows "fold split_step (runes (quoted w @ rest)) s = fold split_step (runes rest) (s\<lparr>sp_cur := w, sp_in := True\<rparr>)"
proof -
  let ?q = "of_char (quote_of w) :: nat"
  have q: "?q = 39 \<or> ?q = 34" using quote_of [of w] by auto
  have "runes (quoted w @ rest) = ?q # runes w @ ?q # runes rest"
    using runes_Cons_ascii [OF quote_of_ascii] runes_before_ascii [OF quote_of_ascii] by (simp add: quoted_def)
  moreover have "split_step ?q s = s\<lparr>sp_quote := ?q, sp_in := True\<rparr>" using q assms(3) by (auto simp: split_step_def)
  moreover have "fold split_step (runes w) (s\<lparr>sp_quote := ?q, sp_in := True\<rparr>) = s\<lparr>sp_quote := ?q, sp_in := True, sp_cur := w\<rparr>"
    using fold_inside [of ?q "runes w" "s\<lparr>sp_quote := ?q, sp_in := True\<rparr>"] quote_not_inside [OF assms(1)] q assms(1,2)
    by (auto simp: writable_def)
  moreover have "split_step ?q (s\<lparr>sp_quote := ?q, sp_in := True, sp_cur := w\<rparr>) = s\<lparr>sp_cur := w, sp_in := True\<rparr>"
    using q assms(3) by (auto simp: split_step_def)
  ultimately show ?thesis by simp
qed

lemma fold_line:
  assumes "list_all writable ws" "ws \<noteq> []" "sp_cur s = []" "sp_quote s = 0"
  shows "split_end (fold split_step (runes (join '' '' (map quoted ws))) s) = Inr (sp_argv s @ ws)"
  using assms
proof (induction ws arbitrary: s)
  case Nil
  then show ?case by simp
next
  case (Cons w ws)
  show ?case
  proof (cases "ws = []")
    case True
    with fold_quoted [of w s "[]"] Cons.prems show ?thesis by (simp add: split_end_def)
  next
    case False
    let ?rest = "join '' '' (map quoted ws)"
    let ?s = "s\<lparr>sp_cur := w, sp_in := True\<rparr>"
    have "join '' '' (map quoted (w # ws)) = quoted w @ CHR '' '' # ?rest" using False by (cases ws) simp_all
    moreover have "runes (CHR '' '' # ?rest) = 32 # runes ?rest" by (subst runes_Cons_ascii) simp_all
    moreover have "split_step 32 ?s = s\<lparr>sp_cur := [], sp_in := False, sp_argv := sp_argv s @ [w]\<rparr>"
      using Cons.prems(4) by (simp add: split_step_def)
    ultimately have "split_end (fold split_step (runes (join '' '' (map quoted (w # ws)))) s) =
        split_end (fold split_step (runes ?rest) (s\<lparr>sp_cur := [], sp_in := False, sp_argv := sp_argv s @ [w]\<rparr>))"
      using fold_quoted [of w s "CHR '' '' # ?rest"] Cons.prems by simp
    also have "\<dots> = Inr (sp_argv s @ w # ws)"
      using Cons.IH [of "s\<lparr>sp_cur := [], sp_in := False, sp_argv := sp_argv s @ [w]\<rparr>"] Cons.prems False by simp
    finally show ?thesis .
  qed
qed

lemma line_set: "set (join '' '' ws) \<subseteq> \<Union> (set ` set ws) \<union> {CHR '' ''}"
  by (induction "'' ''" ws rule: join.induct) auto

lemma line_ends: "ws \<noteq> [] \<Longrightarrow> \<exists>a m b. join '' '' (map quoted ws) = m @ [b] \<and> hd (m @ [b]) = a \<and> m \<noteq> [] \<and>
    a \<in> {CHR 0x27, CHR 0x22} \<and> b \<in> {CHR 0x27, CHR 0x22}"
proof (induction ws)
  case (Cons w ws)
  show ?case
  proof (cases "ws = []")
    case True
    with quote_of [of w] show ?thesis by (auto simp: quoted_def)
  next
    case False
    then have j: "join '' '' (map quoted (w # ws)) = quoted w @ CHR '' '' # join '' '' (map quoted ws)" by (cases ws) simp_all
    from Cons.IH [OF False] obtain m b where m: "join '' '' (map quoted ws) = m @ [b]" "b \<in> {CHR 0x27, CHR 0x22}" by blast
    have "hd ((quoted w @ CHR '' '' # m) @ [b]) = quote_of w" by (simp add: quoted_def)
    moreover have "quote_of w \<in> {CHR 0x27, CHR 0x22}" using quote_of [of w] by simp
    moreover have "join '' '' (map quoted (w # ws)) = (quoted w @ CHR '' '' # m) @ [b]" unfolding j m(1) by simp
    ultimately show ?thesis using m(2) by blast
  qed
qed simp

lemma trim_line: "ws \<noteq> [] \<Longrightarrow> trim_space (join '' '' (map quoted ws)) = join '' '' (map quoted ws)"
proof -
  assume "ws \<noteq> []"
  then obtain a m b where m: "join '' '' (map quoted ws) = m @ [b]" "hd (m @ [b]) = a" "m \<noteq> []"
    "a \<in> {CHR 0x27, CHR 0x22}" "b \<in> {CHR 0x27, CHR 0x22}" using line_ends by blast
  then obtain m' where m': "m = a # m'" by (cases m) auto
  have ab: "ascii a" "ascii b" "\<not> is_space (of_char a)" "\<not> is_space (of_char b)" using m(4,5) by (auto simp: is_space_def)
  have "chunks (a # m' @ [b]) = (of_char a, [a]) # chunks m' @ [(of_char b, [b])]"
    using chunks_before_ascii [OF ab(1), of "[]"] chunks_before_ascii [OF ab(2), of m' "[]"] ab
      chunks_ascii_string [of "[a]" "m' @ [b]"] chunks_ascii_string [of "[b]" "[]"] by simp
  then have "trim_list (\<lambda>c. is_space (fst c)) (chunks (a # m' @ [b])) = chunks (a # m' @ [b])"
    using ab by (intro trim_list_id) auto
  then show ?thesis by (simp add: trim_space_def trim_func_def m(1) m')
qed

lemma plain_signs: "CHR '' '' \<notin> set shell_chars" "quote_of w \<notin> set shell_chars"
  by (simp_all add: shell_chars_def quote_of_def)

text \<open>What is quoted is split back. Any list of arguments, well-formed, without characters of a shell and not
  mixing both quotes, is got back exactly from the line that quotes each and separates them with spaces, the empty
  argument and blanks inside one included.\<close>

theorem split_quoted:
  assumes "list_all writable ws"
  shows "split_command (join '' '' (map quoted ws)) = Inr ws"
proof (cases "ws = []")
  case True
  then show ?thesis by (simp add: split_command_def trim_space_def trim_func_def trim_list_def unchunk_def)
next
  case False
  let ?line = "join '' '' (map quoted ws)"
  have "?line \<noteq> []" using line_ends [OF False] by auto
  moreover have "\<not> contains_any shell_chars ?line"
  proof -
    have "c \<notin> set shell_chars" if "c \<in> set (quoted w)" "w \<in> set ws" for c w
    proof -
      have "writable w" using assms that(2) by (simp add: list_all_iff)
      then have "d \<notin> set shell_chars" if "d \<in> set w" for d
        using that by (auto simp: writable_def contains_any_def list_ex_iff)
      with that(1) plain_signs(2) [of w] show ?thesis by (auto simp: quoted_def)
    qed
    moreover have "c \<in> \<Union> (set ` set (map quoted ws)) \<union> {CHR '' ''}" if "c \<in> set ?line" for c
      using that line_set [of "map quoted ws"] by blast
    ultimately have "c \<notin> set shell_chars" if "c \<in> set ?line" for c
      using that plain_signs(1) by fastforce
    then show ?thesis by (simp add: contains_any_def list_ex_iff)
  qed
  ultimately show ?thesis
    using fold_line [OF assms False] trim_line [OF False] by (simp add: split_command_def Let_def)
qed

theorem split_quoted_witness:
  "split_command (join '' '' (map quoted [''go'', ''test'', ''-run'', ''A b'', ''''])) = Inr [''go'', ''test'', ''-run'', ''A b'', '''']"
  by (rule split_quoted) code_simp

end
