(* ===== verification/Rate_Limits.thy ===== *)
theory Rate_Limits
  imports GoStrings
begin

text \<open>
  The rate limits of \<^verbatim>\<open>internal/app/limits.go\<close>: the count in this process (\<open>allow_local\<close>, a fixed window per
  key), the count all instances share (\<open>count_throttle\<close>, a sliding window over the table of events), the choice
  between them, the overrides from the environment and the rule for names. Times are nanoseconds; each call reads
  the clock as one instant. The table is a list of rows.
\<close>

section \<open>The count in this process\<close>

record rate_window =
  rw_start :: int
  rw_n :: int

type_synonym windows = "(string \<times> rate_window) list"

definition swept :: "int \<Rightarrow> int \<Rightarrow> windows \<Rightarrow> windows" where
  "swept now window m = (if length m > 10000 then filter (\<lambda>(k, w). \<not> now - rw_start w \<ge> window) m else m)"

definition allow_local :: "int \<Rightarrow> string \<Rightarrow> int \<Rightarrow> int \<Rightarrow> windows \<Rightarrow> windows \<times> bool \<times> int" where
  "allow_local now key limit window m0 =
     (let m = swept now window m0;
          w = (case map_of m key of None \<Rightarrow> \<lparr>rw_start = now, rw_n = 0\<rparr>
               | Some w \<Rightarrow> if now - rw_start w \<ge> window then \<lparr>rw_start = now, rw_n = 0\<rparr> else w);
          w' = w\<lparr>rw_n := rw_n w + 1\<rparr>;
          m' = (key, w') # filter (\<lambda>(k, _). k \<noteq> key) m
      in if rw_n w' > limit then (m', False, window - (now - rw_start w')) else (m', True, 0))"

section \<open>The shared count\<close>

type_synonym throttle = "(string \<times> int) list"

definition throttle_gc_horizon :: int where "throttle_gc_horizon = 7 * 24 * 3600 * 1000000000"

definition count_throttle :: "int \<Rightarrow> string \<Rightarrow> int \<Rightarrow> int \<Rightarrow> throttle \<Rightarrow> throttle \<times> bool \<times> int" where
  "count_throttle now key limit window t0 =
     (let cutoff = now - window;
          t1 = filter (\<lambda>(k, at). \<not> (k = key \<and> at < cutoff)) t0;
          t2 = filter (\<lambda>(k, at). \<not> at < now - throttle_gc_horizon) t1;
          t3 = t2 @ [(key, now)];
          hits = filter (\<lambda>(k, at). k = key \<and> at \<ge> cutoff) t3;
          n = int (length hits);
          oldest = foldr min (map snd hits) now
      in if n > limit then (t3, False, max 0 (oldest + window - now)) else (t3, True, 0))"

text \<open>The shared count if a store is attached and answers, else this process's own.\<close>

definition allow :: "bool \<Rightarrow> int \<Rightarrow> string \<Rightarrow> int \<Rightarrow> int \<Rightarrow> windows \<times> throttle \<Rightarrow> (windows \<times> throttle) \<times> bool \<times> int" where
  "allow shared now key limit window st =
     (if shared then (let (t, r) = count_throttle now key limit window (snd st) in ((fst st, t), r))
      else (let (m, r) = allow_local now key limit window (fst st) in ((m, snd st), r)))"

section \<open>Overrides and names\<close>

definition override :: "string \<Rightarrow> int \<Rightarrow> int" where
  "override env cur = (let raw = trim_space env in if raw = [] then cur
     else (case atoi raw of None \<Rightarrow> cur | Some n \<Rightarrow> if n < 1 then cur else n))"

definition apply_limit_overrides :: "(string \<Rightarrow> string) \<Rightarrow> (string \<times> int) list \<Rightarrow> (string \<times> int) list" where
  "apply_limit_overrides getenv limits = map (\<lambda>(env, cur). (env, override (getenv env) cur)) limits"

lemma override_positive: "0 < cur \<Longrightarrow> 0 < override env cur"
  by (simp add: override_def Let_def split: option.split)

datatype name_error = Name_needed | Control_character | Web_address | Name_too_long

text \<open>A word character before a position; the scheme words begin with one, so \<open>\\b\<close> asks that there is none.\<close>

definition word_rune :: "nat \<Rightarrow> bool" where
  "word_rune r \<longleftrightarrow> 48 \<le> r \<and> r \<le> 57 \<or> 65 \<le> r \<and> r \<le> 90 \<or> 97 \<le> r \<and> r \<le> 122 \<or> r = 95"

definition starts_folded :: "unicode \<Rightarrow> string \<Rightarrow> nat list \<Rightarrow> bool" where
  "starts_folded U w rs \<longleftrightarrow> length w \<le> length rs \<and> list_all2 (\<lambda>c r. fold_eq U (of_char c) r) w (take (length w) rs)"

fun url_in :: "unicode \<Rightarrow> bool \<Rightarrow> nat list \<Rightarrow> bool" where
  "url_in U after_word [] \<longleftrightarrow> False"
| "url_in U after_word (r # rs) \<longleftrightarrow> starts_folded U ''://'' (r # rs) \<or>
     \<not> after_word \<and> list_ex (\<lambda>w. starts_folded U w (r # rs)) [''javascript:'', ''data:'', ''vbscript:''] \<or>
     url_in U (word_rune r) rs"

definition clean_name :: "unicode \<Rightarrow> string \<Rightarrow> nat \<Rightarrow> name_error + string" where
  "clean_name U raw limit = (let s = trim_space raw in
     if s = [] then Inl Name_needed
     else if list_ex is_control (runes s) then Inl Control_character
     else if url_in U False (runes s) then Inl Web_address
     else if length s > limit then Inl Name_too_long
     else Inr s)"

section \<open>What the shared count promises\<close>

text \<open>Calls one after another, each with its time, key, limit and window, and whether each was allowed.\<close>

record attempt_call =
  ac_now :: int
  ac_key :: string
  ac_limit :: int
  ac_window :: int

fun throttled :: "attempt_call list \<Rightarrow> throttle \<Rightarrow> bool list" where
  "throttled [] t = []"
| "throttled (c # cs) t =
     (let (t1, ok, retry) = count_throttle (ac_now c) (ac_key c) (ac_limit c) (ac_window c) t in ok # throttled cs t1)"

definition rows_since :: "string \<Rightarrow> int \<Rightarrow> throttle \<Rightarrow> nat" where
  "rows_since key from t = length (filter (\<lambda>(k, at). k = key \<and> at \<ge> from) t)"

lemma filter_filter_length:
  "(\<And>x. x \<in> set xs \<Longrightarrow> Q x \<Longrightarrow> P x) \<Longrightarrow> length (filter Q (filter P xs)) = length (filter Q xs)"
  by (induction xs) auto

text \<open>A call adds its own row, and the sweeps leave every row that still counts for any key.\<close>

lemma count_throttle_rows:
  assumes "count_throttle now key limit window t = (t', ok, retry)" and "window \<le> throttle_gc_horizon"
    and "from \<ge> now - throttle_gc_horizon" and "k = key \<Longrightarrow> from \<ge> now - window"
  shows "rows_since k from t' = rows_since k from t + (if k = key \<and> now \<ge> from then 1 else 0)"
proof -
  let ?t1 = "filter (\<lambda>(k, at). \<not> (k = key \<and> at < now - window)) t"
  let ?t2 = "filter (\<lambda>(k, at). \<not> at < now - throttle_gc_horizon) ?t1"
  have "t' = ?t2 @ [(key, now)]" using assms(1) by (auto simp: count_throttle_def Let_def split: if_splits)
  moreover have "rows_since k from ?t2 = rows_since k from ?t1"
    unfolding rows_since_def by (rule filter_filter_length) (use assms(3) in auto)
  moreover have "rows_since k from ?t1 = rows_since k from t"
    unfolding rows_since_def by (rule filter_filter_length) (use assms(4) in auto)
  ultimately show ?thesis by (simp add: rows_since_def)
qed

lemma count_throttle_ok:
  assumes "count_throttle now key limit window t = (t', ok, retry)"
  shows "ok \<longleftrightarrow> int (rows_since key (now - window) t') \<le> limit"
  using assms by (auto simp: count_throttle_def Let_def rows_since_def split: if_splits)

definition steady :: "string \<Rightarrow> int \<Rightarrow> int \<Rightarrow> attempt_call \<Rightarrow> bool" where
  "steady key limit window c \<longleftrightarrow> (if ac_key c = key then ac_limit c = limit \<and> ac_window c = window
     else ac_window c \<le> throttle_gc_horizon)"

definition granted_within :: "string \<Rightarrow> int \<Rightarrow> int \<Rightarrow> attempt_call list \<Rightarrow> bool list \<Rightarrow> nat" where
  "granted_within key from to cs oks =
     length (filter (\<lambda>(c, ok). ok \<and> ac_key c = key \<and> from \<le> ac_now c \<and> ac_now c \<le> to) (zip cs oks))"

lemma throttled_within:
  assumes "list_all (steady key limit window) cs" "window \<le> throttle_gc_horizon" "0 \<le> limit"
    and "sorted (map ac_now cs)" "to - from \<le> window"
    and "int (rows_since key from t) \<le> limit \<or> True"
  shows "int (granted_within key from to cs (throttled cs t)) \<le> max 0 (limit - int (rows_since key from t))"
  using assms
proof (induction cs arbitrary: t)
  case Nil
  then show ?case by (simp add: granted_within_def)
next
  case (Cons c cs)
  obtain t1 ok retry where 1: "count_throttle (ac_now c) (ac_key c) (ac_limit c) (ac_window c) t = (t1, ok, retry)"
    by (metis prod_cases3)
  have win: "ac_window c \<le> throttle_gc_horizon" using Cons.prems(1,2) by (auto simp: steady_def split: if_splits)
  have IH: "int (granted_within key from to cs (throttled cs t1)) \<le> max 0 (limit - int (rows_since key from t1))"
    using Cons.prems by (intro Cons.IH) auto
  show ?case
  proof (cases "ac_now c \<le> to")
    case False
    have "granted_within key from to (c # cs) (throttled (c # cs) t) = 0"
    proof -
      have late: "\<not> ac_now d \<le> to" if "d \<in> set (c # cs)" for d using Cons.prems(4) False that by auto
      have "\<not> (ok \<and> ac_key d = key \<and> from \<le> ac_now d \<and> ac_now d \<le> to)" if "(d, ok) \<in> set (zip (c # cs) oks)" for d ok oks
        using late [of d] set_zip_leftD [OF that] by blast
      then show ?thesis unfolding granted_within_def by (simp add: filter_empty_conv) blast
    qed
    then show ?thesis by simp
  next
    case True
    have from1: "from \<ge> ac_now c - window" using True Cons.prems(5) by simp
    have rows: "rows_since key from t1 = rows_since key from t + (if key = ac_key c \<and> ac_now c \<ge> from then 1 else 0)"
      using Cons.prems(1,2) from1 by (intro count_throttle_rows [OF 1 win]) (auto simp: steady_def)
    have ok: "int (rows_since key from t1) \<le> limit" if "ok" "ac_key c = key"
    proof -
      have "int (rows_since key (ac_now c - window) t1) \<le> limit"
        using count_throttle_ok [OF 1] that Cons.prems(1) by (simp add: steady_def)
      moreover have "rows_since key from t1 \<le> rows_since key (ac_now c - window) t1"
      proof -
        have "length (filter (\<lambda>(k, at). k = key \<and> at \<ge> from) t1) =
            length (filter (\<lambda>(k, at). k = key \<and> at \<ge> from) (filter (\<lambda>(k, at). k = key \<and> at \<ge> ac_now c - window) t1))"
          by (rule filter_filter_length [symmetric]) (use from1 in auto)
        also have "\<dots> \<le> length (filter (\<lambda>(k, at). k = key \<and> at \<ge> ac_now c - window) t1)" by (rule length_filter_le)
        finally show ?thesis by (simp add: rows_since_def)
      qed
      ultimately show ?thesis by simp
    qed
    have "granted_within key from to (c # cs) (throttled (c # cs) t) =
        (if ok \<and> ac_key c = key \<and> from \<le> ac_now c then 1 else 0) + granted_within key from to cs (throttled cs t1)"
      using 1 True by (simp add: granted_within_def)
    then show ?thesis using IH rows ok by (auto split: if_splits)
  qed
qed

text \<open>No window lets more through than its limit. Whatever calls come at whatever times, from whatever instance, in any
  interval as long as the window at most \<open>limit\<close> of the calls for a key are allowed, other keys with other
  windows notwithstanding, as long as no window is longer than the horizon of the sweep.\<close>

theorem throttle_limits:
  assumes "list_all (steady key limit window) cs" and "window \<le> throttle_gc_horizon" and "0 \<le> limit"
    and "sorted (map ac_now cs)" and "to - from \<le> window"
  shows "int (granted_within key from to cs (throttled cs t)) \<le> limit"
proof -
  have "int (granted_within key from to cs (throttled cs t)) \<le> max 0 (limit - int (rows_since key from t))"
    by (rule throttled_within [OF assms]) simp
  with assms(3) show ?thesis by simp
qed

definition sample_attempts :: "attempt_call list" where
  "sample_attempts = [\<lparr>ac_now = 0, ac_key = ''a'', ac_limit = 1, ac_window = 10\<rparr>, \<lparr>ac_now = 3, ac_key = ''b'', ac_limit = 9, ac_window = 1\<rparr>,
     \<lparr>ac_now = 5, ac_key = ''a'', ac_limit = 1, ac_window = 10\<rparr>, \<lparr>ac_now = 20, ac_key = ''a'', ac_limit = 1, ac_window = 10\<rparr>]"

theorem throttle_limits_witness: "int (granted_within ''a'' 0 10 sample_attempts (throttled sample_attempts [])) \<le> 1"
  by (rule throttle_limits [where window = 10])
    (simp_all add: sample_attempts_def steady_def throttle_gc_horizon_def)

section \<open>What the local count forgets\<close>

text \<open>
  The sweep of a full map goes by the window of the call at hand. A key that is counted over a longer
  window loses its count, and starts again from zero.
\<close>

lemma sweep_forgets_longer_windows:
  assumes "length m > 10000" and "distinct (map fst m)" and "map_of m k = Some w" and "k \<noteq> key"
    and "window \<le> now - rw_start w"
  shows "map_of (fst (allow_local now key limit window m)) k = None"
proof -
  have "w' = w" if "(k, w') \<in> set m" for w' using map_of_is_SomeI [OF assms(2) that] assms(3) by simp
  with assms(1,5) have "(k, w') \<notin> set (swept now window m)" for w' by (auto simp: swept_def)
  then have "map_of (swept now window m) k = None" by (auto simp: map_of_eq_None_iff)
  then have "map_of (filter (\<lambda>(k, _). k \<noteq> key) (swept now window m)) k = None"
    by (auto simp: map_of_eq_None_iff)
  with assms(4) show ?thesis by (simp add: allow_local_def Let_def)
qed

end
