(* ===== verification/Review_Rows.thy ===== *)
theory Review_Rows
  imports Complex_Main Finding
begin

text \<open>
  Code review as the store keeps it: the pull requests, runs and findings of
  \<^verbatim>\<open>internal/app/store_review_runs.go\<close> and \<^verbatim>\<open>store_review_threads.go\<close>, and every statement that
  changes a pull request or a finding on its own. The queue of runs is in the theory \<open>Review_Queue\<close>.

  A table is the list of its rows, and a statement of the code one function on the database. A row is what
  the code reads back of it: a JSON column is the value it encodes, a column of text with a time a
  \<open>stamp\<close>, and the columns that only say when a row was last written are left out. Costs are rationals
  where Go has float64. Times are nanoseconds (\<^verbatim>\<open>UnixNano\<close>). A public id, which the code draws at random,
  is an argument. A database call that fails is not modelled: the functions are what the statements do when
  they are carried out.
\<close>

section \<open>Rows\<close>

record review_pr =
  rp_id :: int
  rp_org :: int
  rp_repo :: string
  rp_number :: int
  rp_state :: string
  rp_fork :: bool
  rp_private :: bool
  rp_author :: string
  rp_head :: string
  rp_last_sha :: string
  rp_hashes :: string
  rp_paused :: int
  rp_auto :: int
  rp_reviews :: int
  rp_score :: int
  rp_comment :: int
  rp_mirror :: string
  rp_skip :: string
  rp_lease :: int
  rp_notify_team :: string
  rp_notify_channel :: string
  rp_notify_ts :: string
  rp_notify_last :: string

record review_run =
  rr_id :: int
  rr_public :: string
  rr_org :: int
  rr_pr :: int
  rr_repo :: string
  rr_number :: int
  rr_installation :: int
  rr_kind :: string
  rr_dedupe :: string
  rr_trigger :: string
  rr_ref :: string
  rr_by :: string
  rr_head :: string
  rr_base :: string
  rr_cache :: string
  rr_types :: "(string \<times> int) list"
  rr_rule :: string
  rr_config :: string
  rr_status :: string
  rr_not_before :: int
  rr_lease :: int
  rr_attempts :: int
  rr_cancel :: bool
  rr_reserved :: rat
  rr_review :: int
  rr_files :: int
  rr_not_reviewed :: "(string \<times> string) list"
  rr_candidates :: int
  rr_dropped :: int
  rr_kept :: int
  rr_score :: int
  rr_summary :: string
  rr_risk :: string
  rr_model :: string
  rr_tokens_in :: int
  rr_tokens_out :: int
  rr_tokens_cached :: int
  rr_cost :: rat
  rr_error :: string
  rr_created :: stamp
  rr_started :: stamp
  rr_finished :: stamp
  rr_request :: string
  rr_outcome :: string

record snippet =
  sn_sha :: string
  sn_start :: int
  sn_lines :: "string list"

record review_finding =
  rf_id :: int
  rf_public :: string
  rf_org :: int
  rf_pr :: int
  rf_first_run :: int
  rf_last_run :: int
  rf_finding :: finding
  rf_anchor_sha :: string
  rf_code_hash :: string
  rf_placement :: string
  rf_kind :: string
  rf_fingerprint :: string
  rf_verifier :: int
  rf_status :: string
  rf_reason :: string
  rf_by :: string
  rf_claimed_sha :: string
  rf_claimed_by :: string
  rf_comment :: int
  rf_thread :: string
  rf_replies :: int
  rf_outdated :: bool
  rf_place :: string
  rf_snippet :: "snippet option"
  rf_created :: stamp

record review_db =
  rv_prs :: "review_pr list"
  rv_runs :: "review_run list"
  rv_findings :: "review_finding list"

datatype review_error = Invalid_run | Bad_repo_name | PR_not_found | Finding_not_found | Lease_lost

text \<open>
  An update of the rows that meet a condition, and whether there was one (\<^verbatim>\<open>fencedWrite\<close> turns none into
  \<^verbatim>\<open>errLeaseLost\<close>); the number a new row gets.
\<close>

definition update_rows :: "('a \<Rightarrow> bool) \<Rightarrow> ('a \<Rightarrow> 'a) \<Rightarrow> 'a list \<Rightarrow> 'a list" where
  "update_rows P f rows = map (\<lambda>r. if P r then f r else r) rows"

definition fenced_write :: "('a \<Rightarrow> bool) \<Rightarrow> 'a list \<Rightarrow> bool" where
  "fenced_write P rows \<longleftrightarrow> list_ex P rows"

definition next_id :: "int list \<Rightarrow> int" where
  "next_id ids = foldr max ids 0 + 1"

section \<open>Pull requests\<close>

definition review_pr_states :: "string list" where
  "review_pr_states = [''open'', ''closed'', ''merged'']"

definition review_repo_name :: "unicode \<Rightarrow> string \<Rightarrow> string option" where
  "review_repo_name U repo = (let r = to_lower U (trim_space repo); (owner, name, found) = cut_on (CHR ''/'') r
     in if \<not> found \<or> owner = '''' \<or> name = '''' \<or> contains_any name ''/ '' \<or> CHR '' '' \<in> set owner then None else Some r)"

record pr_facts =
  pf_repo :: string
  pf_number :: int
  pf_state :: string
  pf_fork :: "bool option"
  pf_private :: "bool option"
  pf_author :: string
  pf_head :: string

definition new_pr :: "int \<Rightarrow> int \<Rightarrow> string \<Rightarrow> pr_facts \<Rightarrow> review_pr" where
  "new_pr i org repo f = \<lparr>rp_id = i, rp_org = org, rp_repo = repo, rp_number = pf_number f,
     rp_state = (if pf_state f = '''' then ''open'' else pf_state f),
     rp_fork = (pf_fork f = Some True), rp_private = (pf_private f = Some True), rp_author = pf_author f,
     rp_head = pf_head f, rp_last_sha = '''', rp_hashes = ''{}'', rp_paused = 0, rp_auto = 0, rp_reviews = 0,
     rp_score = -1, rp_comment = 0, rp_mirror = '''', rp_skip = '''', rp_lease = 0, rp_notify_team = '''',
     rp_notify_channel = '''', rp_notify_ts = '''', rp_notify_last = ''''\<rparr>"

definition known_pr :: "pr_facts \<Rightarrow> review_pr \<Rightarrow> review_pr" where
  "known_pr f p = p\<lparr>rp_state := (if pf_state f \<noteq> '''' then pf_state f else rp_state p),
     rp_fork := (case pf_fork f of None \<Rightarrow> rp_fork p | Some b \<Rightarrow> b),
     rp_private := (case pf_private f of None \<Rightarrow> rp_private p | Some b \<Rightarrow> b),
     rp_author := (if pf_author f \<noteq> '''' then pf_author f else rp_author p),
     rp_head := (if pf_head f \<noteq> '''' then pf_head f else rp_head p)\<rparr>"

definition same_pr :: "int \<Rightarrow> string \<Rightarrow> int \<Rightarrow> review_pr \<Rightarrow> bool" where
  "same_pr org repo n p \<longleftrightarrow> rp_org p = org \<and> rp_repo p = repo \<and> rp_number p = n"

definition pr_by_number :: "int \<Rightarrow> string \<Rightarrow> int \<Rightarrow> review_db \<Rightarrow> review_pr option" where
  "pr_by_number org repo n db = List.find (same_pr org repo n) (rv_prs db)"

definition upsert_review_pr :: "unicode \<Rightarrow> int \<Rightarrow> pr_facts \<Rightarrow> review_db \<Rightarrow> review_db \<times> (review_error + review_pr)" where
  "upsert_review_pr U org f db = (case review_repo_name U (pf_repo f) of
     None \<Rightarrow> (db, Inl Bad_repo_name)
   | Some repo \<Rightarrow>
       if pf_number f \<le> 0 \<or> pf_state f \<noteq> '''' \<and> pf_state f \<notin> set review_pr_states then (db, Inl Invalid_run)
       else (case pr_by_number org repo (pf_number f) db of
           None \<Rightarrow> (let p = new_pr (next_id (map rp_id (rv_prs db))) org repo f in (db\<lparr>rv_prs := rv_prs db @ [p]\<rparr>, Inr p))
         | Some p \<Rightarrow> (db\<lparr>rv_prs := update_rows (same_pr org repo (pf_number f)) (known_pr f) (rv_prs db)\<rparr>, Inr (known_pr f p))))"

definition is_pr :: "int \<Rightarrow> int \<Rightarrow> review_pr \<Rightarrow> bool" where
  "is_pr org i p \<longleftrightarrow> rp_org p = org \<and> rp_id p = i"

definition review_pr_of :: "int \<Rightarrow> int \<Rightarrow> review_db \<Rightarrow> review_pr option" where
  "review_pr_of org i db = List.find (is_pr org i) (rv_prs db)"

definition update_pr :: "(review_pr \<Rightarrow> bool) \<Rightarrow> (review_pr \<Rightarrow> review_pr) \<Rightarrow> review_db \<Rightarrow> review_db \<times> bool" where
  "update_pr P f db = (db\<lparr>rv_prs := update_rows P f (rv_prs db)\<rparr>, fenced_write P (rv_prs db))"

text \<open>\<^verbatim>\<open>reviewPRWritten\<close>: no row is no such pull request.\<close>

definition pr_written :: "review_db \<times> bool \<Rightarrow> review_db \<times> review_error option" where
  "pr_written w = (fst w, if snd w then None else Some PR_not_found)"

definition set_pr_skip_reason :: "int \<Rightarrow> int \<Rightarrow> string \<Rightarrow> review_db \<Rightarrow> review_db \<times> review_error option" where
  "set_pr_skip_reason org i why db = pr_written (update_pr (is_pr org i) (\<lambda>p. p\<lparr>rp_skip := truncate_text why 300\<rparr>) db)"

definition paused_by_member :: int where "paused_by_member = 1"
definition paused_by_auto :: int where "paused_by_auto = 2"

definition pause_review_pr :: "int \<Rightarrow> int \<Rightarrow> bool \<Rightarrow> review_db \<Rightarrow> review_db \<times> bool" where
  "pause_review_pr org i auto db = update_pr (\<lambda>p. is_pr org i p \<and> rp_paused p = 0)
     (\<lambda>p. p\<lparr>rp_paused := (if auto then paused_by_auto else paused_by_member)\<rparr>) db"

definition resume_review_pr :: "int \<Rightarrow> int \<Rightarrow> review_db \<Rightarrow> review_db \<times> review_error option" where
  "resume_review_pr org i db = pr_written (update_pr (is_pr org i)
     (\<lambda>p. p\<lparr>rp_paused := 0, rp_auto := 0, rp_skip := (if rp_skip p = ''paused'' then '''' else rp_skip p)\<rparr>) db)"

definition set_pr_summary_comment :: "int \<Rightarrow> int \<Rightarrow> int \<Rightarrow> review_db \<Rightarrow> review_db \<times> review_error option" where
  "set_pr_summary_comment org i c db = pr_written (update_pr (is_pr org i) (\<lambda>p. p\<lparr>rp_comment := c\<rparr>) db)"

definition set_pr_notify_root :: "int \<Rightarrow> int \<Rightarrow> string \<Rightarrow> string \<Rightarrow> string \<Rightarrow> string \<Rightarrow> review_db \<Rightarrow> review_db \<times> bool" where
  "set_pr_notify_root org i team channel ts was db = update_pr (\<lambda>p. is_pr org i p \<and> rp_notify_ts p = was)
     (\<lambda>p. p\<lparr>rp_notify_team := team, rp_notify_channel := channel, rp_notify_ts := ts\<rparr>) db"

definition notice_merged :: string where "notice_merged = ''merged''"

definition set_pr_notified :: "int \<Rightarrow> int \<Rightarrow> string \<Rightarrow> review_db \<Rightarrow> review_db \<times> review_error option" where
  "set_pr_notified org i said db = pr_written (update_pr (is_pr org i)
     (\<lambda>p. p\<lparr>rp_notify_last := (if rp_notify_last p = notice_merged then rp_notify_last p else truncate_text said 100)\<rparr>) db)"

section \<open>Findings\<close>

definition review_finding_statuses :: "string list" where
  "review_finding_statuses = [''open'', ''withdrawn'', ''fixed'', ''resolved_by_human'', ''outdated'', ''disputed'']"

text \<open>
  What is read back of a finding as it was stored: its symbol and its confidence are not kept, its types are
  the first and the others, and a snippet without lines is none.
\<close>

definition kept_finding :: "finding \<Rightarrow> finding" where
  "kept_finding f = (let first = (if fd_review_type f = '''' then default_type else fd_review_type f)
     in f\<lparr>fd_symbol := '''', fd_confidence := 0, fd_review_type := first,
       fd_also_types := filter (\<lambda>k. k \<noteq> first) (type_keys f), fd_side := (if fd_side f = '''' then Right else fd_side f)\<rparr>)"

definition kept_snippet :: "snippet option \<Rightarrow> snippet option" where
  "kept_snippet s = (case s of None \<Rightarrow> None | Some n \<Rightarrow> if sn_start n > 0 \<and> sn_lines n \<noteq> [] then Some n else None)"

definition new_finding :: "int \<Rightarrow> int \<Rightarrow> string \<Rightarrow> int \<Rightarrow> int \<Rightarrow> int \<Rightarrow> review_finding \<Rightarrow> review_finding" where
  "new_finding now i pub org pr run f = f\<lparr>rf_id := i, rf_public := pub, rf_org := org, rf_pr := pr, rf_first_run := run,
     rf_last_run := run, rf_finding := kept_finding (rf_finding f),
     rf_status := (if rf_status f = '''' then ''open'' else rf_status f),
     rf_claimed_sha := '''', rf_claimed_by := '''', rf_comment := 0, rf_thread := '''', rf_replies := 0,
     rf_place := truncate_text (rf_place f) 40, rf_snippet := kept_snippet (rf_snippet f), rf_created := Some now\<rparr>"

definition insert_review_finding ::
  "int \<Rightarrow> string \<Rightarrow> int \<Rightarrow> int \<Rightarrow> int \<Rightarrow> review_finding \<Rightarrow> review_db \<Rightarrow> review_error + (review_db \<times> int)" where
  "insert_review_finding now pub org pr run f db =
     (if (rf_status f \<noteq> '''' \<and> rf_status f \<notin> set review_finding_statuses) \<or> fd_path (rf_finding f) = '''' \<or> run \<le> 0
      then Inl Invalid_run
      else if list_ex (is_pr org pr) (rv_prs db) \<and> list_ex (\<lambda>r. rr_org r = org \<and> rr_id r = run \<and> rr_pr r = pr) (rv_runs db)
      then (let i = next_id (map rf_id (rv_findings db))
            in Inr (db\<lparr>rv_findings := rv_findings db @ [new_finding now i pub org pr run f]\<rparr>, i))
      else Inl PR_not_found)"

definition update_findings :: "(review_finding \<Rightarrow> bool) \<Rightarrow> (review_finding \<Rightarrow> review_finding) \<Rightarrow> review_db \<Rightarrow> review_db \<times> bool" where
  "update_findings P f db = (db\<lparr>rv_findings := update_rows P f (rv_findings db)\<rparr>, fenced_write P (rv_findings db))"

definition is_finding :: "int \<Rightarrow> int \<Rightarrow> review_finding \<Rightarrow> bool" where
  "is_finding org i f \<longleftrightarrow> rf_org f = org \<and> rf_id f = i"

text \<open>Open, or disputed, which the bot still stands by.\<close>

definition standing :: "review_finding \<Rightarrow> bool" where
  "standing f \<longleftrightarrow> rf_status f = ''open'' \<or> rf_status f = ''disputed''"

definition finding_where :: "(review_finding \<Rightarrow> bool) \<Rightarrow> review_db \<Rightarrow> review_finding list" where
  "finding_where P db = sort_key rf_id (filter P (rv_findings db))"

definition first_of :: "'a list \<Rightarrow> 'a option" where
  "first_of xs = (case xs of [] \<Rightarrow> None | x # _ \<Rightarrow> Some x)"

definition finding_by_id :: "int \<Rightarrow> int \<Rightarrow> review_db \<Rightarrow> review_finding option" where
  "finding_by_id org i db = first_of (finding_where (is_finding org i) db)"

definition finding_by_comment :: "int \<Rightarrow> int \<Rightarrow> review_db \<Rightarrow> review_finding option" where
  "finding_by_comment org c db = (if c \<le> 0 then None
     else first_of (rev (finding_where (\<lambda>f. rf_org f = org \<and> rf_comment f = c) db)))"

definition finding_by_fingerprint :: "int \<Rightarrow> int \<Rightarrow> string \<Rightarrow> review_db \<Rightarrow> review_finding option" where
  "finding_by_fingerprint org pr fp db = (if fp = '''' then None
     else first_of (rev (finding_where (\<lambda>f. rf_org f = org \<and> rf_pr f = pr \<and> rf_fingerprint f = fp) db)))"

definition finding_by_public_id :: "int \<Rightarrow> int \<Rightarrow> string \<Rightarrow> review_db \<Rightarrow> review_finding option" where
  "finding_by_public_id org pr pub db = (if pub = '''' then None
     else first_of (finding_where (\<lambda>f. rf_org f = org \<and> rf_pr f = pr \<and> rf_public f = pub) db))"

definition review_findings_of :: "int \<Rightarrow> int \<Rightarrow> review_db \<Rightarrow> review_finding list" where
  "review_findings_of org pr db = finding_where (\<lambda>f. rf_org f = org \<and> rf_pr f = pr) db"

definition open_review_findings :: "int \<Rightarrow> int \<Rightarrow> review_db \<Rightarrow> review_finding list" where
  "open_review_findings org pr db = finding_where (\<lambda>f. rf_org f = org \<and> rf_pr f = pr \<and> standing f) db"

text \<open>\<^verbatim>\<open>reviewFindingWritten\<close>: no row is no such finding.\<close>

definition finding_written :: "review_db \<times> bool \<Rightarrow> review_db \<times> review_error option" where
  "finding_written w = (fst w, if snd w then None else Some Finding_not_found)"

definition set_finding_status :: "int \<Rightarrow> int \<Rightarrow> string \<Rightarrow> string \<Rightarrow> string \<Rightarrow> review_db \<Rightarrow> review_db \<times> review_error option" where
  "set_finding_status org i status reason by' db =
     (if status \<notin> set review_finding_statuses then (db, Some Invalid_run)
      else finding_written (update_findings (is_finding org i)
        (\<lambda>f. f\<lparr>rf_status := status, rf_reason := truncate_text (trim_space reason) 600, rf_by := truncate_text by' 200\<rparr>) db))"

definition set_finding_comment :: "int \<Rightarrow> int \<Rightarrow> int \<Rightarrow> review_db \<Rightarrow> review_db \<times> review_error option" where
  "set_finding_comment org i c db = finding_written (update_findings (is_finding org i) (\<lambda>f. f\<lparr>rf_comment := c\<rparr>) db)"

definition set_finding_thread :: "int \<Rightarrow> int \<Rightarrow> string \<Rightarrow> review_db \<Rightarrow> review_db \<times> review_error option" where
  "set_finding_thread org i node db =
     finding_written (update_findings (is_finding org i) (\<lambda>f. f\<lparr>rf_thread := truncate_text node 200\<rparr>) db)"

definition set_finding_severity :: "int \<Rightarrow> int \<Rightarrow> severity \<Rightarrow> string \<Rightarrow> string \<Rightarrow> review_db \<Rightarrow> review_db \<times> review_error option" where
  "set_finding_severity org i sev reason by' db =
     (if \<not> severity_valid sev then (db, Some Invalid_run)
      else finding_written (update_findings (is_finding org i)
        (\<lambda>f. f\<lparr>rf_finding := (rf_finding f)\<lparr>fd_severity := sev\<rparr>, rf_reason := truncate_text (trim_space reason) 600,
               rf_by := truncate_text by' 200\<rparr>) db))"

definition set_finding_claim :: "int \<Rightarrow> int \<Rightarrow> string \<Rightarrow> string \<Rightarrow> review_db \<Rightarrow> review_db \<times> review_error option" where
  "set_finding_claim org i sha by' db = finding_written (update_findings (is_finding org i)
     (\<lambda>f. f\<lparr>rf_claimed_sha := truncate_text sha 64, rf_claimed_by := truncate_text by' 200\<rparr>) db)"

definition add_finding_bot_reply :: "int \<Rightarrow> int \<Rightarrow> review_db \<Rightarrow> review_db \<times> review_error option" where
  "add_finding_bot_reply org i db =
     finding_written (update_findings (is_finding org i) (\<lambda>f. f\<lparr>rf_replies := rf_replies f + 1\<rparr>) db)"

definition set_finding_placement :: "int \<Rightarrow> int \<Rightarrow> string \<Rightarrow> bool \<Rightarrow> review_db \<Rightarrow> review_db \<times> review_error option" where
  "set_finding_placement org i place outdated db =
     finding_written (update_findings (is_finding org i) (\<lambda>f. f\<lparr>rf_placement := place, rf_outdated := outdated\<rparr>) db)"

end
