(* ===== verification/Review_Queue.thy ===== *)
theory Review_Queue
  imports Review_Rows
begin

text \<open>
  The queue of review runs (\<^verbatim>\<open>store_review_runs.go\<close>, \<^verbatim>\<open>store_review_lane.go\<close>): enqueue, claim, renew,
  finish, put back, cancel, sweep, and the checkpoint a run's findings are stored in.

  A transaction is one function on the database, which is the database it was given when the code rolls it
  back. The claim's subquery may see an older state than its update does (Postgres reads it from a snapshot),
  so the snapshot is an argument of its own; SQLite is the case where the two are the same. One reading of
  the clock stands for the two or three the code takes in a statement.
\<close>

section \<open>Constants\<close>

definition nanos :: int where "nanos = 1000000000"

definition review_run_lease :: int where "review_run_lease = 60 * nanos"
definition review_run_max_attempts :: int where "review_run_max_attempts = 3"
definition review_run_deferral :: int where "review_run_deferral = 30 * nanos"
definition review_org_running :: nat where "review_org_running = 2"
definition review_dedupe_key_max :: nat where "review_dedupe_key_max = 200"

definition review_run_kinds :: "string list" where
  "review_run_kinds = [''review'', ''reply'', ''answer'', ''resync'', ''try'']"

definition review_run_triggers :: "string list" where
  "review_run_triggers = [''open'', ''push'', ''command'', ''catchup'', ''console'', ''api'', ''reply'', ''label'', ''chat'', ''fix'']"

definition review_run_ends :: "string list" where
  "review_run_ends = [''posted'', ''shadow'', ''noop'', ''skipped'', ''superseded'', ''failed'', ''cancelled'']"

section \<open>Queueing\<close>

record run_request =
  rq_pr :: int
  rq_installation :: int
  rq_kind :: string
  rq_dedupe :: string
  rq_trigger :: string
  rq_ref :: string
  rq_by :: string
  rq_head :: string
  rq_base :: string
  rq_cache :: string
  rq_types :: "(string \<times> int) list"
  rq_rule :: string
  rq_config :: string
  rq_reserved :: rat
  rq_not_before :: "int option"
  rq_request :: string

definition queued_run :: "int \<Rightarrow> string \<Rightarrow> int \<Rightarrow> review_pr \<Rightarrow> run_request \<Rightarrow> review_run" where
  "queued_run now pub i p q = \<lparr>rr_id = i, rr_public = pub, rr_org = rp_org p, rr_pr = rp_id p, rr_repo = rp_repo p,
     rr_number = rp_number p, rr_installation = rq_installation q, rr_kind = rq_kind q, rr_dedupe = rq_dedupe q,
     rr_trigger = rq_trigger q, rr_ref = truncate_text (rq_ref q) 200, rr_by = truncate_text (rq_by q) 200,
     rr_head = rq_head q, rr_base = rq_base q, rr_cache = rq_cache q, rr_types = rq_types q,
     rr_rule = truncate_text (rq_rule q) 200, rr_config = rq_config q, rr_status = ''queued'',
     rr_not_before = (case rq_not_before q of None \<Rightarrow> 0 | Some t \<Rightarrow> t), rr_lease = 0, rr_attempts = 0, rr_cancel = False,
     rr_reserved = rq_reserved q, rr_review = 0, rr_files = 0, rr_not_reviewed = [], rr_candidates = 0, rr_dropped = 0,
     rr_kept = 0, rr_score = -1, rr_summary = '''', rr_risk = '''', rr_model = '''', rr_tokens_in = 0, rr_tokens_out = 0,
     rr_tokens_cached = 0, rr_cost = 0, rr_error = '''', rr_created = Some now, rr_started = None, rr_finished = None,
     rr_request = (if rq_request q = '''' then ''{}'' else rq_request q), rr_outcome = ''{}''\<rparr>"

definition run_by_dedupe :: "int \<Rightarrow> int \<Rightarrow> string \<Rightarrow> review_db \<Rightarrow> review_run option" where
  "run_by_dedupe org pr key db = List.find (\<lambda>r. rr_org r = org \<and> rr_pr r = pr \<and> rr_dedupe r = key) (rv_runs db)"

definition bad_request :: "run_request \<Rightarrow> bool" where
  "bad_request q \<longleftrightarrow> rq_kind q \<notin> set review_run_kinds \<or> rq_trigger q \<notin> set review_run_triggers \<or>
     rq_dedupe q = '''' \<or> length (rq_dedupe q) > review_dedupe_key_max \<or> rq_reserved q < 0"

text \<open>The run, and whether it is new.\<close>

definition enqueue_review_run ::
  "int \<Rightarrow> string \<Rightarrow> int \<Rightarrow> run_request \<Rightarrow> review_db \<Rightarrow> review_db \<times> (review_error + review_run \<times> bool)" where
  "enqueue_review_run now pub org q db =
     (if bad_request q then (db, Inl Invalid_run)
      else (case (review_pr_of org (rq_pr q) db, run_by_dedupe org (rq_pr q) (rq_dedupe q) db) of
          (Some p, None) \<Rightarrow> (let r = queued_run now pub (next_id (map rr_id (rv_runs db))) p q
             in (db\<lparr>rv_runs := rv_runs db @ [r]\<rparr>, Inr (r, True)))
        | (_, Some r) \<Rightarrow> (db, Inr (r, False))
        | (None, None) \<Rightarrow> (db, Inl PR_not_found)))"

definition is_run :: "int \<Rightarrow> int \<Rightarrow> review_run \<Rightarrow> bool" where
  "is_run org i r \<longleftrightarrow> rr_org r = org \<and> rr_id r = i"

definition review_run_of :: "int \<Rightarrow> int \<Rightarrow> review_db \<Rightarrow> review_run option" where
  "review_run_of org i db = List.find (is_run org i) (rv_runs db)"

definition update_runs :: "(review_run \<Rightarrow> bool) \<Rightarrow> (review_run \<Rightarrow> review_run) \<Rightarrow> review_db \<Rightarrow> review_db \<times> bool" where
  "update_runs P f db = (db\<lparr>rv_runs := update_rows P f (rv_runs db)\<rparr>, fenced_write P (rv_runs db))"

section \<open>The claim\<close>

definition claimable :: "int \<Rightarrow> review_run \<Rightarrow> bool" where
  "claimable now r \<longleftrightarrow> (rr_status r = ''queued'' \<or> rr_status r = ''running'') \<and> \<not> rr_cancel r \<and> rr_lease r \<le> now \<and>
     rr_not_before r \<le> now \<and> rr_attempts r < review_run_max_attempts"

text \<open>Running under a lease that has not lapsed.\<close>

definition going :: "int \<Rightarrow> review_run \<Rightarrow> bool" where
  "going now r \<longleftrightarrow> rr_status r = ''running'' \<and> rr_lease r > now"

definition may_start :: "int \<Rightarrow> review_run list \<Rightarrow> review_run \<Rightarrow> bool" where
  "may_start now runs r \<longleftrightarrow> claimable now r \<and>
     length (filter (\<lambda>o'. rr_org o' = rr_org r \<and> going now o') runs) < review_org_running \<and>
     \<not> list_ex (\<lambda>o'. rr_org o' = rr_org r \<and> rr_pr o' = rr_pr r \<and> going now o') runs"

definition pick_run :: "int \<Rightarrow> review_run list \<Rightarrow> int option" where
  "pick_run now runs = map_option rr_id
     (first_of (sort_key rr_not_before (sort_key rr_id (filter (may_start now runs) runs))))"

definition claimed_run :: "int \<Rightarrow> review_run \<Rightarrow> review_run" where
  "claimed_run now r = r\<lparr>rr_status := ''running'', rr_lease := now + review_run_lease, rr_attempts := rr_attempts r + 1,
     rr_started := (if rr_started r = None then Some now else rr_started r)\<rparr>"

definition take_pr_lease :: "int \<Rightarrow> int \<Rightarrow> int \<Rightarrow> review_db \<Rightarrow> review_db \<times> bool" where
  "take_pr_lease now org pr db =
     update_pr (\<lambda>p. is_pr org pr p \<and> rp_lease p \<le> now) (\<lambda>p. p\<lparr>rp_lease := now + review_run_lease\<rparr>) db"

definition deferred_run :: "int \<Rightarrow> review_run \<Rightarrow> review_run" where
  "deferred_run now r = r\<lparr>rr_status := ''queued'', rr_lease := 0, rr_not_before := now + review_run_deferral,
     rr_attempts := rr_attempts r - 1\<rparr>"

definition claim_once :: "int \<Rightarrow> review_run list \<Rightarrow> review_db \<Rightarrow> review_db \<times> review_run option \<times> bool" where
  "claim_once now snap db = (case pick_run now snap of None \<Rightarrow> (db, None, False)
   | Some i \<Rightarrow> (case List.find (\<lambda>r. rr_id r = i \<and> claimable now r) (rv_runs db) of None \<Rightarrow> (db, None, False)
     | Some r0 \<Rightarrow>
         let r = claimed_run now r0;
             db1 = fst (update_runs (\<lambda>r. rr_id r = i \<and> claimable now r) (claimed_run now) db);
             (db2, took) = take_pr_lease now (rr_org r) (rr_pr r) db1
         in if took then (db2, Some r, False)
            else (fst (update_runs (\<lambda>x. is_run (rr_org r) (rr_id r) x \<and> rr_lease x = rr_lease r) (deferred_run now) db1), None, True)))"

text \<open>\<^verbatim>\<open>for range 3\<close>: one attempt for each reading of the clock.\<close>

fun claim_tries :: "int list \<Rightarrow> review_db \<Rightarrow> review_db \<times> review_run option" where
  "claim_tries [] db = (db, None)"
| "claim_tries (t # ts) db = (let (db', r, deferred) = claim_once t (rv_runs db) db
     in if deferred then claim_tries ts db' else (db', r))"

definition claim_review_run :: "int \<Rightarrow> int \<Rightarrow> int \<Rightarrow> review_db \<Rightarrow> review_db \<times> review_run option" where
  "claim_review_run t1 t2 t3 db = claim_tries [t1, t2, t3] db"

section \<open>What the holder of a lease writes\<close>

text \<open>The fence on a run's own row, and that its pull request is held under the same value (\<^verbatim>\<open>reviewHeldPR\<close>).\<close>

definition has_run :: "review_run \<Rightarrow> review_run \<Rightarrow> bool" where
  "has_run r x \<longleftrightarrow> is_run (rr_org r) (rr_id r) x \<and> rr_lease x = rr_lease r \<and> rr_status x = ''running''"

definition has_pr :: "review_run \<Rightarrow> review_pr \<Rightarrow> bool" where
  "has_pr r p \<longleftrightarrow> is_pr (rr_org r) (rr_pr r) p \<and> rp_lease p = rr_lease r"

definition held_pr :: "review_db \<Rightarrow> int \<Rightarrow> review_run \<Rightarrow> bool" where
  "held_pr db lease x \<longleftrightarrow> list_ex (\<lambda>p. rp_org p = rr_org x \<and> rp_id p = rr_pr x \<and> rp_lease p = lease) (rv_prs db)"

text \<open>\<open>None\<close> is \<^verbatim>\<open>errLeaseLost\<close>, else the new lease and whether a cancel was asked for.\<close>

definition touch_review_run :: "int \<Rightarrow> review_run \<Rightarrow> review_db \<Rightarrow> review_db \<times> (int \<times> bool) option" where
  "touch_review_run now r db = (case List.find (has_run r) (rv_runs db) of None \<Rightarrow> (db, None)
     | Some x \<Rightarrow>
         let lease = now + review_run_lease;
             db1 = fst (update_runs (has_run r) (\<lambda>x. x\<lparr>rr_lease := lease\<rparr>) db);
             (db2, ok) = update_pr (has_pr r) (\<lambda>p. p\<lparr>rp_lease := lease\<rparr>) db1
         in if ok then (db2, Some (lease, rr_cancel x)) else (db, None))"

definition set_run_github_review :: "review_run \<Rightarrow> int \<Rightarrow> review_db \<Rightarrow> review_db \<times> bool" where
  "set_run_github_review r c db =
     update_runs (\<lambda>x. has_run r x \<and> held_pr db (rr_lease r) x) (\<lambda>x. x\<lparr>rr_review := c\<rparr>) db"

definition set_run_reserved :: "review_run \<Rightarrow> rat \<Rightarrow> review_db \<Rightarrow> review_db \<times> bool" where
  "set_run_reserved r usd db = update_runs (has_run r) (\<lambda>x. x\<lparr>rr_reserved := usd\<rparr>) db"

definition set_pr_score :: "review_run \<Rightarrow> int \<Rightarrow> review_db \<Rightarrow> review_db \<times> review_error option" where
  "set_pr_score r score db = (if score < -1 \<or> score > 5 then (db, Some Invalid_run)
     else (let (db', ok) = update_pr (has_pr r) (\<lambda>p. p\<lparr>rp_score := score\<rparr>) db in (db', if ok then None else Some Lease_lost)))"

text \<open>Letting go of the pull request, if it is still held under this value.\<close>

definition release_pr :: "review_run \<Rightarrow> review_db \<Rightarrow> review_db" where
  "release_pr r db = fst (update_pr (has_pr r) (\<lambda>p. p\<lparr>rp_lease := 0\<rparr>) db)"

subsection \<open>The end of a run\<close>

record pr_reviewed =
  pv_sha :: string
  pv_hashes :: string
  pv_score :: int
  pv_automatic :: bool

record run_result =
  re_reviewed :: "pr_reviewed option"
  re_status :: string
  re_review :: int
  re_files :: int
  re_not_reviewed :: "(string \<times> string) list"
  re_candidates :: int
  re_dropped :: int
  re_kept :: int
  re_score :: int
  re_summary :: string
  re_risk :: string
  re_model :: string
  re_tokens_in :: int
  re_tokens_out :: int
  re_tokens_cached :: int
  re_cost :: rat
  re_error :: string

definition answers_nothing :: "string \<Rightarrow> bool" where
  "answers_nothing s \<longleftrightarrow> s \<in> {''failed'', ''cancelled'', ''skipped'', ''superseded''}"

definition posted_review :: "review_run \<Rightarrow> run_result \<Rightarrow> int" where
  "posted_review r res = (if re_review res \<noteq> 0 then re_review res else rr_review r)"

definition ended_run :: "int \<Rightarrow> review_run \<Rightarrow> run_result \<Rightarrow> review_run \<Rightarrow> review_run" where
  "ended_run now r res x = x\<lparr>rr_status := re_status res, rr_lease := 0, rr_finished := Some now, rr_head := rr_head r,
     rr_base := rr_base r, rr_cache := rr_cache r, rr_types := rr_types r, rr_rule := truncate_text (rr_rule r) 200,
     rr_config := rr_config r, rr_review := posted_review r res, rr_files := re_files res,
     rr_not_reviewed := re_not_reviewed res, rr_candidates := re_candidates res, rr_dropped := re_dropped res,
     rr_kept := re_kept res, rr_score := (if answers_nothing (re_status res) then -1 else re_score res),
     rr_summary := re_summary res, rr_risk := re_risk res, rr_model := re_model res, rr_tokens_in := re_tokens_in res,
     rr_tokens_out := re_tokens_out res, rr_tokens_cached := re_tokens_cached res, rr_cost := re_cost res,
     rr_error := truncate_text (re_error res) 1000\<rparr>"

definition reviewed_pr :: "pr_reviewed \<Rightarrow> review_pr \<Rightarrow> review_pr" where
  "reviewed_pr v p = p\<lparr>rp_last_sha := pv_sha v, rp_hashes := (if pv_hashes v = '''' then ''{}'' else pv_hashes v),
     rp_score := pv_score v, rp_reviews := rp_reviews p + 1, rp_auto := rp_auto p + (if pv_automatic v then 1 else 0),
     rp_skip := ''''\<rparr>"

definition never_posted :: "review_run \<Rightarrow> review_finding \<Rightarrow> bool" where
  "never_posted r f \<longleftrightarrow> rf_org f = rr_org r \<and> rf_first_run f = rr_id r \<and> rf_status f = ''open'' \<and> rf_comment f = 0"

definition retire_findings :: "review_run \<Rightarrow> run_result \<Rightarrow> review_db \<Rightarrow> review_db" where
  "retire_findings r res db = (if answers_nothing (re_status res) \<and> posted_review r res = 0
     then fst (update_findings (never_posted r) (\<lambda>f. f\<lparr>rf_status := ''outdated'',
       rf_reason := ''never posted: the run that raised it ended '' @ re_status res, rf_by := ''code review''\<rparr>) db)
     else db)"

definition finish_review_run :: "int \<Rightarrow> review_run \<Rightarrow> run_result \<Rightarrow> review_db \<Rightarrow> review_db \<times> review_error option" where
  "finish_review_run now r res db =
     (if re_status res \<notin> set review_run_ends \<or> re_score res < -1 \<or> re_score res > 5 then (db, Some Invalid_run)
      else let (db1, ok1) = update_runs (has_run r) (ended_run now r res) db;
               (db2, ok2) = (case re_reviewed res of None \<Rightarrow> (db1, True) | Some v \<Rightarrow> update_pr (has_pr r) (reviewed_pr v) db1)
           in if ok1 \<and> ok2 then (release_pr r (retire_findings r res db2), None) else (db, Some Lease_lost))"

definition put_back_run :: "int \<Rightarrow> string \<Rightarrow> bool \<Rightarrow> review_run \<Rightarrow> review_run" where
  "put_back_run not_before why spend x = x\<lparr>rr_status := ''queued'', rr_lease := 0, rr_not_before := not_before,
     rr_error := truncate_text why 1000, rr_attempts := rr_attempts x - (if spend then 0 else 1)\<rparr>"

definition requeue_review_run :: "review_run \<Rightarrow> int \<Rightarrow> string \<Rightarrow> bool \<Rightarrow> review_db \<Rightarrow> review_db \<times> bool" where
  "requeue_review_run r not_before why spend db =
     (let (db1, ok) = update_runs (has_run r) (put_back_run not_before why spend) db
      in if ok then (release_pr r db1, True) else (db, False))"

subsection \<open>The checkpoint\<close>

record review_anchor =
  an_path :: string
  an_start_line :: int
  an_line :: int
  an_code_hash :: string
  an_snippet :: "snippet option"
  an_fingerprint :: string

text \<open>What a run decided about an earlier finding, as far as it is stored.\<close>

record resolution =
  rn_finding :: int
  rn_fingerprint :: string
  rn_at :: "review_anchor option"
  rn_status :: string
  rn_reason :: string
  rn_refuted :: bool

definition resolved_by :: string where "resolved_by = ''github-review''"

definition of_resolution :: "review_run \<Rightarrow> resolution \<Rightarrow> review_finding \<Rightarrow> bool" where
  "of_resolution r n f \<longleftrightarrow> rf_org f = rr_org r \<and> rf_pr f = rr_pr r \<and> rf_id f = rn_finding n"

definition resolved_finding :: "review_run \<Rightarrow> resolution \<Rightarrow> review_finding \<Rightarrow> review_finding" where
  "resolved_finding r n f = f\<lparr>rf_status := rn_status n, rf_reason := truncate_text (rn_reason n) 600, rf_by := resolved_by,
     rf_last_run := rr_id r\<rparr>"

definition moved_finding :: "review_run \<Rightarrow> resolution \<Rightarrow> review_anchor \<Rightarrow> review_finding \<Rightarrow> review_finding" where
  "moved_finding r n a f = f\<lparr>rf_finding := (rf_finding f)\<lparr>fd_path := an_path a, fd_start_line := an_start_line a, fd_line := an_line a\<rparr>,
     rf_anchor_sha := rr_head r, rf_code_hash := an_code_hash a, rf_snippet := kept_snippet (an_snippet a),
     rf_fingerprint := (if an_fingerprint a \<noteq> '''' then an_fingerprint a else rn_fingerprint n),
     rf_outdated := False, rf_last_run := rr_id r\<rparr>"

text \<open>The row, as each of the statements leaves it in turn, and whether the change of its status was written.\<close>

definition opened_again :: "review_run \<Rightarrow> resolution \<Rightarrow> review_finding \<Rightarrow> review_finding" where
  "opened_again r n f = (if rn_status n = ''open'' \<and> rf_status f = ''fixed'' \<and> rf_by f = resolved_by then resolved_finding r n f else f)"

definition moved_to_head :: "review_run \<Rightarrow> resolution \<Rightarrow> review_finding \<Rightarrow> review_finding" where
  "moved_to_head r n f = (case rn_at n of Some a \<Rightarrow> if standing f then moved_finding r n a f else f | None \<Rightarrow> f)"

definition claim_refuted :: "review_run \<Rightarrow> resolution \<Rightarrow> review_finding \<Rightarrow> review_finding" where
  "claim_refuted r n f = (if rn_refuted n \<and> standing f
     then f\<lparr>rf_claimed_sha := '''', rf_claimed_by := '''', rf_last_run := rr_id r\<rparr> else f)"

definition closed_finding :: "review_run \<Rightarrow> resolution \<Rightarrow> review_finding \<Rightarrow> review_finding" where
  "closed_finding r n f = (if rn_status n \<noteq> '''' \<and> rn_status n \<noteq> ''open'' \<and> standing f then resolved_finding r n f else f)"

definition applied_resolution :: "review_run \<Rightarrow> resolution \<Rightarrow> review_finding \<Rightarrow> review_finding" where
  "applied_resolution r n f = closed_finding r n (claim_refuted r n (moved_to_head r n (opened_again r n f)))"

definition status_applied :: "resolution \<Rightarrow> review_finding \<Rightarrow> bool" where
  "status_applied n f \<longleftrightarrow> (if rn_status n = ''open'' then rf_status f = ''fixed'' \<and> rf_by f = resolved_by
     else rn_status n \<noteq> '''' \<and> standing f)"

definition apply_resolution :: "review_run \<Rightarrow> resolution \<Rightarrow> review_db \<Rightarrow> review_db \<times> bool" where
  "apply_resolution r n db = (fst (update_findings (of_resolution r n) (applied_resolution r n) db),
     list_ex (\<lambda>f. of_resolution r n f \<and> status_applied n f) (rv_findings db))"

fun apply_resolutions :: "review_run \<Rightarrow> resolution list \<Rightarrow> review_db \<Rightarrow> review_db \<times> bool list" where
  "apply_resolutions r [] db = (db, [])"
| "apply_resolutions r (n # ns) db = (let (db1, b) = apply_resolution r n db; (db2, bs) = apply_resolutions r ns db1 in (db2, b # bs))"

fun insert_findings :: "int \<Rightarrow> review_run \<Rightarrow> (string \<times> review_finding) list \<Rightarrow> review_db \<Rightarrow> review_error + review_db" where
  "insert_findings now r [] db = Inr db"
| "insert_findings now r ((pub, f) # fs) db = (case insert_review_finding now pub (rr_org r) (rr_pr r) (rr_id r) f db of
     Inl e \<Rightarrow> Inl e | Inr (db', _) \<Rightarrow> insert_findings now r fs db')"

definition see_again :: "review_run \<Rightarrow> string \<Rightarrow> review_db \<Rightarrow> review_db" where
  "see_again r pub db = fst (update_findings (\<lambda>f. rf_org f = rr_org r \<and> rf_pr f = rr_pr r \<and> rf_public f = pub)
     (\<lambda>f. f\<lparr>rf_last_run := rr_id r, rf_outdated := False\<rparr>) db)"

definition checkpointed_run :: "review_run \<Rightarrow> string \<Rightarrow> review_run \<Rightarrow> review_run" where
  "checkpointed_run r outcome x = x\<lparr>rr_outcome := outcome, rr_head := rr_head r, rr_base := rr_base r, rr_cache := rr_cache r,
     rr_types := rr_types r, rr_rule := truncate_text (rr_rule r) 200, rr_config := rr_config r\<rparr>"

text \<open>What was applied of each resolution; an error leaves the database as it was.\<close>

definition save_review_outcome :: "int \<Rightarrow> review_run \<Rightarrow> string \<Rightarrow> (string \<times> review_finding) list \<Rightarrow> string list \<Rightarrow>
    resolution list \<Rightarrow> review_db \<Rightarrow> review_db \<times> (review_error + bool list)" where
  "save_review_outcome now r outcome found seen resolved db =
     (let (db1, ok) = update_runs (\<lambda>x. has_run r x \<and> held_pr db (rr_lease r) x) (checkpointed_run r outcome) db
      in if \<not> ok then (db, Inl Lease_lost)
         else (case insert_findings now r found db1 of Inl e \<Rightarrow> (db, Inl e)
            | Inr db2 \<Rightarrow> (let (db3, bs) = apply_resolutions r resolved (fold (see_again r) seen db2) in (db3, Inr bs))))"

definition save_review_checkpoint :: "int \<Rightarrow> review_run \<Rightarrow> string \<Rightarrow> (string \<times> review_finding) list \<Rightarrow> string list \<Rightarrow>
    review_db \<Rightarrow> review_db \<times> (review_error + bool list)" where
  "save_review_checkpoint now r outcome found seen db = save_review_outcome now r outcome found seen [] db"

section \<open>Cancelling and sweeping\<close>

definition of_pr :: "int \<Rightarrow> int \<Rightarrow> review_run \<Rightarrow> bool" where
  "of_pr org pr r \<longleftrightarrow> rr_org r = org \<and> rr_pr r = pr"

definition stops_now :: "int \<Rightarrow> int \<Rightarrow> int \<Rightarrow> review_run \<Rightarrow> bool" where
  "stops_now now org pr r \<longleftrightarrow> of_pr org pr r \<and>
     (rr_status r = ''queued'' \<or> rr_status r = ''running'' \<and> rr_lease r \<le> now)"

definition is_asked :: "int \<Rightarrow> int \<Rightarrow> int \<Rightarrow> review_run \<Rightarrow> bool" where
  "is_asked now org pr r \<longleftrightarrow> of_pr org pr r \<and> going now r \<and> \<not> rr_cancel r"

definition stopped_run :: "int \<Rightarrow> string \<Rightarrow> review_run \<Rightarrow> review_run" where
  "stopped_run now why x = x\<lparr>rr_status := ''cancelled'', rr_cancel := True, rr_lease := 0, rr_error := why, rr_finished := Some now\<rparr>"

definition cancel_review_runs :: "int \<Rightarrow> int \<Rightarrow> int \<Rightarrow> string \<Rightarrow> review_db \<Rightarrow> review_db \<times> nat" where
  "cancel_review_runs now org pr why0 db =
     (let why = truncate_text why0 300;
          db1 = fst (update_runs (stops_now now org pr) (stopped_run now why) db)
      in (fst (update_runs (is_asked now org pr) (\<lambda>x. x\<lparr>rr_cancel := True, rr_error := why\<rparr>) db1),
          length (filter (stops_now now org pr) (rv_runs db)) + length (filter (is_asked now org pr) (rv_runs db1))))"

definition abandoned :: "int \<Rightarrow> review_run \<Rightarrow> bool" where
  "abandoned now r \<longleftrightarrow> rr_status r = ''running'' \<and> rr_lease r \<le> now \<and> (rr_attempts r \<ge> review_run_max_attempts \<or> rr_cancel r)"

definition retired_run :: "int \<Rightarrow> review_run \<Rightarrow> review_run" where
  "retired_run now x = x\<lparr>rr_status := (if rr_cancel x then ''cancelled'' else ''failed''),
     rr_error := (if rr_error x = '''' then ''abandoned: the lane running it stopped reporting back'' else rr_error x),
     rr_lease := 0, rr_finished := Some now\<rparr>"

definition sweep_review_runs :: "int \<Rightarrow> review_db \<Rightarrow> review_db \<times> review_run list" where
  "sweep_review_runs now db = (fst (update_runs (abandoned now) (retired_run now) db),
     map (retired_run now) (filter (abandoned now) (rv_runs db)))"

section \<open>What the gate and the lane read\<close>

definition runs_where :: "(review_run \<Rightarrow> bool) \<Rightarrow> review_db \<Rightarrow> review_run list" where
  "runs_where P db = sort_key rr_id (filter P (rv_runs db))"

definition newest_run :: "(review_run \<Rightarrow> bool) \<Rightarrow> review_db \<Rightarrow> review_run option" where
  "newest_run P db = first_of (rev (runs_where P db))"

definition is_review :: "int \<Rightarrow> int \<Rightarrow> review_run \<Rightarrow> bool" where
  "is_review org pr r \<longleftrightarrow> of_pr org pr r \<and> rr_kind r = ''review''"

definition has_answer :: "review_run \<Rightarrow> bool" where
  "has_answer r \<longleftrightarrow> rr_status r = ''posted'' \<or> rr_status r = ''shadow''"

definition review_cached_run :: "int \<Rightarrow> int \<Rightarrow> string \<Rightarrow> int \<Rightarrow> review_db \<Rightarrow> review_run option" where
  "review_cached_run org pr key except db = (if key = '''' then None
     else newest_run (\<lambda>r. is_review org pr r \<and> rr_cache r = key \<and> has_answer r \<and> rr_id r \<noteq> except) db)"

definition review_reserved_usd :: "int \<Rightarrow> int \<Rightarrow> int \<Rightarrow> review_db \<Rightarrow> rat" where
  "review_reserved_usd now org except db =
     sum_list (map rr_reserved (filter (\<lambda>r. rr_org r = org \<and> going now r \<and> rr_id r \<noteq> except) (rv_runs db)))"

definition newer_review_queued :: "int \<Rightarrow> int \<Rightarrow> int \<Rightarrow> review_db \<Rightarrow> bool" where
  "newer_review_queued org pr run db =
     list_ex (\<lambda>r. is_review org pr r \<and> rr_status r = ''queued'' \<and> \<not> rr_cancel r \<and> rr_id r > run) (rv_runs db)"

definition since :: "stamp \<Rightarrow> int \<Rightarrow> bool" where
  "since s t \<longleftrightarrow> (case s of None \<Rightarrow> False | Some u \<Rightarrow> u \<ge> t)"

definition review_runs_started :: "int \<Rightarrow> int \<Rightarrow> string \<Rightarrow> int \<Rightarrow> int \<Rightarrow> review_db \<Rightarrow> nat \<times> nat" where
  "review_runs_started org pr repo t except db =
     (let rs = filter (\<lambda>r. rr_org r = org \<and> rr_repo r = repo \<and> rr_kind r = ''review'' \<and>
            rr_status r \<in> {''running'', ''posted'', ''shadow'', ''failed''} \<and> since (rr_started r) t \<and> rr_id r \<noteq> except) (rv_runs db)
      in (length (filter (\<lambda>r. rr_pr r = pr) rs), length rs))"

definition review_types_where :: "(review_run \<Rightarrow> bool) \<Rightarrow> int \<Rightarrow> int \<Rightarrow> string \<Rightarrow> int \<Rightarrow> review_db \<Rightarrow> string list" where
  "review_types_where P org pr head except db = (if head = '''' then []
     else foldl add_new [] (concat (map (\<lambda>r. map fst (rr_types r))
       (filter (\<lambda>r. is_review org pr r \<and> rr_head r = head \<and> rr_id r \<noteq> except \<and> P r) (rv_runs db)))))"

definition has_result :: "review_run \<Rightarrow> bool" where
  "has_result r \<longleftrightarrow> has_answer r \<or> rr_status r = ''noop'' \<and> rr_cache r \<noteq> ''''"

definition review_types_at_head :: "int \<Rightarrow> int \<Rightarrow> string \<Rightarrow> int \<Rightarrow> review_db \<Rightarrow> string list" where
  "review_types_at_head = review_types_where (\<lambda>r. rr_status r = ''queued'' \<or> rr_status r = ''running'' \<or> has_result r)"

definition review_label_types_reviewed :: "int \<Rightarrow> int \<Rightarrow> string \<Rightarrow> int \<Rightarrow> review_db \<Rightarrow> string list" where
  "review_label_types_reviewed = review_types_where (\<lambda>r. rr_trigger r = ''label'' \<and> has_result r)"

text \<open>The findings of a pull request that somebody was shown, and the asking run's own.\<close>

definition review_findings_said :: "int \<Rightarrow> int \<Rightarrow> bool \<Rightarrow> int \<Rightarrow> review_db \<Rightarrow> review_finding list" where
  "review_findings_said org pr shadow run db = finding_where (\<lambda>f. rf_org f = org \<and> rf_pr f = pr \<and>
     (rf_comment f > 0 \<or> rf_first_run f = run \<or>
      list_ex (\<lambda>r. is_review org pr r \<and> rr_id r = rf_first_run f \<and>
        (rr_status r = ''posted'' \<or> shadow \<and> rr_status r = ''shadow'' \<or> rr_review r > 0)) (rv_runs db))) db"

definition review_run_findings :: "int \<Rightarrow> int \<Rightarrow> review_db \<Rightarrow> review_finding list" where
  "review_run_findings org run db = finding_where (\<lambda>f. rf_org f = org \<and> rf_first_run f = run) db"

definition latest_review_outcome :: "int \<Rightarrow> int \<Rightarrow> review_db \<Rightarrow> review_run option" where
  "latest_review_outcome org pr db = newest_run (\<lambda>r. is_review org pr r \<and> has_answer r) db"

definition review_active_run :: "int \<Rightarrow> int \<Rightarrow> review_db \<Rightarrow> review_run option" where
  "review_active_run org pr db = newest_run (\<lambda>r. is_review org pr r \<and>
     (rr_status r = ''queued'' \<or> rr_status r = ''running'') \<and> \<not> rr_cancel r) db"

definition review_full_runs_since :: "int \<Rightarrow> int \<Rightarrow> string \<Rightarrow> int \<Rightarrow> review_db \<Rightarrow> nat" where
  "review_full_runs_since org pr head t db = length (filter (\<lambda>r. is_review org pr r \<and> prefix ''full:'' (rr_dedupe r) \<and>
     rr_head r = head \<and> since (rr_created r) t \<and> rr_status r \<notin> {''cancelled'', ''skipped'', ''failed'', ''superseded''}) (rv_runs db))"

definition is_answered_reply :: "int \<Rightarrow> int \<Rightarrow> review_run \<Rightarrow> bool" where
  "is_answered_reply org pr r \<longleftrightarrow> of_pr org pr r \<and> rr_kind r = ''reply'' \<and> rr_outcome r \<noteq> ''{}''"

definition review_replies_started :: "int \<Rightarrow> int \<Rightarrow> int \<Rightarrow> int \<Rightarrow> review_db \<Rightarrow> nat" where
  "review_replies_started org pr t except db =
     length (filter (\<lambda>r. is_answered_reply org pr r \<and> since (rr_started r) t \<and> rr_id r \<noteq> except) (rv_runs db))"

definition review_reply_runs :: "int \<Rightarrow> int \<Rightarrow> nat \<Rightarrow> review_db \<Rightarrow> review_run list" where
  "review_reply_runs org pr limit db = take limit (rev (runs_where (is_answered_reply org pr) db))"

definition review_runs_for_pr :: "int \<Rightarrow> int \<Rightarrow> int \<Rightarrow> review_db \<Rightarrow> review_run list" where
  "review_runs_for_pr org pr limit db =
     take (nat (if limit \<le> 0 \<or> limit > 200 then 200 else limit)) (rev (runs_where (of_pr org pr) db))"

end
