(* ===== verification/Review_Queue_Spec.thy ===== *)
theory Review_Queue_Spec
  imports Review_Queue
begin

text \<open>
  What the queue of review runs promises: one run at a time writes for a pull request, a lease that was lost
  stays lost, a review is counted once, and a sweep leaves no run that nobody will take. The statements
  interleave in any order, each at a reading of one clock that does not go back, a claim may have picked
  its run from any earlier snapshot, and a lane may stop and wake at any time: it comes back with the copy of
  the run it was given.
\<close>

section \<open>The machine of statements\<close>

text \<open>A copy of a run as a lane holds it: the run's identity, and while its lease is the row's, its attempts.\<close>

definition copy_of :: "review_db \<Rightarrow> review_run \<Rightarrow> bool" where
  "copy_of db r \<longleftrightarrow> (\<exists>x\<in>set (rv_runs db). is_run (rr_org r) (rr_id r) x \<and> rr_pr x = rr_pr r \<and>
     (has_run r x \<longrightarrow> rr_attempts x = rr_attempts r))"

text \<open>The statements that change one row of a pull request or a finding, and no lease.\<close>

inductive review_note :: "review_db \<Rightarrow> review_db \<Rightarrow> bool" where
  says_why: "review_note db (fst (set_pr_skip_reason org i why db))"
| pauses: "review_note db (fst (pause_review_pr org i auto db))"
| resumes: "review_note db (fst (resume_review_pr org i db))"
| summarises: "review_note db (fst (set_pr_summary_comment org i cm db))"
| announces: "review_note db (fst (set_pr_notify_root org i team channel ts was db))"
| announced: "review_note db (fst (set_pr_notified org i said db))"
| settles: "review_note db (fst (set_finding_status org i status reason who db))"
| comments: "review_note db (fst (set_finding_comment org i cm db))"
| threads: "review_note db (fst (set_finding_thread org i node db))"
| grades: "review_note db (fst (set_finding_severity org i sev reason who db))"
| claims_fixed: "review_note db (fst (set_finding_claim org i sha who db))"
| replies: "review_note db (fst (add_finding_bot_reply org i db))"
| places: "review_note db (fst (set_finding_placement org i place outdated db))"

text \<open>
  The state is the last reading of the clock and the database. A lane spends an attempt on putting a run back
  only while its copy has one left (\<^verbatim>\<open>retryOrFail\<close>).
\<close>

inductive queue_step :: "int \<times> review_db \<Rightarrow> int \<times> review_db \<Rightarrow> bool" where
  opens: "c \<le> now \<Longrightarrow> queue_step (c, db) (now, fst (upsert_review_pr U org f db))"
| enqueues: "c \<le> now \<Longrightarrow> queue_step (c, db) (now, fst (enqueue_review_run now pub org q db))"
| noted: "c \<le> now \<Longrightarrow> review_note db db' \<Longrightarrow> queue_step (c, db) (now, db')"
| claims: "c \<le> now \<Longrightarrow> queue_step (c, db) (now, fst (claim_once now snap db))"
| renews: "c \<le> now \<Longrightarrow> copy_of db r \<Longrightarrow> queue_step (c, db) (now, fst (touch_review_run now r db))"
| posts: "c \<le> now \<Longrightarrow> copy_of db r \<Longrightarrow> queue_step (c, db) (now, fst (set_run_github_review r cm db))"
| reserves: "c \<le> now \<Longrightarrow> copy_of db r \<Longrightarrow> queue_step (c, db) (now, fst (set_run_reserved r usd db))"
| scores: "c \<le> now \<Longrightarrow> copy_of db r \<Longrightarrow> queue_step (c, db) (now, fst (set_pr_score r score db))"
| checkpoints: "c \<le> now \<Longrightarrow> copy_of db r \<Longrightarrow>
    queue_step (c, db) (now, fst (save_review_outcome now r outcome found seen resolved db))"
| ends: "c \<le> now \<Longrightarrow> copy_of db r \<Longrightarrow> queue_step (c, db) (now, fst (finish_review_run now r res db))"
| puts_back: "c \<le> now \<Longrightarrow> copy_of db r \<Longrightarrow> (spend \<Longrightarrow> rr_attempts r < review_run_max_attempts) \<Longrightarrow>
    queue_step (c, db) (now, fst (requeue_review_run r not_before why spend db))"
| cancels: "c \<le> now \<Longrightarrow> queue_step (c, db) (now, fst (cancel_review_runs now org pr why db))"
| sweeps: "c \<le> now \<Longrightarrow> queue_step (c, db) (now, fst (sweep_review_runs now db))"

abbreviation queue_run :: "int \<times> review_db \<Rightarrow> int \<times> review_db \<Rightarrow> bool" where
  "queue_run \<equiv> queue_step\<^sup>*\<^sup>*"

section \<open>What holds of the rows\<close>

definition running :: "review_run \<Rightarrow> bool" where
  "running r \<longleftrightarrow> rr_status r = ''running''"

definition over :: "review_run \<Rightarrow> bool" where
  "over r \<longleftrightarrow> rr_status r \<in> set review_run_ends"

definition run_ok :: "int \<Rightarrow> review_run \<Rightarrow> bool" where
  "run_ok c r \<longleftrightarrow> (rr_status r = ''queued'' \<or> running r \<or> over r) \<and> 0 \<le> rr_attempts r \<and>
     rr_attempts r \<le> review_run_max_attempts \<and>
     (if running r then 0 < rr_lease r \<and> rr_lease r \<le> c + review_run_lease \<and> 1 \<le> rr_attempts r else rr_lease r = 0) \<and>
     (rr_status r = ''queued'' \<and> \<not> rr_cancel r \<longrightarrow> rr_attempts r < review_run_max_attempts)"

definition on_pr :: "review_run \<Rightarrow> review_pr \<Rightarrow> bool" where
  "on_pr r p \<longleftrightarrow> is_pr (rr_org r) (rr_pr r) p"

definition reviews_of :: "review_run list \<Rightarrow> review_pr \<Rightarrow> nat" where
  "reviews_of runs p = length (filter (\<lambda>r. on_pr r p \<and> over r) runs)"

definition queue_ok :: "int \<times> review_db \<Rightarrow> bool" where
  "queue_ok s \<longleftrightarrow> (case s of (c, db) \<Rightarrow> 0 \<le> c \<and> distinct (map rp_id (rv_prs db)) \<and> distinct (map rr_id (rv_runs db)) \<and>
     (\<forall>r\<in>set (rv_runs db). run_ok c r) \<and>
     (\<forall>r\<in>set (rv_runs db). \<exists>p\<in>set (rv_prs db). on_pr r p) \<and>
     (\<forall>r\<in>set (rv_runs db). \<forall>p\<in>set (rv_prs db). on_pr r p \<and> going c r \<longrightarrow> rp_lease p = rr_lease r) \<and>
     (\<forall>r\<in>set (rv_runs db). \<forall>r'\<in>set (rv_runs db). running r \<and> running r' \<and> rr_pr r = rr_pr r' \<and> rr_lease r = rr_lease r' \<longrightarrow>
        rr_id r = rr_id r') \<and>
     (\<forall>p\<in>set (rv_prs db). rp_reviews p \<le> int (reviews_of (rv_runs db) p)))"

text \<open>At the start there are pull requests and runs as they were queued, and nothing else.\<close>

definition queue_start :: "int \<times> review_db \<Rightarrow> bool" where
  "queue_start s \<longleftrightarrow> 0 \<le> fst s \<and> rv_prs (snd s) = [] \<and> rv_runs (snd s) = [] \<and> rv_findings (snd s) = []"

lemma queue_start_ok: "queue_start s \<Longrightarrow> queue_ok s"
  by (cases s) (simp add: queue_start_def queue_ok_def)

section \<open>Changes of the rows\<close>

lemma queue_okD:
  assumes "queue_ok (c, db)"
  shows "0 \<le> c" "distinct (map rp_id (rv_prs db))" "distinct (map rr_id (rv_runs db))"
    and "r \<in> set (rv_runs db) \<Longrightarrow> run_ok c r"
    and "r \<in> set (rv_runs db) \<Longrightarrow> \<exists>p\<in>set (rv_prs db). on_pr r p"
    and "r \<in> set (rv_runs db) \<Longrightarrow> p \<in> set (rv_prs db) \<Longrightarrow> on_pr r p \<Longrightarrow> going c r \<Longrightarrow> rp_lease p = rr_lease r"
    and "r \<in> set (rv_runs db) \<Longrightarrow> r' \<in> set (rv_runs db) \<Longrightarrow> running r \<Longrightarrow> running r' \<Longrightarrow> rr_pr r = rr_pr r' \<Longrightarrow>
      rr_lease r = rr_lease r' \<Longrightarrow> rr_id r = rr_id r'"
    and "p \<in> set (rv_prs db) \<Longrightarrow> rp_reviews p \<le> int (reviews_of (rv_runs db) p)"
  using assms unfolding queue_ok_def prod.case by blast+

lemma queue_okI:
  assumes "0 \<le> c" "distinct (map rp_id (rv_prs db))" "distinct (map rr_id (rv_runs db))"
    and "\<And>r. r \<in> set (rv_runs db) \<Longrightarrow> run_ok c r"
    and "\<And>r. r \<in> set (rv_runs db) \<Longrightarrow> \<exists>p\<in>set (rv_prs db). on_pr r p"
    and "\<And>r p. r \<in> set (rv_runs db) \<Longrightarrow> p \<in> set (rv_prs db) \<Longrightarrow> on_pr r p \<Longrightarrow> going c r \<Longrightarrow> rp_lease p = rr_lease r"
    and "\<And>r r'. r \<in> set (rv_runs db) \<Longrightarrow> r' \<in> set (rv_runs db) \<Longrightarrow> running r \<Longrightarrow> running r' \<Longrightarrow> rr_pr r = rr_pr r' \<Longrightarrow>
      rr_lease r = rr_lease r' \<Longrightarrow> rr_id r = rr_id r'"
    and "\<And>p. p \<in> set (rv_prs db) \<Longrightarrow> rp_reviews p \<le> int (reviews_of (rv_runs db) p)"
  shows "queue_ok (c, db)"
  using assms unfolding queue_ok_def prod.case by blast

definition same_run :: "review_run \<Rightarrow> review_run \<Rightarrow> bool" where
  "same_run r r' \<longleftrightarrow> rr_id r' = rr_id r \<and> rr_org r' = rr_org r \<and> rr_pr r' = rr_pr r"

definition same_life :: "review_run \<Rightarrow> review_run \<Rightarrow> bool" where
  "same_life r r' \<longleftrightarrow> rr_status r' = rr_status r \<and> rr_lease r' = rr_lease r \<and> rr_attempts r' = rr_attempts r \<and>
     (rr_cancel r \<longrightarrow> rr_cancel r')"

definition same_place :: "review_pr \<Rightarrow> review_pr \<Rightarrow> bool" where
  "same_place p p' \<longleftrightarrow> rp_id p' = rp_id p \<and> rp_org p' = rp_org p"

lemma on_pr_same: "same_run r r' \<Longrightarrow> same_place p p' \<Longrightarrow> on_pr r' p' = on_pr r p"
  by (simp add: same_run_def same_place_def on_pr_def is_pr_def)

lemma same_run_refl [simp]: "same_run r r" and same_life_refl [simp]: "same_life r r" and same_place_refl [simp]: "same_place p p"
  by (simp_all add: same_run_def same_life_def same_place_def)

lemma run_ok_later: "run_ok c r \<Longrightarrow> c \<le> now \<Longrightarrow> same_life r r' \<Longrightarrow> run_ok now r'"
  by (auto simp: run_ok_def same_life_def running_def over_def split: if_splits)

lemma reviews_of_mono:
  assumes "\<forall>r\<in>set rs. same_run r (F r) \<and> (over r \<longrightarrow> over (F r))" "same_place p p'"
  shows "reviews_of rs p \<le> reviews_of (map F rs) p'"
  using assms(1)
proof (induction rs)
  case (Cons r rs)
  then have "on_pr (F r) p' = on_pr r p" using assms(2) by (simp add: on_pr_same)
  with Cons show ?case by (auto simp: reviews_of_def)
qed (simp add: reviews_of_def)

lemma reviews_of_one_more:
  assumes "\<forall>r\<in>set rs. same_run r (F r) \<and> (over r \<longrightarrow> over (F r))" "same_place p p'"
    and "\<exists>r\<in>set rs. on_pr r p \<and> \<not> over r \<and> over (F r)"
  shows "reviews_of rs p < reviews_of (map F rs) p'"
  using assms(1,3)
proof (induction rs)
  case (Cons r rs)
  then have on: "on_pr (F r) p' = on_pr r p" using assms(2) by (simp add: on_pr_same)
  have le: "reviews_of rs p \<le> reviews_of (map F rs) p'" using Cons.prems(1) assms(2) by (intro reviews_of_mono) simp_all
  show ?case
  proof (cases "on_pr r p \<and> \<not> over r \<and> over (F r)")
    case True
    with on le show ?thesis by (simp add: reviews_of_def)
  next
    case False
    with Cons have "reviews_of rs p < reviews_of (map F rs) p'" by auto
    with on Cons.prems(1) show ?thesis by (auto simp: reviews_of_def)
  qed
qed simp

definition still_counted :: "review_run list \<Rightarrow> (review_run \<Rightarrow> review_run) \<Rightarrow> review_pr \<Rightarrow> review_pr \<Rightarrow> bool" where
  "still_counted rs F p p' \<longleftrightarrow> rp_reviews p' = rp_reviews p \<or>
     rp_reviews p' = rp_reviews p + 1 \<and> (\<exists>r\<in>set rs. on_pr r p \<and> \<not> over r \<and> over (F r))"

lemma reviews_bounded:
  assumes "\<forall>r\<in>set rs. same_run r (F r) \<and> (over r \<longrightarrow> over (F r))" "same_place p p'" "still_counted rs F p p'"
    and "rp_reviews p \<le> int (reviews_of rs p)"
  shows "rp_reviews p' \<le> int (reviews_of (map F rs) p')"
proof (cases "rp_reviews p' = rp_reviews p")
  case True
  with assms(4) reviews_of_mono [OF assms(1,2)] show ?thesis by simp
next
  case False
  with assms(3) have "\<exists>r\<in>set rs. on_pr r p \<and> \<not> over r \<and> over (F r)" "rp_reviews p' = rp_reviews p + 1"
    by (auto simp: still_counted_def)
  with assms(4) reviews_of_one_more [OF assms(1,2)] show ?thesis by simp
qed

text \<open>Rows changed in place: what is left to show of them.\<close>

lemma queue_ok_maps:
  assumes ok: "queue_ok (c, db)" and now: "c \<le> now"
    and runs: "rv_runs db' = map F (rv_runs db)" and prs: "rv_prs db' = map G (rv_prs db)"
    and keeps: "\<And>r. r \<in> set (rv_runs db) \<Longrightarrow> same_run r (F r) \<and> (over r \<longrightarrow> over (F r))"
    and place: "\<And>p. p \<in> set (rv_prs db) \<Longrightarrow> same_place p (G p) \<and> still_counted (rv_runs db) F p (G p)"
    and good: "\<And>r. r \<in> set (rv_runs db) \<Longrightarrow> run_ok now (F r)"
    and fence: "\<And>r p. r \<in> set (rv_runs db) \<Longrightarrow> p \<in> set (rv_prs db) \<Longrightarrow> on_pr r p \<Longrightarrow> going now (F r) \<Longrightarrow> rp_lease (G p) = rr_lease (F r)"
    and one: "\<And>r r'. r \<in> set (rv_runs db) \<Longrightarrow> r' \<in> set (rv_runs db) \<Longrightarrow> running (F r) \<Longrightarrow> running (F r') \<Longrightarrow> rr_pr r = rr_pr r' \<Longrightarrow>
      rr_lease (F r) = rr_lease (F r') \<Longrightarrow> rr_id r = rr_id r'"
  shows "queue_ok (now, db')"
proof -
  note O = queue_okD [OF ok]
  have on: "on_pr (F r) (G p) = on_pr r p" if "r \<in> set (rv_runs db)" "p \<in> set (rv_prs db)" for r p
    using keeps place that by (simp add: on_pr_same)
  have id: "rr_id (F r) = rr_id r" "rr_pr (F r) = rr_pr r" if "r \<in> set (rv_runs db)" for r
    using keeps that by (auto simp: same_run_def)
  have ids: "map rp_id (map G (rv_prs db)) = map rp_id (rv_prs db)" "map rr_id (map F (rv_runs db)) = map rr_id (rv_runs db)"
    using id place by (auto simp: same_place_def)
  show ?thesis
  proof (rule queue_okI)
    show "0 \<le> now" using O(1) now by simp
    show "distinct (map rp_id (rv_prs db'))" "distinct (map rr_id (rv_runs db'))"
      unfolding runs prs ids by (rule O)+
  next
    fix r assume "r \<in> set (rv_runs db')"
    then obtain a where r: "a \<in> set (rv_runs db)" "r = F a" unfolding runs by auto
    with good show "run_ok now r" by simp
    from r O(5) [OF r(1)] on show "\<exists>p\<in>set (rv_prs db'). on_pr r p" by (auto simp: prs)
  next
    fix r p assume "r \<in> set (rv_runs db')" "p \<in> set (rv_prs db')" and g: "on_pr r p" "going now r"
    then obtain a b where z: "a \<in> set (rv_runs db)" "r = F a" "b \<in> set (rv_prs db)" "p = G b" unfolding runs prs by auto
    show "rp_lease p = rr_lease r" unfolding z by (rule fence [OF z(1,3)]) (use g z on in simp_all)
  next
    fix r r' assume "r \<in> set (rv_runs db')" "r' \<in> set (rv_runs db')" and eq: "running r" "running r'" "rr_pr r = rr_pr r'"
      "rr_lease r = rr_lease r'"
    then obtain a b where z: "a \<in> set (rv_runs db)" "r = F a" "b \<in> set (rv_runs db)" "r' = F b" unfolding runs by auto
    have "rr_id a = rr_id b" by (rule one [OF z(1,3)]) (use eq z id in simp_all)
    then show "rr_id r = rr_id r'" using z id by simp
  next
    fix p assume "p \<in> set (rv_prs db')"
    then obtain b where b: "b \<in> set (rv_prs db)" "p = G b" unfolding prs by auto
    show "rp_reviews p \<le> int (reviews_of (rv_runs db') p)"
      unfolding runs b(2) by (rule reviews_bounded [of _ _ b]) (use keeps place [OF b(1)] O(8) [OF b(1)] in auto)
  qed
qed

text \<open>Runs stop or stay as they were, and a pull request is let go only when no run goes on it.\<close>

definition stops :: "int \<Rightarrow> review_run \<Rightarrow> review_run \<Rightarrow> bool" where
  "stops now r r' \<longleftrightarrow> same_life r r' \<or> \<not> running r' \<and> run_ok now r' \<and> (over r \<longrightarrow> over r')"

lemma stop_change:
  assumes ok: "queue_ok (c, db)" and now: "c \<le> now"
    and runs: "rv_runs db' = map F (rv_runs db)" and prs: "rv_prs db' = map G (rv_prs db)"
    and F: "\<forall>r\<in>set (rv_runs db). same_run r (F r) \<and> stops now r (F r)"
    and G: "\<forall>p\<in>set (rv_prs db). same_place p (G p) \<and> still_counted (rv_runs db) F p (G p) \<and>
      (rp_lease (G p) = rp_lease p \<or> (\<forall>r\<in>set (rv_runs db). on_pr r p \<longrightarrow> \<not> going now (F r)))"
  shows "queue_ok (now, db')"
proof (rule queue_ok_maps [OF ok now runs prs])
  note O = queue_okD [OF ok]
  have life: "same_life r (F r)" if "r \<in> set (rv_runs db)" "running (F r)" for r
    using F that by (auto simp: stops_def)
  fix r assume r: "r \<in> set (rv_runs db)"
  show "same_run r (F r) \<and> (over r \<longrightarrow> over (F r))" using F r by (auto simp: stops_def same_life_def over_def)
  show "run_ok now (F r)" using F O(4) [OF r] r now by (auto simp: stops_def intro: run_ok_later)
  {
    fix p assume p: "p \<in> set (rv_prs db)" "on_pr r p" and g: "going now (F r)"
    then have l: "same_life r (F r)" using life r by (simp add: going_def running_def)
    then have "going c r" using g now by (simp add: same_life_def going_def)
    then show "rp_lease (G p) = rr_lease (F r)" using O(6) [OF r p] G p r g l by (auto simp: same_life_def)
  }
  fix r' assume r': "r' \<in> set (rv_runs db)" and eq: "running (F r)" "running (F r')" "rr_pr r = rr_pr r'" "rr_lease (F r) = rr_lease (F r')"
  show "rr_id r = rr_id r'"
    by (rule O(7) [OF r r']) (use eq life [OF r eq(1)] life [OF r' eq(2)] in \<open>simp_all add: same_life_def running_def\<close>)
qed (use G in blast)

text \<open>One run takes a lease, and its pull request with it, when the other runs of that pull request are not going.\<close>

definition takes :: "int \<Rightarrow> review_run \<Rightarrow> review_run \<Rightarrow> bool" where
  "takes now r r' \<longleftrightarrow> same_run r r' \<and> running r' \<and> rr_lease r' = now + review_run_lease \<and> run_ok now r' \<and> \<not> over r"

lemma same_id: "queue_ok (c, db) \<Longrightarrow> r \<in> set (rv_runs db) \<Longrightarrow> r' \<in> set (rv_runs db) \<Longrightarrow> rr_id r = rr_id r' \<Longrightarrow> r = r'"
  by (metis queue_okD(3) distinct_map inj_onD)

lemma hold_change:
  assumes ok: "queue_ok (c, db)" and now: "c \<le> now"
    and runs: "rv_runs db' = map F (rv_runs db)" and prs: "rv_prs db' = map G (rv_prs db)"
    and r0: "r0 \<in> set (rv_runs db)"
    and F: "takes now r0 (F r0)" "\<And>r. r \<in> set (rv_runs db) \<Longrightarrow> rr_id r \<noteq> rr_id r0 \<Longrightarrow> F r = r"
    and G: "\<forall>p\<in>set (rv_prs db). if on_pr r0 p
      then same_place p (G p) \<and> rp_lease (G p) = now + review_run_lease \<and> rp_reviews (G p) = rp_reviews p else G p = p"
    and others: "\<And>r. r \<in> set (rv_runs db) \<Longrightarrow> running r \<Longrightarrow> rr_pr r = rr_pr r0 \<Longrightarrow> rr_id r \<noteq> rr_id r0 \<Longrightarrow> rr_lease r \<le> now"
  shows "queue_ok (now, db')"
proof (rule queue_ok_maps [OF ok now runs prs])
  note O = queue_okD [OF ok]
  have cases: "r = r0 \<or> rr_id r \<noteq> rr_id r0 \<and> F r = r" if "r \<in> set (rv_runs db)" for r
    using F(2) same_id [OF ok that r0] that by blast
  have lease: "0 < review_run_lease" by (simp add: review_run_lease_def nanos_def)
  fix r assume r: "r \<in> set (rv_runs db)"
  show "same_run r (F r) \<and> (over r \<longrightarrow> over (F r))" using cases [OF r] F(1) by (auto simp: takes_def)
  show "run_ok now (F r)" using cases [OF r] F(1) run_ok_later [OF O(4) [OF r] now same_life_refl] by (auto simp: takes_def)
  {
    fix p assume p: "p \<in> set (rv_prs db)" "on_pr r p" and g: "going now (F r)"
    show "rp_lease (G p) = rr_lease (F r)"
    proof (cases "r = r0")
      case True
      with p G F(1) show ?thesis by (auto simp: takes_def)
    next
      case False
      with cases [OF r] have Fr: "rr_id r \<noteq> rr_id r0" "F r = r" by simp_all
      then have "rr_pr r \<noteq> rr_pr r0" using others [OF r] g by (auto simp: going_def running_def)
      then have "G p = p" using G p by (auto simp: on_pr_def is_pr_def)
      then show ?thesis using O(6) [OF r p] Fr g now by (simp add: going_def)
    qed
  }
  fix r' assume r': "r' \<in> set (rv_runs db)" and eq: "running (F r)" "running (F r')" "rr_pr r = rr_pr r'" "rr_lease (F r) = rr_lease (F r')"
  show "rr_id r = rr_id r'"
  proof (cases "r = r0"; cases "r' = r0")
    assume "r \<noteq> r0" "r' \<noteq> r0"
    then show ?thesis using cases [OF r] cases [OF r'] eq by (intro O(7) [OF r r']) simp_all
  qed (use cases [OF r] cases [OF r'] others [OF r] others [OF r'] F(1) eq lease in \<open>auto simp: takes_def\<close>)
next
  fix p assume "p \<in> set (rv_prs db)"
  then show "same_place p (G p) \<and> still_counted (rv_runs db) F p (G p)" using G by (auto simp: still_counted_def split: if_splits)
qed

text \<open>A new row: a run in the queue, or a pull request nobody holds.\<close>

lemma next_id_fresh: "x \<in> set ids \<Longrightarrow> x < next_id ids"
proof -
  have "x \<le> foldr max ids 0" if "x \<in> set ids" using that by (induction ids) auto
  then show "x \<in> set ids \<Longrightarrow> x < next_id ids" by (simp add: next_id_def)
qed

lemma run_change:
  assumes ok: "queue_ok (c, db)" and now: "c \<le> now"
    and r: "rr_id r = next_id (map rr_id (rv_runs db))" "rr_status r = ''queued''" "rr_lease r = 0" "rr_attempts r = 0"
    and p: "p \<in> set (rv_prs db)" "on_pr r p"
  shows "queue_ok (now, db\<lparr>rv_runs := rv_runs db @ [r]\<rparr>)"
proof -
  have ok': "queue_ok (now, db)"
    by (rule stop_change [OF ok now, of _ "\<lambda>x. x" "\<lambda>x. x"]) (simp_all add: stops_def still_counted_def)
  note O = queue_okD [OF ok']
  have new: "run_ok now r" "\<not> running r" "\<not> going now r" "\<not> over r" "rr_id r \<notin> set (map rr_id (rv_runs db))"
    using r next_id_fresh [of "rr_id r" "map rr_id (rv_runs db)"]
    by (auto simp: run_ok_def running_def going_def over_def review_run_ends_def review_run_max_attempts_def)
  show ?thesis
  proof (rule queue_okI)
    fix q assume "q \<in> set (rv_prs (db\<lparr>rv_runs := rv_runs db @ [r]\<rparr>))"
    then show "rp_reviews q \<le> int (reviews_of (rv_runs (db\<lparr>rv_runs := rv_runs db @ [r]\<rparr>)) q)"
      using O(8) [of q] new by (simp add: reviews_of_def)
  next
    fix a b assume "a \<in> set (rv_runs (db\<lparr>rv_runs := rv_runs db @ [r]\<rparr>))" "b \<in> set (rv_runs (db\<lparr>rv_runs := rv_runs db @ [r]\<rparr>))"
      and eq: "running a" "running b" "rr_pr a = rr_pr b" "rr_lease a = rr_lease b"
    then have "a \<in> set (rv_runs db)" "b \<in> set (rv_runs db)" using new by auto
    then show "rr_id a = rr_id b" by (rule O(7)) (fact eq)+
  next
    fix a q assume "a \<in> set (rv_runs (db\<lparr>rv_runs := rv_runs db @ [r]\<rparr>))" "q \<in> set (rv_prs (db\<lparr>rv_runs := rv_runs db @ [r]\<rparr>))"
      and g: "on_pr a q" "going now a"
    then have "a \<in> set (rv_runs db)" "q \<in> set (rv_prs db)" using new by auto
    then show "rp_lease q = rr_lease a" by (rule O(6)) (fact g)+
  qed (use O(1-5) new p in \<open>auto\<close>)
qed

lemma pr_change:
  assumes ok: "queue_ok (c, db)" and now: "c \<le> now"
    and p: "rp_id p = next_id (map rp_id (rv_prs db))" "rp_reviews p = 0"
  shows "queue_ok (now, db\<lparr>rv_prs := rv_prs db @ [p]\<rparr>)"
proof -
  have ok': "queue_ok (now, db)"
    by (rule stop_change [OF ok now, of _ "\<lambda>x. x" "\<lambda>x. x"]) (simp_all add: stops_def still_counted_def)
  note O = queue_okD [OF ok']
  have new: "rp_id p \<notin> rp_id ` set (rv_prs db)" using p next_id_fresh [of "rp_id p" "map rp_id (rv_prs db)"] by auto
  have none: "\<not> on_pr r p" if "r \<in> set (rv_runs db)" for r
    using O(5) [OF that] new by (auto simp: on_pr_def is_pr_def image_iff)
  show ?thesis
  proof (rule queue_okI)
    fix a q assume "a \<in> set (rv_runs (db\<lparr>rv_prs := rv_prs db @ [p]\<rparr>))" "q \<in> set (rv_prs (db\<lparr>rv_prs := rv_prs db @ [p]\<rparr>))"
      and g: "on_pr a q" "going now a"
    then have "a \<in> set (rv_runs db)" "q \<in> set (rv_prs db)" using none by auto
    then show "rp_lease q = rr_lease a" by (rule O(6)) (fact g)+
  next
    fix q assume "q \<in> set (rv_prs (db\<lparr>rv_prs := rv_prs db @ [p]\<rparr>))"
    then show "rp_reviews q \<le> int (reviews_of (rv_runs (db\<lparr>rv_prs := rv_prs db @ [p]\<rparr>)) q)"
      using O(8) [of q] p by auto
  next
    fix a b assume "a \<in> set (rv_runs (db\<lparr>rv_prs := rv_prs db @ [p]\<rparr>))" "b \<in> set (rv_runs (db\<lparr>rv_prs := rv_prs db @ [p]\<rparr>))"
      and eq: "running a" "running b" "rr_pr a = rr_pr b" "rr_lease a = rr_lease b"
    then have "a \<in> set (rv_runs db)" "b \<in> set (rv_runs db)" by simp_all
    then show "rr_id a = rr_id b" by (rule O(7)) (fact eq)+
  qed (use O(1-5) new in \<open>auto\<close>)
qed

section \<open>Every statement keeps it\<close>

text \<open>What a statement leaves of the tables it does not name.\<close>

lemma update_rows_tables [simp]:
  "rv_runs (fst (update_runs P f db)) = map (\<lambda>r. if P r then f r else r) (rv_runs db)"
  "rv_prs (fst (update_runs P f db)) = rv_prs db"
  "rv_prs (fst (update_pr Q g db)) = map (\<lambda>p. if Q p then g p else p) (rv_prs db)"
  "rv_runs (fst (update_pr Q g db)) = rv_runs db"
  "rv_runs (fst (update_findings R h db)) = rv_runs db"
  "rv_prs (fst (update_findings R h db)) = rv_prs db"
  "snd (update_runs P f db) \<longleftrightarrow> list_ex P (rv_runs db)"
  "snd (update_pr Q g db) \<longleftrightarrow> list_ex Q (rv_prs db)"
  by (simp_all add: update_runs_def update_pr_def update_findings_def update_rows_def fenced_write_def)

lemma lease_positive: "0 < review_run_lease"
  by (simp add: review_run_lease_def nanos_def)

lemma not_over [simp]: "rr_status r = ''queued'' \<Longrightarrow> \<not> over r" "rr_status r = ''running'' \<Longrightarrow> \<not> over r"
  by (simp_all add: over_def review_run_ends_def)

text \<open>Only pull requests change, and neither their leases nor their counts.\<close>

definition noted_in :: "review_db \<Rightarrow> review_db \<Rightarrow> bool" where
  "noted_in db db' \<longleftrightarrow> (\<exists>G. rv_runs db' = rv_runs db \<and> rv_prs db' = map G (rv_prs db) \<and>
     (\<forall>p. same_place p (G p) \<and> rp_lease (G p) = rp_lease p \<and> rp_reviews (G p) = rp_reviews p))"

lemma noted_in_ok: "queue_ok (c, db) \<Longrightarrow> c \<le> now \<Longrightarrow> noted_in db db' \<Longrightarrow> queue_ok (now, db')"
  unfolding noted_in_def
  by (elim exE conjE, rule stop_change [of c db now db' "\<lambda>r. r"], assumption, assumption, simp, assumption)
    (simp_all add: stops_def still_counted_def)

lemma noted_in_same: "rv_runs db' = rv_runs db \<Longrightarrow> rv_prs db' = rv_prs db \<Longrightarrow> noted_in db db'"
  unfolding noted_in_def by (rule exI [of _ "\<lambda>p. p"]) simp

lemma noted_in_update:
  "(\<And>p. same_place p (f p) \<and> rp_lease (f p) = rp_lease p \<and> rp_reviews (f p) = rp_reviews p) \<Longrightarrow>
   noted_in db (fst (update_pr P f db))"
  unfolding noted_in_def by (rule exI [of _ "\<lambda>p. if P p then f p else p"]) simp

lemma review_note_noted: "review_note db db' \<Longrightarrow> noted_in db db'"
  by (induction rule: review_note.induct)
    (auto simp: set_pr_skip_reason_def pause_review_pr_def resume_review_pr_def set_pr_summary_comment_def
      set_pr_notify_root_def set_pr_notified_def set_finding_status_def set_finding_comment_def set_finding_thread_def
      set_finding_severity_def set_finding_claim_def add_finding_bot_reply_def set_finding_placement_def
      pr_written_def finding_written_def same_place_def intro!: noted_in_update intro: noted_in_same)

lemma only_runs_change:
  assumes "queue_ok (c, db)" "c \<le> now" "rv_runs db' = map F (rv_runs db)" "rv_prs db' = rv_prs db"
    and "\<And>r. r \<in> set (rv_runs db) \<Longrightarrow> same_run r (F r) \<and> stops now r (F r)"
  shows "queue_ok (now, db')"
  by (rule stop_change [OF assms(1-3), of "\<lambda>p. p"]) (use assms(4,5) in \<open>simp_all add: still_counted_def\<close>)

lemma upsert_ok:
  assumes "queue_ok (c, db)" "c \<le> now"
  shows "queue_ok (now, fst (upsert_review_pr U org f db))"
proof -
  have same: "queue_ok (now, db)" by (rule only_runs_change [OF assms, of _ "\<lambda>r. r"]) (simp_all add: stops_def)
  have known: "queue_ok (now, db\<lparr>rv_prs := update_rows P (known_pr f) (rv_prs db)\<rparr>)" for P
  proof (rule noted_in_ok [OF assms])
    have "noted_in db (fst (update_pr P (known_pr f) db))"
      by (rule noted_in_update) (simp add: known_pr_def same_place_def)
    then show "noted_in db (db\<lparr>rv_prs := update_rows P (known_pr f) (rv_prs db)\<rparr>)" by (simp add: update_pr_def)
  qed
  show ?thesis
    using same known pr_change [OF assms]
    by (auto simp: upsert_review_pr_def new_pr_def Let_def split: option.split)
qed

lemma enqueue_ok:
  assumes "queue_ok (c, db)" "c \<le> now"
  shows "queue_ok (now, fst (enqueue_review_run now pub org q db))"
proof -
  have same: "queue_ok (now, db)" by (rule only_runs_change [OF assms, of _ "\<lambda>r. r"]) (simp_all add: stops_def)
  have new: "queue_ok (now, db\<lparr>rv_runs := rv_runs db @ [queued_run now pub (next_id (map rr_id (rv_runs db))) p q]\<rparr>)"
    if "review_pr_of org (rq_pr q) db = Some p" for p
    by (rule run_change [OF assms, of _ p])
      (use find_some [OF that [unfolded review_pr_of_def]] in \<open>simp_all add: queued_run_def on_pr_def is_pr_def\<close>)
  show ?thesis
    using same new by (auto simp: enqueue_review_run_def Let_def split: option.split)
qed

text \<open>The holder's writes. The row a copy is of is the one row of its number.\<close>

lemma copy_row:
  assumes "queue_ok (c, db)" "copy_of db r" "has_run r x" "x \<in> set (rv_runs db)"
  shows "rr_org x = rr_org r" "rr_pr x = rr_pr r" "rr_attempts x = rr_attempts r" "running x" "rr_lease x = rr_lease r"
proof -
  obtain y where y: "y \<in> set (rv_runs db)" "is_run (rr_org r) (rr_id r) y" "rr_pr y = rr_pr r" "has_run r y \<longrightarrow> rr_attempts y = rr_attempts r"
    using assms(2) unfolding copy_of_def by blast
  have "y = x" by (rule same_id [OF assms(1) y(1) assms(4)]) (use y(2) assms(3) in \<open>simp add: has_run_def is_run_def\<close>)
  then show "rr_org x = rr_org r" "rr_pr x = rr_pr r" "rr_attempts x = rr_attempts r" "running x" "rr_lease x = rr_lease r"
    using y assms(3) by (simp_all add: has_run_def is_run_def running_def)
qed

lemma has_run_unique:
  assumes "queue_ok (c, db)" "x \<in> set (rv_runs db)" "y \<in> set (rv_runs db)" "has_run r x"
  shows "has_run r y \<longleftrightarrow> y = x"
  using same_id [OF assms(1,2,3)] assms(4) by (auto simp: has_run_def is_run_def)

lemma same_pr_row:
  assumes ok: "queue_ok (c, db)" and r: "r \<in> set (rv_runs db)" "r' \<in> set (rv_runs db)" "rr_pr r = rr_pr r'"
  shows "rr_org r = rr_org r'"
proof -
  obtain p p' where "p \<in> set (rv_prs db)" "on_pr r p" "p' \<in> set (rv_prs db)" "on_pr r' p'"
    using queue_okD(5) [OF ok r(1)] queue_okD(5) [OF ok r(2)] by blast
  moreover from this have "p = p'"
    using queue_okD(2) [OF ok] r(3) by (metis distinct_map inj_onD is_pr_def on_pr_def)
  ultimately show ?thesis by (simp add: on_pr_def is_pr_def)
qed

text \<open>Where the pull request is held under the run's value, no other run goes on it.\<close>

lemma held_alone:
  assumes ok: "queue_ok (c, db)" and x: "x \<in> set (rv_runs db)" "has_run r x" "rr_pr x = rr_pr r"
    and p: "p \<in> set (rv_prs db)" "has_pr r p"
    and y: "y \<in> set (rv_runs db)" "on_pr y p" "going c y"
  shows "y = x"
proof -
  have "rr_lease y = rr_lease r" using queue_okD(6) [OF ok y(1) p(1) y(2,3)] p(2) by (simp add: has_pr_def)
  moreover have "rr_pr y = rr_pr x" using y(2) p(2) x(3) by (simp add: on_pr_def has_pr_def is_pr_def)
  ultimately have "rr_id y = rr_id x"
    using y(3) x(2) by (intro queue_okD(7) [OF ok y(1) x(1)]) (simp_all add: going_def running_def has_run_def)
  then show ?thesis by (rule same_id [OF ok y(1) x(1)])
qed

lemma touch_ok:
  assumes ok: "queue_ok (c, db)" "c \<le> now" and copy: "copy_of db r"
  shows "queue_ok (now, fst (touch_review_run now r db))"
proof (cases "List.find (has_run r) (rv_runs db)")
  case None
  then show ?thesis using noted_in_ok [OF ok noted_in_same] by (simp add: touch_review_run_def)
next
  case (Some x)
  then have x: "x \<in> set (rv_runs db)" "has_run r x" by (auto dest: find_some)
  note xr = copy_row [OF ok(1) copy x(2,1)]
  show ?thesis
  proof (cases "list_ex (has_pr r) (rv_prs db)")
    case False
    with Some show ?thesis
      using noted_in_ok [OF ok noted_in_same] by (simp add: touch_review_run_def Let_def split_beta)
  next
    case True
    then obtain p where p: "p \<in> set (rv_prs db)" "has_pr r p" by (auto simp: list_ex_iff)
    have pr: "has_pr r q \<longleftrightarrow> on_pr x q" if "q \<in> set (rv_prs db)" for q
      using that p xr queue_okD(2) [OF ok(1)] by (auto simp: has_pr_def on_pr_def is_pr_def distinct_map inj_on_def)
    have good: "run_ok c x" by (rule queue_okD(4) [OF ok(1) x(1)])
    let ?F = "\<lambda>y. if has_run r y then y\<lparr>rr_lease := now + review_run_lease\<rparr> else y"
    let ?G = "\<lambda>q. if has_pr r q then q\<lparr>rp_lease := now + review_run_lease\<rparr> else q"
    have db': "rv_runs (fst (touch_review_run now r db)) = map ?F (rv_runs db)"
      "rv_prs (fst (touch_review_run now r db)) = map ?G (rv_prs db)"
      using Some True by (simp_all add: touch_review_run_def Let_def split_beta)
    show ?thesis
    proof (rule hold_change [OF ok db' x(1)])
      show "takes now x (?F x)"
        using good x(2) queue_okD(1) [OF ok(1)] ok(2) lease_positive
        by (auto simp: takes_def same_run_def running_def run_ok_def has_run_def)
      show "?F y = y" if "y \<in> set (rv_runs db)" "rr_id y \<noteq> rr_id x" for y
        using has_run_unique [OF ok(1) x(1) that(1) x(2)] that(2) by auto
      show "\<forall>q\<in>set (rv_prs db). if on_pr x q
          then same_place q (?G q) \<and> rp_lease (?G q) = now + review_run_lease \<and> rp_reviews (?G q) = rp_reviews q else ?G q = q"
        using pr by (simp add: same_place_def)
    next
      fix y assume y: "y \<in> set (rv_runs db)" "running y" "rr_pr y = rr_pr x" "rr_id y \<noteq> rr_id x"
      have "on_pr y p" using y pr [OF p(1)] p(2) same_pr_row [OF ok(1) y(1) x(1)] by (simp add: on_pr_def)
      then have "\<not> going c y" using held_alone [OF ok(1) x xr(2) p y(1)] y(4) by blast
      then show "rr_lease y \<le> now" using y(2) ok(2) by (simp add: going_def running_def)
    qed
  qed
qed

lemma life_kept_ok:
  assumes "queue_ok (c, db)" "c \<le> now" "rv_prs db' = rv_prs db" "rv_runs db' = map (\<lambda>x. if P x then f x else x) (rv_runs db)"
    and "\<And>x. same_run x (f x) \<and> same_life x (f x)"
  shows "queue_ok (now, db')"
  by (rule only_runs_change [OF assms(1,2,4,3)]) (use assms(5) in \<open>simp add: stops_def\<close>)

lemma github_review_ok: "queue_ok (c, db) \<Longrightarrow> c \<le> now \<Longrightarrow> queue_ok (now, fst (set_run_github_review r cm db))"
  unfolding set_run_github_review_def
  by (rule life_kept_ok, assumption+, simp, rule update_rows_tables) (simp add: same_run_def same_life_def)

lemma reserved_ok: "queue_ok (c, db) \<Longrightarrow> c \<le> now \<Longrightarrow> queue_ok (now, fst (set_run_reserved r usd db))"
  unfolding set_run_reserved_def
  by (rule life_kept_ok, assumption+, simp, rule update_rows_tables) (simp add: same_run_def same_life_def)

lemma score_noted: "noted_in db (fst (set_pr_score r score db))"
  by (auto simp: set_pr_score_def Let_def split_beta same_place_def intro: noted_in_update noted_in_same)

lemma insert_findings_tables:
  "insert_findings now r fs db = Inr db' \<Longrightarrow> rv_runs db' = rv_runs db \<and> rv_prs db' = rv_prs db"
proof (induction now r fs db rule: insert_findings.induct)
  case (2 now r pub f fs db)
  then obtain db1 i where "insert_review_finding now pub (rr_org r) (rr_pr r) (rr_id r) f db = Inr (db1, i)"
      "insert_findings now r fs db1 = Inr db'"
    by (auto split: sum.splits prod.splits)
  then show ?case using 2 by (auto simp: insert_review_finding_def Let_def split: if_splits)
qed simp

lemma resolutions_tables [simp]:
  "rv_runs (fst (apply_resolutions r ns db)) = rv_runs db" "rv_prs (fst (apply_resolutions r ns db)) = rv_prs db"
  by (induction r ns db rule: apply_resolutions.induct) (simp_all add: apply_resolution_def split_beta Let_def)

lemma see_again_tables [simp]:
  "rv_runs (fold (see_again r) seen db) = rv_runs db" "rv_prs (fold (see_again r) seen db) = rv_prs db"
  by (induction seen arbitrary: db) (simp_all add: see_again_def)

lemma checkpoint_ok:
  assumes "queue_ok (c, db)" "c \<le> now"
  shows "queue_ok (now, fst (save_review_outcome now r outcome found seen resolved db))"
proof -
  let ?P = "\<lambda>x. has_run r x \<and> held_pr db (rr_lease r) x"
  let ?db' = "fst (save_review_outcome now r outcome found seen resolved db)"
  have "?db' = db \<or> rv_prs ?db' = rv_prs db \<and>
      rv_runs ?db' = map (\<lambda>x. if ?P x then checkpointed_run r outcome x else x) (rv_runs db)"
    by (auto simp: save_review_outcome_def Let_def split_beta dest!: insert_findings_tables split: sum.splits)
  then show ?thesis
    using noted_in_ok [OF assms noted_in_same [of db db]] life_kept_ok [OF assms, of ?db' ?P "checkpointed_run r outcome"]
    by (auto simp: checkpointed_run_def same_run_def same_life_def)
qed

text \<open>A run that stops lets its pull request go, if it still holds it.\<close>

lemma let_go_ok:
  assumes ok: "queue_ok (c, db)" "c \<le> now" and copy: "copy_of db r" and x: "x \<in> set (rv_runs db)" "has_run r x"
    and runs: "rv_runs db' = map (\<lambda>y. if has_run r y then f y else y) (rv_runs db)"
    and prs: "rv_prs db' = map (\<lambda>p. if has_pr r p then g p else p) (rv_prs db)"
    and f: "same_run x (f x)" "\<not> running (f x)" "run_ok now (f x)"
    and g: "\<And>p. same_place p (g p) \<and> (rp_reviews (g p) = rp_reviews p \<or> rp_reviews (g p) = rp_reviews p + 1 \<and> over (f x))"
  shows "queue_ok (now, db')"
proof (rule stop_change [OF ok runs prs])
  note xr = copy_row [OF ok(1) copy x(2,1)]
  have only: "has_run r y \<longleftrightarrow> y = x" if "y \<in> set (rv_runs db)" for y by (rule has_run_unique [OF ok(1) x(1) that x(2)])
  have "\<not> over x" using xr(4) by (simp add: running_def)
  then show "\<forall>y\<in>set (rv_runs db). same_run y (if has_run r y then f y else y) \<and> stops now y (if has_run r y then f y else y)"
    using f only by (auto simp: stops_def)
  show "\<forall>p\<in>set (rv_prs db). same_place p (if has_pr r p then g p else p) \<and>
      still_counted (rv_runs db) (\<lambda>y. if has_run r y then f y else y) p (if has_pr r p then g p else p) \<and>
      (rp_lease (if has_pr r p then g p else p) = rp_lease p \<or>
       (\<forall>y\<in>set (rv_runs db). on_pr y p \<longrightarrow> \<not> going now (if has_run r y then f y else y)))"
  proof (intro ballI)
    fix p assume p: "p \<in> set (rv_prs db)"
    have on: "on_pr x p" if "has_pr r p" using that xr by (simp add: on_pr_def has_pr_def is_pr_def)
    have alone: "\<not> going now (if has_run r y then f y else y)" if y: "has_pr r p" "y \<in> set (rv_runs db)" "on_pr y p" for y
    proof (cases "y = x")
      case True
      then show ?thesis using f(2) x(2) by (simp add: going_def running_def)
    next
      case False
      then have "\<not> going c y" using held_alone [OF ok(1) x xr(2) p y] by blast
      then show ?thesis using only [OF y(2)] False ok(2) by (auto simp: going_def)
    qed
    have "still_counted (rv_runs db) (\<lambda>y. if has_run r y then f y else y) p (g p)" if "has_pr r p"
    proof -
      have "\<exists>y\<in>set (rv_runs db). on_pr y p \<and> \<not> over y \<and> over (if has_run r y then f y else y)" if "over (f x)"
        using x on [OF \<open>has_pr r p\<close>] \<open>\<not> over x\<close> that by (intro bexI [of _ x]) simp_all
      then show ?thesis using g [of p] unfolding still_counted_def by blast
    qed
    then show "same_place p (if has_pr r p then g p else p) \<and>
      still_counted (rv_runs db) (\<lambda>y. if has_run r y then f y else y) p (if has_pr r p then g p else p) \<and>
      (rp_lease (if has_pr r p then g p else p) = rp_lease p \<or>
       (\<forall>y\<in>set (rv_runs db). on_pr y p \<longrightarrow> \<not> going now (if has_run r y then f y else y)))"
      using g [of p] alone p by (cases "has_pr r p") (simp_all, simp_all add: still_counted_def)
  qed
qed

lemma finish_ok:
  assumes ok: "queue_ok (c, db)" "c \<le> now" and copy: "copy_of db r"
  shows "queue_ok (now, fst (finish_review_run now r res db))"
proof (cases "snd (finish_review_run now r res db) = None")
  case False
  then have "fst (finish_review_run now r res db) = db"
    by (auto simp: finish_review_run_def Let_def split_beta split: if_splits)
  then show ?thesis using noted_in_ok [OF ok noted_in_same] by simp
next
  case True
  let ?g = "\<lambda>p. (case re_reviewed res of None \<Rightarrow> p | Some v \<Rightarrow> reviewed_pr v p)\<lparr>rp_lease := 0\<rparr>"
  have vals: "re_status res \<in> set review_run_ends" and some: "list_ex (has_run r) (rv_runs db)"
    using True by (auto simp: finish_review_run_def Let_def split_beta split: if_splits)
  then obtain x where x: "x \<in> set (rv_runs db)" "has_run r x" by (auto simp: list_ex_iff)
  have kept: "has_pr r (reviewed_pr v p) = has_pr r p" for v p by (simp add: has_pr_def is_pr_def reviewed_pr_def)
  have tables: "rv_runs (fst (finish_review_run now r res db)) = map (\<lambda>y. if has_run r y then ended_run now r res y else y) (rv_runs db)"
    "rv_prs (fst (finish_review_run now r res db)) = map (\<lambda>p. if has_pr r p then ?g p else p) (rv_prs db)"
    using True by (auto simp: finish_review_run_def release_pr_def retire_findings_def kept Let_def split_beta split: if_splits option.splits)
  have "run_ok c x" by (rule queue_okD(4) [OF ok(1) x(1)])
  then have "run_ok now (ended_run now r res x)" "\<not> running (ended_run now r res x)" "over (ended_run now r res x)"
    using vals by (auto simp: run_ok_def running_def over_def ended_run_def review_run_ends_def)
  then show ?thesis
    by (intro let_go_ok [OF ok copy x tables])
      (auto simp: same_run_def ended_run_def same_place_def reviewed_pr_def split: option.split)
qed

lemma requeue_ok:
  assumes ok: "queue_ok (c, db)" "c \<le> now" and copy: "copy_of db r" and spend: "spend \<Longrightarrow> rr_attempts r < review_run_max_attempts"
  shows "queue_ok (now, fst (requeue_review_run r not_before why spend db))"
proof (cases "list_ex (has_run r) (rv_runs db)")
  case False
  then show ?thesis using noted_in_ok [OF ok noted_in_same] by (simp add: requeue_review_run_def Let_def split_beta)
next
  case True
  then obtain x where x: "x \<in> set (rv_runs db)" "has_run r x" by (auto simp: list_ex_iff)
  have tables: "rv_runs (fst (requeue_review_run r not_before why spend db)) =
      map (\<lambda>y. if has_run r y then put_back_run not_before why spend y else y) (rv_runs db)"
    "rv_prs (fst (requeue_review_run r not_before why spend db)) = map (\<lambda>p. if has_pr r p then p\<lparr>rp_lease := 0\<rparr> else p) (rv_prs db)"
    using True by (simp_all add: requeue_review_run_def release_pr_def Let_def split_beta)
  note xr = copy_row [OF ok(1) copy x(2,1)]
  have "run_ok c x" by (rule queue_okD(4) [OF ok(1) x(1)])
  then have "run_ok now (put_back_run not_before why spend x)" "\<not> running (put_back_run not_before why spend x)"
    using xr spend by (auto simp: run_ok_def running_def put_back_run_def review_run_max_attempts_def)
  then show ?thesis
    by (intro let_go_ok [OF ok copy x tables]) (auto simp: same_run_def put_back_run_def same_place_def)
qed

lemma stopped_stops: "stops now r (stopped_run now why r)" and retired_stops: "run_ok c r \<Longrightarrow> stops now r (retired_run now r)"
  if "run_ok c r"
  using that by (auto simp: stops_def run_ok_def stopped_run_def retired_run_def running_def over_def review_run_ends_def)

lemma cancel_ok:
  assumes ok: "queue_ok (c, db)" "c \<le> now"
  shows "queue_ok (now, fst (cancel_review_runs now org pr why db))"
proof (rule only_runs_change [OF ok])
  let ?S = "\<lambda>y. if stops_now now org pr y then stopped_run now (truncate_text why 300) y else y"
  let ?A = "\<lambda>y. if is_asked now org pr y then y\<lparr>rr_cancel := True, rr_error := truncate_text why 300\<rparr> else y"
  show "rv_runs (fst (cancel_review_runs now org pr why db)) = map (?A \<circ> ?S) (rv_runs db)"
    by (simp add: cancel_review_runs_def Let_def)
  show "rv_prs (fst (cancel_review_runs now org pr why db)) = rv_prs db"
    by (simp add: cancel_review_runs_def Let_def)
  fix r assume r: "r \<in> set (rv_runs db)"
  have "\<not> is_asked now org pr (stopped_run now (truncate_text why 300) r)"
    by (simp add: is_asked_def going_def stopped_run_def)
  then have st: "(?A \<circ> ?S) r = stopped_run now (truncate_text why 300) r" if "stops_now now org pr r" using that by simp
  show "same_run r ((?A \<circ> ?S) r) \<and> stops now r ((?A \<circ> ?S) r)"
  proof (cases "stops_now now org pr r")
    case True
    have "same_run r (stopped_run now (truncate_text why 300) r)" by (simp add: same_run_def stopped_run_def)
    with stopped_stops [OF queue_okD(4) [OF ok(1) r]] show ?thesis unfolding st [OF True] by blast
  next
    case False
    then show ?thesis by (simp add: stops_def same_run_def same_life_def)
  qed
qed

lemma sweep_ok:
  assumes ok: "queue_ok (c, db)" "c \<le> now"
  shows "queue_ok (now, fst (sweep_review_runs now db))"
  by (rule only_runs_change [OF ok, of _ "\<lambda>r. if abandoned now r then retired_run now r else r"])
    (use retired_stops [OF queue_okD(4) [OF ok(1)] queue_okD(4) [OF ok(1)]]
      in \<open>auto simp: sweep_review_runs_def same_run_def retired_run_def stops_def\<close>)

text \<open>The claim: the run it picked is taken, or put back because its pull request is held.\<close>

definition picked :: "int \<Rightarrow> int \<Rightarrow> review_run \<Rightarrow> bool" where
  "picked now i y \<longleftrightarrow> rr_id y = i \<and> claimable now y"

definition free_pr :: "int \<Rightarrow> review_run \<Rightarrow> review_pr \<Rightarrow> bool" where
  "free_pr now r p \<longleftrightarrow> on_pr r p \<and> rp_lease p \<le> now"

lemma picked_only:
  "queue_ok (c, db) \<Longrightarrow> r \<in> set (rv_runs db) \<Longrightarrow> picked now i r \<Longrightarrow> y \<in> set (rv_runs db) \<Longrightarrow> picked now i y \<longleftrightarrow> y = r"
  using same_id by (auto simp: picked_def)

lemma claimable_not_over: "claimable now r \<Longrightarrow> \<not> over r"
  by (auto simp: claimable_def)

lemma claim_once_cases:
  obtains "claim_once now snap db = (db, None, False)"
  | r where "r \<in> set (rv_runs db)" "picked now (rr_id r) r" "list_ex (free_pr now r) (rv_prs db)"
      "rv_runs (fst (claim_once now snap db)) = map (\<lambda>y. if picked now (rr_id r) y then claimed_run now y else y) (rv_runs db)"
      "rv_prs (fst (claim_once now snap db)) = map (\<lambda>q. if free_pr now r q then q\<lparr>rp_lease := now + review_run_lease\<rparr> else q) (rv_prs db)"
      "claim_once now snap db = (fst (claim_once now snap db), Some (claimed_run now r), False)"
  | r where "r \<in> set (rv_runs db)" "picked now (rr_id r) r" "\<not> list_ex (free_pr now r) (rv_prs db)"
      "rv_runs (fst (claim_once now snap db)) = map ((\<lambda>x. if is_run (rr_org r) (rr_id r) x \<and> rr_lease x = now + review_run_lease
        then deferred_run now x else x) \<circ> (\<lambda>y. if picked now (rr_id r) y then claimed_run now y else y)) (rv_runs db)"
      "rv_prs (fst (claim_once now snap db)) = rv_prs db"
      "snd (claim_once now snap db) = (None, True)"
proof (cases "\<exists>i r. pick_run now snap = Some i \<and> List.find (\<lambda>r. rr_id r = i \<and> claimable now r) (rv_runs db) = Some r")
  case False
  then have "claim_once now snap db = (db, None, False)" by (auto simp: claim_once_def split: option.split)
  then show ?thesis by (rule that)
next
  case True
  then obtain i r where z: "pick_run now snap = Some i" "List.find (\<lambda>r. rr_id r = i \<and> claimable now r) (rv_runs db) = Some r"
    by blast
  then have r: "r \<in> set (rv_runs db)" "rr_id r = i" "picked now (rr_id r) r" by (auto simp: picked_def dest: find_some)
  have free: "free_pr now r = (\<lambda>p. is_pr (rr_org r) (rr_pr r) p \<and> rp_lease p \<le> now)" by (rule ext) (simp add: free_pr_def on_pr_def)
  have pk: "picked now i = (\<lambda>r. rr_id r = i \<and> claimable now r)" by (rule ext) (simp add: picked_def)
  show ?thesis
  proof (cases "list_ex (free_pr now r) (rv_prs db)")
    case f: True
    show ?thesis
      by (rule that(2) [OF r(1,3) f])
        (use z f r(2) in \<open>simp_all add: claim_once_def take_pr_lease_def Let_def split_beta claimed_run_def free pk\<close>)
  next
    case f: False
    show ?thesis
      by (rule that(3) [OF r(1,3) f])
        (use z f r(2) in \<open>simp_all add: claim_once_def take_pr_lease_def Let_def split_beta claimed_run_def free pk\<close>)
  qed
qed

lemma claim_taken_ok:
  assumes ok: "queue_ok (c, db)" "c \<le> now" and r: "r \<in> set (rv_runs db)" "picked now (rr_id r) r"
    and free: "list_ex (free_pr now r) (rv_prs db)"
    and runs: "rv_runs db' = map (\<lambda>y. if picked now (rr_id r) y then claimed_run now y else y) (rv_runs db)"
    and prs: "rv_prs db' = map (\<lambda>q. if free_pr now r q then q\<lparr>rp_lease := now + review_run_lease\<rparr> else q) (rv_prs db)"
  shows "queue_ok (now, db')"
proof (rule hold_change [OF ok runs prs r(1)])
  obtain p where p: "p \<in> set (rv_prs db)" "on_pr r p" "rp_lease p \<le> now" using free by (auto simp: list_ex_iff free_pr_def)
  have pr: "free_pr now r q \<longleftrightarrow> on_pr r q" if "q \<in> set (rv_prs db)" for q
    using that p queue_okD(2) [OF ok(1)] by (auto simp: free_pr_def on_pr_def is_pr_def distinct_map inj_on_def)
  show "takes now r (if picked now (rr_id r) r then claimed_run now r else r)"
    using r queue_okD(4) [OF ok(1) r(1)] queue_okD(1) [OF ok(1)] ok(2) lease_positive claimable_not_over [of now r]
    by (auto simp: takes_def same_run_def claimed_run_def running_def run_ok_def claimable_def review_run_max_attempts_def picked_def)
  show "(if picked now (rr_id r) y then claimed_run now y else y) = y" if "y \<in> set (rv_runs db)" "rr_id y \<noteq> rr_id r" for y
    using that by (simp add: picked_def)
  show "\<forall>q\<in>set (rv_prs db). if on_pr r q
      then same_place q (if free_pr now r q then q\<lparr>rp_lease := now + review_run_lease\<rparr> else q) \<and>
        rp_lease (if free_pr now r q then q\<lparr>rp_lease := now + review_run_lease\<rparr> else q) = now + review_run_lease \<and>
        rp_reviews (if free_pr now r q then q\<lparr>rp_lease := now + review_run_lease\<rparr> else q) = rp_reviews q
      else (if free_pr now r q then q\<lparr>rp_lease := now + review_run_lease\<rparr> else q) = q"
    using pr by (simp add: same_place_def)
  fix y assume y: "y \<in> set (rv_runs db)" "running y" "rr_pr y = rr_pr r" "rr_id y \<noteq> rr_id r"
  have "on_pr y p" using y p(2) same_pr_row [OF ok(1) y(1) r(1)] by (simp add: on_pr_def)
  then have "going c y \<Longrightarrow> rp_lease p = rr_lease y" by (rule queue_okD(6) [OF ok(1) y(1) p(1)])
  then show "rr_lease y \<le> now" using y(2) p(3) ok(2) by (cases "going c y") (simp_all add: going_def running_def)
qed

lemma claim_deferred_ok:
  assumes ok: "queue_ok (c, db)" "c \<le> now" and r: "r \<in> set (rv_runs db)" "picked now (rr_id r) r"
    and runs: "rv_runs db' = map ((\<lambda>x. if is_run (rr_org r) (rr_id r) x \<and> rr_lease x = now + review_run_lease
        then deferred_run now x else x) \<circ> (\<lambda>y. if picked now (rr_id r) y then claimed_run now y else y)) (rv_runs db)"
    and prs: "rv_prs db' = rv_prs db"
  shows "queue_ok (now, db')"
proof (rule only_runs_change [OF ok runs prs])
  fix y assume y: "y \<in> set (rv_runs db)"
  let ?f = "(\<lambda>x. if is_run (rr_org r) (rr_id r) x \<and> rr_lease x = now + review_run_lease then deferred_run now x else x) \<circ>
      (\<lambda>y. if picked now (rr_id r) y then claimed_run now y else y)"
  show "same_run y (?f y) \<and> stops now y (?f y)"
  proof (cases "y = r")
    case True
    then have "?f y = deferred_run now (claimed_run now r)" using r(2) by (simp add: is_run_def claimed_run_def)
    then show ?thesis
      using True r claimable_not_over [of now r] queue_okD(4) [OF ok(1) r(1)]
      by (auto simp: stops_def same_run_def run_ok_def running_def deferred_run_def claimed_run_def claimable_def picked_def)
  next
    case False
    then have "?f y = y" using picked_only [OF ok(1) r y] same_id [OF ok(1) y r(1)] by (auto simp: is_run_def)
    then show ?thesis by (simp add: stops_def)
  qed
qed

lemma claim_ok:
  assumes "queue_ok (c, db)" "c \<le> now"
  shows "queue_ok (now, fst (claim_once now snap db))"
  by (rule claim_once_cases [of now snap db])
    (auto intro: noted_in_ok [OF assms noted_in_same] claim_taken_ok [OF assms] claim_deferred_ok [OF assms])

lemma queue_step_ok: "queue_step s s' \<Longrightarrow> queue_ok s \<Longrightarrow> queue_ok s'"
proof (induction rule: queue_step.induct)
  case (noted c now db db')
  then show ?case by (blast intro: noted_in_ok review_note_noted)
next
  case (scores c now db r score)
  then show ?case by (blast intro: noted_in_ok score_noted)
qed (blast intro: upsert_ok enqueue_ok claim_ok touch_ok github_review_ok reserved_ok checkpoint_ok finish_ok requeue_ok cancel_ok sweep_ok)+

lemma queue_run_ok: "queue_run s s' \<Longrightarrow> queue_ok s \<Longrightarrow> queue_ok s'"
  by (induction rule: rtranclp_induct) (auto intro: queue_step_ok)

end
