(* ===== verification/Review_Safety.thy ===== *)
theory Review_Safety
  imports Review_Queue_Spec
begin

text \<open>
  What the invariant of the queue gives: the holder of a pull request is one, a lane that lost its lease
  writes nothing more about it, an ended run is never touched again and is counted once, and what a sweep
  leaves is work somebody will take, but for a run that was put back after somebody asked it to stop.
\<close>

section \<open>One holder\<close>

text \<open>What \<^verbatim>\<open>reviewHeldPR\<close> asks: the run's row and its pull request are both held under the copy's lease.\<close>

definition holds :: "review_db \<Rightarrow> review_run \<Rightarrow> bool" where
  "holds db r \<longleftrightarrow> list_ex (\<lambda>x. has_run r x \<and> held_pr db (rr_lease r) x) (rv_runs db)"

lemma holds_rows:
  assumes "queue_ok (c, db)" "copy_of db r"
  shows "holds db r \<longleftrightarrow> (\<exists>x\<in>set (rv_runs db). has_run r x) \<and> (\<exists>p\<in>set (rv_prs db). has_pr r p)"
proof -
  have "held_pr db (rr_lease r) x \<longleftrightarrow> (\<exists>p\<in>set (rv_prs db). has_pr r p)" if "x \<in> set (rv_runs db)" "has_run r x" for x
    using copy_row [OF assms that(2,1)] by (auto simp: held_pr_def has_pr_def is_pr_def list_ex_iff)
  then show ?thesis by (auto simp: holds_def list_ex_iff)
qed

lemma one_holder:
  assumes ok: "queue_ok (c, db)" and copies: "copy_of db r" "copy_of db r'" and h: "holds db r" "holds db r'"
    and pr: "rr_org r = rr_org r'" "rr_pr r = rr_pr r'"
  shows "rr_id r = rr_id r' \<and> rr_lease r = rr_lease r'"
proof -
  obtain x y p q where z: "x \<in> set (rv_runs db)" "has_run r x" "y \<in> set (rv_runs db)" "has_run r' y"
      "p \<in> set (rv_prs db)" "has_pr r p" "q \<in> set (rv_prs db)" "has_pr r' q"
    using h holds_rows [OF ok copies(1)] holds_rows [OF ok copies(2)] by blast
  note x = copy_row [OF ok copies(1) z(2,1)] and y = copy_row [OF ok copies(2) z(4,3)]
  have "rp_id p = rp_id q" using z pr by (simp add: has_pr_def is_pr_def)
  with z(5,7) have "p = q" using queue_okD(2) [OF ok] by (metis distinct_map inj_onD)
  then have lease: "rr_lease r = rr_lease r'" using z by (simp add: has_pr_def)
  then have "rr_id x = rr_id y" using queue_okD(7) [OF ok z(1,3)] x y pr by simp
  with lease z show ?thesis by (simp add: has_run_def is_run_def)
qed

section \<open>How rows move\<close>

definition row_moves :: "int \<Rightarrow> review_run \<Rightarrow> review_run \<Rightarrow> bool" where
  "row_moves now x x' \<longleftrightarrow> same_run x x' \<and> (over x \<longrightarrow> x' = x) \<and>
     (running x' \<longrightarrow> running x \<and> rr_lease x' = rr_lease x \<and> rr_attempts x' = rr_attempts x \<or> rr_lease x' = now + review_run_lease)"

definition place_moves :: "int \<Rightarrow> review_pr \<Rightarrow> review_pr \<Rightarrow> bool" where
  "place_moves now p p' \<longleftrightarrow> same_place p p' \<and>
     (rp_lease p' = rp_lease p \<or> rp_lease p' = 0 \<or> rp_lease p' = now + review_run_lease)"

definition moves :: "int \<Rightarrow> review_db \<Rightarrow> review_db \<Rightarrow> bool" where
  "moves now db db' \<longleftrightarrow> (\<exists>runs prs new_runs new_prs. rv_runs db' = runs @ new_runs \<and> rv_prs db' = prs @ new_prs \<and>
     list_all2 (row_moves now) (rv_runs db) runs \<and> list_all2 (place_moves now) (rv_prs db) prs \<and>
     (\<forall>r\<in>set new_runs. rr_status r = ''queued'') \<and> (\<forall>p\<in>set new_prs. rp_lease p = 0))"

lemma row_moves_refl [simp]: "row_moves now x x" and place_moves_refl [simp]: "place_moves now p p"
  by (simp_all add: row_moves_def place_moves_def)

lemma moves_maps:
  assumes "rv_runs db' = map F (rv_runs db)" "rv_prs db' = map G (rv_prs db)"
    and "\<And>x. x \<in> set (rv_runs db) \<Longrightarrow> row_moves now x (F x)" "\<And>p. p \<in> set (rv_prs db) \<Longrightarrow> place_moves now p (G p)"
  shows "moves now db db'"
  unfolding moves_def
  by (intro exI [of _ "map F (rv_runs db)"] exI [of _ "map G (rv_prs db)"] exI [of _ "[]"])
    (use assms in \<open>simp add: list_all2_conv_all_nth\<close>)

lemma moves_same: "rv_runs db' = rv_runs db \<Longrightarrow> rv_prs db' = rv_prs db \<Longrightarrow> moves now db db'"
  by (rule moves_maps [of _ "\<lambda>x. x" _ "\<lambda>p. p"]) simp_all

lemma moves_noted: "noted_in db db' \<Longrightarrow> moves now db db'"
  unfolding noted_in_def by (elim exE conjE) (rule moves_maps [of _ "\<lambda>x. x"], auto simp: place_moves_def)

lemma moves_new_run: "rr_status r = ''queued'' \<Longrightarrow> moves now db (db\<lparr>rv_runs := rv_runs db @ [r]\<rparr>)"
  unfolding moves_def
  by (intro exI [of _ "rv_runs db"] exI [of _ "rv_prs db"] exI [of _ "[r]"] exI [of _ "[]"]) (simp add: list_all2_conv_all_nth)

lemma moves_new_pr: "rp_lease p = 0 \<Longrightarrow> moves now db (db\<lparr>rv_prs := rv_prs db @ [p]\<rparr>)"
  unfolding moves_def
  by (intro exI [of _ "rv_runs db"] exI [of _ "rv_prs db"] exI [of _ "[]"] exI [of _ "[p]"]) (simp add: list_all2_conv_all_nth)

lemma has_run_not_over: "has_run r x \<Longrightarrow> \<not> over x"
  by (simp add: has_run_def)

lemma moves_held_runs:
  assumes "rv_prs db' = rv_prs db" "rv_runs db' = map (\<lambda>x. if P x then f x else x) (rv_runs db)"
    and "\<And>x. P x \<Longrightarrow> has_run r x" "\<And>x. has_run r x \<Longrightarrow> same_run x (f x) \<and> same_life x (f x)"
  shows "moves now db db'"
  by (rule moves_maps [OF assms(2), of "\<lambda>p. p"])
    (use assms(1,3,4) has_run_not_over in \<open>auto simp: row_moves_def same_life_def running_def\<close>)

lemma moves_claim:
  assumes ok: "queue_ok (c, db)"
  shows "moves now db (fst (claim_once now snap db))"
proof (rule claim_once_cases [of now snap db])
  assume "claim_once now snap db = (db, None, False)"
  then show ?thesis by (simp add: moves_same)
next
  fix r assume z: "rv_runs (fst (claim_once now snap db)) = map (\<lambda>y. if picked now (rr_id r) y then claimed_run now y else y) (rv_runs db)"
      "rv_prs (fst (claim_once now snap db)) = map (\<lambda>q. if free_pr now r q then q\<lparr>rp_lease := now + review_run_lease\<rparr> else q) (rv_prs db)"
  show ?thesis
    by (rule moves_maps [OF z])
      (auto simp: row_moves_def place_moves_def same_place_def same_run_def claimed_run_def picked_def dest: claimable_not_over)
next
  fix r assume z: "rv_runs (fst (claim_once now snap db)) = map ((\<lambda>x. if is_run (rr_org r) (rr_id r) x \<and> rr_lease x = now + review_run_lease
        then deferred_run now x else x) \<circ> (\<lambda>y. if picked now (rr_id r) y then claimed_run now y else y)) (rv_runs db)"
      "rv_prs (fst (claim_once now snap db)) = rv_prs db"
    and r: "r \<in> set (rv_runs db)" "picked now (rr_id r) r"
  show ?thesis
  proof (rule moves_maps [OF z(1), of "\<lambda>p. p"])
    fix x assume x: "x \<in> set (rv_runs db)"
    show "row_moves now x (((\<lambda>x. if is_run (rr_org r) (rr_id r) x \<and> rr_lease x = now + review_run_lease then deferred_run now x else x) \<circ>
        (\<lambda>y. if picked now (rr_id r) y then claimed_run now y else y)) x)"
    proof (cases "x = r")
      case True
      then show ?thesis using r(2) claimable_not_over [of now r]
        by (auto simp: row_moves_def same_run_def deferred_run_def claimed_run_def running_def picked_def is_run_def)
    next
      case False
      then show ?thesis using picked_only [OF ok r x] same_id [OF ok x r(1)] by (auto simp: is_run_def)
    qed
  qed (simp_all add: z(2))
qed

lemma moves_let_go:
  assumes "rv_runs db' = map (\<lambda>y. if has_run r y then f y else y) (rv_runs db)"
    and "rv_prs db' = map (\<lambda>p. if has_pr r p then g p else p) (rv_prs db)"
    and "\<And>x. has_run r x \<Longrightarrow> same_run x (f x) \<and> \<not> running (f x)" "\<And>p. same_place p (g p) \<and> (rp_lease (g p) = rp_lease p \<or> rp_lease (g p) = 0)"
  shows "moves now db db'"
  by (rule moves_maps [OF assms(1,2)]) (use assms(3,4) has_run_not_over in \<open>auto simp: row_moves_def place_moves_def\<close>)

lemma touch_shape:
  "(fst (touch_review_run now r db) = db) \<or>
   rv_runs (fst (touch_review_run now r db)) = map (\<lambda>y. if has_run r y then y\<lparr>rr_lease := now + review_run_lease\<rparr> else y) (rv_runs db) \<and>
   rv_prs (fst (touch_review_run now r db)) = map (\<lambda>q. if has_pr r q then q\<lparr>rp_lease := now + review_run_lease\<rparr> else q) (rv_prs db)"
  by (auto simp: touch_review_run_def Let_def split_beta split: option.split)

lemma finish_shape:
  "fst (finish_review_run now r res db) = db \<or> (re_status res \<in> set review_run_ends \<and>
   rv_runs (fst (finish_review_run now r res db)) = map (\<lambda>y. if has_run r y then ended_run now r res y else y) (rv_runs db) \<and>
   rv_prs (fst (finish_review_run now r res db)) = map (\<lambda>p. if has_pr r p
     then (case re_reviewed res of None \<Rightarrow> p | Some v \<Rightarrow> reviewed_pr v p)\<lparr>rp_lease := 0\<rparr> else p) (rv_prs db))"
proof -
  have "has_pr r (reviewed_pr v p) = has_pr r p" for v p by (simp add: has_pr_def is_pr_def reviewed_pr_def)
  then show ?thesis
    by (auto simp: finish_review_run_def release_pr_def retire_findings_def Let_def split_beta split: option.split)
qed

lemma requeue_shape:
  "fst (requeue_review_run r not_before why spend db) = db \<or>
   rv_runs (fst (requeue_review_run r not_before why spend db)) =
     map (\<lambda>y. if has_run r y then put_back_run not_before why spend y else y) (rv_runs db) \<and>
   rv_prs (fst (requeue_review_run r not_before why spend db)) = map (\<lambda>p. if has_pr r p then p\<lparr>rp_lease := 0\<rparr> else p) (rv_prs db)"
  by (simp add: requeue_review_run_def release_pr_def Let_def split_beta)

lemma outcome_shape:
  "fst (save_review_outcome now r outcome found seen resolved db) = db \<or>
   rv_prs (fst (save_review_outcome now r outcome found seen resolved db)) = rv_prs db \<and>
   rv_runs (fst (save_review_outcome now r outcome found seen resolved db)) =
     map (\<lambda>x. if has_run r x \<and> held_pr db (rr_lease r) x then checkpointed_run r outcome x else x) (rv_runs db)"
  by (auto simp: save_review_outcome_def Let_def split_beta dest!: insert_findings_tables split: sum.splits)

lemma moves_update_runs:
  "(\<And>x. P x \<Longrightarrow> has_run r x) \<Longrightarrow> (\<And>x. same_run x (f x) \<and> same_life x (f x)) \<Longrightarrow> moves now db (fst (update_runs P f db))"
  by (rule moves_held_runs [of _ _ P f r]) simp_all

lemma touch_moves: "moves now db (fst (touch_review_run now r db))"
proof (cases "fst (touch_review_run now r db) = db")
  case False
  then have z: "rv_runs (fst (touch_review_run now r db)) = map (\<lambda>y. if has_run r y then y\<lparr>rr_lease := now + review_run_lease\<rparr> else y) (rv_runs db)"
    "rv_prs (fst (touch_review_run now r db)) = map (\<lambda>q. if has_pr r q then q\<lparr>rp_lease := now + review_run_lease\<rparr> else q) (rv_prs db)"
    using touch_shape [of now r db] by blast+
  show ?thesis
    by (rule moves_maps [OF z]) (auto simp: row_moves_def same_run_def place_moves_def same_place_def dest: has_run_not_over)
qed (simp add: moves_same)

lemma outcome_moves: "moves now db (fst (save_review_outcome now r outcome found seen resolved db))"
proof (cases "fst (save_review_outcome now r outcome found seen resolved db) = db")
  case False
  then have z: "rv_prs (fst (save_review_outcome now r outcome found seen resolved db)) = rv_prs db"
    "rv_runs (fst (save_review_outcome now r outcome found seen resolved db)) =
       map (\<lambda>x. if has_run r x \<and> held_pr db (rr_lease r) x then checkpointed_run r outcome x else x) (rv_runs db)"
    using outcome_shape [of now r outcome found seen resolved db] by blast+
  show ?thesis
    by (rule moves_held_runs [OF z, of r]) (simp_all add: same_run_def same_life_def checkpointed_run_def)
qed (simp add: moves_same)

lemma finish_moves: "moves now db (fst (finish_review_run now r res db))"
proof (cases "fst (finish_review_run now r res db) = db")
  case False
  then have z: "re_status res \<in> set review_run_ends"
    "rv_runs (fst (finish_review_run now r res db)) = map (\<lambda>y. if has_run r y then ended_run now r res y else y) (rv_runs db)"
    "rv_prs (fst (finish_review_run now r res db)) = map (\<lambda>p. if has_pr r p
       then (case re_reviewed res of None \<Rightarrow> p | Some v \<Rightarrow> reviewed_pr v p)\<lparr>rp_lease := 0\<rparr> else p) (rv_prs db)"
    using finish_shape [of now r res db] by blast+
  show ?thesis
    by (rule moves_let_go [OF z(2,3)])
      (use z(1) in \<open>auto simp: same_run_def ended_run_def running_def review_run_ends_def same_place_def reviewed_pr_def split: option.split\<close>)
qed (simp add: moves_same)

lemma requeue_moves: "moves now db (fst (requeue_review_run r not_before why spend db))"
proof (cases "fst (requeue_review_run r not_before why spend db) = db")
  case False
  then have z: "rv_runs (fst (requeue_review_run r not_before why spend db)) =
       map (\<lambda>y. if has_run r y then put_back_run not_before why spend y else y) (rv_runs db)"
    "rv_prs (fst (requeue_review_run r not_before why spend db)) = map (\<lambda>p. if has_pr r p then p\<lparr>rp_lease := 0\<rparr> else p) (rv_prs db)"
    using requeue_shape [of r not_before why spend db] by blast+
  show ?thesis
    by (rule moves_let_go [OF z]) (simp_all add: same_run_def put_back_run_def running_def same_place_def)
qed (simp add: moves_same)

lemma row_moves_stop: "same_run x x' \<Longrightarrow> \<not> over x \<Longrightarrow> \<not> running x' \<Longrightarrow> row_moves now x x'"
  by (simp add: row_moves_def)

lemma row_moves_life: "same_run x x' \<Longrightarrow> \<not> over x \<Longrightarrow> same_life x x' \<Longrightarrow> row_moves now x x'"
  by (simp add: row_moves_def same_life_def running_def)

lemma cancel_moves: "moves now db (fst (cancel_review_runs now org pr why db))"
proof (rule moves_maps [of _ _ _ "\<lambda>p. p"])
  let ?S = "\<lambda>y. if stops_now now org pr y then stopped_run now (truncate_text why 300) y else y"
  let ?A = "\<lambda>y. if is_asked now org pr y then y\<lparr>rr_cancel := True, rr_error := truncate_text why 300\<rparr> else y"
  show "rv_runs (fst (cancel_review_runs now org pr why db)) = map (?A \<circ> ?S) (rv_runs db)"
    "rv_prs (fst (cancel_review_runs now org pr why db)) = map (\<lambda>p. p) (rv_prs db)"
    by (simp_all add: cancel_review_runs_def Let_def)
  fix x
  have over: "\<not> over x" if "stops_now now org pr x \<or> is_asked now org pr x"
    using that by (auto simp: stops_now_def is_asked_def going_def)
  have stopped: "\<not> is_asked now org pr (stopped_run now w x)" for w
    by (simp add: is_asked_def going_def stopped_run_def)
  show "row_moves now x ((?A \<circ> ?S) x)"
  proof (cases "stops_now now org pr x")
    case True
    with stopped over show ?thesis by (auto intro!: row_moves_stop simp: same_run_def stopped_run_def running_def)
  next
    case False
    with over show ?thesis by (auto intro!: row_moves_life simp: same_run_def same_life_def)
  qed
qed simp

lemma sweep_moves: "moves now db (fst (sweep_review_runs now db))"
proof (rule moves_maps [of _ "\<lambda>r. if abandoned now r then retired_run now r else r" _ "\<lambda>p. p"])
  fix x
  have "\<not> over x" if "abandoned now x" using that by (simp add: abandoned_def)
  then show "row_moves now x (if abandoned now x then retired_run now x else x)"
    by (auto intro!: row_moves_stop simp: same_run_def retired_run_def running_def)
qed (simp_all add: sweep_review_runs_def)

lemma upsert_moves: "moves now db (fst (upsert_review_pr U org f db))"
proof -
  have "moves now db (db\<lparr>rv_prs := update_rows P (known_pr f) (rv_prs db)\<rparr>)" for P
    by (rule moves_maps [of _ "\<lambda>x. x" _ "\<lambda>r. if P r then known_pr f r else r"])
      (auto simp: update_rows_def place_moves_def same_place_def known_pr_def)
  then show ?thesis
    by (auto simp: upsert_review_pr_def Let_def new_pr_def intro: moves_new_pr moves_same split: option.split)
qed

lemma queue_step_moves:
  assumes "queue_step (c, db) (now, db')" "queue_ok (c, db)"
  shows "moves now db db'"
  using assms(1)
proof cases
  case (enqueues pub org q)
  then show ?thesis
    by (auto simp: enqueue_review_run_def Let_def queued_run_def intro: moves_new_run moves_same split: option.split)
next
  case (posts r cm)
  show ?thesis unfolding posts set_run_github_review_def
    by (rule moves_update_runs [of _ r]) (simp_all add: same_run_def same_life_def)
next
  case (reserves r usd)
  show ?thesis unfolding reserves set_run_reserved_def
    by (rule moves_update_runs [of _ r]) (simp_all add: same_run_def same_life_def)
qed (simp_all add: upsert_moves moves_claim [OF assms(2)] moves_noted review_note_noted score_noted touch_moves
    outcome_moves finish_moves requeue_moves cancel_moves sweep_moves)

lemma list_all2_back: "list_all2 R xs ys \<Longrightarrow> y \<in> set ys \<Longrightarrow> \<exists>x\<in>set xs. R x y"
  by (induction rule: list_all2_induct) auto

lemma list_all2_on: "list_all2 R xs ys \<Longrightarrow> x \<in> set xs \<Longrightarrow> \<exists>y\<in>set ys. R x y"
  by (induction rule: list_all2_induct) auto

lemma moves_run_back:
  assumes "moves now db db'" "x' \<in> set (rv_runs db')" "running x'"
  shows "\<exists>x\<in>set (rv_runs db). row_moves now x x'"
proof -
  obtain runs new where z: "rv_runs db' = runs @ new" "list_all2 (row_moves now) (rv_runs db) runs" "\<forall>r\<in>set new. rr_status r = ''queued''"
    using assms(1) unfolding moves_def by blast
  then have "x' \<in> set runs" using assms(2,3) by (auto simp: running_def)
  then show ?thesis by (rule list_all2_back [OF z(2)])
qed

lemma moves_run_on:
  assumes "moves now db db'" "x \<in> set (rv_runs db)"
  shows "\<exists>x'\<in>set (rv_runs db'). row_moves now x x'"
proof -
  obtain runs new where z: "rv_runs db' = runs @ new" "list_all2 (row_moves now) (rv_runs db) runs"
    using assms(1) unfolding moves_def by blast
  then show ?thesis using list_all2_on [OF z(2) assms(2)] by auto
qed

lemma moves_pr_back:
  assumes "moves now db db'" "p' \<in> set (rv_prs db')"
  shows "rp_lease p' = 0 \<or> (\<exists>p\<in>set (rv_prs db). place_moves now p p')"
proof -
  obtain prs new where z: "rv_prs db' = prs @ new" "list_all2 (place_moves now) (rv_prs db) prs" "\<forall>p\<in>set new. rp_lease p = 0"
    using assms(1) unfolding moves_def by blast
  then show ?thesis using list_all2_back [OF z(2)] assms(2) by auto
qed

lemma queue_step_clock: "queue_step s s' \<Longrightarrow> fst s \<le> fst s'"
  by (induction rule: queue_step.induct) simp_all

section \<open>A lease that was lost stays lost\<close>

text \<open>The copy was made before now: its lease is one the clock gave earlier.\<close>

definition old_copy :: "int \<Rightarrow> review_db \<Rightarrow> review_run \<Rightarrow> bool" where
  "old_copy c db r \<longleftrightarrow> copy_of db r \<and> rr_lease r < c + review_run_lease"

lemma copy_step:
  assumes step: "queue_step (c, db) (now, db')" and ok: "queue_ok (c, db)" and copy: "copy_of db r"
    and lease: "rr_lease r < now + review_run_lease"
  shows "copy_of db' r"
proof -
  have mv: "moves now db db'" by (rule queue_step_moves [OF step ok])
  obtain x where x: "x \<in> set (rv_runs db)" "is_run (rr_org r) (rr_id r) x" "rr_pr x = rr_pr r" "has_run r x \<longrightarrow> rr_attempts x = rr_attempts r"
    using copy by (auto simp: copy_of_def)
  obtain x' where x': "x' \<in> set (rv_runs db')" "row_moves now x x'" using moves_run_on [OF mv x(1)] by blast
  then have "is_run (rr_org r) (rr_id r) x'" "rr_pr x' = rr_pr r" "has_run r x' \<longrightarrow> rr_attempts x' = rr_attempts r"
    using x lease by (auto simp: row_moves_def same_run_def is_run_def has_run_def running_def)
  with x'(1) show ?thesis by (auto simp: copy_of_def)
qed

lemma old_copy_step:
  "queue_step (c, db) (now, db') \<Longrightarrow> queue_ok (c, db) \<Longrightarrow> old_copy c db r \<Longrightarrow> old_copy now db' r"
  using copy_step [of c db now db' r] queue_step_clock [of "(c, db)" "(now, db')"] by (simp add: old_copy_def)

lemma no_new_holder:
  assumes step: "queue_step (c, db) (now, db')" and ok: "queue_ok (c, db)" and old: "old_copy c db r" and h: "holds db' r"
  shows "holds db r"
proof -
  have mv: "moves now db db'" by (rule queue_step_moves [OF step ok])
  have ok': "queue_ok (now, db')" by (rule queue_step_ok [OF step ok])
  have copy': "copy_of db' r" and lease: "rr_lease r < now + review_run_lease"
    using old_copy_step [OF step ok old] by (simp_all add: old_copy_def)
  obtain x' p' where z: "x' \<in> set (rv_runs db')" "has_run r x'" "p' \<in> set (rv_prs db')" "has_pr r p'"
    using h holds_rows [OF ok' copy'] by blast
  have pos: "0 < rr_lease r" using queue_okD(4) [OF ok' z(1)] z(2) by (auto simp: run_ok_def has_run_def running_def)
  obtain x where x: "x \<in> set (rv_runs db)" "row_moves now x x'"
    using moves_run_back [OF mv z(1)] z(2) by (auto simp: has_run_def running_def)
  obtain p where p: "p \<in> set (rv_prs db)" "place_moves now p p'"
    using moves_pr_back [OF mv z(3)] z(4) pos by (auto simp: has_pr_def)
  have "has_run r x" using x(2) z(2) lease by (auto simp: row_moves_def same_run_def has_run_def is_run_def running_def)
  moreover have "has_pr r p" using p(2) z(4) lease pos by (auto simp: place_moves_def same_place_def has_pr_def is_pr_def)
  ultimately show ?thesis using holds_rows [OF ok] old x(1) p(1) by (auto simp: old_copy_def)
qed

lemma lost_stays_lost:
  assumes "queue_run s s'" "queue_ok s" "old_copy (fst s) (snd s) r" "\<not> holds (snd s) r"
  shows "old_copy (fst s') (snd s') r \<and> \<not> holds (snd s') r"
  using assms(1)
proof (induction rule: rtranclp_induct)
  case (step t u)
  have "queue_ok t" by (rule queue_run_ok [OF step(1) assms(2)])
  then show ?case
    using step.IH old_copy_step [of "fst t" "snd t" "fst u" "snd u"] no_new_holder [of "fst t" "snd t" "fst u" "snd u"] step.hyps(2)
    by simp blast
qed (use assms in simp)

section \<open>The interface of a write that is fenced on the pull request\<close>

locale fenced_op =
  fixes op :: "'a \<Rightarrow> review_run \<Rightarrow> review_db \<Rightarrow> review_db"
  assumes refused: "queue_ok (c, db) \<Longrightarrow> copy_of db r \<Longrightarrow> \<not> holds db r \<Longrightarrow> op a r db = db"
begin

lemma refused_tries: "queue_ok (c, db) \<Longrightarrow> copy_of db r \<Longrightarrow> \<not> holds db r \<Longrightarrow> fold (\<lambda>a. op a r) as db = db"
  by (induction as) (simp_all add: refused)

text \<open>Whatever the lane tries, and however long after it lost the lease.\<close>

lemma refused_later:
  assumes "queue_ok s" "old_copy (fst s) (snd s) r" "\<not> holds (snd s) r" "queue_run s s'"
  shows "fold (\<lambda>a. op a r) as (snd s') = snd s'"
proof (rule refused_tries)
  show "queue_ok (fst s', snd s')" using queue_run_ok [OF assms(4,1)] by simp
  show "copy_of (snd s') r" "\<not> holds (snd s') r"
    using lost_stays_lost [OF assms(4,1-3)] by (simp_all add: old_copy_def)
qed

end

lemma update_rows_none: "\<not> list_ex P rows \<Longrightarrow> update_rows P f rows = rows"
  by (induction rows) (auto simp: update_rows_def)

lemma update_runs_none: "\<not> list_ex P (rv_runs db) \<Longrightarrow> fst (update_runs P f db) = db"
  by (simp add: update_runs_def update_rows_none)

interpretation touching: fenced_op "\<lambda>now r db. fst (touch_review_run now r db)"
proof
  fix c db r now assume "queue_ok (c, db)" "copy_of db r" "\<not> holds db r"
  then have "\<not> list_ex (has_run r) (rv_runs db) \<or> \<not> list_ex (has_pr r) (rv_prs db)" using holds_rows [of c db r] by (auto simp: list_ex_iff)
  then show "fst (touch_review_run now r db) = db"
    by (auto simp: touch_review_run_def Let_def split_beta list_ex_iff split: option.split dest: find_some)
qed

interpretation recording: fenced_op "\<lambda>cm r db. fst (set_run_github_review r cm db)"
  by unfold_locales (simp add: set_run_github_review_def holds_def update_runs_none)

interpretation checkpointing: fenced_op "\<lambda>(now, outcome, found, seen, resolved) r db. fst (save_review_outcome now r outcome found seen resolved db)"
  by unfold_locales (auto simp: save_review_outcome_def holds_def update_runs_none Let_def split_beta)

interpretation reviewing: fenced_op "\<lambda>(now, v, res) r db. fst (finish_review_run now r (res\<lparr>re_reviewed := Some v\<rparr>) db)"
proof
  fix c db r and a :: "int \<times> pr_reviewed \<times> run_result"
  assume "queue_ok (c, db)" "copy_of db r" "\<not> holds db r"
  then have "\<not> list_ex (has_run r) (rv_runs db) \<or> \<not> list_ex (has_pr r) (rv_prs db)" using holds_rows [of c db r] by (auto simp: list_ex_iff)
  then show "(case a of (now, v, res) \<Rightarrow> \<lambda>r db. fst (finish_review_run now r (res\<lparr>re_reviewed := Some v\<rparr>) db)) r db = db"
    by (auto simp: finish_review_run_def Let_def split_beta)
qed

text \<open>The four together, as a lane mixes them.\<close>

datatype pr_write =
    Renew int
  | Record int
  | Checkpoint int string "(string \<times> review_finding) list" "string list" "resolution list"
  | End_reviewed int pr_reviewed run_result

fun carry_out_write :: "pr_write \<Rightarrow> review_run \<Rightarrow> review_db \<Rightarrow> review_db" where
  "carry_out_write (Renew now) r db = fst (touch_review_run now r db)"
| "carry_out_write (Record cm) r db = fst (set_run_github_review r cm db)"
| "carry_out_write (Checkpoint now outcome found seen resolved) r db =
     fst (save_review_outcome now r outcome found seen resolved db)"
| "carry_out_write (End_reviewed now v res) r db = fst (finish_review_run now r (res\<lparr>re_reviewed := Some v\<rparr>) db)"

interpretation lane_writes: fenced_op carry_out_write
proof
  fix c db r w assume "queue_ok (c, db)" "copy_of db r" "\<not> holds db r"
  then show "carry_out_write w r db = db"
    using touching.refused recording.refused checkpointing.refused [of c db r "(_, _, _, _, _)"] reviewing.refused [of c db r "(_, _, _)"]
    by (cases w) auto
qed

section \<open>What the queue promises\<close>

text \<open>C10. At most one lane can write for a pull request: two copies that pass the fence of the same pull request, at
  any point of any interleaving, are of the same run under the same lease, whatever snapshots the claims
  picked from and however long lanes stood still.\<close>

theorem one_run_writes:
  assumes "queue_start s" "queue_run s (c, db)" "copy_of db r" "copy_of db r'" "holds db r" "holds db r'"
    and "rr_org r = rr_org r'" "rr_pr r = rr_pr r'"
  shows "rr_id r = rr_id r' \<and> rr_lease r = rr_lease r'"
  using one_holder queue_run_ok [OF assms(2) queue_start_ok [OF assms(1)]] assms(3-) by blast


lemma ended_step: "queue_step s s' \<Longrightarrow> queue_ok s \<Longrightarrow> x \<in> set (rv_runs (snd s)) \<Longrightarrow> over x \<Longrightarrow> x \<in> set (rv_runs (snd s'))"
  using queue_step_moves [of "fst s" "snd s" "fst s'" "snd s'"] moves_run_on [of "fst s'" "snd s" "snd s'" x]
  by (cases s; cases s') (auto simp: row_moves_def)

text \<open>C13. An ended run is never written again, whatever statements follow, and every review a pull request counts is a
  run of it that ended: no review is counted twice.\<close>

theorem reviews_counted_once:
  assumes "queue_start s0" "queue_run s0 (c, db)" "queue_run (c, db) (c', db')"
  shows "set (filter over (rv_runs db)) \<subseteq> set (rv_runs db') \<and>
    list_all (\<lambda>p. rp_reviews p \<le> int (reviews_of (rv_runs db') p)) (rv_prs db')"
proof
  have ok: "queue_ok (c, db)" by (rule queue_run_ok [OF assms(2) queue_start_ok [OF assms(1)]])
  have "x \<in> set (rv_runs (snd s))" if "queue_run (c, db) s" "x \<in> set (rv_runs db)" "over x" for s x
    using that
  proof (induction rule: rtranclp_induct)
    case (step t u)
    then show ?case using ended_step [OF step(2) queue_run_ok [OF step(1) ok]] by blast
  qed simp
  from this [OF assms(3)] show "set (filter over (rv_runs db)) \<subseteq> set (rv_runs db')" by auto
  show "list_all (\<lambda>p. rp_reviews p \<le> int (reviews_of (rv_runs db') p)) (rv_prs db')"
    using queue_okD(8) [OF queue_run_ok [OF assms(3) ok]] by (simp add: list_all_iff)
qed

section \<open>What a sweep leaves\<close>

text \<open>Waiting to be claimed, now or when its time comes.\<close>

definition claimable_later :: "review_run \<Rightarrow> bool" where
  "claimable_later r \<longleftrightarrow> (\<exists>t. claimable t r)"

lemma claimable_later_iff:
  "claimable_later r \<longleftrightarrow> (rr_status r = ''queued'' \<or> rr_status r = ''running'') \<and> \<not> rr_cancel r \<and> rr_attempts r < review_run_max_attempts"
  by (auto simp: claimable_later_def claimable_def intro: exI [of _ "max (rr_lease r) (rr_not_before r)"])

definition put_back_too_late :: "review_run \<Rightarrow> bool" where
  "put_back_too_late r \<longleftrightarrow> rr_status r = ''queued'' \<and> rr_cancel r"

text \<open>C14. After a sweep every run has ended, or is held by a lane whose lease has not lapsed, or will be claimed
  when its time comes; the one exception is a run that was put back after somebody asked it to stop.\<close>

theorem sweep_leaves_work:
  assumes "queue_start s" "queue_run s (c, db)" "c \<le> now" "x \<in> set (rv_runs (fst (sweep_review_runs now db)))"
  shows "over x \<or> going now x \<or> claimable_later x \<or> put_back_too_late x"
proof -
  have "queue_ok (now, fst (sweep_review_runs now db))"
    by (rule sweep_ok [OF queue_run_ok [OF assms(2) queue_start_ok [OF assms(1)]] assms(3)])
  from queue_okD(4) [OF this assms(4)] have ok: "run_ok now x" .
  have "\<not> abandoned now (retired_run now y)" for y by (simp add: abandoned_def retired_run_def)
  then have "\<not> abandoned now x" using assms(4) by (auto simp: sweep_review_runs_def)
  with ok show ?thesis
    by (auto simp: run_ok_def abandoned_def going_def running_def put_back_too_late_def claimable_later_iff)
qed

text \<open>
  That exception is a way to lose a run: a lane that shuts down puts its run back without having seen a cancel that was
  asked for since its last renewal. The claim never takes it, the sweep never retires it, and it reads as
  queued for ever \<open>(its types count as on their way in reviewTypesAtHead)\<close>.
\<close>

lemma put_back_is_stuck:
  assumes "put_back_too_late x"
  shows "\<not> claimable t x" "\<not> abandoned t x" "\<not> has_run r x"
  using assms by (simp_all add: put_back_too_late_def claimable_def abandoned_def has_run_def)


section \<open>A course of events\<close>

text \<open>
  Two runs of one pull request. The first is claimed and its lane stands still past its lease; the second is claimed
  a minute and a half later, from a fresh snapshot, and posts.
\<close>

definition sample_facts :: pr_facts where
  "sample_facts = \<lparr>pf_repo = ''Acme/App'', pf_number = 7, pf_state = '''', pf_fork = None, pf_private = Some True,
     pf_author = ''ann'', pf_head = ''abc1234''\<rparr>"

definition sample_request :: "string \<Rightarrow> run_request" where
  "sample_request key = \<lparr>rq_pr = 1, rq_installation = 9, rq_kind = ''review'', rq_dedupe = key, rq_trigger = ''open'',
     rq_ref = '''', rq_by = ''github:ann'', rq_head = ''abc1234'', rq_base = ''def5678'', rq_cache = ''k'', rq_types = [(''general'', 1)],
     rq_rule = '''', rq_config = '''', rq_reserved = 1, rq_not_before = None, rq_request = ''''\<rparr>"

definition sample_result :: run_result where
  "sample_result = \<lparr>re_reviewed = Some \<lparr>pv_sha = ''abc1234'', pv_hashes = '''', pv_score = 5, pv_automatic = True\<rparr>,
     re_status = ''posted'', re_review = 77, re_files = 3, re_not_reviewed = [], re_candidates = 0, re_dropped = 0, re_kept = 0,
     re_score = 5, re_summary = '''', re_risk = '''', re_model = ''m'', re_tokens_in = 1, re_tokens_out = 1,
     re_tokens_cached = 0, re_cost = 1, re_error = ''''\<rparr>"

definition empty_db :: review_db where
  "empty_db = \<lparr>rv_prs = [], rv_runs = [], rv_findings = []\<rparr>"

definition queued_db :: review_db where
  "queued_db = fst (enqueue_review_run 2 ''r2'' 1 (sample_request ''b'')
     (fst (enqueue_review_run 1 ''r1'' 1 (sample_request ''a'') (fst (upsert_review_pr ascii_tables 1 sample_facts empty_db)))))"

definition claimed_db :: review_db where
  "claimed_db = fst (claim_once (5 * nanos) (rv_runs queued_db) queued_db)"

definition first_lane :: review_run where
  "first_lane = the (fst (snd (claim_once (5 * nanos) (rv_runs queued_db) queued_db)))"

text \<open>The second claim picked from what it saw before the first, so the lapsed first run is passed over.\<close>

definition other_runs :: "review_run list" where
  "other_runs = filter (\<lambda>r. rr_id r \<noteq> 1) (rv_runs queued_db)"

definition taken_db :: review_db where
  "taken_db = fst (claim_once (95 * nanos) other_runs claimed_db)"

definition second_lane :: review_run where
  "second_lane = the (fst (snd (claim_once (95 * nanos) other_runs claimed_db)))"

definition posted_db :: review_db where
  "posted_db = fst (finish_review_run (99 * nanos) second_lane sample_result taken_db)"

lemmas sample_defs = empty_db_def queued_db_def claimed_db_def first_lane_def other_runs_def taken_db_def second_lane_def posted_db_def

lemma claimed_run_of: "queue_run (0, empty_db) (5 * nanos, claimed_db)"
proof -
  let ?a = "fst (upsert_review_pr ascii_tables 1 sample_facts empty_db)"
  let ?b = "fst (enqueue_review_run 1 ''r1'' 1 (sample_request ''a'') ?a)"
  have "queue_step (0, empty_db) (0, ?a)" by (rule opens) simp
  moreover have "queue_step (0, ?a) (1, ?b)" by (rule enqueues) simp
  moreover have "queue_step (1, ?b) (2, queued_db)" unfolding queued_db_def by (rule enqueues) simp
  moreover have "queue_step (2, queued_db) (5 * nanos, claimed_db)" unfolding claimed_db_def by (rule claims) (simp add: nanos_def)
  ultimately show ?thesis by (meson converse_rtranclp_into_rtranclp rtranclp.rtrancl_refl)
qed

lemma taken_run_of: "queue_run (0, empty_db) (95 * nanos, taken_db)"
  using claimed_run_of by (rule rtranclp.rtrancl_into_rtrancl) (unfold taken_db_def, rule claims, simp add: nanos_def)

lemma sample_start: "queue_start (0, empty_db)"
  by (simp add: queue_start_def empty_db_def)

lemma second_lane_copy: "copy_of taken_db second_lane" "holds taken_db second_lane" "rr_id second_lane = 2"
  by code_simp+

lemma first_lane_lost: "copy_of taken_db first_lane" "\<not> holds taken_db first_lane" "rr_lease first_lane = 65 * nanos" "rr_id first_lane = 1"
  by code_simp+

lemma second_lane_place: "rr_org second_lane = 1" "rr_pr second_lane = 1"
  by code_simp+

lemma posted_run_of: "queue_run (95 * nanos, taken_db) (99 * nanos, posted_db)"
  by (rule r_into_rtranclp, unfold posted_db_def, rule ends) (simp add: nanos_def, rule second_lane_copy)

theorem one_run_writes_witness:
  "holds taken_db second_lane \<and> rr_id second_lane = rr_id second_lane \<and> rr_lease second_lane = rr_lease second_lane"
  using one_run_writes [OF sample_start taken_run_of second_lane_copy(1,1,2,2) refl refl] second_lane_copy(2) by blast


theorem reviews_counted_once_witness:
  "set (filter over (rv_runs taken_db)) \<subseteq> set (rv_runs posted_db) \<and>
   list_all (\<lambda>p. rp_reviews p \<le> int (reviews_of (rv_runs posted_db) p)) (rv_prs posted_db) \<and> map rp_reviews (rv_prs posted_db) = [1]"
proof -
  have "map rp_reviews (rv_prs posted_db) = [1]" by code_simp
  with reviews_counted_once [OF sample_start taken_run_of posted_run_of] show ?thesis by blast
qed

theorem sweep_leaves_work_witness:
  "over (hd (rv_runs (fst (sweep_review_runs (200 * nanos) posted_db)))) \<or> going (200 * nanos) (hd (rv_runs (fst (sweep_review_runs (200 * nanos) posted_db)))) \<or>
   claimable_later (hd (rv_runs (fst (sweep_review_runs (200 * nanos) posted_db)))) \<or>
   put_back_too_late (hd (rv_runs (fst (sweep_review_runs (200 * nanos) posted_db))))"
proof (rule sweep_leaves_work [OF sample_start])
  show "queue_run (0, empty_db) (99 * nanos, posted_db)" using taken_run_of posted_run_of by (rule rtranclp_trans)
  have "rv_runs (fst (sweep_review_runs (200 * nanos) posted_db)) \<noteq> []" by code_simp
  then show "hd (rv_runs (fst (sweep_review_runs (200 * nanos) posted_db))) \<in> set (rv_runs (fst (sweep_review_runs (200 * nanos) posted_db)))"
    by (rule hd_in_set)
qed (simp add: nanos_def)

lemma put_back_strands_a_cancelled_run:
  "list_ex put_back_too_late (rv_runs (fst (requeue_review_run first_lane (7 * nanos) ''the instance running it shut down'' False
     (fst (cancel_review_runs (6 * nanos) 1 1 ''the pull request was closed'' claimed_db)))))"
  by code_simp

end
