(* ===== verification/Review_Lane.thy ===== *)
theory Review_Lane
  imports Review_Safety
begin

text \<open>
  The lane that carries a claimed run (\<^verbatim>\<open>internal/app/review_lane.go\<close>): the hold and its fenced writes, the
  ways a run ends or is put back, and many lanes side by side over one database. A lane's steps are shown to
  be steps of the queue, so what the queue promises holds of lanes; in particular of two lanes that are
  about to post on one pull request at most one passes the renewal that comes before each post.

  The mutex of the hold makes its writes one step each. The work itself, between the steps, is not modelled:
  a lane may try any write at any time.
\<close>

section \<open>The hold\<close>

record review_hold =
  lh_run :: review_run
  lh_lost :: bool
  lh_cancel :: bool
  lh_ended :: bool

type_synonym lane_state = "review_hold \<times> review_db"

definition hold_write :: "(lane_state \<Rightarrow> lane_state \<times> review_error option) \<Rightarrow> lane_state \<Rightarrow> lane_state \<times> review_error option" where
  "hold_write fn s = (if lh_lost (fst s) then (s, Some Lease_lost)
     else let ((h, db), e) = fn s in ((if e = Some Lease_lost then h\<lparr>lh_lost := True\<rparr> else h, db), e))"

definition hold_touch :: "int \<Rightarrow> lane_state \<Rightarrow> lane_state \<times> review_error option" where
  "hold_touch now = hold_write (\<lambda>(h, db). case touch_review_run now (lh_run h) db of
     (db', None) \<Rightarrow> ((h, db'), Some Lease_lost)
   | (db', Some (lease, cancel)) \<Rightarrow>
       ((h\<lparr>lh_run := (lh_run h)\<lparr>rr_lease := lease\<rparr>, lh_cancel := lh_cancel h \<or> cancel\<rparr>, db'), None))"

definition end_review_run :: "int \<Rightarrow> run_result \<Rightarrow> lane_state \<Rightarrow> lane_state \<times> bool" where
  "end_review_run now res s = (let (s', e) = hold_write (\<lambda>(h, db).
       let (db', e) = finish_review_run now (lh_run h) res db in ((h\<lparr>lh_ended := (e = None)\<rparr>, db'), e)) s in (s', e = None))"

definition requeued :: "int \<Rightarrow> bool \<Rightarrow> review_run \<Rightarrow> review_run" where
  "requeued not_before spend r = r\<lparr>rr_status := ''queued'', rr_lease := 0, rr_not_before := not_before,
     rr_attempts := rr_attempts r - (if spend then 0 else 1)\<rparr>"

definition requeue_review :: "int \<Rightarrow> string \<Rightarrow> bool \<Rightarrow> lane_state \<Rightarrow> lane_state" where
  "requeue_review not_before why spend s = fst (hold_write (\<lambda>(h, db).
     let (db', ok) = requeue_review_run (lh_run h) not_before why spend db
     in ((h\<lparr>lh_ended := ok, lh_run := (if ok then requeued not_before spend (lh_run h) else lh_run h)\<rparr>, db'),
         if ok then None else Some Lease_lost)) s)"

definition no_result :: "string \<Rightarrow> string \<Rightarrow> run_result" where
  "no_result status err = \<lparr>re_reviewed = None, re_status = status, re_review = 0, re_files = 0, re_not_reviewed = [],
     re_candidates = 0, re_dropped = 0, re_kept = 0, re_score = -1, re_summary = '''', re_risk = '''', re_model = '''',
     re_tokens_in = 0, re_tokens_out = 0, re_tokens_cached = 0, re_cost = 0, re_error = err\<rparr>"

text \<open>Whether the lane is being shut down, and whether the work's context has ended.\<close>

definition interrupted :: "int \<Rightarrow> bool \<Rightarrow> bool \<Rightarrow> lane_state \<Rightarrow> lane_state \<times> bool" where
  "interrupted now lane_done work_done s =
     (if lh_lost (fst s) then (s, True)
      else if lh_cancel (fst s) then (fst (end_review_run now (no_result ''cancelled'' ''cancelled while running'') s), True)
      else if lane_done then (requeue_review now ''the instance running it shut down'' False s, True)
      else if work_done then (s, True) else (s, False))"

text \<open>An error as the lane tells them apart: GitHub's wait, the engine's failure with its reason, a lost lease, any other.\<close>

datatype lane_failure = Waits int string | Engine string string | Lease_gone string | Other_failure string

fun failure_text :: "lane_failure \<Rightarrow> string" where
  "failure_text (Waits _ t) = t"
| "failure_text (Engine _ t) = t"
| "failure_text (Lease_gone t) = t"
| "failure_text (Other_failure t) = t"

definition failed_result :: "string \<Rightarrow> lane_failure \<Rightarrow> run_result" where
  "failed_result reason e = no_result ''failed'' (reason @ '': '' @ failure_text e)"

definition review_run_error :: "int \<Rightarrow> bool \<Rightarrow> bool \<Rightarrow> lane_failure \<Rightarrow> lane_state \<Rightarrow> lane_state" where
  "review_run_error now lane_done work_done e s = (case interrupted now lane_done work_done s of
     (s', True) \<Rightarrow> s'
   | (s', False) \<Rightarrow> (case e of
       Waits w _ \<Rightarrow> requeue_review (now + max w nanos) (failure_text e) False s'
     | Engine reason _ \<Rightarrow> fst (end_review_run now (failed_result reason e) s')
     | _ \<Rightarrow> fst (end_review_run now (failed_result ''internal'' e) s')))"

definition retry_or_fail :: "int \<Rightarrow> bool \<Rightarrow> bool \<Rightarrow> lane_failure \<Rightarrow> string \<Rightarrow> lane_state \<Rightarrow> lane_state" where
  "retry_or_fail now lane_done work_done e reason s = (case interrupted now lane_done work_done s of
     (s', True) \<Rightarrow> s'
   | (s', False) \<Rightarrow> (case e of Lease_gone _ \<Rightarrow> s'
     | _ \<Rightarrow> if rr_attempts (lh_run (fst s')) < review_run_max_attempts then requeue_review (now + 60 * nanos) (failure_text e) True s'
            else fst (end_review_run now (failed_result reason e) s')))"

definition review_post_failed :: "int \<Rightarrow> bool \<Rightarrow> bool \<Rightarrow> lane_failure \<Rightarrow> lane_state \<Rightarrow> lane_state" where
  "review_post_failed now lane_done work_done e s = (case interrupted now lane_done work_done s of
     (s', True) \<Rightarrow> s'
   | (s', False) \<Rightarrow> (case e of Lease_gone _ \<Rightarrow> s'
     | Waits w _ \<Rightarrow> requeue_review (now + max w nanos) (failure_text e) False s'
     | _ \<Rightarrow> retry_or_fail now lane_done work_done e ''github'' s'))"

text \<open>The other writes a lane makes through its hold; the copy keeps what was written.\<close>

definition hold_record :: "int \<Rightarrow> lane_state \<Rightarrow> lane_state \<times> review_error option" where
  "hold_record cm = hold_write (\<lambda>(h, db). let (db', ok) = set_run_github_review (lh_run h) cm db
     in ((if ok then h\<lparr>lh_run := (lh_run h)\<lparr>rr_review := cm\<rparr>\<rparr> else h, db'), if ok then None else Some Lease_lost))"

definition hold_reserve :: "rat \<Rightarrow> lane_state \<Rightarrow> lane_state \<times> review_error option" where
  "hold_reserve usd = hold_write (\<lambda>(h, db). let (db', ok) = set_run_reserved (lh_run h) usd db
     in ((if ok then h\<lparr>lh_run := (lh_run h)\<lparr>rr_reserved := usd\<rparr>\<rparr> else h, db'), if ok then None else Some Lease_lost))"

definition hold_save :: "int \<Rightarrow> string \<Rightarrow> (string \<times> review_finding) list \<Rightarrow> string list \<Rightarrow> resolution list \<Rightarrow>
    lane_state \<Rightarrow> lane_state \<times> review_error option" where
  "hold_save now outcome found seen resolved = hold_write (\<lambda>(h, db).
     case save_review_outcome now (lh_run h) outcome found seen resolved db of
       (db', Inl e) \<Rightarrow> ((h, db'), Some e)
     | (db', Inr _) \<Rightarrow> ((h\<lparr>lh_run := (lh_run h)\<lparr>rr_outcome := outcome\<rparr>\<rparr>, db'), None))"

text \<open>
  One attempt of the claim and the hold of what it claimed; a claim that was deferred and tries again is two steps of the
  machine below.
\<close>

definition next_review_run :: "int \<Rightarrow> review_run list \<Rightarrow> review_db \<Rightarrow> review_db \<times> review_hold option" where
  "next_review_run now snap db = (case claim_once now snap db of
     (db', Some r, _) \<Rightarrow> (db', Some \<lparr>lh_run = r, lh_lost = False, lh_cancel = False, lh_ended = False\<rparr>)
   | (db', None, _) \<Rightarrow> (db', None))"

section \<open>Lanes side by side\<close>

record lanes =
  ln_clock :: int
  ln_db :: review_db
  ln_hold :: "nat \<Rightarrow> review_hold option"

text \<open>
  What a lane may do next with its hold. While it works it settles fields of its copy that no fence reads (the head, the
  types, the rule).
\<close>

definition same_token :: "review_run \<Rightarrow> review_run \<Rightarrow> bool" where
  "same_token r r' \<longleftrightarrow> rr_id r' = rr_id r \<and> rr_org r' = rr_org r \<and> rr_pr r' = rr_pr r \<and> rr_lease r' = rr_lease r \<and> rr_attempts r' = rr_attempts r"

inductive lane_op :: "int \<Rightarrow> lane_state \<Rightarrow> lane_state \<Rightarrow> bool" where
  touches: "lane_op now s (fst (hold_touch now s))"
| records: "lane_op now s (fst (hold_record cm s))"
| holds_money: "lane_op now s (fst (hold_reserve usd s))"
| saves: "lane_op now s (fst (hold_save now outcome found seen resolved s))"
| finishes: "lane_op now s (fst (end_review_run now res s))"
| stops_short: "lane_op now s (fst (interrupted now lane_done work_done s))"
| errs: "lane_op now s (review_run_error now lane_done work_done e s)"
| retries: "lane_op now s (retry_or_fail now lane_done work_done e reason s)"
| cannot_post: "lane_op now s (review_post_failed now lane_done work_done e s)"
| edits: "same_token (lh_run (fst s)) r \<Longrightarrow> lane_op now s ((fst s)\<lparr>lh_run := r\<rparr>, snd s)"

text \<open>No two statements read the same nanosecond.\<close>

inductive lanes_step :: "lanes \<Rightarrow> lanes \<Rightarrow> bool" where
  lane_claims: "ln_clock w < now \<Longrightarrow> next_review_run now snap (ln_db w) = (db', hold) \<Longrightarrow>
    lanes_step w \<lparr>ln_clock = now, ln_db = db', ln_hold = (ln_hold w)(l := hold)\<rparr>"
| lane_works: "ln_clock w < now \<Longrightarrow> ln_hold w l = Some h \<Longrightarrow> lane_op now (h, ln_db w) (h', db') \<Longrightarrow>
    lanes_step w \<lparr>ln_clock = now, ln_db = db', ln_hold = (ln_hold w)(l := Some h')\<rparr>"
| lane_dies: "ln_clock w < now \<Longrightarrow> lanes_step w (w\<lparr>ln_clock := now, ln_hold := (ln_hold w)(l := None)\<rparr>)"
| pull_request_event: "ln_clock w < now \<Longrightarrow> lanes_step w (w\<lparr>ln_clock := now, ln_db := fst (upsert_review_pr U org f (ln_db w))\<rparr>)"
| request: "ln_clock w < now \<Longrightarrow> lanes_step w (w\<lparr>ln_clock := now, ln_db := fst (enqueue_review_run now pub org q (ln_db w))\<rparr>)"
| note_event: "ln_clock w < now \<Longrightarrow> review_note (ln_db w) db' \<Longrightarrow> lanes_step w (w\<lparr>ln_clock := now, ln_db := db'\<rparr>)"
| cancel_event: "ln_clock w < now \<Longrightarrow> lanes_step w (w\<lparr>ln_clock := now, ln_db := fst (cancel_review_runs now org pr why (ln_db w))\<rparr>)"
| sweep_event: "ln_clock w < now \<Longrightarrow> lanes_step w (w\<lparr>ln_clock := now, ln_db := fst (sweep_review_runs now (ln_db w))\<rparr>)"

text \<open>What one step of a lane amounts to: nothing, or one statement of the queue; and what becomes of its token.\<close>

definition token_moves :: "int \<Rightarrow> review_db \<Rightarrow> review_run \<Rightarrow> review_run \<Rightarrow> bool" where
  "token_moves now db' r r' \<longleftrightarrow> rr_org r' = rr_org r \<and> rr_id r' = rr_id r \<and> rr_pr r' = rr_pr r \<and>
     (rr_lease r' = rr_lease r \<and> rr_attempts r' = rr_attempts r \<or> rr_lease r' = 0 \<or>
      rr_lease r' = now + review_run_lease \<and> copy_of db' r')"

definition lane_moves :: "int \<Rightarrow> int \<Rightarrow> lane_state \<Rightarrow> lane_state \<Rightarrow> bool" where
  "lane_moves c now s s' \<longleftrightarrow> (snd s' = snd s \<or> queue_step (c, snd s) (now, snd s')) \<and>
     token_moves now (snd s') (lh_run (fst s)) (lh_run (fst s'))"

lemma token_moves_refl [simp]: "token_moves now db r r"
  by (simp add: token_moves_def)

lemma lane_moves_refl [simp]: "lane_moves c now s s"
  by (simp add: lane_moves_def)

lemma find_in: "x \<in> set xs \<Longrightarrow> P x \<Longrightarrow> \<exists>y. List.find P xs = Some y"
  by (induction xs) auto

text \<open>The copy with the renewed lease is a copy.\<close>

lemma touch_copy:
  assumes ok: "queue_ok (c, db)" and copy: "copy_of db r" and touch: "touch_review_run now r db = (db', Some (lease, cn))"
  shows "lease = now + review_run_lease" "copy_of db' (r\<lparr>rr_lease := lease\<rparr>)"
proof -
  from touch obtain x where x: "x \<in> set (rv_runs db)" "has_run r x"
    by (auto simp: touch_review_run_def dest: find_some split: option.splits)
  show lease: "lease = now + review_run_lease"
    using touch by (auto simp: touch_review_run_def Let_def split_beta split: option.splits if_splits)
  have "rv_runs db' = map (\<lambda>y. if has_run r y then y\<lparr>rr_lease := lease\<rparr> else y) (rv_runs db)"
    using touch by (auto simp: touch_review_run_def Let_def split_beta split: option.splits if_splits)
  then have "x\<lparr>rr_lease := lease\<rparr> \<in> set (rv_runs db')" using x by force
  moreover note copy_row [OF ok copy x(2,1)]
  moreover have "is_run (rr_org r) (rr_id r) x" using x(2) by (simp add: has_run_def)
  ultimately show "copy_of db' (r\<lparr>rr_lease := lease\<rparr>)"
    unfolding copy_of_def by (intro bexI [of _ "x\<lparr>rr_lease := lease\<rparr>"]) (simp_all add: is_run_def)
qed

definition lane_ready :: "int \<Rightarrow> int \<Rightarrow> lane_state \<Rightarrow> bool" where
  "lane_ready c now s \<longleftrightarrow> c \<le> now \<and> queue_ok (c, snd s) \<and> copy_of (snd s) (lh_run (fst s))"

lemma touch_lane: "lane_ready c now s \<Longrightarrow> lane_moves c now s (fst (hold_touch now s))"
  using renews [of c now "snd s" "lh_run (fst s)"] touch_copy [of c "snd s" "lh_run (fst s)" now]
  by (cases s) (auto simp: lane_ready_def hold_touch_def hold_write_def lane_moves_def token_moves_def Let_def split: option.splits prod.splits)

lemma record_lane: "lane_ready c now s \<Longrightarrow> lane_moves c now s (fst (hold_record cm s))"
  using posts [of c now "snd s" "lh_run (fst s)" cm]
  by (cases s) (auto simp: lane_ready_def hold_record_def hold_write_def lane_moves_def token_moves_def Let_def split_beta)

lemma reserve_lane: "lane_ready c now s \<Longrightarrow> lane_moves c now s (fst (hold_reserve usd s))"
  using reserves [of c now "snd s" "lh_run (fst s)" usd]
  by (cases s) (auto simp: lane_ready_def hold_reserve_def hold_write_def lane_moves_def token_moves_def Let_def split_beta)

lemma save_lane: "lane_ready c now s \<Longrightarrow> lane_moves c now s (fst (hold_save now outcome found seen resolved s))"
  using checkpoints [of c now "snd s" "lh_run (fst s)" outcome found seen resolved]
  by (cases s) (auto simp: lane_ready_def hold_save_def hold_write_def lane_moves_def token_moves_def Let_def split: prod.splits sum.splits)

lemma end_lane: "lane_ready c now s \<Longrightarrow> lane_moves c now s (fst (end_review_run now res s))"
  using ends [of c now "snd s" "lh_run (fst s)" res]
  by (cases s) (auto simp: lane_ready_def end_review_run_def hold_write_def lane_moves_def token_moves_def Let_def split_beta)

lemma requeue_lane:
  "lane_ready c now s \<Longrightarrow> (spend \<Longrightarrow> rr_attempts (lh_run (fst s)) < review_run_max_attempts) \<Longrightarrow>
   lane_moves c now s (requeue_review not_before why spend s)"
  using puts_back [of c now "snd s" "lh_run (fst s)" spend not_before why]
  by (cases s) (auto simp: lane_ready_def requeue_review_def requeued_def hold_write_def lane_moves_def token_moves_def Let_def split_beta)

lemma interrupted_lane: "lane_ready c now s \<Longrightarrow> lane_moves c now s (fst (interrupted now ld wd s))"
  by (auto simp: interrupted_def intro: end_lane requeue_lane)

text \<open>Where nothing interrupted the run, the hold and the database are as they were.\<close>

lemma interrupted_no: "interrupted now ld wd s = (s', False) \<Longrightarrow> s' = s"
  by (auto simp: interrupted_def split: if_splits)

lemma after_interrupted:
  assumes "lane_ready c now s" "lane_moves c now s (f s)"
  shows "lane_moves c now s (case interrupted now ld wd s of (s', True) \<Rightarrow> s' | (s', False) \<Rightarrow> f s')"
  using interrupted_lane [OF assms(1), of ld wd] interrupted_no [of now ld wd s] assms(2)
  by (auto split: prod.splits bool.splits)

lemma run_error_lane: "lane_ready c now s \<Longrightarrow> lane_moves c now s (review_run_error now ld wd e s)"
  unfolding review_run_error_def
  by (rule after_interrupted) (auto intro: requeue_lane end_lane split: lane_failure.split)

lemma retry_lane: "lane_ready c now s \<Longrightarrow> lane_moves c now s (retry_or_fail now ld wd e reason s)"
  unfolding retry_or_fail_def
  by (rule after_interrupted) (auto intro: requeue_lane end_lane split: lane_failure.split)

lemma post_failed_lane: "lane_ready c now s \<Longrightarrow> lane_moves c now s (review_post_failed now ld wd e s)"
  unfolding review_post_failed_def
  by (rule after_interrupted) (auto intro: requeue_lane retry_lane split: lane_failure.split)

lemma lane_op_moves: "lane_op now s s' \<Longrightarrow> lane_ready c now s \<Longrightarrow> lane_moves c now s s'"
proof (induction rule: lane_op.induct)
  case (edits s r now)
  then show ?case by (auto simp: lane_moves_def token_moves_def same_token_def)
qed (auto intro: touch_lane record_lane reserve_lane save_lane end_lane interrupted_lane run_error_lane retry_lane post_failed_lane)

section \<open>What holds of lanes\<close>

definition lanes_ok :: "lanes \<Rightarrow> bool" where
  "lanes_ok w \<longleftrightarrow> queue_ok (ln_clock w, ln_db w) \<and>
     (\<forall>l h. ln_hold w l = Some h \<longrightarrow> copy_of (ln_db w) (lh_run h) \<and> rr_lease (lh_run h) \<le> ln_clock w + review_run_lease) \<and>
     (\<forall>l l' h h'. ln_hold w l = Some h \<and> ln_hold w l' = Some h' \<and> l \<noteq> l' \<and> rr_id (lh_run h) = rr_id (lh_run h') \<and>
        rr_lease (lh_run h) = rr_lease (lh_run h') \<longrightarrow> rr_lease (lh_run h) = 0)"

lemma copy_of_stopped:
  assumes "queue_ok (c, db)" "copy_of db r" "rr_org r' = rr_org r" "rr_id r' = rr_id r" "rr_pr r' = rr_pr r" "rr_lease r' = 0"
  shows "copy_of db r'"
proof -
  obtain x where x: "x \<in> set (rv_runs db)" "is_run (rr_org r) (rr_id r) x" "rr_pr x = rr_pr r"
    using assms(2) by (auto simp: copy_of_def)
  have "\<not> has_run r' x" using queue_okD(4) [OF assms(1) x(1)] assms(6) by (auto simp: has_run_def run_ok_def running_def)
  with x assms(3-5) show ?thesis by (auto simp: copy_of_def)
qed

lemma copy_same_token:
  "copy_of db r \<Longrightarrow> rr_org r' = rr_org r \<Longrightarrow> rr_id r' = rr_id r \<Longrightarrow> rr_pr r' = rr_pr r \<Longrightarrow> rr_lease r' = rr_lease r \<Longrightarrow>
   rr_attempts r' = rr_attempts r \<Longrightarrow> copy_of db r'"
  by (simp add: copy_of_def has_run_def)

text \<open>One lane has a new token or none, the others and the database moved by a statement or not at all.\<close>

lemma lanes_ok_step:
  assumes ok: "lanes_ok w" and clock: "ln_clock w < now"
    and db: "db' = ln_db w \<or> queue_step (ln_clock w, ln_db w) (now, db')"
    and new: "\<And>h. hold = Some h \<Longrightarrow> copy_of db' (lh_run h) \<and> (rr_lease (lh_run h) = 0 \<or> rr_lease (lh_run h) = now + review_run_lease \<or>
      (\<exists>g. ln_hold w l = Some g \<and> rr_id (lh_run h) = rr_id (lh_run g) \<and> rr_lease (lh_run h) = rr_lease (lh_run g)))"
  shows "lanes_ok \<lparr>ln_clock = now, ln_db = db', ln_hold = (ln_hold w)(l := hold)\<rparr>"
proof -
  have q: "queue_ok (ln_clock w, ln_db w)" using ok by (simp add: lanes_ok_def)
  have q': "queue_ok (now, db')"
    using db queue_step_ok [OF _ q] noted_in_ok [OF q less_imp_le [OF clock] noted_in_same] by blast
  have now: "0 \<le> now" using queue_okD(1) [OF q] clock by simp
  have lease: "rr_lease (lh_run g) < now + review_run_lease" if "ln_hold w i = Some g" for i g
    using ok that clock by (force simp: lanes_ok_def)
  have copy: "copy_of db' (lh_run g)" if "ln_hold w i = Some g" for i g
    using db copy_step [OF _ q _ lease [OF that]] ok that by (auto simp: lanes_ok_def)
  have bound: "rr_lease (lh_run g) \<le> now + review_run_lease" if "((ln_hold w)(l := hold)) i = Some g" for i g
    using that new [of g] lease [of l] lease [of i g] lease_positive now by (fastforce split: if_splits)
  have old: "rr_lease (lh_run g) = 0"
    if "ln_hold w i = Some g" "ln_hold w j = Some k" "i \<noteq> j" "rr_id (lh_run g) = rr_id (lh_run k)" "rr_lease (lh_run g) = rr_lease (lh_run k)"
    for i j g k
    using ok that unfolding lanes_ok_def by blast
  have mixed: "rr_lease (lh_run h) = 0"
    if "hold = Some h" "ln_hold w i = Some g" "i \<noteq> l" "rr_id (lh_run h) = rr_id (lh_run g)" "rr_lease (lh_run h) = rr_lease (lh_run g)" for i g h
    using new [OF that(1)] lease [OF that(2)] old [OF that(2), of l] that by auto
  show ?thesis
    unfolding lanes_ok_def lanes.simps
  proof (intro conjI allI impI)
    fix i g assume "((ln_hold w)(l := hold)) i = Some g"
    then show "copy_of db' (lh_run g)" "rr_lease (lh_run g) \<le> now + review_run_lease"
      using new copy bound by (auto split: if_splits)
  next
    fix i j g k
    assume "((ln_hold w)(l := hold)) i = Some g \<and> ((ln_hold w)(l := hold)) j = Some k \<and> i \<noteq> j \<and>
      rr_id (lh_run g) = rr_id (lh_run k) \<and> rr_lease (lh_run g) = rr_lease (lh_run k)"
    then show "rr_lease (lh_run g) = 0" using old [of i g j k] mixed [of g j k] mixed [of k i g] by (auto split: if_splits)
  qed (rule q')
qed

lemma claim_copy:
  assumes "queue_ok (c, db)" "claim_once now snap db = (db', Some r, d)"
  shows "copy_of db' r" "rr_lease r = now + review_run_lease"
proof -
  have "copy_of db' r \<and> rr_lease r = now + review_run_lease"
  proof (rule claim_once_cases [of now snap db])
    fix x assume z: "x \<in> set (rv_runs db)" "picked now (rr_id x) x"
      "rv_runs (fst (claim_once now snap db)) = map (\<lambda>y. if picked now (rr_id x) y then claimed_run now y else y) (rv_runs db)"
      "claim_once now snap db = (fst (claim_once now snap db), Some (claimed_run now x), False)"
    have r: "r = claimed_run now x" "db' = fst (claim_once now snap db)" using z(4) assms(2) by auto
    have "claimed_run now x \<in> set (rv_runs db')" unfolding r z(3) using z(1,2) by force
    then show ?thesis unfolding r(1) copy_of_def
      by (intro conjI bexI [of _ "claimed_run now x"]) (simp_all add: claimed_run_def is_run_def)
  qed (use assms(2) in auto)
  then show "copy_of db' r" "rr_lease r = now + review_run_lease" by blast+
qed

lemma lanes_ok_db:
  assumes "lanes_ok w" "ln_clock w < now" "queue_step (ln_clock w, ln_db w) (now, db')"
  shows "lanes_ok (w\<lparr>ln_clock := now, ln_db := db'\<rparr>)"
proof -
  let ?w' = "\<lparr>ln_clock = now, ln_db = db', ln_hold = (ln_hold w)(0 := ln_hold w 0)\<rparr>"
  have q: "queue_ok (ln_clock w, ln_db w)" using assms(1) by (simp add: lanes_ok_def)
  have "lanes_ok ?w'"
  proof (rule lanes_ok_step [OF assms(1,2)])
    fix h assume h: "ln_hold w 0 = Some h"
    then have "copy_of (ln_db w) (lh_run h)" "rr_lease (lh_run h) < now + review_run_lease"
      using assms(1,2) by (force simp: lanes_ok_def)+
    then show "copy_of db' (lh_run h) \<and> (rr_lease (lh_run h) = 0 \<or> rr_lease (lh_run h) = now + review_run_lease \<or>
      (\<exists>g. ln_hold w 0 = Some g \<and> rr_id (lh_run h) = rr_id (lh_run g) \<and> rr_lease (lh_run h) = rr_lease (lh_run g)))"
      using copy_step [OF assms(3) q] h by blast
  qed (use assms(3) in simp)
  then show ?thesis by (cases w) (simp add: fun_upd_idem)
qed

text \<open>A step of the lanes is a step of the queue, or leaves the database alone.\<close>

lemma lanes_step_ok: "lanes_step w w' \<Longrightarrow> lanes_ok w \<Longrightarrow>
   lanes_ok w' \<and> (ln_db w' = ln_db w \<or> queue_step (ln_clock w, ln_db w) (ln_clock w', ln_db w'))"
proof (induction rule: lanes_step.induct)
  case (lane_claims w now snap db' hold l)
  then have q: "queue_ok (ln_clock w, ln_db w)" by (simp add: lanes_ok_def)
  have db': "db' = fst (claim_once now snap (ln_db w))"
    using lane_claims(2) by (auto simp: next_review_run_def split: prod.splits option.splits)
  have step: "queue_step (ln_clock w, ln_db w) (now, db')" unfolding db' by (rule claims) (use lane_claims(1) in simp)
  have "copy_of db' (lh_run h) \<and> rr_lease (lh_run h) = now + review_run_lease" if "hold = Some h" for h
    using lane_claims(2) claim_copy [OF q] that by (fastforce simp: next_review_run_def split: prod.splits option.splits)
  then show ?case using lanes_ok_step [OF lane_claims(3,1), of db' hold l] step by simp
next
  case (lane_works w now l h h' db')
  then have q: "queue_ok (ln_clock w, ln_db w)" and copy: "copy_of (ln_db w) (lh_run h)" by (auto simp: lanes_ok_def)
  have ready: "lane_ready (ln_clock w) now (h, ln_db w)" using q copy lane_works(1) by (simp add: lane_ready_def)
  have mv: "db' = ln_db w \<or> queue_step (ln_clock w, ln_db w) (now, db')" and tok: "token_moves now db' (lh_run h) (lh_run h')"
    using lane_op_moves [OF lane_works(3) ready] by (simp_all add: lane_moves_def)
  have q': "queue_ok (now, db')"
    using mv queue_step_ok [OF _ q] noted_in_ok [OF q less_imp_le [OF lane_works(1)] noted_in_same] by blast
  have "rr_lease (lh_run h) < now + review_run_lease" using lane_works(1,2,4) by (force simp: lanes_ok_def)
  then have same: "copy_of db' (lh_run h)" using mv copy copy_step [OF _ q copy] by auto
  have "copy_of db' (lh_run h') \<and> (rr_lease (lh_run h') = 0 \<or> rr_lease (lh_run h') = now + review_run_lease \<or>
      (\<exists>g. ln_hold w l = Some g \<and> rr_id (lh_run h') = rr_id (lh_run g) \<and> rr_lease (lh_run h') = rr_lease (lh_run g)))"
    using tok lane_works(2) copy_same_token [OF same, of "lh_run h'"] copy_of_stopped [OF q' same, of "lh_run h'"]
    by (auto simp: token_moves_def)
  then show ?case using lanes_ok_step [OF lane_works(4,1), of db' "Some h'" l] mv by simp
next
  case (lane_dies w now l)
  then show ?case using lanes_ok_step [of w now "ln_db w" None l] by (cases w) simp
next
  case (pull_request_event w now U org f)
  then show ?case using lanes_ok_db opens by (fastforce intro: less_imp_le)
next
  case (request w now pub org q)
  then show ?case using lanes_ok_db enqueues by (fastforce intro: less_imp_le)
next
  case (note_event w now db')
  then show ?case using lanes_ok_db noted by (fastforce intro: less_imp_le)
next
  case (cancel_event w now org pr why)
  then show ?case using lanes_ok_db cancels by (fastforce intro: less_imp_le)
next
  case (sweep_event w now)
  then show ?case using lanes_ok_db sweeps by (fastforce intro: less_imp_le)
qed

definition lanes_start :: "lanes \<Rightarrow> bool" where
  "lanes_start w \<longleftrightarrow> queue_start (ln_clock w, ln_db w) \<and> (\<forall>l. ln_hold w l = None)"

lemma lanes_run_ok: "lanes_step\<^sup>*\<^sup>* w w' \<Longrightarrow> lanes_start w \<Longrightarrow> lanes_ok w'"
proof (induction rule: rtranclp_induct)
  case base
  then show ?case by (simp add: lanes_ok_def lanes_start_def queue_start_ok)
next
  case (step u v)
  then show ?case using lanes_step_ok by blast
qed

text \<open>A renewal goes through only for a lane that holds its run and its pull request.\<close>

lemma touch_holds:
  assumes "queue_ok (c, db)" "copy_of db (lh_run h)" "snd (hold_touch now (h, db)) = None"
  shows "holds db (lh_run h)" "0 < rr_lease (lh_run h)"
proof -
  obtain x where x: "x \<in> set (rv_runs db)" "has_run (lh_run h) x" and p: "list_ex (has_pr (lh_run h)) (rv_prs db)"
    using assms(3) by (auto simp: hold_touch_def hold_write_def touch_review_run_def Let_def split_beta
        dest!: find_some split: option.splits if_splits)
  then show "holds db (lh_run h)" using holds_rows [OF assms(1,2)] by (auto simp: list_ex_iff)
  show "0 < rr_lease (lh_run h)"
    using queue_okD(4) [OF assms(1) x(1)] x(2) by (auto simp: run_ok_def has_run_def running_def)
qed

text \<open>C9. The poster renews its lease before every write to GitHub. However lanes, events and the sweep interleave, of the
  lanes that have a run of one pull request at most one gets past that renewal.\<close>

theorem one_lane_posts:
  assumes "lanes_start w0" "lanes_step\<^sup>*\<^sup>* w0 w" "ln_hold w l = Some h" "ln_hold w l' = Some h'"
    and "rr_org (lh_run h) = rr_org (lh_run h')" "rr_pr (lh_run h) = rr_pr (lh_run h')"
    and "snd (hold_touch now (h, ln_db w)) = None" "snd (hold_touch now' (h', ln_db w)) = None"
  shows "l = l'"
proof (rule ccontr)
  assume "l \<noteq> l'"
  have ok: "lanes_ok w" by (rule lanes_run_ok [OF assms(2,1)])
  then have q: "queue_ok (ln_clock w, ln_db w)" and copies: "copy_of (ln_db w) (lh_run h)" "copy_of (ln_db w) (lh_run h')"
    using assms(3,4) by (auto simp: lanes_ok_def)
  note t = touch_holds [OF q copies(1) assms(7)] and t' = touch_holds [OF q copies(2) assms(8)]
  have "rr_id (lh_run h) = rr_id (lh_run h') \<and> rr_lease (lh_run h) = rr_lease (lh_run h')"
    by (rule one_holder [OF q copies t(1) t'(1) assms(5,6)])
  then have "rr_lease (lh_run h) = 0" using ok assms(3,4) \<open>l \<noteq> l'\<close> unfolding lanes_ok_def by blast
  with t(2) show False by simp
qed


section \<open>A lane at work\<close>

definition empty_lanes :: lanes where
  "empty_lanes = \<lparr>ln_clock = 0, ln_db = empty_db, ln_hold = \<lambda>_. None\<rparr>"

definition one_queued :: review_db where
  "one_queued = fst (enqueue_review_run 2 ''r1'' 1 (sample_request ''a'') (fst (upsert_review_pr ascii_tables 1 sample_facts empty_db)))"

definition one_claimed :: review_db where
  "one_claimed = fst (next_review_run 5 (rv_runs one_queued) one_queued)"

definition one_hold :: review_hold where
  "one_hold = the (snd (next_review_run 5 (rv_runs one_queued) one_queued))"

definition working_lanes :: lanes where
  "working_lanes = \<lparr>ln_clock = 5, ln_db = one_claimed, ln_hold = (\<lambda>_. None)(3 := Some one_hold)\<rparr>"

lemma empty_start: "lanes_start empty_lanes"
  by (simp add: lanes_start_def empty_lanes_def queue_start_def empty_db_def)

lemma working_run: "lanes_step\<^sup>*\<^sup>* empty_lanes working_lanes"
proof -
  let ?w1 = "empty_lanes\<lparr>ln_clock := 1, ln_db := fst (upsert_review_pr ascii_tables 1 sample_facts (ln_db empty_lanes))\<rparr>"
  let ?w2 = "?w1\<lparr>ln_clock := 2, ln_db := fst (enqueue_review_run 2 ''r1'' 1 (sample_request ''a'') (ln_db ?w1))\<rparr>"
  have "lanes_step empty_lanes ?w1" by (rule pull_request_event) (simp add: empty_lanes_def)
  moreover have "lanes_step ?w1 ?w2" by (rule request) (simp add: empty_lanes_def)
  moreover have "lanes_step ?w2 working_lanes"
  proof -
    have db: "ln_db ?w2 = one_queued" by (simp add: empty_lanes_def one_queued_def)
    have "snd (next_review_run 5 (rv_runs one_queued) one_queued) \<noteq> None" by code_simp
    then have "next_review_run 5 (rv_runs one_queued) (ln_db ?w2) = (one_claimed, Some one_hold)"
      unfolding db by (simp add: one_claimed_def one_hold_def prod_eq_iff)
    then have "lanes_step ?w2 \<lparr>ln_clock = 5, ln_db = one_claimed, ln_hold = (ln_hold ?w2)(3 := Some one_hold)\<rparr>"
      by (intro lane_claims [where snap = "rv_runs one_queued"]) (simp_all add: empty_lanes_def)
    then show ?thesis by (simp add: working_lanes_def empty_lanes_def)
  qed
  ultimately show ?thesis by (meson converse_rtranclp_into_rtranclp rtranclp.rtrancl_refl)
qed

lemma one_hold_touch: "snd (hold_touch 20 (one_hold, one_claimed)) = None"
  by code_simp

theorem one_lane_posts_witness: "ln_hold working_lanes 3 = Some one_hold \<and> (3::nat) = 3"
proof -
  have h: "ln_hold working_lanes 3 = Some one_hold" and db: "ln_db working_lanes = one_claimed" by (simp_all add: working_lanes_def)
  have "(3::nat) = 3"
    by (rule one_lane_posts [OF empty_start working_run h h refl refl, of 20 20]) (simp_all add: db one_hold_touch)
  with h show ?thesis by blast
qed


end
