(* ===== verification/Review_Tree.thy ===== *)
theory Review_Tree
  imports Complex_Main Settings Review_Rows
begin

text \<open>
  The settings tree of code review (\<^verbatim>\<open>internal/app/store_review.go\<close>): connections, the groups made under them and
  the repositories, each with what is set at its own level; every operation on it; the chain a repository's
  settings are resolved from; and what holds of the table whatever operations run, in any order.

  An operation is one transaction, and here one function. Settings are kept as their JSON, as the column keeps
  them; how JSON is checked and read is encoding/json's, so a \<open>json\<close> of two functions stands for it: the compact
  form of a text if it is JSON, and the settings it decodes to. Column \<^verbatim>\<open>parent_id\<close> is 0 where it is null, as the
  code reads it. Row numbers are never given twice (\<^verbatim>\<open>autoincrement\<close>, an identity column).
\<close>

section \<open>The table\<close>

datatype node_kind = ConnNode | GroupNode | RepoNode

record tree_node =
  nd_id :: int
  nd_org :: int
  nd_public :: string
  nd_kind :: node_kind
  nd_parent :: int
  nd_installation :: int
  nd_name :: string
  nd_repo :: string
  nd_settings :: string
  nd_removed :: stamp
  nd_by :: string
  nd_updated :: int

text \<open>An installation as \<^verbatim>\<open>github_installs\<close> has it; no status is active.\<close>

record github_install =
  gi_org :: int
  gi_installation :: int
  gi_status :: "string option"

record tree_db =
  td_nodes :: "tree_node list"
  td_last :: int
  td_installs :: "github_install list"

record json =
  js_compact :: "string \<Rightarrow> string option"
  js_settings :: "string \<Rightarrow> settings option"

datatype tree_error = Not_linked | Setting_exists | Setting_not_found | Group_name_taken | Move_across
  | Settings_invalid | Settings_stale | Bad_name | Unreadable string

type_synonym 'a tree_op = "tree_db \<Rightarrow> tree_db \<times> (tree_error + 'a)"

definition review_settings_max_bytes :: nat where "review_settings_max_bytes = 65536"
definition review_group_name_max :: nat where "review_group_name_max = 80"

definition review_settings_json :: "json \<Rightarrow> string \<Rightarrow> string option" where
  "review_settings_json J raw = (let t = trim_space raw in
     if t = '''' then Some ''{}''
     else if length t > review_settings_max_bytes \<or> \<not> prefix ''{'' t then None
     else js_compact J t)"

definition review_group_name :: "string \<Rightarrow> string option" where
  "review_group_name name = (let n = trim_space name in
     if n = '''' \<or> rune_count n > review_group_name_max then None else Some n)"

section \<open>Reading a node\<close>

definition is_node :: "int \<Rightarrow> int \<Rightarrow> tree_node \<Rightarrow> bool" where
  "is_node org i n \<longleftrightarrow> nd_org n = org \<and> nd_id n = i"

definition review_setting :: "int \<Rightarrow> int \<Rightarrow> tree_db \<Rightarrow> tree_node option" where
  "review_setting org i db = List.find (is_node org i) (td_nodes db)"

definition review_setting_by_public :: "int \<Rightarrow> string \<Rightarrow> tree_db \<Rightarrow> tree_node option" where
  "review_setting_by_public org pub db = List.find (\<lambda>n. nd_org n = org \<and> nd_public n = pub) (td_nodes db)"

definition review_install_linked :: "int \<Rightarrow> int \<Rightarrow> tree_db \<Rightarrow> bool" where
  "review_install_linked org inst db \<longleftrightarrow>
     list_ex (\<lambda>g. gi_org g = org \<and> gi_installation g = inst \<and> gi_status g \<noteq> Some ''revoked'') (td_installs db)"

definition is_connection :: "int \<Rightarrow> int \<Rightarrow> tree_node \<Rightarrow> bool" where
  "is_connection org inst n \<longleftrightarrow> nd_org n = org \<and> nd_kind n = ConnNode \<and> nd_installation n = inst"

definition is_repo :: "int \<Rightarrow> string \<Rightarrow> tree_node \<Rightarrow> bool" where
  "is_repo org repo n \<longleftrightarrow> nd_org n = org \<and> nd_kind n = RepoNode \<and> nd_repo n = repo"

definition reviewed_installation :: "int \<Rightarrow> int \<Rightarrow> tree_db \<Rightarrow> bool" where
  "reviewed_installation org inst db \<longleftrightarrow>
     list_ex (\<lambda>n. is_connection org inst n \<and> nd_removed n = None) (td_nodes db) \<and> review_install_linked org inst db"

text \<open>A node's kind and the connection it belongs to: itself, its parent for a group, and 0 for a repository.\<close>

definition review_node :: "int \<Rightarrow> int \<Rightarrow> tree_db \<Rightarrow> (node_kind \<times> int) option" where
  "review_node org i db = (case review_setting org i db of None \<Rightarrow> None
   | Some n \<Rightarrow> Some (nd_kind n, case nd_kind n of ConnNode \<Rightarrow> i | GroupNode \<Rightarrow> nd_parent n | RepoNode \<Rightarrow> 0))"

section \<open>Writing\<close>

definition update_nodes :: "(tree_node \<Rightarrow> bool) \<Rightarrow> (tree_node \<Rightarrow> tree_node) \<Rightarrow> tree_db \<Rightarrow> tree_db" where
  "update_nodes P f db = db\<lparr>td_nodes := update_rows P f (td_nodes db)\<rparr>"

definition delete_nodes :: "(tree_node \<Rightarrow> bool) \<Rightarrow> tree_db \<Rightarrow> tree_db" where
  "delete_nodes P db = db\<lparr>td_nodes := filter (\<lambda>n. \<not> P n) (td_nodes db)\<rparr>"

definition insert_node :: "(int \<Rightarrow> tree_node) \<Rightarrow> tree_db \<Rightarrow> tree_db \<times> int" where
  "insert_node mk db = (let i = td_last db + 1 in (db\<lparr>td_nodes := td_nodes db @ [mk i], td_last := i\<rparr>, i))"

definition touched :: "int \<Rightarrow> string \<Rightarrow> tree_node \<Rightarrow> tree_node" where
  "touched now by' n = n\<lparr>nd_by := by', nd_updated := now\<rparr>"

text \<open>An update that is refused when there is no row (\<^verbatim>\<open>reviewRowWritten\<close>).\<close>

definition write_node :: "(tree_node \<Rightarrow> bool) \<Rightarrow> (tree_node \<Rightarrow> tree_node) \<Rightarrow> unit tree_op" where
  "write_node P f db = (if list_ex P (td_nodes db) then (update_nodes P f db, Inr ()) else (db, Inl Setting_not_found))"

subsection \<open>Connections\<close>

definition new_connection :: "int \<Rightarrow> int \<Rightarrow> string \<Rightarrow> int \<Rightarrow> string \<Rightarrow> string \<Rightarrow> int \<Rightarrow> tree_node" where
  "new_connection now org pub inst body by' i = \<lparr>nd_id = i, nd_org = org, nd_public = pub, nd_kind = ConnNode, nd_parent = 0,
     nd_installation = inst, nd_name = '''', nd_repo = '''', nd_settings = body, nd_removed = None, nd_by = by', nd_updated = now\<rparr>"

text \<open>The node's number, and whether it was restored.\<close>

definition add_review_connection :: "json \<Rightarrow> int \<Rightarrow> string \<Rightarrow> int \<Rightarrow> int \<Rightarrow> string \<Rightarrow> string \<Rightarrow> (int \<times> bool) tree_op" where
  "add_review_connection J now pub org inst raw by' db = (case review_settings_json J raw of None \<Rightarrow> (db, Inl Settings_invalid)
   | Some body \<Rightarrow>
      if \<not> review_install_linked org inst db then (db, Inl Not_linked)
      else (case List.find (is_connection org inst) (td_nodes db) of
          Some n \<Rightarrow> if nd_removed n = None then (db, Inl Setting_exists)
            else (update_nodes (is_node org (nd_id n)) (\<lambda>n. touched now by' (n\<lparr>nd_removed := None\<rparr>)) db, Inr (nd_id n, True))
        | None \<Rightarrow> (let (db', i) = insert_node (new_connection now org pub inst body by') db in (db', Inr (i, False)))))"

definition mark_removed :: "int \<Rightarrow> tree_node \<Rightarrow> tree_node" where
  "mark_removed now n = n\<lparr>nd_removed := (if nd_removed n = None then Some now else nd_removed n)\<rparr>"

definition remove_review_connection :: "int \<Rightarrow> int \<Rightarrow> int \<Rightarrow> string \<Rightarrow> unit tree_op" where
  "remove_review_connection now org i by' =
     write_node (\<lambda>n. is_node org i n \<and> nd_kind n = ConnNode) (\<lambda>n. touched now by' (mark_removed now n))"

definition restore_review_connection :: "int \<Rightarrow> int \<Rightarrow> int \<Rightarrow> string \<Rightarrow> unit tree_op" where
  "restore_review_connection now org i by' db =
     (case List.find (\<lambda>n. is_node org i n \<and> nd_kind n = ConnNode) (td_nodes db) of None \<Rightarrow> (db, Inl Setting_not_found)
      | Some n \<Rightarrow> if \<not> review_install_linked org (nd_installation n) db then (db, Inl Not_linked)
          else (update_nodes (is_node org i) (\<lambda>n. touched now by' (n\<lparr>nd_removed := None\<rparr>)) db, Inr ()))"

subsection \<open>Groups\<close>

definition new_group :: "int \<Rightarrow> int \<Rightarrow> string \<Rightarrow> int \<Rightarrow> string \<Rightarrow> string \<Rightarrow> int \<Rightarrow> tree_node" where
  "new_group now org pub parent name by' i = \<lparr>nd_id = i, nd_org = org, nd_public = pub, nd_kind = GroupNode, nd_parent = parent,
     nd_installation = 0, nd_name = name, nd_repo = '''', nd_settings = ''{}'', nd_removed = None, nd_by = by', nd_updated = now\<rparr>"

text \<open>The unique index on an organisation's groups of one name under one connection.\<close>

definition is_group :: "int \<Rightarrow> int \<Rightarrow> string \<Rightarrow> tree_node \<Rightarrow> bool" where
  "is_group org parent name n \<longleftrightarrow> nd_org n = org \<and> nd_kind n = GroupNode \<and> nd_parent n = parent \<and> nd_name n = name"

definition add_review_group :: "int \<Rightarrow> string \<Rightarrow> int \<Rightarrow> int \<Rightarrow> string \<Rightarrow> string \<Rightarrow> int tree_op" where
  "add_review_group now pub org conn name by' db = (case review_group_name name of None \<Rightarrow> (db, Inl Bad_name)
   | Some nm \<Rightarrow>
      if \<not> list_ex (\<lambda>n. is_node org conn n \<and> nd_kind n = ConnNode) (td_nodes db) then (db, Inl Setting_not_found)
      else if list_ex (is_group org conn nm) (td_nodes db) then (db, Inl Group_name_taken)
      else (let (db', i) = insert_node (new_group now org pub conn nm by') db in (db', Inr i)))"

definition rename_review_group :: "int \<Rightarrow> int \<Rightarrow> int \<Rightarrow> string \<Rightarrow> string \<Rightarrow> unit tree_op" where
  "rename_review_group now org i name by' db = (case review_group_name name of None \<Rightarrow> (db, Inl Bad_name)
   | Some nm \<Rightarrow>
      (case List.find (\<lambda>n. is_node org i n \<and> nd_kind n = GroupNode) (td_nodes db) of None \<Rightarrow> (db, Inl Setting_not_found)
       | Some g \<Rightarrow> if list_ex (\<lambda>n. is_group org (nd_parent g) nm n \<and> nd_id n \<noteq> i) (td_nodes db) then (db, Inl Group_name_taken)
           else (update_nodes (\<lambda>n. is_node org i n \<and> nd_kind n = GroupNode) (\<lambda>n. touched now by' (n\<lparr>nd_name := nm\<rparr>)) db, Inr ())))"

definition move_up :: "int \<Rightarrow> int \<Rightarrow> int \<Rightarrow> string \<Rightarrow> int \<Rightarrow> tree_db \<Rightarrow> tree_db" where
  "move_up now org i by' conn = update_nodes (\<lambda>n. nd_org n = org \<and> nd_parent n = i \<and> nd_kind n = RepoNode)
     (\<lambda>n. touched now by' (n\<lparr>nd_parent := conn\<rparr>))"

definition delete_review_group :: "int \<Rightarrow> int \<Rightarrow> int \<Rightarrow> string \<Rightarrow> unit tree_op" where
  "delete_review_group now org i by' db =
     (case List.find (\<lambda>n. is_node org i n \<and> nd_kind n = GroupNode) (td_nodes db) of None \<Rightarrow> (db, Inl Setting_not_found)
      | Some g \<Rightarrow> (delete_nodes (\<lambda>n. is_node org i n \<and> nd_kind n = GroupNode) (move_up now org i by' (nd_parent g) db), Inr ()))"

subsection \<open>Repositories\<close>

definition new_repo :: "int \<Rightarrow> int \<Rightarrow> string \<Rightarrow> int \<Rightarrow> string \<Rightarrow> string \<Rightarrow> int \<Rightarrow> tree_node" where
  "new_repo now org pub parent repo by' i = \<lparr>nd_id = i, nd_org = org, nd_public = pub, nd_kind = RepoNode, nd_parent = parent,
     nd_installation = 0, nd_name = '''', nd_repo = repo, nd_settings = ''{}'', nd_removed = None, nd_by = by', nd_updated = now\<rparr>"

definition ensure_review_repo :: "unicode \<Rightarrow> int \<Rightarrow> string \<Rightarrow> int \<Rightarrow> int \<Rightarrow> string \<Rightarrow> string \<Rightarrow> int tree_op" where
  "ensure_review_repo U now pub org parent repo by' db = (case review_repo_name U repo of None \<Rightarrow> (db, Inl Bad_name)
   | Some r \<Rightarrow> (case List.find (is_repo org r) (td_nodes db) of Some n \<Rightarrow> (db, Inr (nd_id n))
      | None \<Rightarrow> (case review_node org parent db of
          None \<Rightarrow> (db, Inl Setting_not_found)
        | Some (RepoNode, _) \<Rightarrow> (db, Inl Setting_not_found)
        | Some _ \<Rightarrow> (let (db', i) = insert_node (new_repo now org pub parent r by') db in (db', Inr i)))))"

definition own_repo :: "int \<Rightarrow> int \<Rightarrow> tree_node \<Rightarrow> bool" where
  "own_repo org i n \<longleftrightarrow> is_node org i n \<and> nd_kind n = RepoNode"

definition move_review_repo :: "int \<Rightarrow> int \<Rightarrow> int \<Rightarrow> int \<Rightarrow> string \<Rightarrow> unit tree_op" where
  "move_review_repo now org i parent by' db = (case List.find (own_repo org i) (td_nodes db) of
     None \<Rightarrow> (db, Inl Setting_not_found)
   | Some n \<Rightarrow> (case (review_node org (nd_parent n) db, review_node org parent db) of
       (Some (_, from_conn), Some (kind, to_conn)) \<Rightarrow>
         if kind = RepoNode then (db, Inl Setting_not_found)
         else if from_conn \<noteq> to_conn then (db, Inl Move_across)
         else (update_nodes (own_repo org i) (\<lambda>n. touched now by' (n\<lparr>nd_parent := parent\<rparr>)) db, Inr ())
     | _ \<Rightarrow> (db, Inl Setting_not_found)))"

definition delete_review_repo :: "int \<Rightarrow> int \<Rightarrow> int \<Rightarrow> string \<Rightarrow> unit tree_op" where
  "delete_review_repo now org i by' db = (case List.find (own_repo org i) (td_nodes db) of
     None \<Rightarrow> (db, Inl Setting_not_found)
   | Some n \<Rightarrow> (case review_node org (nd_parent n) db of
       None \<Rightarrow> (db, Inl Setting_not_found)
     | Some (_, conn) \<Rightarrow> (update_nodes (\<lambda>n. is_node org conn n \<and> nd_kind n = ConnNode) (touched now by')
         (delete_nodes (own_repo org i) db), Inr ())))"

definition remove_review_repo :: "int \<Rightarrow> int \<Rightarrow> int \<Rightarrow> string \<Rightarrow> unit tree_op" where
  "remove_review_repo now org i by' = write_node (own_repo org i) (\<lambda>n. touched now by' (mark_removed now n))"

definition restore_review_repo :: "int \<Rightarrow> int \<Rightarrow> int \<Rightarrow> string \<Rightarrow> unit tree_op" where
  "restore_review_repo now org i by' = write_node (own_repo org i) (\<lambda>n. touched now by' (n\<lparr>nd_removed := None\<rparr>))"

subsection \<open>What a node sets\<close>

definition update_review_settings :: "json \<Rightarrow> int \<Rightarrow> int \<Rightarrow> int \<Rightarrow> string \<Rightarrow> string \<Rightarrow> unit tree_op" where
  "update_review_settings J now org i raw by' db = (case review_settings_json J raw of None \<Rightarrow> (db, Inl Settings_invalid)
   | Some body \<Rightarrow> write_node (is_node org i) (\<lambda>n. touched now by' (n\<lparr>nd_settings := body\<rparr>)) db)"

definition update_review_settings_from :: "json \<Rightarrow> int \<Rightarrow> int \<Rightarrow> int \<Rightarrow> string \<Rightarrow> string \<Rightarrow> string \<Rightarrow> unit tree_op" where
  "update_review_settings_from J now org i was raw by' db = (case review_settings_json J raw of None \<Rightarrow> (db, Inl Settings_invalid)
   | Some body \<Rightarrow>
      if list_ex (\<lambda>n. is_node org i n \<and> nd_settings n = was) (td_nodes db)
      then (update_nodes (\<lambda>n. is_node org i n \<and> nd_settings n = was) (\<lambda>n. touched now by' (n\<lparr>nd_settings := body\<rparr>)) db, Inr ())
      else (db, Inl (if list_ex (is_node org i) (td_nodes db) then Settings_stale else Setting_not_found)))"

section \<open>The chain of a repository\<close>

definition review_settings_chain :: "unicode \<Rightarrow> int \<Rightarrow> int \<Rightarrow> string \<Rightarrow> tree_db \<Rightarrow> tree_node list option" where
  "review_settings_chain U org inst repo db =
     (case List.find (\<lambda>n. is_connection org inst n \<and> nd_removed n = None) (td_nodes db) of None \<Rightarrow> None
      | Some conn \<Rightarrow> (case List.find (is_repo org (to_lower U (trim_space repo))) (td_nodes db) of None \<Rightarrow> Some [conn]
         | Some own \<Rightarrow>
             if nd_parent own = nd_id conn then Some [conn, own]
             else (case review_setting org (nd_parent own) db of
                 Some g \<Rightarrow> if nd_kind g = GroupNode \<and> nd_parent g = nd_id conn then Some [conn, g, own] else Some [conn]
               | None \<Rightarrow> Some [conn])))"

definition review_repo_removed :: "tree_node list \<Rightarrow> bool" where
  "review_repo_removed chain \<longleftrightarrow> chain \<noteq> [] \<and> nd_kind (last chain) = RepoNode \<and> nd_removed (last chain) \<noteq> None"

definition kind_level :: "node_kind \<Rightarrow> level" where
  "kind_level k = (case k of ConnNode \<Rightarrow> LevelConnection | GroupNode \<Rightarrow> LevelGroup | RepoNode \<Rightarrow> LevelRepo)"

text \<open>\<open>None\<close> where a node's settings cannot be read.\<close>

fun review_levels :: "json \<Rightarrow> tree_node list \<Rightarrow> (level \<times> settings) list option" where
  "review_levels J [] = Some []"
| "review_levels J (n # ns) = (case js_settings J (nd_settings n) of None \<Rightarrow> None
   | Some s \<Rightarrow> (case review_levels J ns of None \<Rightarrow> None | Some ls \<Rightarrow> Some ((kind_level (nd_kind n), s) # ls)))"

text \<open>The receipt filter: the empty mode where nothing is reviewed at all, \<open>Inl\<close> where it cannot be told.\<close>

definition review_mode_at :: "unicode \<Rightarrow> json \<Rightarrow> int \<Rightarrow> int \<Rightarrow> string \<Rightarrow> tree_db \<Rightarrow> unit + mode" where
  "review_mode_at U J org inst repo db = (case review_settings_chain U org inst repo db of None \<Rightarrow> Inr ''''
   | Some chain \<Rightarrow> if review_repo_removed chain then Inr ModeOff
       else (case review_levels J chain of None \<Rightarrow> Inl () | Some ls \<Rightarrow> Inr (x_mode (resolve U ls))))"

end
