(* ===== verification/Review_Tree_Spec.thy ===== *)
theory Review_Tree_Spec
  imports Review_Tree
begin

text \<open>
  What holds of the settings tree. \<open>tree_ok\<close> is its shape: groups hang from connections, repositories from
  connections or groups, always of the same organisation, and each installation, repository and name of a group has one
  row. Every operation keeps it and touches the rows of one organisation only; \<open>settings_op\<close> is that contract, and
  every operation is an instance of it. A request is one operation; \<open>serve_tree\<close> carries it out. Two transactions whose
  statements interleave can break the shape: that is shown last.
\<close>

section \<open>The shape of the tree\<close>

definition node_key :: "tree_node \<Rightarrow> int \<times> (int + (int \<times> string) + string)" where
  "node_key n = (nd_org n, case nd_kind n of ConnNode \<Rightarrow> Inl (nd_installation n)
     | GroupNode \<Rightarrow> Inr (Inl (nd_parent n, nd_name n)) | RepoNode \<Rightarrow> Inr (Inr (nd_repo n)))"

definition may_hang :: "tree_node \<Rightarrow> tree_node \<Rightarrow> bool" where
  "may_hang n p \<longleftrightarrow> nd_org p = nd_org n \<and> nd_id p = nd_parent n \<and>
     (nd_kind n = GroupNode \<and> nd_kind p = ConnNode \<or> nd_kind n = RepoNode \<and> nd_kind p \<noteq> RepoNode)"

definition node_ok :: "tree_node list \<Rightarrow> tree_node \<Rightarrow> bool" where
  "node_ok ns n \<longleftrightarrow> (if nd_kind n = ConnNode then nd_parent n = 0 else list_ex (may_hang n) ns)"

definition tree_ok :: "tree_db \<Rightarrow> bool" where
  "tree_ok db \<longleftrightarrow> 0 \<le> td_last db \<and> distinct (map nd_id (td_nodes db)) \<and> distinct (map node_key (td_nodes db)) \<and>
     list_all (\<lambda>n. 0 < nd_id n \<and> nd_id n \<le> td_last db \<and> node_ok (td_nodes db) n) (td_nodes db)"

definition rows_of :: "int \<Rightarrow> tree_db \<Rightarrow> tree_node list" where
  "rows_of org db = filter (\<lambda>n. nd_org n = org) (td_nodes db)"

lemma tree_ok_row:
  assumes "tree_ok db" "n \<in> set (td_nodes db)"
  shows "0 < nd_id n" "nd_id n \<le> td_last db" "node_ok (td_nodes db) n"
  using assms by (auto simp: tree_ok_def list_all_iff)

lemma one_row: "tree_ok db \<Longrightarrow> n \<in> set (td_nodes db) \<Longrightarrow> m \<in> set (td_nodes db) \<Longrightarrow> nd_id n = nd_id m \<Longrightarrow> n = m"
  by (auto simp: tree_ok_def distinct_map inj_on_def)

lemma one_key: "tree_ok db \<Longrightarrow> n \<in> set (td_nodes db) \<Longrightarrow> m \<in> set (td_nodes db) \<Longrightarrow> node_key n = node_key m \<Longrightarrow> n = m"
  by (auto simp: tree_ok_def distinct_map inj_on_def)

lemma found: "List.find P xs = Some x \<Longrightarrow> x \<in> set xs \<and> P x"
  by (auto simp: find_Some_iff)

lemma not_found: "List.find P xs = None \<longleftrightarrow> (\<forall>x \<in> set xs. \<not> P x)"
  by (auto simp: find_None_iff)

section \<open>The contract of an operation\<close>

locale settings_op =
  fixes org :: int and run :: "tree_db \<Rightarrow> tree_db"
  assumes keeps: "tree_ok db \<Longrightarrow> tree_ok (run db)"
    and stays: "o' \<noteq> org \<Longrightarrow> rows_of o' (run db) = rows_of o' db"
begin

lemma kept: "tree_ok db \<Longrightarrow> tree_ok (run db) \<and> (o' \<noteq> org \<longrightarrow> rows_of o' (run db) = rows_of o' db)"
  by (simp add: keeps stays)

end

subsection \<open>Conditions and edits\<close>

text \<open>A condition that meets rows of one organisation only, and an edit that leaves a row where it is.\<close>

definition inside :: "int \<Rightarrow> (tree_node \<Rightarrow> bool) \<Rightarrow> bool" where
  "inside org P \<longleftrightarrow> (\<forall>n. P n \<longrightarrow> nd_org n = org)"

definition same_place :: "(tree_node \<Rightarrow> tree_node) \<Rightarrow> bool" where
  "same_place f \<longleftrightarrow> (\<forall>n. nd_id (f n) = nd_id n \<and> nd_org (f n) = nd_org n \<and> nd_kind (f n) = nd_kind n \<and>
     nd_parent (f n) = nd_parent n \<and> node_key (f n) = node_key n)"

lemma inside_conds [simp]:
  "inside org (is_node org i)" "inside org (own_repo org i)" "inside org (is_connection org i)" "inside org (is_repo org r)"
  "inside org (\<lambda>n. is_node org i n \<and> Q n)" "inside org (\<lambda>n. nd_org n = org \<and> Q n)"
  by (simp_all add: inside_def is_node_def own_repo_def is_connection_def is_repo_def)

lemma same_place_edits [simp]:
  "same_place (touched now by')"
  "same_place (\<lambda>n. touched now by' (n\<lparr>nd_removed := r\<rparr>))"
  "same_place (\<lambda>n. touched now by' (mark_removed now n))"
  "same_place (\<lambda>n. touched now by' (n\<lparr>nd_settings := s\<rparr>))"
  by (simp_all add: same_place_def touched_def mark_removed_def node_key_def split: node_kind.splits)

lemma touched_fields [simp]:
  "nd_id (touched now by' n) = nd_id n" "nd_org (touched now by' n) = nd_org n" "nd_kind (touched now by' n) = nd_kind n"
  "nd_parent (touched now by' n) = nd_parent n" "nd_name (touched now by' n) = nd_name n" "nd_repo (touched now by' n) = nd_repo n"
  "nd_installation (touched now by' n) = nd_installation n" "nd_settings (touched now by' n) = nd_settings n"
  "nd_removed (touched now by' n) = nd_removed n" "node_key (touched now by' n) = node_key n"
  by (simp_all add: touched_def node_key_def split: node_kind.splits)

lemma update_fields [simp]: "td_last (update_nodes P f db) = td_last db" "td_last (delete_nodes P db) = td_last db"
  by (simp_all add: update_nodes_def delete_nodes_def)

subsection \<open>The rows of the others\<close>

lemma rows_of_update:
  assumes "inside org P" "\<And>n. nd_org (f n) = nd_org n" "o' \<noteq> org"
  shows "rows_of o' (update_nodes P f db) = rows_of o' db"
proof -
  have "filter (\<lambda>n. nd_org n = o') (map (\<lambda>n. if P n then f n else n) ns) = filter (\<lambda>n. nd_org n = o') ns" for ns
    using assms by (induction ns) (auto simp: inside_def)
  then show ?thesis by (simp add: rows_of_def update_nodes_def update_rows_def)
qed

lemma rows_of_edit: "inside org P \<Longrightarrow> same_place f \<Longrightarrow> o' \<noteq> org \<Longrightarrow> rows_of o' (update_nodes P f db) = rows_of o' db"
  by (rule rows_of_update) (auto simp: same_place_def)

lemma rows_of_insert: "nd_org (mk (td_last db + 1)) \<noteq> o' \<Longrightarrow> rows_of o' (fst (insert_node mk db)) = rows_of o' db"
  by (simp add: rows_of_def insert_node_def Let_def)

lemma rows_of_delete: "inside org P \<Longrightarrow> o' \<noteq> org \<Longrightarrow> rows_of o' (delete_nodes P db) = rows_of o' db"
  by (auto simp: rows_of_def delete_nodes_def inside_def intro!: filter_cong)

lemma rows_of_write: "inside org P \<Longrightarrow> same_place f \<Longrightarrow> o' \<noteq> org \<Longrightarrow> rows_of o' (fst (write_node P f db)) = rows_of o' db"
  by (simp add: write_node_def rows_of_edit)

lemmas others_stay = rows_of_edit rows_of_delete rows_of_write

subsection \<open>The shape is kept\<close>

lemma node_ok_mono:
  assumes "node_ok ns n" "\<And>p. p \<in> set ns \<Longrightarrow> may_hang n p \<Longrightarrow> \<exists>q \<in> set ns'. may_hang n q"
  shows "node_ok ns' n"
  using assms by (auto simp: node_ok_def list_ex_iff split: if_splits)

lemma update_keeps:
  assumes ok: "tree_ok db"
    and same: "\<And>n. nd_id (f n) = nd_id n \<and> nd_org (f n) = nd_org n \<and> nd_kind (f n) = nd_kind n"
    and keys: "distinct (map node_key (td_nodes (update_nodes P f db)))"
    and place: "\<And>n. n \<in> set (td_nodes db) \<Longrightarrow> P n \<Longrightarrow> nd_parent (f n) \<noteq> nd_parent n \<Longrightarrow>
        nd_kind n \<noteq> ConnNode \<and> list_ex (may_hang (f n)) (td_nodes db)"
  shows "tree_ok (update_nodes P f db)"
proof -
  define g where "g = (\<lambda>n. if P n then f n else n)"
  have nodes: "td_nodes (update_nodes P f db) = map g (td_nodes db)" by (simp add: update_nodes_def update_rows_def g_def)
  have g: "nd_id (g n) = nd_id n" "nd_org (g n) = nd_org n" "nd_kind (g n) = nd_kind n" for n
    using same by (auto simp: g_def)
  have hang: "may_hang n (g p) = may_hang n p" for n p by (simp add: may_hang_def g)
  have moved: "nd_parent (g n) = nd_parent n \<Longrightarrow> may_hang (g n) p = may_hang n p" for n p by (simp add: may_hang_def g)
  have "node_ok (map g (td_nodes db)) (g n)" if n: "n \<in> set (td_nodes db)" for n
  proof (cases "nd_parent (g n) = nd_parent n")
    case True
    then show ?thesis using tree_ok_row(3)[OF ok n] by (auto simp: node_ok_def list_ex_iff g hang moved split: if_splits)
  next
    case False
    then have "P n" by (auto simp: g_def split: if_splits)
    then show ?thesis using False place[OF n] by (auto simp: node_ok_def list_ex_iff g hang) (simp_all add: g_def)
  qed
  moreover have "map nd_id (map g (td_nodes db)) = map nd_id (td_nodes db)" by (simp add: g)
  ultimately show ?thesis
    using ok keys unfolding tree_ok_def nodes update_fields by (simp add: list_all_iff g o_def)
qed

lemma edit_keeps:
  assumes "tree_ok db" "same_place f"
  shows "tree_ok (update_nodes P f db)"
proof (rule update_keeps[OF assms(1)])
  have "map node_key (td_nodes (update_nodes P f db)) = map node_key (td_nodes db)"
    using assms(2) by (auto simp: update_nodes_def update_rows_def same_place_def)
  then show "distinct (map node_key (td_nodes (update_nodes P f db)))" using assms(1) by (simp add: tree_ok_def)
qed (use assms(2) in \<open>auto simp: same_place_def\<close>)

lemma write_keeps: "tree_ok db \<Longrightarrow> same_place f \<Longrightarrow> tree_ok (fst (write_node P f db))"
  by (simp add: write_node_def edit_keeps)

lemma insert_keeps:
  assumes ok: "tree_ok db" and "nd_id (mk (td_last db + 1)) = td_last db + 1"
    and key: "node_key (mk (td_last db + 1)) \<notin> node_key ` set (td_nodes db)"
    and place: "node_ok (td_nodes db) (mk (td_last db + 1))"
  shows "tree_ok (fst (insert_node mk db))"
proof -
  have "td_last db + 1 \<notin> nd_id ` set (td_nodes db)" using tree_ok_row(2)[OF ok] by force
  moreover have "node_ok (td_nodes db @ [x]) n" if "node_ok (td_nodes db) n" for n x
    using that by (rule node_ok_mono) auto
  ultimately show ?thesis using assms by (auto simp: tree_ok_def insert_node_def Let_def list_all_iff)
qed

lemma delete_keeps:
  assumes ok: "tree_ok db" and leaf: "\<And>n p. n \<in> set (td_nodes db) \<Longrightarrow> \<not> P n \<Longrightarrow> p \<in> set (td_nodes db) \<Longrightarrow> P p \<Longrightarrow> \<not> may_hang n p"
  shows "tree_ok (delete_nodes P db)"
proof -
  have "node_ok (filter (\<lambda>n. \<not> P n) (td_nodes db)) n" if n: "n \<in> set (td_nodes db)" "\<not> P n" for n
    using tree_ok_row(3)[OF ok n(1)] by (rule node_ok_mono) (use leaf n in auto)
  then show ?thesis using ok by (auto simp: tree_ok_def delete_nodes_def distinct_map_filter list_all_iff)
qed

section \<open>Every operation\<close>

subsection \<open>Connections\<close>

lemma new_connection_keeps:
  assumes ok: "tree_ok db" and none: "List.find (is_connection org inst) (td_nodes db) = None"
  shows "tree_ok (fst (insert_node (new_connection now org pub inst body by') db))"
proof (rule insert_keeps[OF ok])
  show "node_key (new_connection now org pub inst body by' (td_last db + 1)) \<notin> node_key ` set (td_nodes db)"
    using none by (auto simp: not_found is_connection_def node_key_def new_connection_def split: node_kind.splits)
qed (simp_all add: node_ok_def new_connection_def)

interpretation adding_connection: settings_op org "\<lambda>db. fst (add_review_connection J now pub org inst raw by' db)"
  by unfold_locales
    (auto simp: add_review_connection_def split_beta edit_keeps new_connection_keeps others_stay[where org=org] rows_of_insert new_connection_def
       split: option.splits)

interpretation removing_connection: settings_op org "\<lambda>db. fst (remove_review_connection now org i by' db)"
  by unfold_locales (simp_all add: remove_review_connection_def write_keeps others_stay[where org=org] rows_of_insert)

interpretation restoring_connection: settings_op org "\<lambda>db. fst (restore_review_connection now org i by' db)"
  by unfold_locales (auto simp: restore_review_connection_def edit_keeps others_stay[where org=org] rows_of_insert split: option.splits)

subsection \<open>Groups\<close>

lemma new_group_keeps:
  assumes ok: "tree_ok db" and conn: "list_ex (\<lambda>n. is_node org conn n \<and> nd_kind n = ConnNode) (td_nodes db)"
    and free: "\<not> list_ex (is_group org conn nm) (td_nodes db)"
  shows "tree_ok (fst (insert_node (new_group now org pub conn nm by') db))"
proof (rule insert_keeps[OF ok])
  show "node_key (new_group now org pub conn nm by' (td_last db + 1)) \<notin> node_key ` set (td_nodes db)"
    using free by (auto simp: list_ex_iff is_group_def node_key_def new_group_def split: node_kind.splits)
qed (use conn in \<open>auto simp: node_ok_def new_group_def may_hang_def list_ex_iff is_node_def\<close>)

interpretation adding_group: settings_op org "\<lambda>db. fst (add_review_group now pub org conn name by' db)"
  by unfold_locales
    (auto simp: add_review_group_def split_beta new_group_keeps others_stay[where org=org] rows_of_insert new_group_def split: option.splits)

lemma distinct_map_update:
  assumes "distinct (map k xs)" "\<And>x. x \<in> set xs \<Longrightarrow> P x \<Longrightarrow> x = a"
    and "\<And>x. x \<in> set xs \<Longrightarrow> \<not> P x \<Longrightarrow> k x \<noteq> k (f a)"
  shows "distinct (map (\<lambda>x. k (if P x then f x else x)) xs)"
proof -
  have one: "x = y" if xy: "x \<in> set xs" "y \<in> set xs" and k: "k (if P x then f x else x) = k (if P y then f y else y)" for x y
  proof (cases "P x")
    case True
    note x = assms(2)[OF xy(1) True]
    show ?thesis
    proof (cases "P y")
      case True
      then show ?thesis using x assms(2)[OF xy(2)] by simp
    next
      case False
      then show ?thesis using assms(3)[OF xy(2) False] k \<open>P x\<close> x by simp
    qed
  next
    case False
    then have "\<not> P y" using assms(3)[OF xy(1) False] assms(2)[OF xy(2)] k by auto
    then have "k x = k y" using k False by simp
    then show ?thesis using assms(1) xy by (simp add: distinct_map inj_on_def)
  qed
  have "inj_on (\<lambda>x. k (if P x then f x else x)) (set xs)" using one by (rule inj_onI)
  then show ?thesis using assms(1) by (simp add: distinct_map)
qed

lemma rename_keeps:
  assumes ok: "tree_ok db" and g: "List.find (\<lambda>n. is_node org i n \<and> nd_kind n = GroupNode) (td_nodes db) = Some g"
    and free: "\<not> list_ex (\<lambda>n. is_group org (nd_parent g) nm n \<and> nd_id n \<noteq> i) (td_nodes db)"
  shows "tree_ok (update_nodes (\<lambda>n. is_node org i n \<and> nd_kind n = GroupNode) (\<lambda>n. touched now by' (n\<lparr>nd_name := nm\<rparr>)) db)"
proof (rule update_keeps[OF ok])
  let ?P = "\<lambda>n. is_node org i n \<and> nd_kind n = GroupNode" and ?f = "\<lambda>n. touched now by' (n\<lparr>nd_name := nm\<rparr>)"
  have g': "g \<in> set (td_nodes db)" "?P g" using found[OF g] by auto
  have "distinct (map (\<lambda>n. node_key (if ?P n then ?f n else n)) (td_nodes db))"
  proof (rule distinct_map_update[where a=g])
    show "distinct (map node_key (td_nodes db))" using ok by (simp add: tree_ok_def)
    show "x = g" if "x \<in> set (td_nodes db)" "?P x" for x using one_row[OF ok that(1) g'(1)] that g' by (simp add: is_node_def)
    show "node_key x \<noteq> node_key (?f g)" if "x \<in> set (td_nodes db)" "\<not> ?P x" for x
      using free that g' by (auto simp: list_ex_iff is_group_def is_node_def node_key_def split: node_kind.splits)
  qed
  then show "distinct (map node_key (td_nodes (update_nodes ?P ?f db)))" by (simp add: update_nodes_def update_rows_def o_def)
qed auto

interpretation renaming_group: settings_op org "\<lambda>db. fst (rename_review_group now org i name by' db)"
  by unfold_locales (auto simp: rename_review_group_def rename_keeps rows_of_update[where org=org] split: option.splits)

lemma move_keeps:
  assumes ok: "tree_ok db" and "\<And>n. P n \<Longrightarrow> nd_org n = org \<and> nd_kind n = RepoNode"
    and p: "p \<in> set (td_nodes db)" "nd_org p = org" "nd_id p = parent" "nd_kind p \<noteq> RepoNode"
  shows "tree_ok (update_nodes P (\<lambda>n. touched now by' (n\<lparr>nd_parent := parent\<rparr>)) db)"
proof (rule update_keeps[OF ok])
  have "map node_key (td_nodes (update_nodes P (\<lambda>n. touched now by' (n\<lparr>nd_parent := parent\<rparr>)) db)) = map node_key (td_nodes db)"
    using assms(2) by (auto simp: update_nodes_def update_rows_def node_key_def split: node_kind.splits)
  then show "distinct (map node_key (td_nodes (update_nodes P (\<lambda>n. touched now by' (n\<lparr>nd_parent := parent\<rparr>)) db)))"
    using ok by (simp add: tree_ok_def)
qed (use assms in \<open>auto simp: list_ex_iff may_hang_def\<close>)

lemma group_parent:
  assumes ok: "tree_ok db" and "g \<in> set (td_nodes db)" "nd_kind g = GroupNode"
  obtains p where "p \<in> set (td_nodes db)" "nd_org p = nd_org g" "nd_id p = nd_parent g" "nd_kind p = ConnNode"
  using tree_ok_row(3)[OF ok assms(2)] assms(3) by (auto simp: node_ok_def list_ex_iff may_hang_def)

text \<open>Once its repositories are moved up, nothing hangs from a group.\<close>

lemma moved_up:
  assumes ok: "tree_ok db" and g: "List.find (\<lambda>n. is_node org i n \<and> nd_kind n = GroupNode) (td_nodes db) = Some g"
  shows "tree_ok (move_up now org i by' (nd_parent g) db)"
    "n \<in> set (td_nodes (move_up now org i by' (nd_parent g) db)) \<Longrightarrow> is_node org i p \<and> nd_kind p = GroupNode \<Longrightarrow> \<not> may_hang n p"
proof -
  have g': "g \<in> set (td_nodes db)" "nd_org g = org" "nd_id g = i" "nd_kind g = GroupNode" using found[OF g] by (auto simp: is_node_def)
  obtain c where c: "c \<in> set (td_nodes db)" "nd_org c = org" "nd_id c = nd_parent g" "nd_kind c = ConnNode"
    using group_parent[OF ok g'(1) g'(4)] g'(2) by metis
  show "tree_ok (move_up now org i by' (nd_parent g) db)"
    unfolding move_up_def by (rule move_keeps[OF ok _ c(1)]) (use c in auto)
  have up: "nd_parent g \<noteq> i" using one_row[OF ok c(1) g'(1)] c g' by force
  show "\<not> may_hang n p" if n: "n \<in> set (td_nodes (move_up now org i by' (nd_parent g) db))" and p: "is_node org i p \<and> nd_kind p = GroupNode"
  proof -
    obtain m where "m \<in> set (td_nodes db)"
      and m: "n = (if nd_org m = org \<and> nd_parent m = i \<and> nd_kind m = RepoNode then touched now by' (m\<lparr>nd_parent := nd_parent g\<rparr>) else m)"
      using n by (auto simp: move_up_def update_nodes_def update_rows_def)
    then show ?thesis using p up
      by (cases "nd_org m = org \<and> nd_parent m = i \<and> nd_kind m = RepoNode") (auto simp: may_hang_def is_node_def)
  qed
qed

lemma delete_group_keeps:
  assumes ok: "tree_ok db" and g: "List.find (\<lambda>n. is_node org i n \<and> nd_kind n = GroupNode) (td_nodes db) = Some g"
  shows "tree_ok (delete_nodes (\<lambda>n. is_node org i n \<and> nd_kind n = GroupNode) (move_up now org i by' (nd_parent g) db))"
  by (rule delete_keeps) (use moved_up[OF ok g] in auto)

lemma rows_of_move_up: "o' \<noteq> org \<Longrightarrow> rows_of o' (move_up now org i by' conn db) = rows_of o' db"
  by (simp add: move_up_def rows_of_update[where org=org])

interpretation deleting_group: settings_op org "\<lambda>db. fst (delete_review_group now org i by' db)"
  by unfold_locales
    (auto simp: delete_review_group_def delete_group_keeps rows_of_delete[where org=org] rows_of_move_up split: option.splits)

subsection \<open>Repositories\<close>

lemma review_node_row:
  "review_node org i db = Some (k, c) \<Longrightarrow>
     \<exists>n \<in> set (td_nodes db). nd_org n = org \<and> nd_id n = i \<and> nd_kind n = k"
  by (auto simp: review_node_def review_setting_def is_node_def split: option.splits dest!: found)

lemma new_repo_keeps:
  assumes ok: "tree_ok db" and "List.find (is_repo org r) (td_nodes db) = None" "review_node org parent db = Some (k, c)" "k \<noteq> RepoNode"
  shows "tree_ok (fst (insert_node (new_repo now org pub parent r by') db))"
proof (rule insert_keeps[OF ok])
  show "node_key (new_repo now org pub parent r by' (td_last db + 1)) \<notin> node_key ` set (td_nodes db)"
    using assms(2) by (auto simp: not_found is_repo_def node_key_def new_repo_def split: node_kind.splits)
qed (use review_node_row[OF assms(3)] assms(4) in \<open>auto simp: node_ok_def new_repo_def may_hang_def list_ex_iff\<close>)

interpretation ensuring_repo: settings_op org "\<lambda>db. fst (ensure_review_repo U now pub org parent repo by' db)"
  by unfold_locales
    (auto simp: ensure_review_repo_def split_beta new_repo_keeps others_stay[where org=org] rows_of_insert new_repo_def split: option.splits node_kind.splits)

interpretation moving_repo: settings_op org "\<lambda>db. fst (move_review_repo now org i parent by' db)"
proof
  fix db assume ok: "tree_ok db"
  have "tree_ok (update_nodes (own_repo org i) (\<lambda>n. touched now by' (n\<lparr>nd_parent := parent\<rparr>)) db)"
    if k: "review_node org parent db = Some (k, c)" "k \<noteq> RepoNode" for k c
    using review_node_row[OF k(1)] k(2) by (auto simp: own_repo_def is_node_def intro!: move_keeps[OF ok, of _ org])
  then show "tree_ok (fst (move_review_repo now org i parent by' db))"
    using ok by (auto simp: move_review_repo_def split: option.splits prod.splits)
qed (auto simp: move_review_repo_def rows_of_update[where org=org] split: option.splits prod.splits)

interpretation deleting_repo: settings_op org "\<lambda>db. fst (delete_review_repo now org i by' db)"
proof
  fix db assume ok: "tree_ok db"
  have "tree_ok (delete_nodes (own_repo org i) db)"
    by (rule delete_keeps[OF ok]) (auto simp: may_hang_def own_repo_def)
  then show "tree_ok (fst (delete_review_repo now org i by' db))"
    using ok by (auto simp: delete_review_repo_def edit_keeps split: option.splits prod.splits)
qed (auto simp: delete_review_repo_def others_stay[where org=org] rows_of_insert split: option.splits prod.splits)

interpretation removing_repo: settings_op org "\<lambda>db. fst (remove_review_repo now org i by' db)"
  by unfold_locales (simp_all add: remove_review_repo_def write_keeps others_stay[where org=org] rows_of_insert)

interpretation restoring_repo: settings_op org "\<lambda>db. fst (restore_review_repo now org i by' db)"
  by unfold_locales (simp_all add: restore_review_repo_def write_keeps others_stay[where org=org] rows_of_insert)

subsection \<open>Settings\<close>

interpretation updating: settings_op org "\<lambda>db. fst (update_review_settings J now org i raw by' db)"
  by unfold_locales (auto simp: update_review_settings_def write_keeps others_stay[where org=org] rows_of_insert split: option.splits)

interpretation updating_from: settings_op org "\<lambda>db. fst (update_review_settings_from J now org i was raw by' db)"
  by unfold_locales (auto simp: update_review_settings_from_def edit_keeps others_stay[where org=org] rows_of_insert split: option.splits)

section \<open>A repository stays under its connection\<close>

definition conn_of :: "tree_db \<Rightarrow> tree_node \<Rightarrow> int" where
  "conn_of db n = (case review_node (nd_org n) (nd_parent n) db of None \<Rightarrow> 0 | Some (_, c) \<Rightarrow> c)"

lemma find_map: "List.find P (map g xs) = map_option g (List.find (\<lambda>x. P (g x)) xs)"
  by (induction xs) auto

lemma find_unique:
  assumes "x \<in> set xs" "P x" "\<And>y. y \<in> set xs \<Longrightarrow> P y \<Longrightarrow> y = x"
  shows "List.find P xs = Some x"
proof (cases "List.find P xs")
  case None
  then show ?thesis using assms(1,2) by (simp add: not_found)
next
  case (Some y)
  then show ?thesis using assms(3)[of y] found[OF Some] by simp
qed

lemma setting_is:
  assumes "tree_ok db" "n \<in> set (td_nodes db)" "nd_org n = org" "nd_id n = i"
  shows "review_setting org i db = Some n"
  unfolding review_setting_def
proof (rule find_unique[OF assms(2)])
  show "m = n" if "m \<in> set (td_nodes db)" "is_node org i m" for m
    by (rule one_row[OF assms(1) that(1) assms(2)]) (use that assms(4) in \<open>simp add: is_node_def\<close>)
qed (use assms in \<open>simp add: is_node_def\<close>)

lemma node_is:
  assumes "tree_ok db" "n \<in> set (td_nodes db)" "nd_org n = org" "nd_id n = i"
  shows "review_node org i db = Some (nd_kind n, case nd_kind n of ConnNode \<Rightarrow> i | GroupNode \<Rightarrow> nd_parent n | RepoNode \<Rightarrow> 0)"
  using setting_is[OF assms] by (simp add: review_node_def)

text \<open>The row a repository hangs from.\<close>

lemma repo_parent:
  assumes ok: "tree_ok db" and n: "n \<in> set (td_nodes db)" "nd_kind n = RepoNode"
  obtains p where "p \<in> set (td_nodes db)" "nd_org p = nd_org n" "nd_id p = nd_parent n" "nd_kind p \<noteq> RepoNode"
    "conn_of db n = (if nd_kind p = GroupNode then nd_parent p else nd_id p)"
proof -
  obtain p where p: "p \<in> set (td_nodes db)" "nd_org p = nd_org n" "nd_id p = nd_parent n" "nd_kind p \<noteq> RepoNode"
    using tree_ok_row(3)[OF ok n(1)] n(2) by (auto simp: node_ok_def list_ex_iff may_hang_def)
  then show ?thesis using that node_is[OF ok p(1-3)] by (auto simp: conn_of_def split: node_kind.splits)
qed

text \<open>Home is where the same row with the same parent finds the same connection.\<close>

definition at_home :: "tree_db \<Rightarrow> tree_db \<Rightarrow> bool" where
  "at_home db db' \<longleftrightarrow> (\<forall>n \<in> set (td_nodes db). nd_kind n = RepoNode \<longrightarrow>
     (\<forall>m \<in> set (td_nodes db'). nd_id m = nd_id n \<longrightarrow> conn_of db' m = conn_of db n))"

locale homely_op = settings_op +
  assumes home: "tree_ok db \<Longrightarrow> at_home db (run db)"
begin

lemma home_or_gone:
  "tree_ok db \<Longrightarrow> n \<in> set (td_nodes db) \<Longrightarrow> nd_kind n = RepoNode \<Longrightarrow> m \<in> set (td_nodes (run db)) \<Longrightarrow>
     nd_id m = nd_id n \<Longrightarrow> conn_of (run db) m = conn_of db n"
  using home by (simp add: at_home_def)

end

lemma at_home_refl: "tree_ok db \<Longrightarrow> at_home db db"
  unfolding at_home_def by (metis one_row)

text \<open>An edit of anything but what a row is and where it hangs.\<close>

definition same_hold :: "(tree_node \<Rightarrow> tree_node) \<Rightarrow> bool" where
  "same_hold f \<longleftrightarrow> (\<forall>n. nd_id (f n) = nd_id n \<and> nd_org (f n) = nd_org n \<and> nd_kind (f n) = nd_kind n \<and> nd_parent (f n) = nd_parent n)"

lemma same_hold_edits [simp]: "same_place f \<Longrightarrow> same_hold f" "same_hold (\<lambda>n. touched now by' (n\<lparr>nd_name := nm\<rparr>))"
  by (auto simp: same_hold_def same_place_def)

lemma node_of_edit:
  assumes "same_hold f"
  shows "review_node org i (update_nodes P f db) = review_node org i db"
proof -
  have "is_node org i (if P x then f x else x) = is_node org i x" for x using assms by (simp add: same_hold_def is_node_def)
  then show ?thesis using assms
    by (auto simp: review_node_def review_setting_def update_nodes_def update_rows_def find_map same_hold_def
        split: option.splits node_kind.splits)
qed

lemma at_home_edit:
  assumes ok: "tree_ok db" and f: "same_hold f"
  shows "at_home db (update_nodes P f db)"
proof -
  have "conn_of (update_nodes P f db) (if P n then f n else n) = conn_of db n" for n
    using f by (simp add: conn_of_def node_of_edit[OF f] same_hold_def)
  moreover have "\<exists>n' \<in> set (td_nodes db). m = (if P n' then f n' else n') \<and> nd_id m = nd_id n'"
    if "m \<in> set (td_nodes (update_nodes P f db))" for m
    using that f by (auto simp: update_nodes_def update_rows_def same_hold_def)
  ultimately show ?thesis using one_row[OF ok] unfolding at_home_def by (metis (full_types))
qed

lemma at_home_write: "tree_ok db \<Longrightarrow> same_hold f \<Longrightarrow> at_home db (fst (write_node P f db))"
  by (simp add: write_node_def at_home_edit at_home_refl)

lemma conn_is:
  assumes "tree_ok db" "p \<in> set (td_nodes db)" "nd_org p = nd_org n" "nd_id p = nd_parent n" "nd_kind p \<noteq> RepoNode"
  shows "conn_of db n = (if nd_kind p = GroupNode then nd_parent p else nd_id p)"
  using node_is[OF assms(1-4)] assms(4,5) by (auto simp: conn_of_def split: node_kind.splits)

lemma at_home_insert:
  assumes ok: "tree_ok db" and ok': "tree_ok (fst (insert_node mk db))" and new: "nd_id (mk (td_last db + 1)) = td_last db + 1"
  shows "at_home db (fst (insert_node mk db))"
  unfolding at_home_def
proof (intro ballI impI)
  fix n m assume n: "n \<in> set (td_nodes db)" "nd_kind n = RepoNode" and m: "m \<in> set (td_nodes (fst (insert_node mk db)))" "nd_id m = nd_id n"
  have in_new: "x \<in> set (td_nodes db) \<Longrightarrow> x \<in> set (td_nodes (fst (insert_node mk db)))" for x by (simp add: insert_node_def Let_def)
  have "m = n" using one_row[OF ok' m(1) in_new[OF n(1)] m(2)] .
  moreover obtain p where p: "p \<in> set (td_nodes db)" "nd_org p = nd_org n" "nd_id p = nd_parent n" "nd_kind p \<noteq> RepoNode"
    "conn_of db n = (if nd_kind p = GroupNode then nd_parent p else nd_id p)" using repo_parent[OF ok n] .
  ultimately show "conn_of (fst (insert_node mk db)) m = conn_of db n" using conn_is[OF ok' in_new[OF p(1)] p(2-4)] by simp
qed

lemma at_home_move:
  assumes ok: "tree_ok db" and ok': "tree_ok (update_nodes (own_repo org i) (\<lambda>n. touched now by' (n\<lparr>nd_parent := parent\<rparr>)) db)"
    and n: "List.find (own_repo org i) (td_nodes db) = Some n" and c: "review_node org (nd_parent n) db = Some (k1, c)"
    and k: "review_node org parent db = Some (k, c)" "k \<noteq> RepoNode"
  shows "at_home db (update_nodes (own_repo org i) (\<lambda>n. touched now by' (n\<lparr>nd_parent := parent\<rparr>)) db)"
  unfolding at_home_def
proof (intro ballI impI)
  let ?f = "\<lambda>n. touched now by' (n\<lparr>nd_parent := parent\<rparr>)" let ?db = "update_nodes (own_repo org i) ?f db"
  fix x m assume x: "x \<in> set (td_nodes db)" "nd_kind x = RepoNode" and m: "m \<in> set (td_nodes ?db)" "nd_id m = nd_id x"
  obtain y where y: "y \<in> set (td_nodes db)" "m = (if own_repo org i y then ?f y else y)" "nd_id m = nd_id y"
    using m(1) by (auto simp: update_nodes_def update_rows_def)
  then have "y = x" using one_row[OF ok y(1) x(1)] m(2) by simp
  have in_new: "p \<in> set (td_nodes ?db)" if "p \<in> set (td_nodes db)" "nd_kind p \<noteq> RepoNode" for p
    using that by (force simp: update_nodes_def update_rows_def own_repo_def)
  obtain p where p: "p \<in> set (td_nodes db)" "nd_org p = nd_org x" "nd_id p = nd_parent x" "nd_kind p \<noteq> RepoNode"
    "conn_of db x = (if nd_kind p = GroupNode then nd_parent p else nd_id p)" using repo_parent[OF ok x] .
  show "conn_of ?db m = conn_of db x"
  proof (cases "own_repo org i x")
    case True
    have "n = x" by (rule one_row[OF ok _ x(1)]) (use found[OF n] True in \<open>auto simp: own_repo_def is_node_def\<close>)
    obtain q where q: "q \<in> set (td_nodes db)" "nd_org q = org" "nd_id q = parent" "nd_kind q = k" using review_node_row[OF k(1)] by metis
    have "c = (if nd_kind q = GroupNode then nd_parent q else nd_id q)"
      using node_is[OF ok q(1-3)] k q(3,4) by (auto split: node_kind.splits)
    moreover have "conn_of db x = c" using c \<open>n = x\<close> True by (simp add: conn_of_def own_repo_def is_node_def)
    moreover have "conn_of ?db m = (if nd_kind q = GroupNode then nd_parent q else nd_id q)"
      by (rule conn_is[OF ok' in_new]) (use q k(2) y(2) \<open>y = x\<close> True in \<open>auto simp: own_repo_def is_node_def\<close>)
    ultimately show ?thesis by simp
  next
    case False
    then have "m = x" using y(2) \<open>y = x\<close> by simp
    then show ?thesis using conn_is[OF ok' in_new[OF p(1,4)] p(2-4)] p(5) by simp
  qed
qed

lemma at_home_delete:
  assumes ok: "tree_ok db" and ok': "tree_ok (delete_nodes P db)"
    and leaf: "\<And>n p. n \<in> set (td_nodes db) \<Longrightarrow> \<not> P n \<Longrightarrow> p \<in> set (td_nodes db) \<Longrightarrow> may_hang n p \<Longrightarrow> \<not> P p"
  shows "at_home db (delete_nodes P db)"
  unfolding at_home_def
proof (intro ballI impI)
  fix x m assume x: "x \<in> set (td_nodes db)" "nd_kind x = RepoNode" and m: "m \<in> set (td_nodes (delete_nodes P db))" "nd_id m = nd_id x"
  have m': "m \<in> set (td_nodes db)" "\<not> P m" using m(1) by (auto simp: delete_nodes_def)
  have "m = x" using one_row[OF ok m'(1) x(1) m(2)] .
  obtain p where p: "p \<in> set (td_nodes db)" "nd_org p = nd_org x" "nd_id p = nd_parent x" "nd_kind p \<noteq> RepoNode"
    "conn_of db x = (if nd_kind p = GroupNode then nd_parent p else nd_id p)" using repo_parent[OF ok x] .
  have "p \<in> set (td_nodes (delete_nodes P db))"
    using leaf[OF m' p(1)] p x(2) \<open>m = x\<close> by (simp add: delete_nodes_def may_hang_def)
  then show "conn_of (delete_nodes P db) m = conn_of db x" using conn_is[OF ok' _ p(2-4)] p(5) \<open>m = x\<close> by simp
qed

lemma at_home_trans:
  assumes "at_home a b" "at_home b c" "tree_ok a" and "\<And>m. m \<in> set (td_nodes c) \<Longrightarrow> \<exists>k \<in> set (td_nodes b). nd_id k = nd_id m \<and> nd_kind k = nd_kind m"
    and "\<And>n k. n \<in> set (td_nodes a) \<Longrightarrow> k \<in> set (td_nodes b) \<Longrightarrow> nd_id n = nd_id k \<Longrightarrow> nd_kind n = nd_kind k"
  shows "at_home a c"
  using assms unfolding at_home_def by metis

lemma at_home_move_up:
  assumes ok: "tree_ok db" and g: "List.find (\<lambda>n. is_node org i n \<and> nd_kind n = GroupNode) (td_nodes db) = Some g"
  shows "at_home db (move_up now org i by' (nd_parent g) db)"
  unfolding at_home_def
proof (intro ballI impI)
  let ?db = "move_up now org i by' (nd_parent g) db"
  fix x m assume x: "x \<in> set (td_nodes db)" "nd_kind x = RepoNode" and m: "m \<in> set (td_nodes ?db)" "nd_id m = nd_id x"
  have g': "g \<in> set (td_nodes db)" "nd_org g = org" "nd_id g = i" "nd_kind g = GroupNode" using found[OF g] by (auto simp: is_node_def)
  obtain c where c: "c \<in> set (td_nodes db)" "nd_org c = org" "nd_id c = nd_parent g" "nd_kind c = ConnNode"
    using group_parent[OF ok g'(1) g'(4)] g'(2) by metis
  have in_new: "p \<in> set (td_nodes ?db)" if "p \<in> set (td_nodes db)" "nd_kind p \<noteq> RepoNode" for p
    using that by (force simp: move_up_def update_nodes_def update_rows_def)
  obtain y where y: "y \<in> set (td_nodes db)" "nd_id m = nd_id y"
    "m = (if nd_org y = org \<and> nd_parent y = i \<and> nd_kind y = RepoNode then touched now by' (y\<lparr>nd_parent := nd_parent g\<rparr>) else y)"
    using m(1) by (auto simp: move_up_def update_nodes_def update_rows_def)
  then have "y = x" using one_row[OF ok y(1) x(1)] m(2) by simp
  obtain p where p: "p \<in> set (td_nodes db)" "nd_org p = nd_org x" "nd_id p = nd_parent x" "nd_kind p \<noteq> RepoNode"
    "conn_of db x = (if nd_kind p = GroupNode then nd_parent p else nd_id p)" using repo_parent[OF ok x] .
  show "conn_of ?db m = conn_of db x"
  proof (cases "nd_org x = org \<and> nd_parent x = i")
    case True
    have "p = g" by (rule one_row[OF ok p(1) g'(1)]) (use True p(3) g'(3) in simp)
    then have "conn_of db x = nd_id c" using p(5) g'(4) c(3) by simp
    moreover have "conn_of ?db m = nd_id c"
      using conn_is[OF moved_up(1)[OF ok g, where now=now and by'=by'] in_new[OF c(1)], where n=m] y(3) \<open>y = x\<close> True x(2) c(2-4) by simp
    ultimately show ?thesis by simp
  next
    case False
    then have "m = x" using y(3) \<open>y = x\<close> by auto
    then show ?thesis using conn_is[OF moved_up(1)[OF ok g] in_new[OF p(1,4)] p(2-4)] p(5) by simp
  qed
qed

lemma at_home_delete_group:
  assumes ok: "tree_ok db" and g: "List.find (\<lambda>n. is_node org i n \<and> nd_kind n = GroupNode) (td_nodes db) = Some g"
  shows "at_home db (delete_nodes (\<lambda>n. is_node org i n \<and> nd_kind n = GroupNode) (move_up now org i by' (nd_parent g) db))"
proof (rule at_home_trans[OF at_home_move_up[OF ok g] at_home_delete ok])
  let ?P = "\<lambda>n. is_node org i n \<and> nd_kind n = GroupNode" and ?db = "move_up now org i by' (nd_parent g) db"
  show "tree_ok ?db" "tree_ok (delete_nodes ?P ?db)" by (rule moved_up(1)[OF ok g], rule delete_group_keeps[OF ok g])
  show "\<not> ?P p" if "n \<in> set (td_nodes ?db)" "may_hang n p" for n p using moved_up(2)[OF ok g that(1)] that(2) by blast
  show "\<exists>k \<in> set (td_nodes ?db). nd_id k = nd_id m \<and> nd_kind k = nd_kind m" if "m \<in> set (td_nodes (delete_nodes ?P ?db))" for m
    using that by (auto simp: delete_nodes_def)
  show "nd_kind n = nd_kind k" if n: "n \<in> set (td_nodes db)" and k: "k \<in> set (td_nodes ?db)" "nd_id n = nd_id k" for n k
  proof -
    obtain y where y: "y \<in> set (td_nodes db)" "nd_id k = nd_id y" "nd_kind k = nd_kind y"
      using k(1) by (auto simp: move_up_def update_nodes_def update_rows_def)
    then show ?thesis using one_row[OF ok n y(1)] k(2) by simp
  qed
qed

section \<open>Every operation leaves repositories at home\<close>

lemmas at_home_simps = at_home_refl at_home_edit at_home_write at_home_insert

interpretation adding_connection_home: homely_op org "\<lambda>db. fst (add_review_connection J now pub org inst raw by' db)"
  by unfold_locales (auto simp: add_review_connection_def split_beta at_home_simps new_connection_keeps new_connection_def split: option.splits)

interpretation removing_connection_home: homely_op org "\<lambda>db. fst (remove_review_connection now org i by' db)"
  by unfold_locales (simp add: remove_review_connection_def at_home_write)

interpretation restoring_connection_home: homely_op org "\<lambda>db. fst (restore_review_connection now org i by' db)"
  by unfold_locales (auto simp: restore_review_connection_def at_home_simps split: option.splits)

interpretation adding_group_home: homely_op org "\<lambda>db. fst (add_review_group now pub org conn name by' db)"
  by unfold_locales (auto simp: add_review_group_def split_beta at_home_simps new_group_keeps new_group_def split: option.splits)

interpretation renaming_group_home: homely_op org "\<lambda>db. fst (rename_review_group now org i name by' db)"
  by unfold_locales (auto simp: rename_review_group_def at_home_simps split: option.splits)

interpretation deleting_group_home: homely_op org "\<lambda>db. fst (delete_review_group now org i by' db)"
  by unfold_locales (auto simp: delete_review_group_def at_home_refl at_home_delete_group split: option.splits)

interpretation ensuring_repo_home: homely_op org "\<lambda>db. fst (ensure_review_repo U now pub org parent repo by' db)"
  by unfold_locales (auto simp: ensure_review_repo_def split_beta at_home_simps new_repo_keeps new_repo_def split: option.splits node_kind.splits)

interpretation removing_repo_home: homely_op org "\<lambda>db. fst (remove_review_repo now org i by' db)"
  by unfold_locales (simp add: remove_review_repo_def at_home_write)

interpretation restoring_repo_home: homely_op org "\<lambda>db. fst (restore_review_repo now org i by' db)"
  by unfold_locales (simp add: restore_review_repo_def at_home_write)

interpretation updating_home: homely_op org "\<lambda>db. fst (update_review_settings J now org i raw by' db)"
  by unfold_locales (auto simp: update_review_settings_def at_home_simps split: option.splits)

interpretation updating_from_home: homely_op org "\<lambda>db. fst (update_review_settings_from J now org i was raw by' db)"
  by unfold_locales (auto simp: update_review_settings_from_def at_home_simps split: option.splits)

interpretation moving_repo_home: homely_op org "\<lambda>db. fst (move_review_repo now org i parent by' db)"
proof
  fix db assume ok: "tree_ok db"
  have "tree_ok (fst (move_review_repo now org i parent by' db))" by (rule moving_repo.keeps[OF ok])
  then show "at_home db (fst (move_review_repo now org i parent by' db))"
    using at_home_refl[OF ok] by (auto simp: move_review_repo_def at_home_move[OF ok] split: option.splits prod.splits)
qed

interpretation deleting_repo_home: homely_op org "\<lambda>db. fst (delete_review_repo now org i by' db)"
proof
  fix db assume ok: "tree_ok db"
  let ?del = "delete_nodes (own_repo org i) db"
  have keeps: "tree_ok ?del" by (rule delete_keeps[OF ok]) (auto simp: may_hang_def own_repo_def)
  have "at_home db ?del"
    by (rule at_home_delete[OF ok keeps]) (auto simp: may_hang_def own_repo_def)
  then have "at_home db (update_nodes P (touched now by') ?del)" for P
  proof (rule at_home_trans[OF _ at_home_edit[OF keeps] ok])
    show "\<exists>k \<in> set (td_nodes ?del). nd_id k = nd_id m \<and> nd_kind k = nd_kind m" if "m \<in> set (td_nodes (update_nodes P (touched now by') ?del))" for m
      using that by (auto simp: update_nodes_def update_rows_def)
    show "nd_kind n = nd_kind k" if "n \<in> set (td_nodes db)" "k \<in> set (td_nodes ?del)" "nd_id n = nd_id k" for n k
      using one_row[OF ok that(1), of k] that by (simp add: delete_nodes_def)
  qed simp
  then show "at_home db (fst (delete_review_repo now org i by' db))"
    using at_home_refl[OF ok] by (auto simp: delete_review_repo_def split: option.splits prod.splits)
qed

end
