(* ===== verification/Review_Tree_Safety.thy ===== *)
theory Review_Tree_Safety
  imports Review_Tree_Spec
begin

text \<open>
  Requests on the settings tree, carried out one after another, and what follows for every course of them: the shape
  of the tree, that organisations do not touch each other's rows, that a repository stays under its connection, and
  what the chain of a repository is. At the end, two transactions whose statements interleave.
\<close>

section \<open>Requests\<close>

datatype tree_call =
    Add_connection string int string
  | Remove_connection int
  | Restore_connection int
  | Add_group string int string
  | Rename_group int string
  | Delete_group int
  | Ensure_repo string int string
  | Move_repo int int
  | Delete_repo int
  | Remove_repo int
  | Restore_repo int
  | Set_settings int string
  | Set_settings_from int string string

record tree_request =
  tq_org :: int
  tq_now :: int
  tq_by :: string
  tq_call :: tree_call

definition serve_tree :: "unicode \<Rightarrow> json \<Rightarrow> tree_request \<Rightarrow> tree_db \<Rightarrow> tree_db" where
  "serve_tree U J q db = (let org = tq_org q; now = tq_now q; by' = tq_by q in case tq_call q of
     Add_connection pub inst raw \<Rightarrow> fst (add_review_connection J now pub org inst raw by' db)
   | Remove_connection i \<Rightarrow> fst (remove_review_connection now org i by' db)
   | Restore_connection i \<Rightarrow> fst (restore_review_connection now org i by' db)
   | Add_group pub conn name \<Rightarrow> fst (add_review_group now pub org conn name by' db)
   | Rename_group i name \<Rightarrow> fst (rename_review_group now org i name by' db)
   | Delete_group i \<Rightarrow> fst (delete_review_group now org i by' db)
   | Ensure_repo pub parent repo \<Rightarrow> fst (ensure_review_repo U now pub org parent repo by' db)
   | Move_repo i parent \<Rightarrow> fst (move_review_repo now org i parent by' db)
   | Delete_repo i \<Rightarrow> fst (delete_review_repo now org i by' db)
   | Remove_repo i \<Rightarrow> fst (remove_review_repo now org i by' db)
   | Restore_repo i \<Rightarrow> fst (restore_review_repo now org i by' db)
   | Set_settings i raw \<Rightarrow> fst (update_review_settings J now org i raw by' db)
   | Set_settings_from i was raw \<Rightarrow> fst (update_review_settings_from J now org i was raw by' db))"

definition empty_tree :: "github_install list \<Rightarrow> tree_db" where
  "empty_tree installs = \<lparr>td_nodes = [], td_last = 0, td_installs = installs\<rparr>"

definition serve_all :: "unicode \<Rightarrow> json \<Rightarrow> tree_request list \<Rightarrow> tree_db \<Rightarrow> tree_db" where
  "serve_all U J = fold (serve_tree U J)"

text \<open>A request is an operation of its organisation.\<close>

interpretation serving: homely_op "tq_org q" "serve_tree U J q"
proof
  fix db assume ok: "tree_ok db"
  show "tree_ok (serve_tree U J q db)"
    by (simp add: serve_tree_def Let_def ok adding_connection.keeps removing_connection.keeps restoring_connection.keeps
        adding_group.keeps renaming_group.keeps deleting_group.keeps ensuring_repo.keeps moving_repo.keeps deleting_repo.keeps
        removing_repo.keeps restoring_repo.keeps updating.keeps updating_from.keeps split: tree_call.split)
  show "at_home db (serve_tree U J q db)"
    by (simp add: serve_tree_def Let_def ok adding_connection_home.home removing_connection_home.home restoring_connection_home.home
        adding_group_home.home renaming_group_home.home deleting_group_home.home ensuring_repo_home.home moving_repo_home.home
        deleting_repo_home.home removing_repo_home.home restoring_repo_home.home updating_home.home updating_from_home.home
        split: tree_call.split)
next
  fix o' db assume "o' \<noteq> tq_org q"
  then show "rows_of o' (serve_tree U J q db) = rows_of o' db"
    by (simp add: serve_tree_def Let_def adding_connection.stays removing_connection.stays restoring_connection.stays
        adding_group.stays renaming_group.stays deleting_group.stays ensuring_repo.stays moving_repo.stays deleting_repo.stays
        removing_repo.stays restoring_repo.stays updating.stays updating_from.stays split: tree_call.split)
qed

lemma serve_all_ok: "tree_ok db \<Longrightarrow> tree_ok (serve_all U J qs db)"
  by (induction qs arbitrary: db) (simp_all add: serve_all_def serving.keeps)

lemma empty_tree_ok: "tree_ok (empty_tree installs)"
  by (simp add: tree_ok_def empty_tree_def)

lemma reached_ok: "tree_ok (serve_all U J qs (empty_tree installs))"
  by (rule serve_all_ok[OF empty_tree_ok])

section \<open>The chain\<close>

lemma chain_by_home:
  assumes ok: "tree_ok db" and conn: "List.find (\<lambda>n. is_connection org inst n \<and> nd_removed n = None) (td_nodes db) = Some conn"
    and own: "List.find (is_repo org (to_lower U (trim_space repo))) (td_nodes db) = Some own"
  shows "review_settings_chain U org inst repo db = Some (if conn_of db own = nd_id conn
     then (if nd_parent own = nd_id conn then [conn, own] else [conn, the (review_setting org (nd_parent own) db), own]) else [conn])"
proof -
  have conn': "conn \<in> set (td_nodes db)" "nd_org conn = org" "nd_kind conn = ConnNode" using found[OF conn] by (auto simp: is_connection_def)
  have own': "own \<in> set (td_nodes db)" "nd_org own = org" "nd_kind own = RepoNode" using found[OF own] by (auto simp: is_repo_def)
  obtain p where p: "p \<in> set (td_nodes db)" "nd_org p = nd_org own" "nd_id p = nd_parent own" "nd_kind p \<noteq> RepoNode"
    "conn_of db own = (if nd_kind p = GroupNode then nd_parent p else nd_id p)" using repo_parent[OF ok own'(1,3)] .
  have up: "review_setting org (nd_parent own) db = Some p" by (rule setting_is[OF ok p(1)]) (use p own' in simp_all)
  show ?thesis
  proof (cases "nd_parent own = nd_id conn")
    case True
    then have "p = conn" using one_row[OF ok p(1) conn'(1)] p(3) by simp
    then show ?thesis using True conn own p(5) conn'(3) by (simp add: review_settings_chain_def)
  next
    case False
    then have "nd_id p \<noteq> nd_id conn" using p(3) by simp
    then show ?thesis using False conn own p(4,5) up by (auto simp: review_settings_chain_def)
  qed
qed

text \<open>The rows from the top down to a row.\<close>

definition path_to :: "tree_db \<Rightarrow> tree_node \<Rightarrow> tree_node list" where
  "path_to db n = (case review_setting (nd_org n) (nd_parent n) db of None \<Rightarrow> [n]
   | Some p \<Rightarrow> (case review_setting (nd_org p) (nd_parent p) db of None \<Rightarrow> [p, n] | Some c \<Rightarrow> [c, p, n]))"

definition chain_spec :: "unicode \<Rightarrow> int \<Rightarrow> int \<Rightarrow> string \<Rightarrow> tree_db \<Rightarrow> tree_node list option" where
  "chain_spec U org inst repo db =
     (case List.find (\<lambda>n. is_connection org inst n \<and> nd_removed n = None) (td_nodes db) of None \<Rightarrow> None
      | Some conn \<Rightarrow> Some (case List.find (is_repo org (to_lower U (trim_space repo))) (td_nodes db) of None \<Rightarrow> [conn]
          | Some own \<Rightarrow> if hd (path_to db own) = conn then path_to db own else [conn]))"

lemma path_of_repo:
  assumes ok: "tree_ok db" and own: "own \<in> set (td_nodes db)" "nd_kind own = RepoNode" and conn: "conn \<in> set (td_nodes db)" "nd_kind conn = ConnNode"
  shows "hd (path_to db own) = conn \<longleftrightarrow> conn_of db own = nd_id conn"
    "conn_of db own = nd_id conn \<Longrightarrow> path_to db own = (if nd_parent own = nd_id conn then [conn, own]
       else [conn, the (review_setting (nd_org own) (nd_parent own) db), own])"
proof -
  obtain p where p: "p \<in> set (td_nodes db)" "nd_org p = nd_org own" "nd_id p = nd_parent own" "nd_kind p \<noteq> RepoNode"
    "conn_of db own = (if nd_kind p = GroupNode then nd_parent p else nd_id p)" using repo_parent[OF ok own] .
  have up: "review_setting (nd_org own) (nd_parent own) db = Some p" by (rule setting_is[OF ok p(1)]) (use p in simp_all)
  have "(hd (path_to db own) = conn \<longleftrightarrow> conn_of db own = nd_id conn) \<and> (conn_of db own = nd_id conn \<longrightarrow>
      path_to db own = (if nd_parent own = nd_id conn then [conn, own] else [conn, p, own]))"
  proof (cases "nd_kind p = GroupNode")
    case True
    obtain c where c: "c \<in> set (td_nodes db)" "nd_org c = nd_org p" "nd_id c = nd_parent p" "nd_kind c = ConnNode"
      using group_parent[OF ok p(1) True] .
    have "review_setting (nd_org p) (nd_parent p) db = Some c" by (rule setting_is[OF ok c(1)]) (use c in simp_all)
    then have path: "path_to db own = [c, p, own]" using up by (simp add: path_to_def)
    have "c = conn \<longleftrightarrow> nd_id c = nd_id conn" using one_row[OF ok c(1) conn(1)] by auto
    moreover have "nd_parent own \<noteq> nd_id conn" using one_row[OF ok p(1) conn(1)] p(3) True conn(2) by auto
    ultimately show ?thesis using path p(5) True c(3) by auto
  next
    case False
    then have "nd_kind p = ConnNode" using p(4) by (cases "nd_kind p") auto
    then have "nd_parent p = 0" using tree_ok_row(3)[OF ok p(1)] by (simp add: node_ok_def)
    then have "review_setting (nd_org p) (nd_parent p) db = None"
      using tree_ok_row(1)[OF ok] by (force simp: review_setting_def not_found is_node_def)
    then have path: "path_to db own = [p, own]" using up by (simp add: path_to_def)
    have "p = conn \<longleftrightarrow> nd_id p = nd_id conn" using one_row[OF ok p(1) conn(1)] by auto
    then show ?thesis using path p(3,5) False by auto
  qed
  then show "hd (path_to db own) = conn \<longleftrightarrow> conn_of db own = nd_id conn"
    "conn_of db own = nd_id conn \<Longrightarrow> path_to db own = (if nd_parent own = nd_id conn then [conn, own]
       else [conn, the (review_setting (nd_org own) (nd_parent own) db), own])"
    using up by auto
qed

lemma chain_is_spec:
  assumes ok: "tree_ok db"
  shows "review_settings_chain U org inst repo db = chain_spec U org inst repo db"
proof (cases "List.find (\<lambda>n. is_connection org inst n \<and> nd_removed n = None) (td_nodes db)")
  case None
  then show ?thesis by (simp add: review_settings_chain_def chain_spec_def)
next
  case conn: (Some conn)
  show ?thesis
  proof (cases "List.find (is_repo org (to_lower U (trim_space repo))) (td_nodes db)")
    case None
    then show ?thesis using conn by (simp add: review_settings_chain_def chain_spec_def)
  next
    case own: (Some own)
    have own': "own \<in> set (td_nodes db)" "nd_org own = org" "nd_kind own = RepoNode" using found[OF own] by (auto simp: is_repo_def)
    have conn': "conn \<in> set (td_nodes db)" "nd_kind conn = ConnNode" using found[OF conn] by (auto simp: is_connection_def)
    show ?thesis using chain_by_home[OF ok conn own] path_of_repo[OF ok own'(1,3) conn'] own'(2) conn own by (simp add: chain_spec_def)
  qed
qed

section \<open>Deleting a group\<close>

text \<open>What a row contributes to a resolution.\<close>

definition row_view :: "tree_node \<Rightarrow> int \<times> node_kind \<times> string \<times> stamp" where
  "row_view n = (nd_id n, nd_kind n, nd_settings n, nd_removed n)"

definition without_group :: "int \<Rightarrow> tree_node list \<Rightarrow> tree_node list" where
  "without_group i = filter (\<lambda>n. \<not> (nd_kind n = GroupNode \<and> nd_id n = i))"

definition moved_row :: "int \<Rightarrow> int \<Rightarrow> int \<Rightarrow> string \<Rightarrow> int \<Rightarrow> tree_node \<Rightarrow> tree_node" where
  "moved_row now org i by' c n = (if nd_org n = org \<and> nd_parent n = i \<and> nd_kind n = RepoNode then touched now by' (n\<lparr>nd_parent := c\<rparr>) else n)"

lemma find_moved:
  assumes "\<And>x. P (g x) = P x" "\<And>x. P x \<Longrightarrow> Q (g x)"
  shows "List.find P (filter Q (map g xs)) = map_option g (List.find P xs)"
  using assms by (induction xs) auto

lemma deleted_nodes:
  "td_nodes (delete_nodes P (move_up now org i by' c db)) = filter (\<lambda>n. \<not> P n) (map (moved_row now org i by' c) (td_nodes db))"
  by (simp add: delete_nodes_def move_up_def update_nodes_def update_rows_def moved_row_def[abs_def])

lemma moved_row_fields [simp]:
  "nd_id (moved_row now org i by' c n) = nd_id n" "nd_org (moved_row now org i by' c n) = nd_org n"
  "nd_kind (moved_row now org i by' c n) = nd_kind n" "nd_installation (moved_row now org i by' c n) = nd_installation n"
  "nd_repo (moved_row now org i by' c n) = nd_repo n" "nd_removed (moved_row now org i by' c n) = nd_removed n"
  "row_view (moved_row now org i by' c n) = row_view n" "nd_kind n \<noteq> RepoNode \<Longrightarrow> moved_row now org i by' c n = n"
  by (simp_all add: moved_row_def row_view_def)

lemma chain_without_group:
  assumes ok: "tree_ok db" and del: "delete_review_group now org i by' db = (db', Inr ())"
  shows "map_option (map row_view) (review_settings_chain U org inst repo db') =
     map_option (\<lambda>ns. map row_view (without_group i ns)) (review_settings_chain U org inst repo db)"
proof -
  let ?P = "\<lambda>n. is_node org i n \<and> nd_kind n = GroupNode"
  obtain g where g: "List.find ?P (td_nodes db) = Some g"
    and db': "db' = delete_nodes ?P (move_up now org i by' (nd_parent g) db)"
    using del by (auto simp: delete_review_group_def split: option.splits)
  let ?m = "moved_row now org i by' (nd_parent g)"
  have g': "g \<in> set (td_nodes db)" "nd_org g = org" "nd_id g = i" "nd_kind g = GroupNode" using found[OF g] by (auto simp: is_node_def)
  have ok': "tree_ok db'" unfolding db' by (rule delete_group_keeps[OF ok g])
  have nodes: "td_nodes db' = filter (\<lambda>n. \<not> ?P n) (map ?m (td_nodes db))" unfolding db' by (rule deleted_nodes)
  let ?c = "\<lambda>n. is_connection org inst n \<and> nd_removed n = None" and ?r = "is_repo org (to_lower U (trim_space repo))"
  have conns: "List.find ?c (td_nodes db') = map_option ?m (List.find ?c (td_nodes db))"
    unfolding nodes by (rule find_moved) (auto simp: is_connection_def is_node_def)
  have repos: "List.find ?r (td_nodes db') = map_option ?m (List.find ?r (td_nodes db))"
    unfolding nodes by (rule find_moved) (auto simp: is_repo_def is_node_def)
  show ?thesis
  proof (cases "List.find ?c (td_nodes db)")
    case None
    then show ?thesis using conns by (simp add: review_settings_chain_def)
  next
    case conn: (Some conn)
    have conn_kind: "nd_kind conn = ConnNode" using found[OF conn] by (auto simp: is_connection_def)
    have conn': "List.find ?c (td_nodes db') = Some conn" using conns conn conn_kind by simp
    show ?thesis
    proof (cases "List.find ?r (td_nodes db)")
      case None
      then show ?thesis using conn conn' repos conn_kind by (simp add: review_settings_chain_def without_group_def)
    next
      case own: (Some own)
      have own_in: "own \<in> set (td_nodes db)" "nd_org own = org" "nd_kind own = RepoNode" using found[OF own] by (auto simp: is_repo_def)
      have own': "List.find ?r (td_nodes db') = Some (?m own)" using repos own by simp
      have "conn_of db' (?m own) = conn_of db own"
        using deleting_group_home.home_or_gone[OF ok own_in(1,3), of "?m own" now org i by'] del found[OF own'] by simp
      note chains = chain_by_home[OF ok conn own] chain_by_home[OF ok' conn' own'] this
      obtain p where p: "p \<in> set (td_nodes db)" "nd_org p = org" "nd_id p = nd_parent own" "nd_kind p \<noteq> RepoNode"
        "conn_of db own = (if nd_kind p = GroupNode then nd_parent p else nd_id p)" using repo_parent[OF ok own_in(1,3)] own_in(2) by metis
      show ?thesis
      proof (cases "nd_parent own = i")
        case True
        have "p = g" by (rule one_row[OF ok p(1) g'(1)]) (use p(3) True g'(3) in simp)
        then have "conn_of db own = nd_parent g" using p(5) g'(4) by simp
        moreover have "nd_parent (moved_row now org i by' c own) = c" for c using own_in True by (simp add: moved_row_def)
        moreover have "review_setting org (nd_parent own) db = Some g" using setting_is[OF ok g'(1,2)] g'(3) True by simp
        moreover have "conn_of db own = nd_id conn \<Longrightarrow> nd_parent own \<noteq> nd_id conn"
          using one_row[OF ok g'(1), of conn] found[OF conn] conn_kind g'(3,4) True by auto
        ultimately show ?thesis using chains conn_kind own_in(3) g'(3,4) by (simp add: without_group_def)
      next
        case False
        then have m: "?m own = own" by (simp add: moved_row_def)
        have "p \<in> set (td_nodes db')" using p(1,3,4) False by (force simp: nodes is_node_def)
        then have up': "review_setting org (nd_parent own) db' = Some p" using setting_is[OF ok' _ p(2,3)] by simp
        have up: "review_setting org (nd_parent own) db = Some p" using setting_is[OF ok p(1,2,3)] .
        show ?thesis using chains m up up' conn_kind own_in(3) p(3) False by (simp add: without_group_def)
      qed
    qed
  qed
qed

section \<open>Properties\<close>

lemma serve_all_others:
  assumes "list_all (\<lambda>q. tq_org q \<noteq> org) qs"
  shows "rows_of org (serve_all U J qs db) = rows_of org db"
  using assms
proof (induction qs arbitrary: db)
  case (Cons q qs)
  then have "rows_of org (serve_all U J qs (serve_tree U J q db)) = rows_of org (serve_tree U J q db)" by simp
  moreover have "rows_of org (serve_tree U J q db) = rows_of org db" using Cons.prems by (intro serving.stays) auto
  ultimately show ?case by (simp add: serve_all_def)
qed (simp add: serve_all_def)

text \<open>C15. Whatever requests are served, each installation, repository and group name keeps one row, a group hangs from a connection
  and a repository from a connection or a group, always of its own organisation, and no number is given twice.\<close>

theorem settings_tree_ok: "tree_ok (serve_all U J qs (empty_tree installs))"
  by (rule reached_ok)

text \<open>C17. Requests of other organisations change nothing an organisation has in its tree.\<close>

theorem tenants_apart:
  assumes "list_all (\<lambda>q. tq_org q \<noteq> org) qs"
  shows "rows_of org (serve_all U J (before @ qs) db) = rows_of org (serve_all U J before db)"
  using serve_all_others[OF assms, of U J "serve_all U J before db"] by (simp add: serve_all_def)

text \<open>C16. No request takes a repository's row from its connection to another: which installation reaches a repository stays as it
  was, through moves, groups deleted, and removals.\<close>

theorem repos_stay_home:
  assumes "db = serve_all U J qs (empty_tree installs)"
    and "n \<in> set (td_nodes db)" "nd_kind n = RepoNode" "m \<in> set (td_nodes (serve_tree U J q db))" "nd_id m = nd_id n"
  shows "conn_of (serve_tree U J q db) m = conn_of db n"
  using assms reached_ok by (intro serving.home_or_gone) auto

text \<open>C18. The chain a repository's settings are resolved from is the connection that is in the tree and not stopped, and below it the
  path down to the repository's own row if that path starts at this connection; nothing else.\<close>

theorem chain_is_path:
  "review_settings_chain U org inst repo (serve_all U J qs (empty_tree installs)) =
     chain_spec U org inst repo (serve_all U J qs (empty_tree installs))"
  by (rule chain_is_spec[OF reached_ok])

text \<open>Deleting a group takes the group out of the chains of its repositories and changes no other row of any chain: what the
  repositories set themselves stays.\<close>

theorem group_deleted_from_chains:
  assumes "delete_review_group now org i by' (serve_all U J qs (empty_tree installs)) = (db', Inr ())"
  shows "map_option (map row_view) (review_settings_chain U org inst repo db') =
     map_option (\<lambda>ns. map row_view (without_group i ns))
       (review_settings_chain U org inst repo (serve_all U J qs (empty_tree installs)))"
  by (rule chain_without_group[OF reached_ok assms])

section \<open>A course of requests\<close>

text \<open>Two organisations; the first reviews installation 7, and puts a repository in a group.\<close>

definition plain_json :: json where
  "plain_json = \<lparr>js_compact = Some, js_settings = (\<lambda>t. None)\<rparr>"

definition sample_installs :: "github_install list" where
  "sample_installs = [\<lparr>gi_org = 1, gi_installation = 7, gi_status = None\<rparr>, \<lparr>gi_org = 2, gi_installation = 8, gi_status = Some ''active''\<rparr>]"

definition asked :: "int \<Rightarrow> int \<Rightarrow> tree_call \<Rightarrow> tree_request" where
  "asked org now c = \<lparr>tq_org = org, tq_now = now, tq_by = ''ann'', tq_call = c\<rparr>"

definition grouped :: "tree_request list" where
  "grouped = [asked 1 10 (Add_connection ''p1'' 7 ''''), asked 1 11 (Add_group ''p2'' 1 '' core '')]"

definition sample_requests :: "tree_request list" where
  "sample_requests = grouped @ [asked 1 12 (Ensure_repo ''p3'' 2 ''Acme/App'')]"

definition sample_tree :: tree_db where
  "sample_tree = serve_all ascii_tables plain_json sample_requests (empty_tree sample_installs)"

definition others :: "tree_request list" where
  "others = [asked 2 13 (Add_connection ''p4'' 8 ''{}''), asked 2 14 (Delete_group 2), asked 2 15 (Set_settings 3 ''{}'')]"

lemma sample_nodes:
  "td_nodes sample_tree = [new_connection 10 1 ''p1'' 7 ''{}'' ''ann'' 1, new_group 11 1 ''p2'' 1 ''core'' ''ann'' 2,
     new_repo 12 1 ''p3'' 2 ''acme/app'' ''ann'' 3]"
  by code_simp

lemma tenants_apart_witness:
  "list_all (\<lambda>q. tq_org q \<noteq> 1) others \<and>
   rows_of 1 (serve_all ascii_tables plain_json (sample_requests @ others) (empty_tree sample_installs)) = rows_of 1 sample_tree"
proof
  show "list_all (\<lambda>q. tq_org q \<noteq> 1) others" by code_simp
  then show "rows_of 1 (serve_all ascii_tables plain_json (sample_requests @ others) (empty_tree sample_installs)) = rows_of 1 sample_tree"
    unfolding sample_tree_def by (rule tenants_apart)
qed

lemma repos_stay_home_witness:
  "conn_of (serve_tree ascii_tables plain_json (asked 1 16 (Delete_group 2)) sample_tree) (touched 16 ''ann'' (new_repo 12 1 ''p3'' 1 ''acme/app'' ''ann'' 3)) =
     conn_of sample_tree (new_repo 12 1 ''p3'' 2 ''acme/app'' ''ann'' 3)"
proof (rule repos_stay_home[where U=ascii_tables and J=plain_json and qs=sample_requests and installs=sample_installs])
  show "touched 16 ''ann'' (new_repo 12 1 ''p3'' 1 ''acme/app'' ''ann'' 3) \<in>
      set (td_nodes (serve_tree ascii_tables plain_json (asked 1 16 (Delete_group 2)) sample_tree))" by code_simp
qed (simp_all add: sample_tree_def[symmetric] sample_nodes new_repo_def)

lemma group_deleted_from_chains_witness:
  "map_option (map row_view) (review_settings_chain ascii_tables 1 7 ''acme/app'' (fst (delete_review_group 16 1 2 ''ann'' sample_tree))) =
     map_option (\<lambda>ns. map row_view (without_group 2 ns)) (review_settings_chain ascii_tables 1 7 ''acme/app'' sample_tree)"
  unfolding sample_tree_def
proof (rule group_deleted_from_chains[where now=16 and org=1 and by'="''ann''"])
  have "snd (delete_review_group 16 1 2 ''ann'' sample_tree) = Inr ()" by code_simp
  then show "delete_review_group 16 1 2 ''ann'' (serve_all ascii_tables plain_json sample_requests (empty_tree sample_installs)) =
      (fst (delete_review_group 16 1 2 ''ann'' (serve_all ascii_tables plain_json sample_requests (empty_tree sample_installs))), Inr ())"
    unfolding sample_tree_def by (metis prod.collapse)
qed

section \<open>Two transactions at once\<close>

text \<open>
  On Postgres, under its default isolation, \<^verbatim>\<open>EnsureReviewRepo\<close> may have read the group it will hang the repository from when
  another transaction deletes the group, and insert the row after that has moved up the rows it saw: there is no
  foreign key on \<^verbatim>\<open>parent_id\<close>. The two halves, as the code runs them:
\<close>

definition ensure_checks :: "unicode \<Rightarrow> int \<Rightarrow> int \<Rightarrow> string \<Rightarrow> tree_db \<Rightarrow> bool" where
  "ensure_checks U org parent repo db \<longleftrightarrow> (case review_repo_name U repo of None \<Rightarrow> False
   | Some r \<Rightarrow> List.find (is_repo org r) (td_nodes db) = None \<and>
       (case review_node org parent db of Some (k, _) \<Rightarrow> k \<noteq> RepoNode | None \<Rightarrow> False))"

definition ensure_inserts :: "int \<Rightarrow> string \<Rightarrow> int \<Rightarrow> int \<Rightarrow> string \<Rightarrow> string \<Rightarrow> tree_db \<Rightarrow> tree_db" where
  "ensure_inserts now pub org parent r by' db =
     (if list_ex (is_repo org r) (td_nodes db) then db else fst (insert_node (new_repo now org pub parent r by') db))"

lemma ensure_is_both:
  assumes "review_repo_name U repo = Some r" "ensure_checks U org parent repo db"
  shows "fst (ensure_review_repo U now pub org parent repo by' db) = ensure_inserts now pub org parent r by' db"
  using assms by (auto simp: ensure_checks_def ensure_inserts_def ensure_review_repo_def split_beta list_ex_iff not_found
      split: option.splits prod.splits node_kind.splits dest!: found)

definition grouped_tree :: tree_db where
  "grouped_tree = serve_all ascii_tables plain_json grouped (empty_tree sample_installs)"

definition raced_tree :: tree_db where
  "raced_tree = ensure_inserts 13 ''p3'' 1 2 ''acme/app'' ''ann'' (fst (delete_review_group 12 1 2 ''bob'' grouped_tree))"

text \<open>
  Then the repository has a row, and whatever is set in it counts for nothing: the chain is the connection alone, so a repository
  switched off there is reviewed. The row can be neither moved nor deleted again.
\<close>

lemma ensure_beside_delete_strands:
  "ensure_checks ascii_tables 1 2 ''Acme/App'' grouped_tree"
  "snd (delete_review_group 12 1 2 ''bob'' grouped_tree) = Inr ()"
  "map nd_id (td_nodes raced_tree) = [1, 3]"
  "map_option (map nd_id) (review_settings_chain ascii_tables 1 7 ''acme/app'' raced_tree) = Some [1]"
  "snd (move_review_repo 14 1 3 1 ''ann'' raced_tree) = Inl Setting_not_found"
  "snd (delete_review_repo 14 1 3 ''ann'' raced_tree) = Inl Setting_not_found"
  by code_simp+

end
