(* ===== verification/Review_Gate.thy ===== *)
theory Review_Gate
  imports Review_Queue Review_Tree
begin

text \<open>
  The gate of the review lane (\<^verbatim>\<open>internal/app/review_lane.go\<close>, \<^verbatim>\<open>review_plan.go\<close>): everything that is asked before a
  review is queued, and again when it is claimed. \<open>gate_env\<close> is what the gate reads that other parts own, as it is while
  one request is answered: the settings tree, the connections, the plan, the model key, the rows of review types, the
  spend. Messages to channels, audit rows and logs are left out: nothing here reads them. A sum of money is a rational.

  Of a refusal the code keeps a short reason and a sentence; both are modelled, the sentences where they are written in
  these files.
\<close>

section \<open>A pull request as GitHub gives it\<close>

record git_user =
  gu_login :: string
  gu_type :: string

record pull_repo =
  pq_name :: string
  pq_private :: bool

record pull_ref =
  pl_sha :: string
  pl_ref :: string
  pl_repo :: "pull_repo option"

record pull =
  pu_number :: int
  pu_state :: string
  pu_draft :: bool
  pu_merged :: bool
  pu_title :: string
  pu_user :: git_user
  pu_head :: pull_ref
  pu_base :: pull_ref
  pu_labels :: "string list"

definition is_fork :: "unicode \<Rightarrow> pull \<Rightarrow> bool" where
  "is_fork U p = (case (pl_repo (pu_head p), pl_repo (pu_base p)) of
     (Some h, Some b) \<Rightarrow> \<not> equal_fold U (pq_name h) (pq_name b) | _ \<Rightarrow> True)"

definition label_names :: "pull \<Rightarrow> string list" where
  "label_names p = filter (\<lambda>l. l \<noteq> '''') (pu_labels p)"

definition commit_sha :: "string \<Rightarrow> bool" where
  "commit_sha s \<longleftrightarrow> (length s = 40 \<or> length s = 64) \<and> list_all lower_hex s"

definition repo_char :: "char \<Rightarrow> bool" where
  "repo_char c \<longleftrightarrow> ascii_alnum c \<or> c \<in> {CHR ''_'', CHR ''.'', CHR ''-''}"

definition valid_github_repo :: "string \<Rightarrow> bool" where
  "valid_github_repo repo = (let (owner, name, found) = cut_on (CHR ''/'') repo
     in found \<and> owner \<noteq> '''' \<and> list_all (\<lambda>c. ascii_alnum c \<or> c = CHR ''-'') owner \<and>
        name \<noteq> '''' \<and> list_all repo_char name \<and> name \<noteq> ''.'' \<and> name \<noteq> ''..'')"

definition review_pr_facts :: "unicode \<Rightarrow> string \<Rightarrow> pull \<Rightarrow> pr_facts" where
  "review_pr_facts U repo p = \<lparr>pf_repo = repo, pf_number = pu_number p,
     pf_state = (if pu_merged p then ''merged'' else if pu_state p = ''closed'' then ''closed'' else ''open''),
     pf_fork = Some (is_fork U p),
     pf_private = Some (case pl_repo (pu_base p) of None \<Rightarrow> False | Some r \<Rightarrow> pq_private r),
     pf_author = gu_login (pu_user p), pf_head = (if commit_sha (pl_sha (pu_head p)) then pl_sha (pu_head p) else '''')\<rparr>"

section \<open>Answers\<close>

record skip =
  sk_reason :: string
  sk_detail :: string

definition skip_for :: "string \<Rightarrow> string \<Rightarrow> skip" where
  "skip_for reason detail = \<lparr>sk_reason = reason, sk_detail = detail\<rparr>"

datatype gate_error = Not_running | Bad_target | Bad_trigger string | Bad_scope string | Not_read | No_base int | Live_refused
  | Bad_post string | Unreadable_settings | Unknown_key | Unknown_spend | Refused_write review_error

text \<open>Go on, stop for a reason that goes on the pull request, stop for one that does not, or fail to find out.\<close>

datatype 'a gate = Go 'a | Skip skip | Quiet skip | Fail gate_error

fun gate_bind :: "'a gate \<Rightarrow> ('a \<Rightarrow> 'b gate) \<Rightarrow> 'b gate" where
  "gate_bind (Go x) f = f x"
| "gate_bind (Skip s) f = Skip s"
| "gate_bind (Quiet s) f = Quiet s"
| "gate_bind (Fail e) f = Fail e"

lemma gate_bind_Go: "gate_bind g f = Go y \<longleftrightarrow> (\<exists>x. g = Go x \<and> f x = Go y)"
  by (cases g) auto

section \<open>What the gate reads\<close>

record gate_connection =
  gc_type :: string
  gc_installation :: int
  gc_repo :: string

record own_key =
  ok_present :: bool
  ok_allowed :: bool
  ok_unknown :: bool
  ok_reviews :: bool

text \<open>
  The limits on money and what was spent against them, a reading that failed as \<open>None\<close>: the spendable credit in
  millionths of a dollar with whether the account is metered, and the spend of the month, of reviews in the month and of
  reviews in the day, each on the key of the owner asked for.
\<close>

record money =
  mo_billing_unknown :: bool
  mo_credit_enforced :: bool
  mo_allowance :: bool
  mo_credit :: "(int \<times> bool) option"
  mo_budget :: rat
  mo_platform_budget :: rat
  mo_spent :: "string \<Rightarrow> rat option"
  mo_month_cap :: rat
  mo_month_spent :: "string \<Rightarrow> rat option"
  mo_day_cap :: rat
  mo_day_spent :: "string \<Rightarrow> rat option"

text \<open>What a run keeps of its request.\<close>

record review_options =
  op_post :: mode
  op_allow_live :: bool
  op_scope :: string
  op_types :: "string list"
  op_full :: bool
  op_inline :: "string option"
  op_label :: string
  op_bot_label :: bool
  op_title :: string
  op_base :: string
  op_head :: string

definition no_options :: review_options where
  "no_options = \<lparr>op_post = '''', op_allow_live = False, op_scope = '''', op_types = [], op_full = False, op_inline = None,
     op_label = '''', op_bot_label = False, op_title = '''', op_base = '''', op_head = ''''\<rparr>"

text \<open>The ids are the ones the code draws while it answers: for a key, a pause, and the rows of two runs. \<open>ge_encode\<close>,
  \<open>ge_decode\<close> and \<open>ge_checkpoint\<close> are the options of a run as JSON, and whether a text is a stored outcome.\<close>

record gate_env =
  ge_unicode :: unicode
  ge_json :: json
  ge_now :: int
  ge_running :: bool
  ge_code_review :: string
  ge_plan :: string
  ge_tree :: tree_db
  ge_connections :: "gate_connection list"
  ge_bot :: string
  ge_key :: own_key
  ge_key_refusal :: string
  ge_type_rows :: "string \<Rightarrow> (bool \<times> int) option"
  ge_builtin :: "string \<Rightarrow> bool"
  ge_money :: money
  ge_usd :: "rat \<Rightarrow> string"
  ge_hash :: "string list \<Rightarrow> string"
  ge_key_id :: string
  ge_pause_id :: string
  ge_resync_id :: string
  ge_run_id :: string
  ge_config :: "effective \<Rightarrow> string"
  ge_encode :: "review_options \<Rightarrow> string"
  ge_decode :: "string \<Rightarrow> review_options option"
  ge_checkpoint :: "string \<Rightarrow> bool"
  ge_github :: "pull option"

section \<open>Which organisations have code review\<close>

definition code_review_of :: "unicode \<Rightarrow> string \<Rightarrow> string" where
  "code_review_of U v0 = (let v = to_lower U (trim_space v0) in
     if v = '''' \<or> v = ''all'' then ''all'' else if v \<in> {''pro'', ''enterprise'', ''off''} then v else ''pro'')"

definition plan_of :: "string \<Rightarrow> string" where
  "plan_of v = (if v = ''pro'' \<or> v = ''enterprise'' then v else ''free'')"

definition plan_name :: "string \<Rightarrow> string" where
  "plan_name p = (if plan_of p = ''pro'' then ''Pro'' else if plan_of p = ''enterprise'' then ''Enterprise'' else ''Free'')"

record review_access =
  ra_available :: bool
  ra_reason :: string
  ra_needs :: string
  ra_message :: string

definition code_review_for :: "string \<Rightarrow> string \<Rightarrow> review_access" where
  "code_review_for policy plan =
     (let yes = \<lparr>ra_available = True, ra_reason = '''', ra_needs = '''', ra_message = ''''\<rparr> in
      if policy = ''off'' then yes\<lparr>ra_available := False, ra_reason := ''off'', ra_message := ''Code review is not available on this deployment.''\<rparr>
      else if policy = ''pro'' then (if plan = ''pro'' \<or> plan = ''enterprise'' then yes
        else \<lparr>ra_available = False, ra_reason = ''plan'', ra_needs = ''pro'', ra_message =
          ''Code review is part of the Pro and Enterprise plans; this organisation is on the '' @ plan_name plan @ '' plan.''\<rparr>)
      else if policy = ''enterprise'' then (if plan = ''enterprise'' then yes
        else \<lparr>ra_available = False, ra_reason = ''plan'', ra_needs = ''enterprise'', ra_message =
          ''Code review is part of the Enterprise plan here; this organisation is on the '' @ plan_name plan @ '' plan.''\<rparr>)
      else yes)"

definition review_plan_gate :: "gate_env \<Rightarrow> skip option" where
  "review_plan_gate E = (let a = code_review_for (ge_code_review E) (ge_plan E)
     in if ra_available a then None else Some (skip_for ''plan'' (ra_message a)))"

section \<open>The settings a repository is reviewed under\<close>

definition review_effective :: "gate_env \<Rightarrow> int \<Rightarrow> int \<Rightarrow> string \<Rightarrow> effective gate" where
  "review_effective E org inst repo =
     (let U = ge_unicode E;
          stranger = Skip (skip_for ''not_reviewed'' ''this installation is not in the organisation's review settings'') in
      if \<not> reviewed_installation org inst (ge_tree E) then stranger
      else (case review_settings_chain U org inst repo (ge_tree E) of None \<Rightarrow> stranger
        | Some chain \<Rightarrow>
          if review_repo_removed chain then Skip (skip_for ''removed'' (repo @ '' was removed from code review''))
          else (case review_levels (ge_json E) chain of None \<Rightarrow> Fail Unreadable_settings
            | Some levels \<Rightarrow>
              if list_ex (\<lambda>c. gc_type c = ''github_app'' \<and> gc_installation c > 0 \<and> gc_installation c \<noteq> inst \<and>
                   equal_fold U (gc_repo c) repo) (ge_connections E)
              then Skip (skip_for ''installation_mismatch'' (repo @ '' is connected through another installation of the App''))
              else (let eff = resolve U levels in
                if x_mode eff = ModeOff \<or> x_mode eff = '''' then Skip (skip_for ''off'' ''review is off for this repository'')
                else Go eff))))"

section \<open>The plan of a review\<close>

record review_plan =
  pn_eff :: effective
  pn_label :: string
  pn_keys :: "string list"
  pn_named :: bool
  pn_post :: mode
  pn_labels :: "string list"
  pn_rule_keys :: "string list"
  pn_rule_label :: string

definition with_label :: "unicode \<Rightarrow> string \<Rightarrow> review_plan \<Rightarrow> review_plan" where
  "with_label U label0 p = (let label = join '' '' (fields_of label0) in
     if label = '''' \<or> list_ex (\<lambda>l. equal_fold U l label) (pn_labels p) then p
     else p\<lparr>pn_labels := pn_labels p @ [label], pn_label := pn_label p @ '' +label:'' @ label\<rparr>)"

definition plan_types :: "unicode \<Rightarrow> effective \<Rightarrow> pull \<Rightarrow> string list \<Rightarrow> branch_rule \<Rightarrow> review_plan" where
  "plan_types U eff p named rule =
     (let base = \<lparr>pn_eff = with_rule eff rule, pn_label = rule_string rule, pn_keys = br_types rule, pn_named = False, pn_post = '''',
          pn_labels = [], pn_rule_keys = br_types rule, pn_rule_label = rule_string rule\<rparr> in
      if named \<noteq> [] then base\<lparr>pn_keys := named, pn_named := True\<rparr>
      else (let (add, labels) = label_types U (x_branch_rules eff) (pl_ref (pu_base p)) (pl_ref (pu_head p)) (label_names p) (br_types rule)
            in fold (with_label U) labels (base\<lparr>pn_keys := br_types rule @ add\<rparr>)))"

definition plan_review :: "unicode \<Rightarrow> effective \<Rightarrow> pull \<Rightarrow> string list \<Rightarrow> mode \<Rightarrow> bool \<Rightarrow> review_plan gate" where
  "plan_review U eff p named post allow_live =
     (if pl_ref (pu_base p) = '''' then Fail (No_base (pu_number p))
      else (case match_rule (x_branch_rules eff) (pl_ref (pu_base p)) (pl_ref (pu_head p)) of
          None \<Rightarrow> Skip (skip_for ''no_rule'' (''no branch rule matches '' @ pl_ref (pu_head p) @ arrow @ pl_ref (pu_base p)))
        | Some (_, rule) \<Rightarrow>
            (let pn = plan_types U eff p named rule; m = x_mode (pn_eff pn) in
             if post = '''' then Go (pn\<lparr>pn_post := m\<rparr>)
             else if post = ModeShadow then Go (pn\<lparr>pn_post := post\<rparr>)
             else if post = ModeLive then (if m \<noteq> ModeLive \<and> \<not> allow_live then Fail Live_refused else Go (pn\<lparr>pn_post := post\<rparr>))
             else Fail (Bad_post post))))"

definition without_label_types :: "unicode \<Rightarrow> branch_rule list \<Rightarrow> pull \<Rightarrow> string list \<Rightarrow> review_plan \<Rightarrow> review_plan" where
  "without_label_types U rules p don pn =
     (if pn_named pn \<or> pn_labels pn = [] \<or> don = [] then pn
      else (let (add, labels) = label_types U rules (pl_ref (pu_base p)) (pl_ref (pu_head p)) (label_names p) (pn_rule_keys pn @ don)
            in fold (with_label U) labels (pn\<lparr>pn_keys := pn_rule_keys pn @ add, pn_label := pn_rule_label pn, pn_labels := []\<rparr>)))"

definition review_destination :: "effective \<Rightarrow> pull \<Rightarrow> mode" where
  "review_destination eff p = (case match_rule (x_branch_rules eff) (pl_ref (pu_base p)) (pl_ref (pu_head p)) of
     Some (_, rule) \<Rightarrow> x_mode (with_rule eff rule) | None \<Rightarrow> x_mode eff)"

definition destination_by_branch :: "effective \<Rightarrow> bool" where
  "destination_by_branch eff \<longleftrightarrow> list_ex (\<lambda>r. x_mode (with_rule eff r) \<noteq> x_mode eff) (x_branch_rules eff)"

section \<open>Requests\<close>

record review_request =
  aq_installation :: int
  aq_trigger :: string
  aq_ref :: string
  aq_by :: string
  aq_types :: "string list"
  aq_post :: mode
  aq_allow_live :: bool
  aq_scope :: string
  aq_bypass :: bool
  aq_full :: bool
  aq_pull :: "pull option"
  aq_not_before :: "int option"
  aq_inline :: "string option"
  aq_label :: string
  aq_bot_label :: bool

definition automatic_trigger :: "string \<Rightarrow> bool" where
  "automatic_trigger t \<longleftrightarrow> t \<in> {''open'', ''push'', ''catchup'', ''label''}"

definition review_pause_counts :: "string \<Rightarrow> bool" where
  "review_pause_counts t \<longleftrightarrow> t \<in> {''open'', ''push'', ''catchup''}"

definition counts_towards_pause :: "string \<Rightarrow> bool \<Rightarrow> bool" where
  "counts_towards_pause t bot_label \<longleftrightarrow> review_pause_counts t \<or> t = ''label'' \<and> bot_label"

definition is_automatic :: "review_request \<Rightarrow> bool" where
  "is_automatic q \<longleftrightarrow> automatic_trigger (aq_trigger q) \<and> \<not> aq_bypass q"

definition review_by_us :: "gate_env \<Rightarrow> git_user \<Rightarrow> bool" where
  "review_by_us E u \<longleftrightarrow> ge_bot E \<noteq> '''' \<and> equal_fold (ge_unicode E) (gu_login u) (ge_bot E)"

definition review_from_bot :: "gate_env \<Rightarrow> git_user \<Rightarrow> bool" where
  "review_from_bot E u \<longleftrightarrow> equal_fold (ge_unicode E) (gu_type u) ''Bot'' \<or>
     suffix ''[bot]'' (to_lower (ge_unicode E) (gu_login u)) \<or> review_by_us E u"

text \<open>Steps 5 and 6 of the gate: the answer is \<open>Go\<close>, a reason to record, or one that is not recorded.\<close>

definition review_filter :: "unicode \<Rightarrow> review_request \<Rightarrow> review_plan \<Rightarrow> pull \<Rightarrow> bool \<Rightarrow> unit gate" where
  "review_filter U q pn p own_app =
     (let eff = pn_eff pn; t = x_trigger eff; login = gu_login (pu_user p); auto = is_automatic q in
      if auto \<and> aq_trigger q = ''push'' \<and> t \<noteq> ''push'' then Quiet (skip_for ''trigger'' ''this repository is not reviewed on every push'')
      else if auto \<and> aq_trigger q = ''label'' \<and> t = ''command'' then Quiet (skip_for ''trigger'' ''this repository is reviewed only when somebody asks'')
      else if auto \<and> t = ''command'' then Skip (skip_for ''trigger'' ''this repository is reviewed only when somebody asks'')
      else if auto \<and> pu_draft p \<and> \<not> x_drafts eff then Skip (skip_for ''draft'' ''draft pull requests are not reviewed automatically here'')
      else if auto \<and> equal_fold U (gu_type (pu_user p)) ''Bot'' \<and> \<not> own_app \<and> \<not> reviews_bot U eff login
      then Skip (skip_for ''bot'' (login @ '' is a bot, and not on this repository's list of bots to review''))
      else if auto \<and> excludes_author U eff login
      then Skip (skip_for ''excluded_author'' (login @ '' is on this repository's list of authors not reviewed automatically''))
      else if is_fork U p \<and> (auto \<or> x_forks eff = ''off'')
      then Skip (skip_for ''fork'' ''a pull request from a fork is reviewed only when a member asks for it'')
      else Go ())"

section \<open>The key and the types\<close>

definition key_active :: "own_key \<Rightarrow> bool" where
  "key_active k \<longleftrightarrow> ok_present k \<and> ok_allowed k \<and> \<not> ok_unknown k"

definition reviews_off_own_key :: string where
  "reviews_off_own_key = ''code review is off for this organisation's own model key: a review is started by a pull request opening, '' @
     ''not by somebody pressing a button, so an admin turns reviews on for the key under Settings'' @ arrow @ ''Models''"

definition review_own_key_gate :: "gate_env \<Rightarrow> unit gate" where
  "review_own_key_gate E = (let k = ge_key E in
     if ok_unknown k then Fail Unknown_key
     else if ok_present k \<and> \<not> ok_allowed k then Skip (skip_for ''own_key_blocked'' (ge_key_refusal E))
     else if key_active k \<and> \<not> ok_reviews k then Skip (skip_for ''own_key_off'' reviews_off_own_key)
     else Go ())"

text \<open>The types to run with their versions, and the skipped with why; a built-in runs at version 0.\<close>

definition resolve_step :: "gate_env \<Rightarrow> string list \<times> (string \<times> int) list \<times> (string \<times> string) list \<Rightarrow> string \<Rightarrow>
    string list \<times> (string \<times> int) list \<times> (string \<times> string) list" where
  "resolve_step E = (\<lambda>(seen, run, skipped) k0.
     let k = to_lower (ge_unicode E) (trim_space k0) in
     if k \<in> set seen \<or> \<not> valid_type_key k then (seen, run, skipped)
     else (case ge_type_rows E k of
         Some (enabled, version) \<Rightarrow> if enabled then (seen @ [k], run @ [(k, version)], skipped)
           else (seen @ [k], run, skipped @ [(k, ''turned off'')])
       | None \<Rightarrow> if ge_builtin E k then (seen @ [k], run @ [(k, 0)], skipped)
           else (seen @ [k], run, skipped @ [(k, ''no such review type'')])))"

definition resolve_review_types :: "gate_env \<Rightarrow> string list \<Rightarrow> (string \<times> int) list \<times> (string \<times> string) list" where
  "resolve_review_types E keys = snd (foldl (resolve_step E) ([], [], []) (if keys = [] then [default_type] else keys))"

end
