(* ===== verification/Review_Enqueue.thy ===== *)
theory Review_Enqueue
  imports Review_Gate
begin

text \<open>
  The way into the review lane (\<^verbatim>\<open>internal/app/review_lane.go\<close>): the money, the throttles and the pause, the key that
  makes two requests one, \<open>enqueue_review\<close>, and the deliveries that come to it. A request is answered in stages: what it
  asks for is checked, the pull request is written down, \<open>gate_plan\<close> decides from what it reads and writes nothing, and
  \<open>enqueue_planned\<close> finds the run that is there already or makes one.
\<close>

section \<open>Money\<close>

text \<open>\<open>NaN\<close> is no value of a stored setting: JSON has none.\<close>

fun dollars :: "usd \<Rightarrow> rat" where
  "dollars (Dollars d) = d"
| "dollars NaN = 0"

definition micros_to_usd :: "int \<Rightarrow> rat" where
  "micros_to_usd m = of_int m / 1000000"

definition effective_budget :: "money \<Rightarrow> rat" where
  "effective_budget m = (if mo_platform_budget m > 0 \<and> (mo_budget m \<le> 0 \<or> mo_budget m > mo_platform_budget m)
     then mo_platform_budget m else mo_budget m)"

definition key_owner :: "gate_env \<Rightarrow> string" where
  "key_owner E = (if key_active (ge_key E) then ''org'' else ''platform'')"

definition credit_amount :: "gate_env \<Rightarrow> int \<Rightarrow> string" where
  "credit_amount E m = (if micros_to_usd m < 0 then ''-$'' @ ge_usd E (- micros_to_usd m) else ''$'' @ ge_usd E (micros_to_usd m))"

definition on_top :: "gate_env \<Rightarrow> rat \<Rightarrow> rat \<Rightarrow> string" where
  "on_top E need held = '' left, less than the $'' @ ge_usd E need @ '' a review may spend on top of the $'' @ ge_usd E held @
     '' running reviews hold''"

definition over_cap :: "gate_env \<Rightarrow> rat \<Rightarrow> rat \<Rightarrow> string \<Rightarrow> rat \<Rightarrow> rat option \<Rightarrow> unit gate" where
  "over_cap E need held what cap spent = (if cap \<le> 0 then Go ()
     else (case spent of None \<Rightarrow> Fail Unknown_spend
       | Some s \<Rightarrow> if s + (need + held) > cap
         then Skip (skip_for ''budget'' (''code review has $'' @ ge_usd E (max (cap - s) 0) @ '' of its $'' @ ge_usd E cap @ '' '' @ what @
           on_top E need held)) else Go ()))"

definition credit_room :: "gate_env \<Rightarrow> rat \<Rightarrow> rat \<Rightarrow> unit gate" where
  "credit_room E need held = (let m = ge_money E in
     if (mo_credit_enforced m \<or> mo_allowance m) \<and> \<not> key_active (ge_key E)
     then (case mo_credit m of None \<Rightarrow> Fail Unknown_spend
       | Some (bal, metered) \<Rightarrow> if metered \<and> micros_to_usd bal < need + held
         then Skip (skip_for ''budget'' (''this account has '' @ credit_amount E bal @ '' of credit'' @ on_top E need held)) else Go ())
     else Go ())"

definition budget_left :: "gate_env \<Rightarrow> rat \<Rightarrow> rat \<Rightarrow> unit gate" where
  "budget_left E need held = (let m = ge_money E; budget = effective_budget m in
     if budget > 0
     then (case mo_spent m (key_owner E) of None \<Rightarrow> Fail Unknown_spend
       | Some s \<Rightarrow> if s + (need + held) > budget
         then Skip (skip_for ''budget'' (''the account has $'' @ ge_usd E (max (budget - s) 0) @ '' of its $'' @ ge_usd E budget @
           '' monthly budget'' @ on_top E need held)) else Go ())
     else Go ())"

text \<open>Each limit in turn; \<open>held\<close> is what the organisation's other running reviews hold.\<close>

definition review_budget_room :: "gate_env \<Rightarrow> int \<Rightarrow> rat \<Rightarrow> int \<Rightarrow> review_db \<Rightarrow> unit gate" where
  "review_budget_room E org need except db =
     (let m = ge_money E; held = review_reserved_usd (ge_now E) org except db in
      if mo_billing_unknown m \<and> \<not> key_active (ge_key E) then Fail Unknown_spend
      else gate_bind (credit_room E need held) (\<lambda>_. gate_bind (budget_left E need held) (\<lambda>_.
        gate_bind (over_cap E need held ''monthly code review budget'' (mo_month_cap m) (mo_month_spent m (key_owner E))) (\<lambda>_.
        over_cap E need held ''daily code review cap'' (mo_day_cap m) (mo_day_spent m (key_owner E))))))"

section \<open>The throttles and the pause\<close>

definition review_runs_per_pr_day :: nat where "review_runs_per_pr_day = 8"
definition review_runs_per_repo_day :: nat where "review_runs_per_repo_day = 40"
definition review_auto_pause_after :: int where "review_auto_pause_after = 5"

definition review_throttled :: "gate_env \<Rightarrow> int \<Rightarrow> review_pr \<Rightarrow> int \<Rightarrow> review_db \<Rightarrow> unit gate" where
  "review_throttled E org row except db =
     (let (n_pr, n_repo) = review_runs_started org (rp_id row) (rp_repo row) (ge_now E - 86400 * nanos) except db in
      if n_pr \<ge> review_runs_per_pr_day
      then Skip (skip_for ''throttle'' (''this pull request has had '' @ show_nat n_pr @ '' reviews in the last day''))
      else if n_repo \<ge> review_runs_per_repo_day
      then Skip (skip_for ''throttle'' (''this repository has had '' @ show_nat n_repo @ '' reviews in the last day''))
      else Go ())"

definition resync_request :: "review_pr \<Rightarrow> int \<Rightarrow> string \<Rightarrow> string \<Rightarrow> run_request" where
  "resync_request row inst trigger ref = \<lparr>rq_pr = rp_id row, rq_installation = inst, rq_kind = ''resync'',
     rq_dedupe = ''resync:'' @ truncate_text ref 150, rq_trigger = trigger, rq_ref = ref, rq_by = '''', rq_head = rp_head row,
     rq_base = '''', rq_cache = '''', rq_types = [], rq_rule = '''', rq_config = '''', rq_reserved = 0, rq_not_before = None,
     rq_request = ''''\<rparr>"

definition queue_review_resync :: "gate_env \<Rightarrow> int \<Rightarrow> int \<Rightarrow> review_pr \<Rightarrow> string \<Rightarrow> string \<Rightarrow> review_db \<Rightarrow> review_db \<times> (review_error + review_run \<times> bool)" where
  "queue_review_resync E org inst row trigger ref db =
     enqueue_review_run (ge_now E) (ge_resync_id E) org (resync_request row inst trigger ref) db"

text \<open>A resync that could not be queued is only logged.\<close>

definition review_auto_paused :: "gate_env \<Rightarrow> int \<Rightarrow> int \<Rightarrow> review_pr \<Rightarrow> string \<Rightarrow> review_db \<Rightarrow> review_db \<times> unit gate" where
  "review_auto_paused E org inst row trigger db =
     (if rp_paused row \<noteq> 0 then (db, Skip (skip_for ''paused'' ''automatic reviews of this pull request are paused''))
      else if rp_auto row < review_auto_pause_after then (db, Go ())
      else (let (db1, paused) = pause_review_pr org (rp_id row) True db;
                db2 = (if paused then fst (queue_review_resync E org inst row trigger (''paused:'' @ ge_pause_id E) db1) else db1)
            in (db2, Skip (skip_for ''paused'' (''automatic reviews of this pull request paused after '' @ itoa review_auto_pause_after)))))"

section \<open>What makes two requests one\<close>

definition review_key_trigger :: "string \<Rightarrow> string" where
  "review_key_trigger t = (if t = ''catchup'' then ''open'' else t)"

definition review_dedupe_key :: "gate_env \<Rightarrow> string \<Rightarrow> string \<Rightarrow> string \<Rightarrow> string list \<Rightarrow> string \<Rightarrow> mode \<Rightarrow> string" where
  "review_dedupe_key E trigger ref head keys scope post =
     (if automatic_trigger trigger
      then review_key_trigger trigger @ '':'' @ take 40 (ge_hash E [head, join '','' keys, scope, post])
      else trigger @ '':'' @ take 40 (ge_hash E [if ref = '''' then ge_key_id E else ref]))"

definition answered_nothing :: "review_run \<Rightarrow> bool" where
  "answered_nothing r \<longleftrightarrow> rr_status r \<in> {''cancelled'', ''skipped'', ''failed'', ''superseded''} \<or> rr_status r = ''noop'' \<and> rr_cache r = ''''"

text \<open>The key moves on from a run that answered nothing, ten times at most: the run that answers, or the key to queue under.\<close>

fun free_key :: "gate_env \<Rightarrow> string \<Rightarrow> int \<Rightarrow> int \<Rightarrow> review_db \<Rightarrow> nat \<Rightarrow> string \<Rightarrow> review_run + string" where
  "free_key E pre org pr db 0 key = Inr key"
| "free_key E pre org pr db (Suc n) key = (case run_by_dedupe org pr key db of None \<Rightarrow> Inr key
   | Some r \<Rightarrow> if answered_nothing r then free_key E pre org pr db n (pre @ '':'' @ take 40 (ge_hash E [key, rr_public r])) else Inl r)"

section \<open>The decision\<close>

text \<open>A try is recorded, never posted, and runs the one type it carries.\<close>

definition as_try :: "review_request \<Rightarrow> review_request" where
  "as_try q = (case aq_inline q of None \<Rightarrow> q
     | Some key \<Rightarrow> q\<lparr>aq_post := ModeShadow, aq_allow_live := False, aq_types := [key]\<rparr>)"

definition run_specs :: "gate_env \<Rightarrow> string option \<Rightarrow> string list \<Rightarrow> (string \<times> int) list" where
  "run_specs E inline keys = (case inline of Some key \<Rightarrow> [(key, 0)] | None \<Rightarrow> fst (resolve_review_types E keys))"

definition types_off :: skip where
  "types_off = skip_for ''types_off'' ''every review type this pull request would get is turned off or does not exist''"

definition gate_plan :: "gate_env \<Rightarrow> int \<Rightarrow> string \<Rightarrow> review_request \<Rightarrow> review_pr \<Rightarrow> pull \<Rightarrow> (review_plan \<times> (string \<times> int) list) gate" where
  "gate_plan E org repo q row p =
     (let U = ge_unicode E in
      if rp_state row \<noteq> ''open'' then Skip (skip_for ''closed'' (''the pull request is '' @ rp_state row))
      else gate_bind (review_effective E org (aq_installation q) repo) (\<lambda>eff.
        (case review_plan_gate E of Some s \<Rightarrow> Skip s | None \<Rightarrow>
          gate_bind (plan_review U eff p (aq_types q) (aq_post q) (aq_allow_live q)) (\<lambda>pn0.
            let pn = with_label U (aq_label q) pn0 in
            gate_bind (review_filter U q pn p (review_by_us E (pu_user p))) (\<lambda>_.
            gate_bind (review_own_key_gate E) (\<lambda>_.
            let specs = run_specs E (aq_inline q) (pn_keys pn) in
            if specs = [] then Skip types_off else Go (pn, specs)))))))"

section \<open>Queueing\<close>

text \<open>The gate's no, on the pull request unless it is a try's.\<close>

definition stop_with :: "int \<Rightarrow> review_pr \<Rightarrow> review_request \<Rightarrow> skip \<Rightarrow> review_db \<Rightarrow> review_db \<times> 'a gate" where
  "stop_with org row q s db = (if aq_inline q \<noteq> None then (db, Skip s)
     else (case set_pr_skip_reason org (rp_id row) (sk_reason s) db of (db', Some e) \<Rightarrow> (db', Fail (Refused_write e))
       | (db', None) \<Rightarrow> (db', Skip s)))"

definition gate_then :: "int \<Rightarrow> review_pr \<Rightarrow> review_request \<Rightarrow> review_db \<times> 'a gate \<Rightarrow> ('a \<Rightarrow> review_db \<Rightarrow> review_db \<times> 'b gate) \<Rightarrow>
    review_db \<times> 'b gate" where
  "gate_then org row q g f = (case g of (db, Go x) \<Rightarrow> f x db | (db, Skip s) \<Rightarrow> stop_with org row q s db
     | (db, Quiet s) \<Rightarrow> (db, Quiet s) | (db, Fail e) \<Rightarrow> (db, Fail e))"

text \<open>What the money's no leaves of itself on the pull request, before the gate's own.\<close>

definition review_budget_stopped :: "int \<Rightarrow> review_pr \<Rightarrow> review_request \<Rightarrow> review_db \<times> unit gate \<Rightarrow> review_db \<times> unit gate" where
  "review_budget_stopped org row q g = (case g of
     (db, Skip s) \<Rightarrow> (if aq_inline q = None then fst (set_pr_skip_reason org (rp_id row) ''budget'' db) else db, Skip s) | _ \<Rightarrow> g)"

definition request_scope :: "review_request \<Rightarrow> review_pr \<Rightarrow> string" where
  "request_scope q row = (if aq_scope q \<noteq> '''' then aq_scope q
     else if aq_trigger q = ''push'' \<and> rp_last_sha row \<noteq> '''' then ''since_last'' else ''whole'')"

definition request_key :: "gate_env \<Rightarrow> review_request \<Rightarrow> string \<Rightarrow> review_plan \<Rightarrow> string \<Rightarrow> string" where
  "request_key E q head pn scope = (if aq_full q then ''full:'' else '''') @
     review_dedupe_key E (aq_trigger q) (aq_ref q) head (pn_keys pn) scope (pn_post pn)"

definition request_prefix :: "review_request \<Rightarrow> string" where
  "request_prefix q = (if aq_full q then ''full:'' else '''') @ review_key_trigger (aq_trigger q)"

definition request_options :: "review_request \<Rightarrow> pull \<Rightarrow> review_plan \<Rightarrow> string \<Rightarrow> review_options" where
  "request_options q p pn scope = \<lparr>op_post = aq_post q, op_allow_live = aq_allow_live q, op_scope = scope,
     op_types = (if pn_named pn then pn_keys pn else []), op_full = aq_full q, op_inline = aq_inline q, op_label = aq_label q,
     op_bot_label = aq_bot_label q, op_title = cut_at_rune (pu_title p) 512, op_base = pl_ref (pu_base p), op_head = pl_ref (pu_head p)\<rparr>"

definition new_request :: "gate_env \<Rightarrow> review_request \<Rightarrow> review_pr \<Rightarrow> string \<Rightarrow> pull \<Rightarrow> review_plan \<Rightarrow> (string \<times> int) list \<Rightarrow> string \<Rightarrow> run_request" where
  "new_request E q row head p pn specs key = \<lparr>rq_pr = rp_id row, rq_installation = aq_installation q,
     rq_kind = (if aq_inline q = None then ''review'' else ''try''), rq_dedupe = key, rq_trigger = aq_trigger q, rq_ref = aq_ref q,
     rq_by = aq_by q, rq_head = head, rq_base = pl_sha (pu_base p), rq_cache = '''', rq_types = specs, rq_rule = pn_label pn,
     rq_config = ge_config E (pn_eff pn), rq_reserved = dollars (x_max_usd (pn_eff pn)), rq_not_before = aq_not_before q,
     rq_request = ge_encode E (request_options q p pn (request_scope q row))\<rparr>"

definition held_by_pause :: "review_request \<Rightarrow> bool" where
  "held_by_pause q \<longleftrightarrow> is_automatic q \<and> counts_towards_pause (aq_trigger q) (aq_bot_label q) \<and> aq_inline q = None"

definition enqueue_new :: "gate_env \<Rightarrow> int \<Rightarrow> review_request \<Rightarrow> review_pr \<Rightarrow> run_request \<Rightarrow> review_db \<Rightarrow> review_db \<times> review_run gate" where
  "enqueue_new E org q row rq db =
     gate_then org row q (if held_by_pause q then review_auto_paused E org (aq_installation q) row (aq_trigger q) db else (db, Go ())) (\<lambda>_ db.
     gate_then org row q (review_budget_stopped org row q (db, review_budget_room E org (rq_reserved rq) 0 db)) (\<lambda>_ db.
     gate_then org row q (db, review_throttled E org row 0 db) (\<lambda>_ db.
     (case enqueue_review_run (ge_now E) (ge_run_id E) org rq db of
       (db', Inl e) \<Rightarrow> (db', Fail (Refused_write e))
     | (db', Inr (r, _)) \<Rightarrow> if aq_inline q \<noteq> None then (db', Go r)
         else (case set_pr_skip_reason org (rp_id row) '''' db' of (db'', Some e) \<Rightarrow> (db'', Fail (Refused_write e))
           | (db'', None) \<Rightarrow> (db'', Go r))))))"

definition enqueue_planned :: "gate_env \<Rightarrow> int \<Rightarrow> review_request \<Rightarrow> review_pr \<Rightarrow> string \<Rightarrow> pull \<Rightarrow> review_plan \<times> (string \<times> int) list \<Rightarrow>
    review_db \<Rightarrow> review_db \<times> review_run gate" where
  "enqueue_planned E org q row head p planned db = (case planned of (pn, specs) \<Rightarrow>
     (case free_key E (request_prefix q) org (rp_id row) db 10 (request_key E q head pn (request_scope q row)) of
       Inl r \<Rightarrow> (db, Go r)
     | Inr key \<Rightarrow> enqueue_new E org q row (new_request E q row head p pn specs key) db))"

definition bad_review_request :: "string \<Rightarrow> int \<Rightarrow> review_request \<Rightarrow> gate_error option" where
  "bad_review_request repo n q = (if aq_installation q \<le> 0 \<or> \<not> valid_github_repo repo \<or> n \<le> 0 then Some Bad_target
     else if aq_trigger q \<notin> set review_run_triggers then Some (Bad_trigger (aq_trigger q))
     else if aq_scope q \<noteq> '''' \<and> aq_scope q \<noteq> ''whole'' \<and> aq_scope q \<noteq> ''since_last'' then Some (Bad_scope (aq_scope q))
     else None)"

text \<open>The pull request, from the trigger or read from GitHub.\<close>

definition request_pull :: "gate_env \<Rightarrow> int \<Rightarrow> review_request \<Rightarrow> pull option" where
  "request_pull E n q = (let given = (case aq_pull q of Some p \<Rightarrow> if pl_ref (pu_base p) = '''' then None else Some p | None \<Rightarrow> None)
     in map_option (\<lambda>p. if pu_number p = 0 then p\<lparr>pu_number := n\<rparr> else p) (case given of Some p \<Rightarrow> Some p | None \<Rightarrow> ge_github E))"

definition own_head :: "review_request \<Rightarrow> bool" where
  "own_head q \<longleftrightarrow> aq_inline q \<noteq> None \<or> aq_trigger q = ''label''"

definition request_facts :: "unicode \<Rightarrow> string \<Rightarrow> review_request \<Rightarrow> pull \<Rightarrow> pr_facts" where
  "request_facts U repo q p = (if own_head q then (review_pr_facts U repo p)\<lparr>pf_head := ''''\<rparr> else review_pr_facts U repo p)"

definition enqueue_review :: "gate_env \<Rightarrow> int \<Rightarrow> string \<Rightarrow> int \<Rightarrow> review_request \<Rightarrow> review_db \<Rightarrow> review_db \<times> review_run gate" where
  "enqueue_review E org repo n q0 db =
     (if \<not> ge_running E then (db, Fail Not_running)
      else (case bad_review_request repo n q0 of Some e \<Rightarrow> (db, Fail e) | None \<Rightarrow>
        (case request_pull E n (as_try q0) of None \<Rightarrow> (db, Fail Not_read) | Some p \<Rightarrow>
          (let U = ge_unicode E; q = as_try q0 in
           (case upsert_review_pr U org (request_facts U repo q p) db of
             (db1, Inl e) \<Rightarrow> (db1, Fail (Refused_write e))
           | (db1, Inr row) \<Rightarrow>
               (let head = (if own_head q then pf_head (review_pr_facts U repo p) else rp_head row) in
                gate_then org row q (db1, gate_plan E org repo q row p) (enqueue_planned E org q row head p)))))))"

section \<open>Deliveries\<close>

text \<open>\<^verbatim>\<open>ReviewPRByNumber\<close>: no row where the name is none.\<close>

definition review_pr_by_number :: "unicode \<Rightarrow> int \<Rightarrow> string \<Rightarrow> int \<Rightarrow> review_db \<Rightarrow> review_error + review_pr option" where
  "review_pr_by_number U org repo n db = (case review_repo_name U repo of None \<Rightarrow> Inl Bad_repo_name
     | Some r \<Rightarrow> Inr (pr_by_number org r n db))"

record github_event =
  ev_id :: string
  ev_installation :: int
  ev_action :: string
  ev_number :: int
  ev_label :: string
  ev_pull :: pull
  ev_repo :: string
  ev_sender :: git_user

definition review_push_debounce :: int where "review_push_debounce = 90 * nanos"
definition review_label_wait :: int where "review_label_wait = review_push_debounce"

text \<open>What a delivery asks for, before its trigger is known.\<close>

definition event_request :: "github_event \<Rightarrow> pull \<Rightarrow> review_request" where
  "event_request d p = \<lparr>aq_installation = ev_installation d, aq_trigger = '''', aq_ref = ''delivery:'' @ ev_id d,
     aq_by = ''github:'' @ gu_login (pu_user p), aq_types = [], aq_post = '''', aq_allow_live = False, aq_scope = '''', aq_bypass = False,
     aq_full = False, aq_pull = Some p, aq_not_before = None, aq_inline = None, aq_label = '''', aq_bot_label = False\<rparr>"

text \<open>A refusal is on the pull request, or worth no note: only an error is the delivery's to try again.\<close>

definition event_answer :: "review_db \<times> 'a gate \<Rightarrow> review_db \<times> gate_error option" where
  "event_answer g = (case g of (db, Fail e) \<Rightarrow> (db, Some e) | (db, _) \<Rightarrow> (db, None))"

definition head_resync :: "review_pr \<Rightarrow> review_request \<Rightarrow> run_request" where
  "head_resync row q = \<lparr>rq_pr = rp_id row, rq_installation = aq_installation q, rq_kind = ''resync'',
     rq_dedupe = ''resync:'' @ rp_head row, rq_trigger = ''push'', rq_ref = aq_ref q, rq_by = '''', rq_head = rp_head row,
     rq_base = '''', rq_cache = '''', rq_types = [], rq_rule = '''', rq_config = '''', rq_reserved = 0, rq_not_before = None,
     rq_request = ''''\<rparr>"

definition review_head_moved :: "gate_env \<Rightarrow> int \<Rightarrow> string \<Rightarrow> review_request \<Rightarrow> pull \<Rightarrow> review_db \<Rightarrow> review_db \<times> gate_error option" where
  "review_head_moved E org repo q p db = (case upsert_review_pr (ge_unicode E) org (review_pr_facts (ge_unicode E) repo p) db of
     (db1, Inl e) \<Rightarrow> (db1, Some (Refused_write e))
   | (db1, Inr row) \<Rightarrow>
       (case (if rp_last_sha row \<noteq> '''' \<and> rp_head row \<noteq> ''''
              then map_prod id (map_sum id Some) (enqueue_review_run (ge_now E) (ge_resync_id E) org (head_resync row q) db1)
              else (db1, Inr None)) of
         (db2, Inl e) \<Rightarrow> (db2, Some (Refused_write e))
       | (db2, Inr _) \<Rightarrow> event_answer (enqueue_review E org repo (pu_number p)
           (q\<lparr>aq_trigger := ''push'', aq_not_before := Some (ge_now E + review_push_debounce)\<rparr>) db2)))"

definition review_labeled :: "gate_env \<Rightarrow> int \<Rightarrow> string \<Rightarrow> review_request \<Rightarrow> pull \<Rightarrow> string \<Rightarrow> git_user \<Rightarrow> review_db \<Rightarrow>
    review_db \<times> gate_error option" where
  "review_labeled E org repo q0 p label sender db =
     (let U = ge_unicode E; base = pl_ref (pu_base p); head = pl_ref (pu_head p); sha = pl_sha (pu_head p);
          q = q0\<lparr>aq_by := (if gu_login sender = '''' then aq_by q0 else ''github:'' @ gu_login sender),
                aq_bot_label := review_from_bot E sender\<rparr> in
      if trim_space label = '''' \<or> \<not> commit_sha sha \<or> base = '''' then (db, None)
      else (case review_effective E org (aq_installation q) repo of
          Fail e \<Rightarrow> (db, Some e) | Skip _ \<Rightarrow> (db, None) | Quiet _ \<Rightarrow> (db, None)
        | Go eff \<Rightarrow> (case match_rule (x_branch_rules eff) base head of None \<Rightarrow> (db, None)
          | Some (_, rule) \<Rightarrow> (let add = fst (label_types U (x_branch_rules eff) base head [label] (br_types rule)) in
              if add = [] then (db, None)
              else (case review_pr_by_number U org repo (pu_number p) db of Inl e \<Rightarrow> (db, Some (Refused_write e))
                | Inr row \<Rightarrow>
                    (let covered = (case row of None \<Rightarrow> [] | Some r \<Rightarrow> review_types_at_head org (rp_id r) sha 0 db);
                         left = filter (\<lambda>t. t \<notin> set covered) add in
                     if (case row of Some r \<Rightarrow> rp_paused r \<noteq> 0 | None \<Rightarrow> False) \<or> left = [] then (db, None)
                     else event_answer (enqueue_review E org repo (pu_number p) (q\<lparr>aq_trigger := ''label'', aq_types := left,
                       aq_label := label, aq_not_before := Some (ge_now E + review_label_wait)\<rparr>) db)))))))"

text \<open>A pull request closed or turned into a draft: its runs are cancelled.\<close>

definition review_closed :: "gate_env \<Rightarrow> int \<Rightarrow> string \<Rightarrow> string \<Rightarrow> pull \<Rightarrow> review_db \<Rightarrow> review_db \<times> gate_error option" where
  "review_closed E org action repo p db = (case upsert_review_pr (ge_unicode E) org (review_pr_facts (ge_unicode E) repo p) db of
     (db1, Inl e) \<Rightarrow> (db1, Some (Refused_write e))
   | (db1, Inr row) \<Rightarrow> (fst (cancel_review_runs (ge_now E) org (rp_id row)
       (if action = ''converted_to_draft'' then ''the pull request went back to draft'' else ''the pull request was closed'') db1), None))"

definition review_pull_request_event :: "gate_env \<Rightarrow> int \<Rightarrow> github_event \<Rightarrow> review_db \<Rightarrow> review_db \<times> gate_error option" where
  "review_pull_request_event E org d db =
     (let repo = ev_repo d; n = (if ev_number d \<noteq> 0 then ev_number d else pu_number (ev_pull d));
          p = (ev_pull d)\<lparr>pu_number := n\<rparr>; q = event_request d p; a = ev_action d in
      if \<not> valid_github_repo repo \<or> n \<le> 0 then (db, None)
      else if a \<in> {''opened'', ''reopened'', ''ready_for_review''} then event_answer (enqueue_review E org repo n (q\<lparr>aq_trigger := ''open''\<rparr>) db)
      else if a = ''synchronize'' then review_head_moved E org repo q p db
      else if a = ''labeled'' then review_labeled E org repo q p (ev_label d) (ev_sender d) db
      else if a \<in> {''closed'', ''converted_to_draft''} then review_closed E org a repo p db
      else (db, None))"

end
