(* ===== verification/Review_Claim.thy ===== *)
theory Review_Claim
  imports Review_Enqueue
begin

text \<open>
  What \<^verbatim>\<open>processReview\<close> (\<^verbatim>\<open>internal/app/review_lane.go\<close>) asks of a claimed review before it goes to the model: whether
  the pull request is still open, the settings and the branch rule as they are now, the label rules again, the plan, the
  pause, the key, the money with what the run may spend now, and the throttles. The answer is the work to do, an end for
  the run, or an error; the theory \<open>Review_Lane\<close> has what the lane does with an end and an error.
\<close>

section \<open>Answers\<close>

text \<open>
  Go to the model with a plan, types and money held; post what is stored; end with a status and why; end failed for an
  error, or let the lane decide whether to try again.
\<close>

datatype claim_answer =
    Works review_plan "(string \<times> int) list" "(string \<times> string) list" rat
  | Resumes review_plan "(string \<times> int) list" "(string \<times> string) list"
  | Ends string string
  | Fails gate_error
  | Retries gate_error

definition review_try :: "review_run \<Rightarrow> bool" where
  "review_try r \<longleftrightarrow> rr_kind r = ''try''"

definition review_options_of :: "gate_env \<Rightarrow> review_run \<Rightarrow> review_options" where
  "review_options_of E r = (case ge_decode E (if rr_request r = '''' then ''{}'' else rr_request r) of
     Some o' \<Rightarrow> o' | None \<Rightarrow> no_options)"

text \<open>What the claim reads of the options: a try's are a try's, whatever they say.\<close>

definition claim_options :: "review_run \<Rightarrow> review_options \<Rightarrow> review_options" where
  "claim_options r o' = (case (review_try r, op_inline o') of
     (True, Some key) \<Rightarrow> o'\<lparr>op_post := ModeShadow, op_allow_live := False, op_types := [key]\<rparr> | _ \<Rightarrow> o')"

definition resumes :: "gate_env \<Rightarrow> review_run \<Rightarrow> bool" where
  "resumes E r \<longleftrightarrow> rr_outcome r \<noteq> '''' \<and> rr_outcome r \<noteq> ''{}'' \<and> ge_checkpoint E (rr_outcome r)"

section \<open>The labels again\<close>

text \<open>Why a run with nothing left to review ends, or the plan with its types narrowed.\<close>

definition review_labels_at_claim :: "gate_env \<Rightarrow> review_run \<Rightarrow> review_pr \<Rightarrow> effective \<Rightarrow> pull \<Rightarrow> review_options \<Rightarrow> review_plan \<Rightarrow>
    review_db \<Rightarrow> string + review_plan" where
  "review_labels_at_claim E r row eff p o' pn db =
     (let U = ge_unicode E; base = pl_ref (pu_base p); head = pl_ref (pu_head p); sha = pl_sha (pu_head p); rules = x_branch_rules eff in
      if rr_trigger r = ''label'' then
        (let types = (case match_rule rules base head of Some (_, rule) \<Rightarrow> br_types rule | None \<Rightarrow> []);
             on = list_ex (\<lambda>l. equal_fold U (trim_space l) (trim_space (op_label o'))) (label_names p);
             add = fst (label_types U rules base head [op_label o'] types);
             left = filter (\<lambda>t. t \<notin> set (review_types_at_head (rr_org r) (rp_id row) sha (rr_id r) db)) add in
         if \<not> on \<or> add = [] then Inl ''the label is no longer on the pull request, or no longer adds a review type''
         else if left = [] then Inl ''another review of this head runs the review types the label adds''
         else Inr (pn\<lparr>pn_keys := left\<rparr>))
      else if review_pause_counts (rr_trigger r) then
        Inr (if pn_labels pn = [] then pn
          else without_label_types U rules p (review_label_types_reviewed (rr_org r) (rp_id row) sha (rr_id r) db) pn)
      else Inr pn)"

section \<open>The gate again\<close>

definition claim_skipped :: "review_run \<Rightarrow> review_pr \<Rightarrow> skip \<Rightarrow> review_db \<Rightarrow> review_db \<times> claim_answer" where
  "claim_skipped r row s db = (if review_try r then db else fst (set_pr_skip_reason (rr_org r) (rp_id row) (sk_reason s) db),
     Ends ''skipped'' (sk_reason s @ '': '' @ sk_detail s))"

text \<open>A step of the gate: \<open>refuse\<close> is what its no does, \<open>err\<close> what becomes of an error.\<close>

definition claim_then :: "(skip \<Rightarrow> review_db \<Rightarrow> review_db \<times> claim_answer) \<Rightarrow> (gate_error \<Rightarrow> claim_answer) \<Rightarrow> review_db \<times> 'a gate \<Rightarrow>
    ('a \<Rightarrow> review_db \<Rightarrow> review_db \<times> claim_answer) \<Rightarrow> review_db \<times> claim_answer" where
  "claim_then refuse err g f = (case g of (db, Go x) \<Rightarrow> f x db | (db, Skip s) \<Rightarrow> refuse s db | (db, Quiet s) \<Rightarrow> refuse s db
     | (db, Fail e) \<Rightarrow> (db, err e))"

text \<open>A review that nobody asked for and the pause holds back, with a person's label held only by a pause that is there.\<close>

definition claim_pause :: "gate_env \<Rightarrow> review_run \<Rightarrow> review_pr \<Rightarrow> review_options \<Rightarrow> review_db \<Rightarrow> review_db \<times> unit gate" where
  "claim_pause E r row o' db =
     (if review_try r then (db, Go ())
      else if counts_towards_pause (rr_trigger r) (op_bot_label o')
      then review_auto_paused E (rr_org r) (rr_installation r) row (rr_trigger r) db
      else if rr_trigger r = ''label'' \<and> rp_paused row \<noteq> 0
      then (db, Skip (skip_for ''paused'' ''automatic reviews of this pull request are paused''))
      else (db, Go ()))"

definition run_need :: "review_run \<Rightarrow> review_plan \<Rightarrow> rat" where
  "run_need r pn = max (rr_reserved r) (dollars (x_max_usd (pn_eff pn)))"

text \<open>The money's no at the claim.\<close>

definition claim_broke :: "review_run \<Rightarrow> review_pr \<Rightarrow> skip \<Rightarrow> review_db \<Rightarrow> review_db \<times> claim_answer" where
  "claim_broke r row s db = (if review_try r then db else fst (set_pr_skip_reason (rr_org r) (rp_id row) ''budget'' db),
     Ends ''skipped'' (''budget: '' @ sk_detail s))"

text \<open>More held than was: the write is fenced, and a lease that was lost is the lane's to find out.\<close>

definition hold_in_full :: "review_run \<Rightarrow> rat \<Rightarrow> review_db \<Rightarrow> review_db \<times> unit gate" where
  "hold_in_full r need db = (if need > rr_reserved r
     then (let (db', ok) = set_run_reserved r need db in (db', if ok then Go () else Fail (Refused_write Lease_lost)))
     else (db, Go ()))"

definition claim_gate :: "gate_env \<Rightarrow> review_run \<Rightarrow> review_pr \<Rightarrow> pull \<Rightarrow> review_options \<Rightarrow> review_plan \<Rightarrow> (string \<times> int) list \<Rightarrow>
    (string \<times> string) list \<Rightarrow> review_db \<Rightarrow> review_db \<times> claim_answer" where
  "claim_gate E r row p o' pn specs skipped db =
     (let no = claim_skipped r row; need = run_need r pn in
      if rr_trigger r = ''push'' \<and> pl_sha (pu_head p) \<noteq> rr_head r \<and> newer_review_queued (rr_org r) (rp_id row) (rr_id r) db
      then (db, Ends ''superseded'' ''the pull request was pushed to again; the newer head has a run of its own'')
      else (case review_plan_gate E of Some s \<Rightarrow> no s db | None \<Rightarrow>
        claim_then no Retries (claim_pause E r row o' db) (\<lambda>_ db.
        claim_then no Retries (db, review_own_key_gate E) (\<lambda>_ db.
        if specs = [] then no types_off db
        else claim_then (claim_broke r row) Retries (db, review_budget_room E (rr_org r) need (rr_id r) db) (\<lambda>_ db.
        claim_then no Retries (db, review_throttled E (rr_org r) row (rr_id r) db) (\<lambda>_ db.
        claim_then no Retries (hold_in_full r need db) (\<lambda>_ db. (db, Works pn specs skipped need))))))))"

definition claim_planned :: "gate_env \<Rightarrow> review_run \<Rightarrow> review_pr \<Rightarrow> effective \<Rightarrow> pull \<Rightarrow> review_options \<Rightarrow> review_plan \<Rightarrow>
    review_db \<Rightarrow> review_db \<times> claim_answer" where
  "claim_planned E r row eff p o' pn db =
     (let types = (\<lambda>keys. if review_try r then (run_specs E (op_inline o') keys, []) else resolve_review_types E keys) in
      if resumes E r
      then (let pn' = pn\<lparr>pn_keys := map fst (rr_types r)\<rparr>; (specs, skipped) = types (pn_keys pn') in (db, Resumes pn' specs skipped))
      else (case (if review_try r then Inr pn else review_labels_at_claim E r row eff p o' pn db) of
          Inl why \<Rightarrow> (db, Ends ''noop'' why)
        | Inr pn' \<Rightarrow> (let (specs, skipped) = types (pn_keys pn') in claim_gate E r row p o' pn' specs skipped db)))"

definition claim_review :: "gate_env \<Rightarrow> review_run \<Rightarrow> review_db \<Rightarrow> review_db \<times> claim_answer" where
  "claim_review E r db =
     (let U = ge_unicode E; o' = claim_options r (review_options_of E r) in
      if review_try r \<and> op_inline o' = None then (db, Ends ''failed'' ''internal: a try carries the type it tries, and this one carries none'')
      else (case review_pr_of (rr_org r) (rr_pr r) db of None \<Rightarrow> (db, Fails Not_read)
        | Some row \<Rightarrow>
          if rp_state row \<noteq> ''open'' then (db, Ends ''cancelled'' (''the pull request is '' @ rp_state row))
          else claim_then (claim_skipped r row) Retries (db, review_effective E (rr_org r) (rr_installation r) (rp_repo row)) (\<lambda>eff db.
            (case ge_github E of None \<Rightarrow> (db, Retries Not_read)
             | Some p \<Rightarrow>
               if pu_state p \<noteq> ''open'' then (db, Ends ''cancelled'' ''the pull request was closed'')
               else claim_then (claim_skipped r row) Fails (db, plan_review U eff p (op_types o') (op_post o') (op_allow_live o')) (\<lambda>pn db.
                 claim_planned E r row eff p o' (with_label U (op_label o') pn) db)))))"

text \<open>What the cache answers from: the head, base, instructions, context repositories, settings, types and the rest.\<close>

record review_outcome =
  oc_head :: string
  oc_base :: string
  oc_instructions :: string
  oc_contexts :: "(string \<times> string) list"
  oc_skills :: string

definition review_engine_version :: string where "review_engine_version = ''1''"

definition cache_parts :: "unicode \<Rightarrow> review_outcome \<Rightarrow> string \<Rightarrow> (string \<times> int) list \<Rightarrow> mode \<Rightarrow> string \<Rightarrow> string list \<Rightarrow> string list" where
  "cache_parts U out config specs post scope labels =
     [oc_head out, oc_base out, oc_instructions out,
      join '','' (sort (map (\<lambda>(repo, sha). to_lower U repo @ ''@'' @ sha) (oc_contexts out))), config,
      join '','' (map (\<lambda>(k, v). k @ ''@'' @ itoa v) specs), review_engine_version, post, scope] @
     (if labels \<noteq> [] then [''labels:'' @ join '','' (sort (map (to_lower U) labels))] else []) @
     (if oc_skills out \<noteq> '''' then [''skills:'' @ oc_skills out] else [])"

definition review_cache_key :: "gate_env \<Rightarrow> review_outcome \<Rightarrow> string \<Rightarrow> (string \<times> int) list \<Rightarrow> mode \<Rightarrow> string \<Rightarrow> string list \<Rightarrow> string" where
  "review_cache_key E out config specs post scope labels = ge_hash E (cache_parts (ge_unicode E) out config specs post scope labels)"

end
