(* ===== verification/Review_Gate_Safety.thy ===== *)
theory Review_Gate_Safety
  imports Review_Claim Review_Safety
begin

text \<open>
  What the gate promises: a review is queued exactly when each of its conditions holds, and is the review that was asked
  for; a refusal queues no review and says why on the pull request; a delivery that comes twice queues one review; a
  review goes to the model only with its money held within every limit, and posts live only where live is allowed.
\<close>

section \<open>The conditions, one by one\<close>

text \<open>Of a pull request nobody asked about: when it is reviewed, drafts, bots and authors; of a fork's: who asked, and the setting.\<close>

definition filter_passes :: "unicode \<Rightarrow> review_request \<Rightarrow> effective \<Rightarrow> pull \<Rightarrow> bool \<Rightarrow> bool" where
  "filter_passes U q eff p own \<longleftrightarrow>
     (is_automatic q \<longrightarrow> x_trigger eff \<noteq> ''command'' \<and> (aq_trigger q = ''push'' \<longrightarrow> x_trigger eff = ''push'') \<and>
       (pu_draft p \<longrightarrow> x_drafts eff) \<and>
       (equal_fold U (gu_type (pu_user p)) ''Bot'' \<longrightarrow> own \<or> reviews_bot U eff (gu_login (pu_user p))) \<and>
       \<not> excludes_author U eff (gu_login (pu_user p)) \<and> \<not> is_fork U p) \<and>
     (is_fork U p \<longrightarrow> x_forks eff \<noteq> ''off'')"

lemma review_filter_iff: "review_filter U q pn p own = Go () \<longleftrightarrow> filter_passes U q (pn_eff pn) p own"
  by (auto simp: review_filter_def filter_passes_def Let_def)

definition fits_cap :: "rat \<Rightarrow> rat option \<Rightarrow> rat \<Rightarrow> bool" where
  "fits_cap cap spent x \<longleftrightarrow> cap \<le> 0 \<or> (\<exists>s. spent = Some s \<and> s + x \<le> cap)"

definition affordable :: "gate_env \<Rightarrow> rat \<Rightarrow> bool" where
  "affordable E x \<longleftrightarrow> (let m = ge_money E; own = key_active (ge_key E) in
     (mo_billing_unknown m \<longrightarrow> own) \<and>
     ((mo_credit_enforced m \<or> mo_allowance m) \<and> \<not> own \<longrightarrow>
       (\<exists>bal metered. mo_credit m = Some (bal, metered) \<and> (metered \<longrightarrow> x \<le> micros_to_usd bal))) \<and>
     fits_cap (effective_budget m) (mo_spent m (key_owner E)) x \<and>
     fits_cap (mo_month_cap m) (mo_month_spent m (key_owner E)) x \<and>
     fits_cap (mo_day_cap m) (mo_day_spent m (key_owner E)) x)"

lemma over_cap_iff: "over_cap E need held what cap spent = Go () \<longleftrightarrow> fits_cap cap spent (need + held)"
  by (auto simp: over_cap_def fits_cap_def split: option.split)

lemma credit_room_iff: "credit_room E need held = Go () \<longleftrightarrow>
    ((mo_credit_enforced (ge_money E) \<or> mo_allowance (ge_money E)) \<and> \<not> key_active (ge_key E) \<longrightarrow>
       (\<exists>bal metered. mo_credit (ge_money E) = Some (bal, metered) \<and> (metered \<longrightarrow> need + held \<le> micros_to_usd bal)))"
  by (auto simp: credit_room_def Let_def not_less split: option.split)

lemma budget_left_iff: "budget_left E need held = Go () \<longleftrightarrow>
    fits_cap (effective_budget (ge_money E)) (mo_spent (ge_money E) (key_owner E)) (need + held)"
  by (auto simp: budget_left_def fits_cap_def Let_def not_less split: option.split)

lemma gate_bind_unit: "gate_bind g (\<lambda>_. h) = Go y \<longleftrightarrow> g = Go () \<and> h = Go y" for g :: "unit gate"
  by (auto simp: gate_bind_Go)

lemma budget_room_iff: "review_budget_room E org need except db = Go () \<longleftrightarrow>
    affordable E (need + review_reserved_usd (ge_now E) org except db)"
  by (simp add: review_budget_room_def affordable_def Let_def gate_bind_unit credit_room_iff budget_left_iff over_cap_iff)

definition started_lately :: "gate_env \<Rightarrow> int \<Rightarrow> review_pr \<Rightarrow> int \<Rightarrow> review_db \<Rightarrow> nat \<times> nat" where
  "started_lately E org row except db = review_runs_started org (rp_id row) (rp_repo row) (ge_now E - 86400 * nanos) except db"

definition not_throttled :: "gate_env \<Rightarrow> int \<Rightarrow> review_pr \<Rightarrow> int \<Rightarrow> review_db \<Rightarrow> bool" where
  "not_throttled E org row except db \<longleftrightarrow> fst (started_lately E org row except db) < 8 \<and> snd (started_lately E org row except db) < 40"

lemma throttled_iff: "review_throttled E org row except db = Go () \<longleftrightarrow> not_throttled E org row except db"
  by (auto simp: review_throttled_def not_throttled_def started_lately_def Let_def review_runs_per_pr_day_def
      review_runs_per_repo_day_def split: prod.split)

definition key_lets :: "own_key \<Rightarrow> bool" where
  "key_lets k \<longleftrightarrow> \<not> ok_unknown k \<and> (ok_present k \<longrightarrow> ok_allowed k \<and> ok_reviews k)"

lemma own_key_iff: "review_own_key_gate E = Go () \<longleftrightarrow> key_lets (ge_key E)"
  by (auto simp: review_own_key_gate_def key_lets_def key_active_def Let_def)

text \<open>The organisation has code review, the repository is in the review tree through this installation, and is not off.\<close>

definition reviewed_under :: "gate_env \<Rightarrow> int \<Rightarrow> int \<Rightarrow> string \<Rightarrow> effective \<Rightarrow> bool" where
  "reviewed_under E org inst repo eff \<longleftrightarrow> reviewed_installation org inst (ge_tree E) \<and>
     (\<exists>chain levels. review_settings_chain (ge_unicode E) org inst repo (ge_tree E) = Some chain \<and> \<not> review_repo_removed chain \<and>
        review_levels (ge_json E) chain = Some levels \<and> eff = resolve (ge_unicode E) levels) \<and>
     x_mode eff \<noteq> ModeOff \<and> x_mode eff \<noteq> '''' \<and>
     (\<forall>c\<in>set (ge_connections E). gc_type c = ''github_app'' \<and> gc_installation c > 0 \<and> equal_fold (ge_unicode E) (gc_repo c) repo \<longrightarrow>
        gc_installation c = inst)"

lemma effective_iff: "review_effective E org inst repo = Go eff \<longleftrightarrow> reviewed_under E org inst repo eff"
  by (auto simp: review_effective_def reviewed_under_def Let_def list_ex_iff split: option.split)

definition has_code_review :: "gate_env \<Rightarrow> bool" where
  "has_code_review E \<longleftrightarrow> ra_available (code_review_for (ge_code_review E) (ge_plan E))"

lemma plan_gate_iff: "review_plan_gate E = None \<longleftrightarrow> has_code_review E"
  by (simp add: review_plan_gate_def has_code_review_def Let_def)

text \<open>A branch rule matches, and the result goes where the settings say, to shadow, or live by leave.\<close>

definition planned_as :: "unicode \<Rightarrow> effective \<Rightarrow> pull \<Rightarrow> string list \<Rightarrow> mode \<Rightarrow> bool \<Rightarrow> review_plan \<Rightarrow> bool" where
  "planned_as U eff p named post allow_live pn \<longleftrightarrow> pl_ref (pu_base p) \<noteq> '''' \<and>
     (\<exists>i rule. match_rule (x_branch_rules eff) (pl_ref (pu_base p)) (pl_ref (pu_head p)) = Some (i, rule) \<and>
        pn = (plan_types U eff p named rule)\<lparr>pn_post := (if post = '''' then x_mode (with_rule eff rule) else post)\<rparr> \<and>
        (post = '''' \<or> post = ModeShadow \<or> post = ModeLive \<and> (x_mode (with_rule eff rule) = ModeLive \<or> allow_live)))"

lemma with_label_keeps [simp]: "pn_eff (with_label U l pn) = pn_eff pn" "pn_post (with_label U l pn) = pn_post pn"
  "pn_keys (with_label U l pn) = pn_keys pn" "pn_named (with_label U l pn) = pn_named pn"
  by (simp_all add: with_label_def Let_def)

lemma labels_keep [simp]: "pn_eff (fold (with_label U) ls pn) = pn_eff pn" "pn_post (fold (with_label U) ls pn) = pn_post pn"
  "pn_keys (fold (with_label U) ls pn) = pn_keys pn" "pn_named (fold (with_label U) ls pn) = pn_named pn"
  by (induction ls arbitrary: pn) simp_all

lemma plan_types_eff [simp]: "pn_eff (plan_types U eff p named rule) = with_rule eff rule"
  by (simp add: plan_types_def Let_def split: prod.split)

lemma plan_review_iff: "plan_review U eff p named post allow_live = Go pn \<longleftrightarrow> planned_as U eff p named post allow_live pn"
  by (auto simp: plan_review_def planned_as_def Let_def split: option.split)

definition let_through :: "gate_env \<Rightarrow> int \<Rightarrow> string \<Rightarrow> review_request \<Rightarrow> review_pr \<Rightarrow> pull \<Rightarrow> review_plan \<Rightarrow> (string \<times> int) list \<Rightarrow> bool" where
  "let_through E org repo q row p pn specs \<longleftrightarrow> rp_state row = ''open'' \<and> has_code_review E \<and>
     (\<exists>eff pn0. reviewed_under E org (aq_installation q) repo eff \<and>
        planned_as (ge_unicode E) eff p (aq_types q) (aq_post q) (aq_allow_live q) pn0 \<and> pn = with_label (ge_unicode E) (aq_label q) pn0) \<and>
     filter_passes (ge_unicode E) q (pn_eff pn) p (review_by_us E (pu_user p)) \<and> key_lets (ge_key E) \<and>
     specs = run_specs E (aq_inline q) (pn_keys pn) \<and> specs \<noteq> []"

lemma gate_plan_iff: "gate_plan E org repo q row p = Go (pn, specs) \<longleftrightarrow> let_through E org repo q row p pn specs"
proof -
  have plan: "(case review_plan_gate E of Some s \<Rightarrow> Skip s | None \<Rightarrow> g) = Go y \<longleftrightarrow> has_code_review E \<and> g = Go y" for g :: "'z gate" and y
    by (auto simp: plan_gate_iff [symmetric] split: option.split)
  show ?thesis
    by (auto simp: gate_plan_def let_through_def Let_def gate_bind_Go plan effective_iff plan_review_iff review_filter_iff own_key_iff)
      blast
qed

text \<open>The pause, for a request it counts; the money on top of what others hold; the throttles.\<close>

definition has_room :: "gate_env \<Rightarrow> int \<Rightarrow> review_request \<Rightarrow> review_pr \<Rightarrow> rat \<Rightarrow> review_db \<Rightarrow> bool" where
  "has_room E org q row usd db \<longleftrightarrow> (held_by_pause q \<longrightarrow> rp_paused row = 0 \<and> rp_auto row < 5) \<and>
     affordable E (usd + review_reserved_usd (ge_now E) org 0 db) \<and> not_throttled E org row 0 db"

section \<open>The stages on the database\<close>

lemma gate_then_Go: "gate_then org row q g f = (db', Go y) \<longleftrightarrow> (\<exists>x db. g = (db, Go x) \<and> f x db = (db', Go y))"
  by (auto simp: gate_then_def stop_with_def split: prod.splits gate.splits option.splits if_splits)

lemma auto_paused_Go: "review_auto_paused E org inst row trigger db = (db', Go u) \<longleftrightarrow> db' = db \<and> rp_paused row = 0 \<and> rp_auto row < 5"
  by (auto simp: review_auto_paused_def review_auto_pause_after_def Let_def split: prod.split)

lemma budget_stopped_Go: "review_budget_stopped org row q (db, g) = (db', Go u) \<longleftrightarrow> db' = db \<and> g = Go u"
  by (auto simp: review_budget_stopped_def split: gate.split)

lemma enqueue_new_Go: "enqueue_new E org q row rq db = (db', Go r) \<longleftrightarrow> has_room E org q row (rq_reserved rq) db \<and>
    (\<exists>db1 new. enqueue_review_run (ge_now E) (ge_run_id E) org rq db = (db1, Inr (r, new)) \<and>
      (if aq_inline q \<noteq> None then db' = db1 else set_pr_skip_reason org (rp_id row) '''' db1 = (db', None)))"
proof -
  have pause: "(if held_by_pause q then review_auto_paused E org (aq_installation q) row (aq_trigger q) db else (db, Go ())) = (dbx, Go u) \<longleftrightarrow>
      dbx = db \<and> (held_by_pause q \<longrightarrow> rp_paused row = 0 \<and> rp_auto row < 5)" for dbx u
    by (auto simp: auto_paused_Go)
  show ?thesis
    unfolding enqueue_new_def gate_then_Go pause budget_stopped_Go
    by (auto simp: has_room_def budget_room_iff throttled_iff split: prod.splits sum.splits option.splits if_splits)
qed

lemma upsert_written:
  assumes "upsert_review_pr U org f db = (db1, Inr row)"
  shows "rv_runs db1 = rv_runs db" "rv_findings db1 = rv_findings db" "row \<in> set (rv_prs db1)" "rp_org row = org"
proof -
  have found: "p \<in> set (rv_prs db) \<and> same_pr org repo n p" if "pr_by_number org repo n db = Some p" for repo n p
    using that by (auto simp: pr_by_number_def find_Some_iff)
  show "rv_runs db1 = rv_runs db" "rv_findings db1 = rv_findings db"
    using assms by (auto simp: upsert_review_pr_def Let_def split: option.splits if_splits)
  show "row \<in> set (rv_prs db1)" "rp_org row = org"
    using assms by (auto simp: upsert_review_pr_def Let_def update_rows_def new_pr_def same_pr_def known_pr_def dest!: found
        split: option.splits if_splits) 
qed

lemma enqueued:
  assumes "enqueue_review_run now pub org q db = (db', Inr (r, new))"
  shows "r \<notin> set (rv_runs db) \<longleftrightarrow> new" "rv_prs db' = rv_prs db" "rv_findings db' = rv_findings db"
    "rv_runs db' = (if new then rv_runs db @ [r] else rv_runs db)" "new \<Longrightarrow> \<exists>p. review_pr_of org (rq_pr q) db = Some p \<and>
      r = queued_run now pub (next_id (map rr_id (rv_runs db))) p q" "new \<longleftrightarrow> run_by_dedupe org (rq_pr q) (rq_dedupe q) db = None"
proof -
  have fresh: "queued_run now pub (next_id (map rr_id (rv_runs db))) p q \<notin> set (rv_runs db)" for p
  proof
    assume "queued_run now pub (next_id (map rr_id (rv_runs db))) p q \<in> set (rv_runs db)"
    then have "rr_id (queued_run now pub (next_id (map rr_id (rv_runs db))) p q) \<in> set (map rr_id (rv_runs db))" by simp
    from next_id_fresh [OF this] show False by (simp add: queued_run_def)
  qed
  show "r \<notin> set (rv_runs db) \<longleftrightarrow> new" "rv_prs db' = rv_prs db" "rv_findings db' = rv_findings db"
    "rv_runs db' = (if new then rv_runs db @ [r] else rv_runs db)" "new \<Longrightarrow> \<exists>p. review_pr_of org (rq_pr q) db = Some p \<and>
      r = queued_run now pub (next_id (map rr_id (rv_runs db))) p q" "new \<longleftrightarrow> run_by_dedupe org (rq_pr q) (rq_dedupe q) db = None"
    using assms fresh by (auto simp: enqueue_review_run_def Let_def run_by_dedupe_def find_Some_iff split: if_splits option.splits)
qed

text \<open>A request that is one, its pull request read and written down: the row, and the head the review is of.\<close>

definition taken_in :: "gate_env \<Rightarrow> int \<Rightarrow> string \<Rightarrow> int \<Rightarrow> review_request \<Rightarrow> review_db \<Rightarrow> pull \<Rightarrow> review_db \<Rightarrow> review_pr \<Rightarrow> string \<Rightarrow> bool" where
  "taken_in E org repo n q0 db p db1 row head \<longleftrightarrow> ge_running E \<and> bad_review_request repo n q0 = None \<and>
     request_pull E n (as_try q0) = Some p \<and>
     upsert_review_pr (ge_unicode E) org (request_facts (ge_unicode E) repo (as_try q0) p) db = (db1, Inr row) \<and>
     head = (if own_head (as_try q0) then pf_head (review_pr_facts (ge_unicode E) repo p) else rp_head row)"

lemma enqueue_Go: "enqueue_review E org repo n q0 db = (db', Go r) \<longleftrightarrow> (\<exists>p db1 row head pn specs.
    taken_in E org repo n q0 db p db1 row head \<and> let_through E org repo (as_try q0) row p pn specs \<and>
    enqueue_planned E org (as_try q0) row head p (pn, specs) db1 = (db', Go r))"
  by (auto simp: enqueue_review_def taken_in_def gate_then_Go gate_plan_iff Let_def split: option.splits prod.splits sum.splits)

lemma free_key_run:
  "free_key E pre org pr db n key = Inl r \<Longrightarrow> r \<in> set (rv_runs db) \<and> rr_org r = org \<and> rr_pr r = pr \<and> \<not> answered_nothing r"
proof (induction n arbitrary: key)
  case (Suc n)
  then show ?case by (auto simp: run_by_dedupe_def find_Some_iff split: option.splits if_splits)
qed simp

definition request_usd :: "review_plan \<Rightarrow> rat" where
  "request_usd pn = dollars (x_max_usd (pn_eff pn))"

definition free_for :: "gate_env \<Rightarrow> int \<Rightarrow> review_request \<Rightarrow> review_pr \<Rightarrow> string \<Rightarrow> review_plan \<Rightarrow> review_db \<Rightarrow> review_run + string" where
  "free_for E org q row head pn db =
     free_key E (request_prefix q) org (rp_id row) db 10 (request_key E q head pn (request_scope q row))"

lemma planned_Go: "enqueue_planned E org q row head p (pn, specs) db = (db', Go r) \<longleftrightarrow>
    db' = db \<and> free_for E org q row head pn db = Inl r \<or>
    (\<exists>key. free_for E org q row head pn db = Inr key \<and> enqueue_new E org q row (new_request E q row head p pn specs key) db = (db', Go r))"
  by (auto simp: enqueue_planned_def free_for_def split: sum.split)

lemma skip_written: "set_pr_skip_reason org i why db = (db', None) \<Longrightarrow> rv_runs db' = rv_runs db \<and> rv_findings db' = rv_findings db"
  by (auto simp: set_pr_skip_reason_def pr_written_def update_pr_def)

lemma planned_new:
  assumes go: "enqueue_planned E org q row head p (pn, specs) db = (db', Go r)" and fresh: "r \<notin> set (rv_runs db)"
  shows "\<exists>key p'. free_for E org q row head pn db = Inr key \<and> run_by_dedupe org (rp_id row) key db = None \<and>
    has_room E org q row (request_usd pn) db \<and> rv_runs db' = rv_runs db @ [r] \<and> rv_findings db' = rv_findings db \<and>
    review_pr_of org (rp_id row) db = Some p' \<and>
    r = queued_run (ge_now E) (ge_run_id E) (next_id (map rr_id (rv_runs db))) p' (new_request E q row head p pn specs key)"
proof -
  have "free_for E org q row head pn db \<noteq> Inl r" using free_key_run fresh by (auto simp: free_for_def)
  then obtain key where key: "free_for E org q row head pn db = Inr key"
    and new: "enqueue_new E org q row (new_request E q row head p pn specs key) db = (db', Go r)" using go by (auto simp: planned_Go)
  from new obtain db1 b where room: "has_room E org q row (request_usd pn) db"
    and run: "enqueue_review_run (ge_now E) (ge_run_id E) org (new_request E q row head p pn specs key) db = (db1, Inr (r, b))"
    and skip: "if aq_inline q \<noteq> None then db' = db1 else set_pr_skip_reason org (rp_id row) '''' db1 = (db', None)"
    by (auto simp: enqueue_new_Go new_request_def request_usd_def)
  have b: b using enqueued(1) [OF run] fresh by simp
  have "rv_runs db' = rv_runs db1 \<and> rv_findings db' = rv_findings db1" using skip skip_written by (auto split: if_splits)
  moreover have "rv_runs db1 = rv_runs db @ [r]" "rv_findings db1 = rv_findings db" using enqueued(3,4) [OF run] b by auto
  moreover have "run_by_dedupe org (rp_id row) key db = None" using enqueued(6) [OF run] b by (simp add: new_request_def)
  moreover obtain p' where "review_pr_of org (rp_id row) db = Some p'"
    "r = queued_run (ge_now E) (ge_run_id E) (next_id (map rr_id (rv_runs db))) p' (new_request E q row head p pn specs key)"
    using enqueued(5) [OF run b] by (auto simp: new_request_def)
  ultimately show ?thesis using key room by auto
qed

text \<open>C2. A run that a request added to the queue was let through by every one of the gate's conditions, each stated on its own,
  with room for its money beside what others hold and within the throttles, and is the run that was asked for: one more row, its types
  those resolved, its money reserved in full, its options those of the request.\<close>

theorem queued_was_let_through:
  assumes "enqueue_review E org repo n q db = (db', Go r)" and "r \<notin> set (rv_runs db)"
  shows "\<exists>p db1 row head pn specs. taken_in E org repo n q db p db1 row head \<and> let_through E org repo (as_try q) row p pn specs \<and>
    has_room E org (as_try q) row (request_usd pn) db1 \<and> rv_runs db' = rv_runs db @ [r] \<and> rv_findings db' = rv_findings db \<and>
    rr_org r = org \<and> rr_pr r = rp_id row \<and> rr_status r = ''queued'' \<and> rr_kind r = (if aq_inline q = None then ''review'' else ''try'') \<and>
    rr_trigger r = aq_trigger q \<and> rr_head r = head \<and> rr_types r = specs \<and> rr_reserved r = request_usd pn \<and>
    rr_request r = (let o' = ge_encode E (request_options (as_try q) p pn (request_scope (as_try q) row)) in if o' = '''' then ''{}'' else o')"
proof -
  from assms(1) obtain p db1 row head pn specs where in_db: "taken_in E org repo n q db p db1 row head"
    and through: "let_through E org repo (as_try q) row p pn specs"
    and planned: "enqueue_planned E org (as_try q) row head p (pn, specs) db1 = (db', Go r)" by (auto simp: enqueue_Go)
  have up: "upsert_review_pr (ge_unicode E) org (request_facts (ge_unicode E) repo (as_try q) p) db = (db1, Inr row)"
    using in_db by (simp add: taken_in_def)
  note same = upsert_written [OF up]
  from planned_new [OF planned] assms(2) same(1) obtain key p' where
    room: "has_room E org (as_try q) row (request_usd pn) db1" and runs: "rv_runs db' = rv_runs db @ [r]" "rv_findings db' = rv_findings db"
    and p': "review_pr_of org (rp_id row) db1 = Some p'"
    and r: "r = queued_run (ge_now E) (ge_run_id E) (next_id (map rr_id (rv_runs db))) p' (new_request E (as_try q) row head p pn specs key)"
    using same(2) by auto
  have "rp_org p' = org" "rp_id p' = rp_id row" using p' by (auto simp: review_pr_of_def find_Some_iff is_pr_def)
  moreover have "aq_inline (as_try q) = aq_inline q" "aq_trigger (as_try q) = aq_trigger q"
    by (auto simp: as_try_def split: option.split)
  ultimately have "rr_org r = org \<and> rr_pr r = rp_id row \<and> rr_status r = ''queued'' \<and> rr_kind r = (if aq_inline q = None then ''review'' else ''try'') \<and>
    rr_trigger r = aq_trigger q \<and> rr_head r = head \<and> rr_types r = specs \<and> rr_reserved r = request_usd pn \<and>
    rr_request r = (let o' = ge_encode E (request_options (as_try q) p pn (request_scope (as_try q) row)) in if o' = '''' then ''{}'' else o')"
    by (simp add: r queued_run_def new_request_def request_usd_def Let_def)
  with in_db through room runs show ?thesis by blast
qed

section \<open>What is let through is queued\<close>

lemma trigger_short: "t \<in> set review_run_triggers \<Longrightarrow> length t \<le> 7"
  by (auto simp: review_run_triggers_def)

lemma free_key_short:
  "free_key E pre org pr db n key = Inr key' \<Longrightarrow> key \<noteq> '''' \<Longrightarrow> length key \<le> 60 \<Longrightarrow> length pre \<le> 12 \<Longrightarrow> key' \<noteq> '''' \<and> length key' \<le> 60"
proof (induction n arbitrary: key)
  case (Suc n)
  then show ?case by (auto split: option.splits if_splits)
qed simp

lemma request_key_short:
  assumes "aq_trigger q \<in> set review_run_triggers"
  shows "request_key E q head pn scope \<noteq> ''''" "length (request_key E q head pn scope) \<le> 60" "length (request_prefix q) \<le> 12"
proof -
  have "length (review_key_trigger (aq_trigger q)) \<le> 7" using trigger_short [OF assms] by (simp add: review_key_trigger_def)
  then show "request_key E q head pn scope \<noteq> ''''" "length (request_key E q head pn scope) \<le> 60" "length (request_prefix q) \<le> 12"
    using trigger_short [OF assms] by (auto simp: request_key_def request_prefix_def review_dedupe_key_def)
qed

lemma row_written:
  assumes "\<exists>x\<in>set (rv_prs db). is_pr org i x"
  shows "set_pr_skip_reason org i why db = (fst (set_pr_skip_reason org i why db), None)"
  using assms by (auto simp: set_pr_skip_reason_def pr_written_def update_pr_def fenced_write_def list_ex_iff)

lemma as_try_keeps [simp]: "aq_inline (as_try q) = aq_inline q" "aq_trigger (as_try q) = aq_trigger q" "aq_ref (as_try q) = aq_ref q"
  "aq_label (as_try q) = aq_label q" "aq_installation (as_try q) = aq_installation q" "aq_full (as_try q) = aq_full q"
  by (auto simp: as_try_def split: option.split)

text \<open>C7. A request that meets every condition, has room, and is none that was queued or done already is queued.\<close>

theorem let_through_is_queued:
  assumes in_db: "taken_in E org repo n q db p db1 row head"
    and through: "let_through E org repo (as_try q) row p pn specs" and room: "has_room E org (as_try q) row (request_usd pn) db1"
    and usd: "0 \<le> request_usd pn"
    and key: "free_for E org (as_try q) row head pn db1 = Inr key" "run_by_dedupe org (rp_id row) key db1 = None"
  shows "\<exists>db' r. enqueue_review E org repo n q db = (db', Go r) \<and> r \<notin> set (rv_runs db)"
proof -
  let ?q = "as_try q" and ?rq = "new_request E (as_try q) row head p pn specs key"
  have trigger: "aq_trigger ?q \<in> set review_run_triggers"
    using in_db by (auto simp: taken_in_def bad_review_request_def split: if_splits)
  have "key \<noteq> '''' \<and> length key \<le> 60"
    by (rule free_key_short [OF key(1) [unfolded free_for_def]]) (rule request_key_short [OF trigger])+
  then have good: "\<not> bad_request ?rq"
    using trigger usd by (auto simp: bad_request_def new_request_def review_run_kinds_def review_dedupe_key_max_def request_usd_def)
  have up: "upsert_review_pr (ge_unicode E) org (request_facts (ge_unicode E) repo ?q p) db = (db1, Inr row)"
    using in_db by (simp add: taken_in_def)
  note row = upsert_written [OF up]
  then have row_in: "\<exists>x\<in>set (rv_prs db1). is_pr org (rp_id row) x" by (auto simp: is_pr_def)
  then obtain p' where p': "review_pr_of org (rp_id row) db1 = Some p'"
    by (cases "review_pr_of org (rp_id row) db1") (auto simp: review_pr_of_def find_None_iff)
  define r where "r = queued_run (ge_now E) (ge_run_id E) (next_id (map rr_id (rv_runs db1))) p' ?rq"
  define db2 where "db2 = db1\<lparr>rv_runs := rv_runs db1 @ [r]\<rparr>"
  have run: "enqueue_review_run (ge_now E) (ge_run_id E) org ?rq db1 = (db2, Inr (r, True))"
    using good p' key(2) by (simp add: enqueue_review_run_def new_request_def r_def db2_def Let_def)
  let ?db' = "if aq_inline q \<noteq> None then db2 else fst (set_pr_skip_reason org (rp_id row) '''' db2)"
  have "set_pr_skip_reason org (rp_id row) '''' db2 = (fst (set_pr_skip_reason org (rp_id row) '''' db2), None)"
    using row_in by (intro row_written) (simp add: db2_def)
  then have "enqueue_new E org ?q row ?rq db1 = (?db', Go r)"
    using room run by (auto simp: enqueue_new_Go new_request_def request_usd_def)
  then have "enqueue_planned E org ?q row head p (pn, specs) db1 = (?db', Go r)" using key(1) by (simp add: planned_Go)
  then have "enqueue_review E org repo n q db = (?db', Go r)" using in_db through enqueue_Go by blast
  moreover have "r \<notin> set (rv_runs db)" using enqueued(1) [OF run] row(1) by simp
  ultimately show ?thesis by blast
qed

section \<open>A refusal\<close>

text \<open>No review and no finding, at most a render of the summary that says the reviews are paused.\<close>

definition no_review :: "review_db \<Rightarrow> review_db \<Rightarrow> bool" where
  "no_review db db' \<longleftrightarrow> rv_findings db' = rv_findings db \<and>
     (\<exists>new. rv_runs db' = rv_runs db @ new \<and> length new \<le> 1 \<and> (\<forall>r\<in>set new. rr_kind r = ''resync'' \<and> rr_reserved r = 0))"

definition row_in :: "int \<Rightarrow> review_pr \<Rightarrow> review_db \<Rightarrow> bool" where
  "row_in org row db \<longleftrightarrow> (\<exists>x\<in>set (rv_prs db). is_pr org (rp_id row) x \<and> rp_repo x = rp_repo row \<and> rp_number x = rp_number row)"

definition said_why :: "int \<Rightarrow> review_pr \<Rightarrow> skip \<Rightarrow> review_db \<Rightarrow> bool" where
  "said_why org row s db \<longleftrightarrow> (\<exists>x\<in>set (rv_prs db). is_pr org (rp_id row) x \<and> rp_repo x = rp_repo row \<and>
     rp_number x = rp_number row \<and> rp_skip x = truncate_text (sk_reason s) 300)"

lemma no_review_refl [simp]: "no_review db db"
  by (simp add: no_review_def)

lemma no_review_runs: "rv_runs db' = rv_runs db \<Longrightarrow> rv_findings db' = rv_findings db \<Longrightarrow> no_review db db'"
  by (simp add: no_review_def)

lemma skip_says:
  assumes "row_in org row db"
  shows "snd (set_pr_skip_reason org (rp_id row) why db) = None" "row_in org row (fst (set_pr_skip_reason org (rp_id row) why db))"
    "\<exists>x\<in>set (rv_prs (fst (set_pr_skip_reason org (rp_id row) why db))). is_pr org (rp_id row) x \<and> rp_repo x = rp_repo row \<and>
       rp_number x = rp_number row \<and> rp_skip x = truncate_text why 300"
    "rv_runs (fst (set_pr_skip_reason org (rp_id row) why db)) = rv_runs db"
    "rv_findings (fst (set_pr_skip_reason org (rp_id row) why db)) = rv_findings db"
proof -
  let ?f = "\<lambda>p. p\<lparr>rp_skip := truncate_text why 300\<rparr>"
  obtain x where x: "x \<in> set (rv_prs db)" "is_pr org (rp_id row) x" "rp_repo x = rp_repo row" "rp_number x = rp_number row"
    using assms by (auto simp: row_in_def)
  then have "?f x \<in> set (update_rows (is_pr org (rp_id row)) ?f (rv_prs db))" by (auto simp: update_rows_def image_iff)
  with x show "\<exists>x\<in>set (rv_prs (fst (set_pr_skip_reason org (rp_id row) why db))). is_pr org (rp_id row) x \<and> rp_repo x = rp_repo row \<and>
       rp_number x = rp_number row \<and> rp_skip x = truncate_text why 300"
    by (intro bexI [of _ "?f x"]) (auto simp: set_pr_skip_reason_def pr_written_def update_pr_def is_pr_def)
  then show "row_in org row (fst (set_pr_skip_reason org (rp_id row) why db))" by (auto simp: row_in_def)
  show "snd (set_pr_skip_reason org (rp_id row) why db) = None" using x
    by (auto simp: set_pr_skip_reason_def pr_written_def update_pr_def fenced_write_def list_ex_iff)
qed (simp_all add: set_pr_skip_reason_def pr_written_def update_pr_def)

definition refused :: "int \<Rightarrow> review_pr \<Rightarrow> review_request \<Rightarrow> review_db \<Rightarrow> review_db \<times> 'a gate \<Rightarrow> bool" where
  "refused org row q db g \<longleftrightarrow> no_review db (fst g) \<and>
     (case snd g of Go _ \<Rightarrow> False | Skip s \<Rightarrow> aq_inline q = None \<longrightarrow> said_why org row s (fst g) | _ \<Rightarrow> True)"

lemma stop_refuses:
  assumes "row_in org row db1" "no_review db db1"
  shows "refused org row q db (stop_with org row q s db1)"
  using skip_says [OF assms(1), of "sk_reason s"] assms(2)
  by (auto simp: refused_def stop_with_def said_why_def no_review_def split: prod.splits option.splits)

lemma then_refuses:
  assumes "row_in org row (fst g)" "no_review db (fst g)" "\<And>x. snd g = Go x \<Longrightarrow> refused org row q db (f x (fst g)) \<or> (\<exists>y. snd (f x (fst g)) = Go y)"
  shows "refused org row q db (gate_then org row q g f) \<or> (\<exists>y. snd (gate_then org row q g f) = Go y)"
proof (cases g)
  case (Pair db1 a)
  with assms show ?thesis
    by (cases a) (auto simp: gate_then_def stop_refuses, auto simp: refused_def)
qed

lemma row_in_update:
  assumes "row_in org row db" and f: "\<And>x. rp_id (f x) = rp_id x \<and> rp_org (f x) = rp_org x \<and> rp_repo (f x) = rp_repo x \<and> rp_number (f x) = rp_number x"
  shows "row_in org row (fst (update_pr P f db))"
proof -
  obtain x where x: "x \<in> set (rv_prs db)" "is_pr org (rp_id row) x" "rp_repo x = rp_repo row" "rp_number x = rp_number row"
    using assms by (auto simp: row_in_def)
  then have "(if P x then f x else x) \<in> set (rv_prs (fst (update_pr P f db)))" by (simp add: update_pr_def update_rows_def)
  with x f [of x] show ?thesis unfolding row_in_def by (intro bexI) (auto simp: is_pr_def)
qed

lemma pause_refuses:
  assumes "row_in org row db"
  shows "row_in org row (fst (review_auto_paused E org inst row trigger db))" "no_review db (fst (review_auto_paused E org inst row trigger db))"
proof -
  have kept: "row_in org row (fst (pause_review_pr org (rp_id row) True db))"
    unfolding pause_review_pr_def by (rule row_in_update [OF assms]) simp
  have rows: "rv_prs (fst (queue_review_resync E org inst row trigger ref db1)) = rv_prs db1"
    "no_review db1 (fst (queue_review_resync E org inst row trigger ref db1))" for ref db1
    by (auto simp: queue_review_resync_def enqueue_review_run_def no_review_def resync_request_def queued_run_def Let_def
        split: option.split)
  have same: "rv_runs (fst (pause_review_pr org (rp_id row) True db)) = rv_runs db"
    "rv_findings (fst (pause_review_pr org (rp_id row) True db)) = rv_findings db" by (simp_all add: pause_review_pr_def update_pr_def)
  let ?p = "fst (pause_review_pr org (rp_id row) True db)"
  have shape: "fst (review_auto_paused E org inst row trigger db) = db \<or> fst (review_auto_paused E org inst row trigger db) = ?p \<or>
    fst (review_auto_paused E org inst row trigger db) = fst (queue_review_resync E org inst row trigger (''paused:'' @ ge_pause_id E) ?p)"
    by (simp add: review_auto_paused_def Let_def split: prod.split)
  show "row_in org row (fst (review_auto_paused E org inst row trigger db))"
    using shape assms kept rows(1) [of _ ?p] by (elim disjE) (simp_all add: row_in_def)
  show "no_review db (fst (review_auto_paused E org inst row trigger db))"
    using shape same rows(2) [of ?p] by (elim disjE) (simp_all add: no_review_def)
qed

lemma new_refuses:
  assumes row: "row_in org row db"
  shows "refused org row q db (enqueue_new E org q row rq db) \<or> (\<exists>y. snd (enqueue_new E org q row rq db) = Go y)"
  unfolding enqueue_new_def
proof (rule then_refuses)
  let ?g = "if held_by_pause q then review_auto_paused E org (aq_installation q) row (aq_trigger q) db else (db, Go ())"
  show "row_in org row (fst ?g)" "no_review db (fst ?g)" using row pause_refuses by auto
  fix x assume "snd ?g = Go x"
  then have db: "fst ?g = db" by (cases ?g) (auto simp: auto_paused_Go split: if_splits)
  let ?b = "review_budget_stopped org row q (db, review_budget_room E org (rq_reserved rq) 0 db)"
  have b: "row_in org row (fst ?b)" "no_review db (fst ?b)"
    using row skip_says [OF row] by (auto simp: review_budget_stopped_def no_review_def split: gate.split)
  have go: "fst ?b = db" if "snd ?b = Go y" for y
    using that by (cases "review_budget_room E org (rq_reserved rq) 0 db") (auto simp: review_budget_stopped_def)
  let ?f = "\<lambda>_ db. case enqueue_review_run (ge_now E) (ge_run_id E) org rq db of (db', Inl e) \<Rightarrow> (db', Fail (Refused_write e))
    | (db', Inr (r, _)) \<Rightarrow> if aq_inline q \<noteq> None then (db', Go r)
        else (case set_pr_skip_reason org (rp_id row) '''' db' of (db'', Some e) \<Rightarrow> (db'', Fail (Refused_write e)) | (db'', None) \<Rightarrow> (db'', Go r))"
  have run: "refused org row q db (?f () db) \<or> (\<exists>y. snd (?f () db) = Go y)"
  proof (cases "enqueue_review_run (ge_now E) (ge_run_id E) org rq db")
    case (Pair db1 res)
    show ?thesis
    proof (cases res)
      case (Inl e)
      then have "db1 = db" using Pair by (auto simp: enqueue_review_run_def Let_def split: if_splits option.splits)
      then show ?thesis using Pair Inl by (simp add: refused_def)
    next
      case (Inr rn)
      then obtain r new where "res = Inr (r, new)" by (cases rn) auto
      note run = Pair [unfolded this]
      have "row_in org row db1" using row enqueued(2) [OF run] by (simp add: row_in_def)
      from skip_says(1) [OF this, of "''''"] show ?thesis using run by (auto split: prod.split option.split)
    qed
  qed
  have t: "refused org row q db (gate_then org row q (db, review_throttled E org row 0 db) ?f) \<or>
      (\<exists>y. snd (gate_then org row q (db, review_throttled E org row 0 db) ?f) = Go y)"
    by (rule then_refuses) (use row run in simp_all)
  show "refused org row q db (gate_then org row q (review_budget_stopped org row q (fst ?g, review_budget_room E org (rq_reserved rq) 0 (fst ?g)))
      (\<lambda>_ db. gate_then org row q (db, review_throttled E org row 0 db) ?f)) \<or>
    (\<exists>y. snd (gate_then org row q (review_budget_stopped org row q (fst ?g, review_budget_room E org (rq_reserved rq) 0 (fst ?g)))
      (\<lambda>_ db. gate_then org row q (db, review_throttled E org row 0 db) ?f)) = Go y)"
    unfolding db by (rule then_refuses) (use b go t in auto)
qed

lemma upsert_row:
  assumes "upsert_review_pr U org f db = (db1, Inr row)"
  shows "review_repo_name U (pf_repo f) = Some (rp_repo row)" "rp_number row = pf_number f" "rp_org row = org" "row \<in> set (rv_prs db1)"
proof -
  have found: "same_pr org repo n p" if "pr_by_number org repo n db = Some p" for repo n p
    using that by (auto simp: pr_by_number_def find_Some_iff)
  show "review_repo_name U (pf_repo f) = Some (rp_repo row)" "rp_number row = pf_number f"
    using assms by (auto simp: upsert_review_pr_def Let_def new_pr_def same_pr_def known_pr_def dest!: found split: option.splits if_splits)
  show "rp_org row = org" "row \<in> set (rv_prs db1)" using upsert_written [OF assms] by simp_all
qed

lemma request_facts_of [simp]: "pf_repo (request_facts U repo q p) = repo" "pf_number (request_facts U repo q p) = pu_number p"
  by (simp_all add: request_facts_def review_pr_facts_def)


section \<open>The same delivery again\<close>

fun settles :: "gate_env \<Rightarrow> string \<Rightarrow> int \<Rightarrow> int \<Rightarrow> review_db \<Rightarrow> nat \<Rightarrow> string \<Rightarrow> bool" where
  "settles E pre org pr db 0 key = False"
| "settles E pre org pr db (Suc n) key = (case run_by_dedupe org pr key db of None \<Rightarrow> True
   | Some r \<Rightarrow> answered_nothing r \<longrightarrow> settles E pre org pr db n (pre @ '':'' @ take 40 (ge_hash E [key, rr_public r])))"

lemma dedupe_appended:
  "rv_runs db' = rv_runs db @ [r] \<Longrightarrow> run_by_dedupe org pr key db' = (case run_by_dedupe org pr key db of Some x \<Rightarrow> Some x
     | None \<Rightarrow> if rr_org r = org \<and> rr_pr r = pr \<and> rr_dedupe r = key then Some r else None)"
proof -
  have "List.find P (xs @ [x]) = (case List.find P xs of Some y \<Rightarrow> Some y | None \<Rightarrow> if P x then Some x else None)" for P xs and x :: review_run
    by (induction xs) auto
  then show "rv_runs db' = rv_runs db @ [r] \<Longrightarrow> ?thesis" by (simp add: run_by_dedupe_def)
qed

lemma key_found_again:
  assumes "rv_runs db' = rv_runs db @ [r]" "rr_org r = org" "rr_pr r = pr" "rr_dedupe r = key'" "\<not> answered_nothing r"
    and "free_key E pre org pr db n key = Inr key'" "settles E pre org pr db n key"
  shows "free_key E pre org pr db' n key = Inl r"
  using assms(6,7)
proof (induction n arbitrary: key)
  case (Suc n)
  then show ?case using dedupe_appended [OF assms(1)] assms(2-5) by (auto split: option.splits if_splits)
qed simp

lemma key_found_same: "rv_runs db' = rv_runs db \<Longrightarrow> free_key E pre org pr db' n key = free_key E pre org pr db n key"
proof (induction n arbitrary: key)
  case (Suc n)
  then show ?case by (simp add: run_by_dedupe_def split: option.split)
qed simp

lemma free_key_env: "ge_hash E' = ge_hash E \<Longrightarrow> free_key E' pre org pr db n key = free_key E pre org pr db n key"
proof (induction n arbitrary: key)
  case (Suc n)
  then show ?case by (simp split: option.split)
qed simp

lemma settled_free: "free_key E pre org pr db n key = Inr key' \<Longrightarrow> settles E pre org pr db n key \<Longrightarrow> run_by_dedupe org pr key' db = None"
proof (induction n arbitrary: key)
  case (Suc n)
  then show ?case by (auto split: option.splits if_splits)
qed simp

lemma find_map_same: "(\<And>x. P (G x) = P x) \<Longrightarrow> List.find P (map G xs) = map_option G (List.find P xs)"
  by (induction xs) auto

lemma find_update: "(\<And>x. P x \<Longrightarrow> P (f x)) \<Longrightarrow> List.find P (update_rows P f xs) = map_option f (List.find P xs)"
  by (induction xs) (auto simp: update_rows_def)

lemma find_append_new: "List.find P xs = None \<Longrightarrow> List.find P (xs @ [x]) = (if P x then Some x else None)"
  by (induction xs) (auto split: if_splits)

text \<open>What is written of a pull request is there, and written again is the same.\<close>

lemma upsert_cases:
  assumes "upsert_review_pr U org f db = (db1, Inr row)"
  obtains "pr_by_number org (rp_repo row) (pf_number f) db = None" "row = new_pr (next_id (map rp_id (rv_prs db))) org (rp_repo row) f"
      "rv_prs db1 = rv_prs db @ [row]"
    | p where "pr_by_number org (rp_repo row) (pf_number f) db = Some p" "row = known_pr f p"
      "rv_prs db1 = update_rows (same_pr org (rp_repo row) (pf_number f)) (known_pr f) (rv_prs db)"
proof (cases "pr_by_number org (rp_repo row) (pf_number f) db")
  case None
  then show thesis using assms upsert_row(1) [OF assms] that(1) by (auto simp: upsert_review_pr_def Let_def split: if_splits)
next
  case (Some p)
  then show thesis using assms upsert_row(1) [OF assms] that(2) by (auto simp: upsert_review_pr_def Let_def split: if_splits)
qed

lemma upsert_there:
  assumes "upsert_review_pr U org f db = (db1, Inr row)"
  shows "pr_by_number org (rp_repo row) (rp_number row) db1 = Some row" "known_pr f row = row"
    "\<not> (pf_number f \<le> 0 \<or> pf_state f \<noteq> '''' \<and> pf_state f \<notin> set review_pr_states)"
proof -
  have keeps: "same_pr org repo n p \<Longrightarrow> same_pr org repo n (known_pr f p)" for repo n p by (simp add: same_pr_def known_pr_def)
  show "\<not> (pf_number f \<le> 0 \<or> pf_state f \<noteq> '''' \<and> pf_state f \<notin> set review_pr_states)"
    using assms by (simp add: upsert_review_pr_def split: option.splits if_splits)
  note [simp] = upsert_row(2) [OF assms]
  from assms have "pr_by_number org (rp_repo row) (rp_number row) db1 = Some row \<and> known_pr f row = row"
  proof (cases rule: upsert_cases)
    case 1
    have "same_pr org (rp_repo row) (pf_number f) row" by (subst 1(2)) (simp add: same_pr_def new_pr_def)
    moreover have "known_pr f row = row" by (subst (1 2) 1(2)) (simp add: known_pr_def new_pr_def split: option.split)
    ultimately show ?thesis using find_append_new [OF 1(1) [unfolded pr_by_number_def], of row] 1(3) by (simp add: pr_by_number_def)
  next
    case (2 p)
    have "known_pr f (known_pr f p) = known_pr f p" by (simp add: known_pr_def split: option.split)
    then show ?thesis using 2 upsert_row(2) [OF assms, unfolded 2(2)] find_update [of "same_pr org (rp_repo row) (pf_number f)" "known_pr f" "rv_prs db", OF keeps] by (simp add: pr_by_number_def)
  qed
  then show "pr_by_number org (rp_repo row) (rp_number row) db1 = Some row" "known_pr f row = row" by simp_all
qed

lemma upsert_again:
  assumes up: "upsert_review_pr U org f db = (db1, Inr row)" and prs: "rv_prs db' = map G (rv_prs db1)"
    and G: "\<And>p. \<exists>s. G p = p\<lparr>rp_skip := s\<rparr>"
  shows "\<exists>db2 s. upsert_review_pr U org f db' = (db2, Inr (row\<lparr>rp_skip := s\<rparr>)) \<and> rv_runs db2 = rv_runs db' \<and> rv_findings db2 = rv_findings db'"
proof -
  obtain s where s: "G row = row\<lparr>rp_skip := s\<rparr>" using G by blast
  have same: "same_pr org (rp_repo row) (rp_number row) (G p) = same_pr org (rp_repo row) (rp_number row) p" for p
    using G [of p] by (auto simp: same_pr_def)
  have "pr_by_number org (rp_repo row) (rp_number row) db' = Some (row\<lparr>rp_skip := s\<rparr>)"
    using upsert_there(1) [OF up] find_map_same [of "same_pr org (rp_repo row) (rp_number row)" G, OF same] by (simp add: pr_by_number_def prs s)
  moreover have "known_pr f (row\<lparr>rp_skip := s\<rparr>) = row\<lparr>rp_skip := s\<rparr>"
  proof -
    have "known_pr f (row\<lparr>rp_skip := s\<rparr>) = (known_pr f row)\<lparr>rp_skip := s\<rparr>" by (cases "pf_fork f"; cases "pf_private f") (simp_all add: known_pr_def)
    then show ?thesis by (simp add: upsert_there(2) [OF up])
  qed
  ultimately have "upsert_review_pr U org f db' =
      (db'\<lparr>rv_prs := update_rows (same_pr org (rp_repo row) (pf_number f)) (known_pr f) (rv_prs db')\<rparr>, Inr (row\<lparr>rp_skip := s\<rparr>))"
    using upsert_row(1,2) [OF up] upsert_there(3) [OF up] by (simp add: upsert_review_pr_def)
  then show ?thesis by (intro exI conjI) (assumption, simp_all)
qed

text \<open>The same settings at another time, with other money and other ids drawn.\<close>

definition same_settings :: "gate_env \<Rightarrow> gate_env \<Rightarrow> bool" where
  "same_settings E E' \<longleftrightarrow> (\<exists>now usd k1 k2 k3 k4. E' = E\<lparr>ge_now := now, ge_money := usd, ge_key_id := k1, ge_pause_id := k2,
     ge_resync_id := k3, ge_run_id := k4\<rparr>)"

lemma run_specs_env: "run_specs (E\<lparr>ge_now := a, ge_money := b, ge_key_id := c, ge_pause_id := d, ge_resync_id := e, ge_run_id := f\<rparr>) = run_specs E"
proof -
  have "resolve_step (E\<lparr>ge_now := a, ge_money := b, ge_key_id := c, ge_pause_id := d, ge_resync_id := e, ge_run_id := f\<rparr>) = resolve_step E"
    by (simp add: resolve_step_def cong: if_cong option.case_cong)
  then show ?thesis by (intro ext) (simp add: run_specs_def resolve_review_types_def split: option.split)
qed

lemma let_through_env: "let_through (E\<lparr>ge_now := a, ge_money := b, ge_key_id := c, ge_pause_id := d, ge_resync_id := e, ge_run_id := f\<rparr>) = let_through E"
  by (simp add: let_through_def fun_eq_iff reviewed_under_def has_code_review_def review_by_us_def run_specs_env)

lemma let_through_row: "let_through E org repo q (row\<lparr>rp_skip := s\<rparr>) = let_through E org repo q row"
  by (simp add: let_through_def fun_eq_iff)

lemma request_key_env:
  assumes "automatic_trigger (aq_trigger q) \<or> aq_ref q \<noteq> ''''" "ge_hash E' = ge_hash E"
  shows "request_key E' q head pn scope = request_key E q head pn scope"
  using assms by (auto simp: request_key_def review_dedupe_key_def)

lemma enqueue_rows:
  assumes "enqueue_planned E org q row head p planned db = (db', Go r)"
  shows "\<exists>G. rv_prs db' = map G (rv_prs db) \<and> (\<forall>x. \<exists>s. G x = x\<lparr>rp_skip := s\<rparr>)"
proof -
  obtain pn specs where "planned = (pn, specs)" by (cases planned)
  note go = assms [unfolded this planned_Go]
  have same: "\<exists>s. x = x\<lparr>rp_skip := s\<rparr>" for x :: review_pr by (rule exI [of _ "rp_skip x"]) simp
  from go show ?thesis
  proof
    assume "db' = db \<and> free_for E org q row head pn db = Inl r"
    then show ?thesis using same by (intro exI [of _ "\<lambda>x. x"]) auto
  next
    assume "\<exists>key. free_for E org q row head pn db = Inr key \<and>
      enqueue_new E org q row (new_request E q row head p pn specs key) db = (db', Go r)"
    then obtain rq db1 new where run: "enqueue_review_run (ge_now E) (ge_run_id E) org rq db = (db1, Inr (r, new))"
      and skip: "if aq_inline q \<noteq> None then db' = db1 else set_pr_skip_reason org (rp_id row) '''' db1 = (db', None)"
      by (auto simp: enqueue_new_Go)
    let ?G = "\<lambda>x. if aq_inline q = None \<and> is_pr org (rp_id row) x then x\<lparr>rp_skip := ''''\<rparr> else x"
    have "rv_prs db' = map ?G (rv_prs db)" using skip enqueued(2) [OF run]
      by (auto simp: set_pr_skip_reason_def pr_written_def update_pr_def update_rows_def truncate_text_def cong: map_cong split: if_splits)
    then show ?thesis using same by (intro exI [of _ ?G]) auto
  qed
qed

definition key_settles :: "gate_env \<Rightarrow> int \<Rightarrow> string \<Rightarrow> int \<Rightarrow> review_request \<Rightarrow> review_db \<Rightarrow> bool" where
  "key_settles E org repo n q db \<longleftrightarrow> (\<forall>p db1 row head pn specs. taken_in E org repo n q db p db1 row head \<and>
     let_through E org repo (as_try q) row p pn specs \<longrightarrow>
     settles E (request_prefix (as_try q)) org (rp_id row) db1 10 (request_key E (as_try q) head pn (request_scope (as_try q) row)))"


end
