(* ===== verification/Review_Claim_Safety.thy ===== *)
theory Review_Claim_Safety
  imports Review_Gate_Safety
begin

text \<open>
  What a claimed review promises: it goes to the model with its money held beside what the others hold, within every
  limit, and posts live only where the settings, as they are at the claim, or an admin's leave say live.
\<close>

section \<open>A claim that goes on\<close>

fun goes :: "claim_answer \<Rightarrow> bool" where
  "goes (Works pn specs skipped need) = True"
| "goes (Resumes pn specs skipped) = True"
| "goes a = False"

lemma claim_then_goes:
  assumes "\<And>s db. \<not> goes (snd (refuse s db))" "\<And>e. \<not> goes (err e)"
  shows "claim_then refuse err (db, g) f = (db', a) \<Longrightarrow> goes a \<Longrightarrow> \<exists>x. g = Go x \<and> f x db = (db', a)"
proof -
  assume c: "claim_then refuse err (db, g) f = (db', a)" and a: "goes a"
  show "\<exists>x. g = Go x \<and> f x db = (db', a)"
    using c a assms(1) [of _ db] assms(2) by (cases g) (auto simp: claim_then_def, (metis snd_conv)+)
qed

lemma refusals_end [simp]: "\<not> goes (snd (claim_skipped r row s db))" "\<not> goes (snd (claim_broke r row s db))"
  by (simp_all add: claim_skipped_def claim_broke_def)

lemma claim_skipped_goes [simp]: "claim_skipped r row s db = (db', a) \<Longrightarrow> \<not> goes a"
  by (metis refusals_end(1) snd_conv)

text \<open>What every claim that goes on has behind it.\<close>

lemma claim_goes:
  assumes claim: "claim_review E r db = (db', a)" and goes: "goes a"
  shows "\<exists>row eff p pn. review_pr_of (rr_org r) (rr_pr r) db = Some row \<and> rp_state row = ''open'' \<and>
    reviewed_under E (rr_org r) (rr_installation r) (rp_repo row) eff \<and> ge_github E = Some p \<and> pu_state p = ''open'' \<and>
    (let o' = claim_options r (review_options_of E r) in
      planned_as (ge_unicode E) eff p (op_types o') (op_post o') (op_allow_live o') pn \<and> (review_try r \<longrightarrow> op_inline o' \<noteq> None) \<and>
      claim_planned E r row eff p o' (with_label (ge_unicode E) (op_label o') pn) db = (db', a))"
proof -
  let ?o = "claim_options r (review_options_of E r)"
  have inline: "review_try r \<longrightarrow> op_inline ?o \<noteq> None" using claim goes by (auto simp: claim_review_def Let_def split: if_splits)
  obtain row where row: "review_pr_of (rr_org r) (rr_pr r) db = Some row" "rp_state row = ''open''"
    using claim goes inline by (auto simp: claim_review_def Let_def split: option.splits if_splits)
  have "claim_then (claim_skipped r row) Retries (db, review_effective E (rr_org r) (rr_installation r) (rp_repo row)) (\<lambda>eff db.
      (case ge_github E of None \<Rightarrow> (db, Retries Not_read)
       | Some p \<Rightarrow>
         if pu_state p \<noteq> ''open'' then (db, Ends ''cancelled'' ''the pull request was closed'')
         else claim_then (claim_skipped r row) Fails (db, plan_review (ge_unicode E) eff p (op_types ?o) (op_post ?o) (op_allow_live ?o)) (\<lambda>pn db.
           claim_planned E r row eff p ?o (with_label (ge_unicode E) (op_label ?o) pn) db))) = (db', a)"
    using claim inline row by (cases "review_try r") (auto simp: claim_review_def Let_def)
  from claim_then_goes [OF _ _ this goes] obtain eff where eff: "review_effective E (rr_org r) (rr_installation r) (rp_repo row) = Go eff"
    and rest: "(case ge_github E of None \<Rightarrow> (db, Retries Not_read)
       | Some p \<Rightarrow>
         if pu_state p \<noteq> ''open'' then (db, Ends ''cancelled'' ''the pull request was closed'')
         else claim_then (claim_skipped r row) Fails (db, plan_review (ge_unicode E) eff p (op_types ?o) (op_post ?o) (op_allow_live ?o)) (\<lambda>pn db.
           claim_planned E r row eff p ?o (with_label (ge_unicode E) (op_label ?o) pn) db)) = (db', a)" by auto
  from rest goes obtain p where p: "ge_github E = Some p" "pu_state p = ''open''"
    by (cases "ge_github E") (auto split: if_splits)
  with rest have "claim_then (claim_skipped r row) Fails (db, plan_review (ge_unicode E) eff p (op_types ?o) (op_post ?o) (op_allow_live ?o)) (\<lambda>pn db.
      claim_planned E r row eff p ?o (with_label (ge_unicode E) (op_label ?o) pn) db) = (db', a)" by simp
  from claim_then_goes [OF _ _ this goes] obtain pn where
    "plan_review (ge_unicode E) eff p (op_types ?o) (op_post ?o) (op_allow_live ?o) = Go pn"
    "claim_planned E r row eff p ?o (with_label (ge_unicode E) (op_label ?o) pn) db = (db', a)" by auto
  with row eff p inline show ?thesis unfolding Let_def effective_iff plan_review_iff by blast
qed

text \<open>The labels at the claim narrow the types, and change nothing of the plan but its types and labels.\<close>

lemma without_label_keeps [simp]: "pn_eff (without_label_types U rules p don pn) = pn_eff pn" "pn_post (without_label_types U rules p don pn) = pn_post pn"
  by (simp_all add: without_label_types_def Let_def split: prod.split)

lemma labels_at_claim_keep:
  "review_labels_at_claim E r row eff p o' pn db = Inr pn' \<Longrightarrow> pn_eff pn' = pn_eff pn \<and> pn_post pn' = pn_post pn"
  by (auto simp: review_labels_at_claim_def Let_def split: if_splits)

lemma claim_gate_works:
  assumes "claim_gate E r row p o' pn specs skipped db = (db', a)" "goes a"
  shows "a = Works pn specs skipped (run_need r pn) \<and> has_code_review E \<and> key_lets (ge_key E) \<and> specs \<noteq> [] \<and>
    claim_pause E r row o' db = (db, Go ()) \<and>
    affordable E (run_need r pn + review_reserved_usd (ge_now E) (rr_org r) (rr_id r) db) \<and>
    not_throttled E (rr_org r) row (rr_id r) db \<and> hold_in_full r (run_need r pn) db = (db', Go ())"
proof -
  let ?no = "claim_skipped r row" and ?need = "run_need r pn"
  let ?hold = "\<lambda>db. claim_then ?no Retries (hold_in_full r ?need db) (\<lambda>_ db. (db, Works pn specs skipped ?need))"
  let ?throttle = "\<lambda>db. claim_then ?no Retries (db, review_throttled E (rr_org r) row (rr_id r) db) (\<lambda>_ db. ?hold db)"
  let ?money = "\<lambda>db. claim_then (claim_broke r row) Retries (db, review_budget_room E (rr_org r) ?need (rr_id r) db) (\<lambda>_ db. ?throttle db)"
  let ?key = "\<lambda>db. claim_then ?no Retries (db, review_own_key_gate E) (\<lambda>_ db. if specs = [] then ?no types_off db else ?money db)"
  have plan: "review_plan_gate E = None" using assms by (auto simp: claim_gate_def Let_def split: if_splits option.splits)
  have gate: "claim_then ?no Retries (claim_pause E r row o' db) (\<lambda>_ db. ?key db) = (db', a)"
    using assms plan by (auto simp: claim_gate_def Let_def split: if_splits)
  obtain db1 g where pause: "claim_pause E r row o' db = (db1, g)" by (cases "claim_pause E r row o' db")
  from claim_then_goes [OF _ _ gate [unfolded pause] assms(2)] have g: "g = Go ()" and key: "?key db1 = (db', a)" by auto
  have db1: "db1 = db" using pause unfolding g claim_pause_def by (auto simp: auto_paused_Go split: if_splits)
  from claim_then_goes [OF _ _ key assms(2)] assms(2) have k: "review_own_key_gate E = Go ()" "specs \<noteq> []" and money: "?money db1 = (db', a)"
    by (auto split: if_splits)
  from claim_then_goes [OF _ _ money assms(2)] have m: "review_budget_room E (rr_org r) ?need (rr_id r) db1 = Go ()"
    and throttle: "?throttle db1 = (db', a)" by auto
  from claim_then_goes [OF _ _ throttle assms(2)] have th: "review_throttled E (rr_org r) row (rr_id r) db1 = Go ()"
    and hold: "?hold db1 = (db', a)" by auto
  obtain db2 h where held: "hold_in_full r ?need db1 = (db2, h)" by (cases "hold_in_full r ?need db1")
  from claim_then_goes [OF _ _ hold [unfolded held] assms(2)] have "h = Go ()" "db2 = db'" "a = Works pn specs skipped ?need" by auto
  with plan pause g db1 k m th held show ?thesis by (simp add: plan_gate_iff own_key_iff budget_room_iff throttled_iff)
qed

section \<open>The money\<close>

lemma sum_split:
  fixes f :: "'z \<Rightarrow> rat"
  assumes "x \<in> set xs" "distinct (map k xs)" "P x"
  shows "sum_list (map f (filter P xs)) = f x + sum_list (map f (filter (\<lambda>y. P y \<and> k y \<noteq> k x) xs))"
  using assms
proof (induction xs)
  case (Cons y ys)
  show ?case
  proof (cases "y = x")
    case True
    with Cons.prems have "k z \<noteq> k x" if "z \<in> set ys" for z using that by (metis distinct.simps(2) image_eqI list.set_map list.simps(9))
    then have "filter (\<lambda>z. P z \<and> k z \<noteq> k x) ys = filter P ys" by (intro filter_cong) auto
    with True Cons.prems show ?thesis by simp
  next
    case False
    with Cons.prems have "x \<in> set ys" "k y \<noteq> k x" by auto
    with Cons show ?thesis by simp
  qed
qed simp

lemma reserved_split:
  assumes "x \<in> set (rv_runs db)" "distinct (map rr_id (rv_runs db))" "\<forall>y\<in>set (rv_runs db). rr_id y \<noteq> 0" "rr_org x = org" "going now x"
  shows "review_reserved_usd now org 0 db = rr_reserved x + review_reserved_usd now org (rr_id x) db"
proof -
  have "filter (\<lambda>r. rr_org r = org \<and> going now r \<and> rr_id r \<noteq> 0) (rv_runs db) = filter (\<lambda>r. rr_org r = org \<and> going now r) (rv_runs db)"
    using assms(3) by (intro filter_cong) auto
  then show ?thesis
    using sum_split [OF assms(1,2), of "\<lambda>r. rr_org r = org \<and> going now r" rr_reserved] assms(4,5)
    by (simp add: review_reserved_usd_def)
qed

lemma held_in_full:
  assumes "hold_in_full r need db = (db', Go ())" and x: "x \<in> set (rv_runs db)" "has_run r x" "rr_reserved x = rr_reserved r"
    and one: "distinct (map rr_id (rv_runs db))" and need: "rr_reserved r \<le> need"
  shows "\<exists>F. rv_runs db' = map F (rv_runs db) \<and> F x = x\<lparr>rr_reserved := need\<rparr> \<and> (\<forall>y\<in>set (rv_runs db). rr_id y \<noteq> rr_id x \<longrightarrow> F y = y)"
proof (cases "need > rr_reserved r")
  case True
  let ?F = "\<lambda>y. if has_run r y then y\<lparr>rr_reserved := need\<rparr> else y"
  have "rv_runs db' = map ?F (rv_runs db)"
    using assms(1) True by (auto simp: hold_in_full_def set_run_reserved_def update_runs_def update_rows_def split: if_splits)
  moreover have "rr_id y \<noteq> rr_id x \<Longrightarrow> ?F y = y" for y using x(2) by (auto simp: has_run_def is_run_def)
  ultimately show ?thesis using x by (intro exI [of _ ?F]) auto
next
  case False
  with need have "need = rr_reserved x" using x by simp
  moreover have "db' = db" using assms(1) False by (simp add: hold_in_full_def)
  ultimately show ?thesis by (intro exI [of _ "\<lambda>y. y"]) simp
qed


section \<open>Where it posts\<close>

lemma planned_goes:
  assumes "claim_planned E r row eff p o' pn0 db = (db', a)" "goes a"
  shows "\<exists>pn specs skipped. (a = Resumes pn specs skipped \<or> (\<exists>need. a = Works pn specs skipped need)) \<and>
    pn_eff pn = pn_eff pn0 \<and> pn_post pn = pn_post pn0"
proof (cases "resumes E r")
  case True
  then show ?thesis using assms by (auto simp: claim_planned_def Let_def split: prod.splits)
next
  case False
  then obtain pn1 specs skipped where "claim_gate E r row p o' pn1 specs skipped db = (db', a)"
    and "pn1 = pn0 \<or> review_labels_at_claim E r row eff p o' pn0 db = Inr pn1"
    using assms by (auto simp: claim_planned_def Let_def split: if_splits sum.splits prod.splits)
  note gate = claim_gate_works [OF this(1) assms(2)]
  have "pn_eff pn1 = pn_eff pn0 \<and> pn_post pn1 = pn_post pn0"
    using \<open>pn1 = pn0 \<or> _\<close> labels_at_claim_keep by metis
  moreover have "a = Works pn1 specs skipped (run_need r pn1)" using gate by blast
  ultimately show ?thesis by blast
qed

text \<open>C4. A claimed run posts live only if it is no try, the pull request is open, its repository is reviewed under this
  installation, and live is what the settings with the matching rule say at the claim, or what the request asked for with an admin's leave.\<close>

theorem posts_live_only_where_allowed:
  assumes claim: "claim_review E r db = (db', a)" and goes: "a = Works pn specs skipped need \<or> a = Resumes pn specs skipped"
    and live: "pn_post pn = ModeLive"
  shows "\<not> review_try r \<and> (\<exists>row eff p i rule. review_pr_of (rr_org r) (rr_pr r) db = Some row \<and>
    reviewed_under E (rr_org r) (rr_installation r) (rp_repo row) eff \<and> ge_github E = Some p \<and> pu_state p = ''open'' \<and>
    match_rule (x_branch_rules eff) (pl_ref (pu_base p)) (pl_ref (pu_head p)) = Some (i, rule) \<and>
    (x_mode (with_rule eff rule) = ModeLive \<or>
     op_post (review_options_of E r) = ModeLive \<and> op_allow_live (review_options_of E r)))"
proof -
  let ?o = "claim_options r (review_options_of E r)"
  have a: "goes a" using goes by auto
  from claim_goes [OF claim a] obtain row eff p pn0 where row: "review_pr_of (rr_org r) (rr_pr r) db = Some row"
    and under: "reviewed_under E (rr_org r) (rr_installation r) (rp_repo row) eff" and p: "ge_github E = Some p" "pu_state p = ''open''"
    and planned: "planned_as (ge_unicode E) eff p (op_types ?o) (op_post ?o) (op_allow_live ?o) pn0"
    and inline: "review_try r \<longrightarrow> op_inline ?o \<noteq> None"
    and rest: "claim_planned E r row eff p ?o (with_label (ge_unicode E) (op_label ?o) pn0) db = (db', a)" by (auto simp: Let_def)
  from planned_goes [OF rest a] goes live have post: "pn_post pn0 = ModeLive" by auto
  have "op_inline ?o = op_inline (review_options_of E r)" by (auto simp: claim_options_def split: bool.split option.split)
  with inline have o': "?o = (if review_try r then (review_options_of E r)\<lparr>op_post := ModeShadow, op_allow_live := False,
      op_types := [the (op_inline (review_options_of E r))]\<rparr> else review_options_of E r)"
    by (cases "review_try r"; cases "op_inline (review_options_of E r)") (auto simp: claim_options_def)
  have no_try: "\<not> review_try r" using planned post by (auto simp: o' planned_as_def)
  then have "?o = review_options_of E r" by (simp add: o')
  with planned post obtain i rule where "match_rule (x_branch_rules eff) (pl_ref (pu_base p)) (pl_ref (pu_head p)) = Some (i, rule)"
    "x_mode (with_rule eff rule) = ModeLive \<or> op_post (review_options_of E r) = ModeLive \<and> op_allow_live (review_options_of E r)"
    by (auto simp: planned_as_def split: if_splits)
  with no_try row under p show ?thesis by blast
qed

section \<open>A pull request that is closed\<close>

text \<open>C8. When a pull request is closed or goes back to draft, none of its runs is left in the queue and none can be claimed again.\<close>

theorem closed_stops_its_runs:
  assumes "review_closed E org action repo p db = (db', None)"
  shows "\<exists>row\<in>set (rv_prs db'). rp_org row = org \<and> review_repo_name (ge_unicode E) repo = Some (rp_repo row) \<and> rp_number row = pu_number p \<and>
    (\<forall>r\<in>set (rv_runs db'). rr_org r = org \<and> rr_pr r = rp_id row \<longrightarrow> rr_status r \<noteq> ''queued'' \<and> (\<forall>t. \<not> claimable t r))"
proof -
  let ?f = "review_pr_facts (ge_unicode E) repo p"
  from assms obtain db1 row where up: "upsert_review_pr (ge_unicode E) org ?f db = (db1, Inr row)"
    and db': "db' = fst (cancel_review_runs (ge_now E) org (rp_id row)
      (if action = ''converted_to_draft'' then ''the pull request went back to draft'' else ''the pull request was closed'') db1)"
    by (auto simp: review_closed_def split: prod.splits sum.splits)
  have f: "pf_repo ?f = repo" "pf_number ?f = pu_number p" by (simp_all add: review_pr_facts_def)
  have prs: "rv_prs db' = rv_prs db1" by (simp add: db' cancel_review_runs_def update_runs_def Let_def)
  define why where "why = truncate_text
    (if action = ''converted_to_draft'' then ''the pull request went back to draft'' else ''the pull request was closed'') 300"
  define stop where "stop = (\<lambda>x. if stops_now (ge_now E) org (rp_id row) x then stopped_run (ge_now E) why x else x)"
  define ask where "ask = (\<lambda>y. if is_asked (ge_now E) org (rp_id row) y then y\<lparr>rr_cancel := True, rr_error := why\<rparr> else y)"
  have runs: "rv_runs db' = map ask (map stop (rv_runs db1))"
    unfolding db' cancel_review_runs_def Let_def update_runs_def update_rows_def why_def stop_def ask_def by simp
  have stopped: "rr_status r \<noteq> ''queued'' \<and> (\<forall>t. \<not> claimable t r)" if r: "r \<in> set (rv_runs db')" "rr_org r = org" "rr_pr r = rp_id row" for r
  proof -
    from r(1) obtain x where "r = ask (stop x)" unfolding runs by auto
    then have x: "r = (let y = stop x in if is_asked (ge_now E) org (rp_id row) y then y\<lparr>rr_cancel := True, rr_error := why\<rparr> else y)"
      by (simp add: ask_def Let_def)
    show ?thesis
    proof (cases "stops_now (ge_now E) org (rp_id row) x")
      case True
      then have "rr_status r = ''cancelled''" by (simp add: x stop_def Let_def stopped_run_def is_asked_def going_def)
      then show ?thesis by (simp add: claimable_def)
    next
      case False
      then have "of_pr org (rp_id row) x" using r(2,3) by (simp add: x stop_def Let_def of_pr_def split: if_splits)
      with False show ?thesis by (auto simp: x stop_def Let_def stops_now_def is_asked_def going_def claimable_def)
    qed
  qed
  show ?thesis
    by (rule bexI [of _ row]) (use upsert_row [OF up] f prs stopped in auto)
qed

section \<open>At concrete inputs\<close>

text \<open>One repository under one connection, on the defaults with live posting; a pull request opened there.\<close>

definition gate_json :: json where
  "gate_json = \<lparr>js_compact = Some, js_settings = (\<lambda>_. Some (defaults\<lparr>s_mode := Some ModeLive\<rparr>))\<rparr>"

definition gate_tree :: tree_db where
  "gate_tree = \<lparr>td_nodes = [new_connection 1 1 ''p1'' 9 ''{}'' ''ann'' 1], td_last = 1,
     td_installs = [\<lparr>gi_org = 1, gi_installation = 9, gi_status = None\<rparr>]\<rparr>"

definition gate_pull :: pull where
  "gate_pull = \<lparr>pu_number = 7, pu_state = ''open'', pu_draft = False, pu_merged = False, pu_title = ''Add a page'',
     pu_user = \<lparr>gu_login = ''ann'', gu_type = ''User''\<rparr>,
     pu_head = \<lparr>pl_sha = replicate 40 (CHR ''a''), pl_ref = ''topic'', pl_repo = Some \<lparr>pq_name = ''Acme/App'', pq_private = True\<rparr>\<rparr>,
     pu_base = \<lparr>pl_sha = replicate 40 (CHR ''b''), pl_ref = ''main'', pl_repo = Some \<lparr>pq_name = ''Acme/App'', pq_private = True\<rparr>\<rparr>,
     pu_labels = []\<rparr>"

definition gate_sample :: gate_env where
  "gate_sample = \<lparr>ge_unicode = ascii_tables, ge_json = gate_json, ge_now = 5 * nanos, ge_running = True, ge_code_review = ''all'',
     ge_plan = ''free'', ge_tree = gate_tree, ge_connections = [], ge_bot = '''',
     ge_key = \<lparr>ok_present = False, ok_allowed = True, ok_unknown = False, ok_reviews = False\<rparr>, ge_key_refusal = '''',
     ge_type_rows = (\<lambda>_. None), ge_builtin = (\<lambda>k. k = default_type),
     ge_money = \<lparr>mo_billing_unknown = False, mo_credit_enforced = True, mo_allowance = False, mo_credit = Some (4000000, True),
       mo_budget = 3, mo_platform_budget = 0, mo_spent = (\<lambda>_. Some 0), mo_month_cap = 0, mo_month_spent = (\<lambda>_. None),
       mo_day_cap = 2, mo_day_spent = (\<lambda>_. Some 0)\<rparr>,
     ge_usd = (\<lambda>_. ''1.00''), ge_hash = concat, ge_key_id = ''k'', ge_pause_id = ''p'', ge_resync_id = ''s'', ge_run_id = ''r1'',
     ge_config = (\<lambda>_. ''c''), ge_encode = (\<lambda>_. ''{}''), ge_decode = (\<lambda>_. Some no_options), ge_checkpoint = (\<lambda>_. False),
     ge_github = Some gate_pull\<rparr>"

definition opened :: review_request where
  "opened = (event_request \<lparr>ev_id = ''d1'', ev_installation = 9, ev_action = ''opened'', ev_number = 7, ev_label = '''',
     ev_pull = gate_pull, ev_repo = ''Acme/App'', ev_sender = \<lparr>gu_login = ''ann'', gu_type = ''User''\<rparr>\<rparr> gate_pull)\<lparr>aq_trigger := ''open''\<rparr>"

definition opened_db :: review_db where
  "opened_db = fst (enqueue_review gate_sample 1 ''Acme/App'' 7 opened empty_db)"

definition opened_run :: review_run where
  "opened_run = (case snd (enqueue_review gate_sample 1 ''Acme/App'' 7 opened empty_db) of Go r \<Rightarrow> r)"

lemma opened_answer: "enqueue_review gate_sample 1 ''Acme/App'' 7 opened empty_db = (opened_db, Go opened_run)"
proof -
  have "case snd (enqueue_review gate_sample 1 ''Acme/App'' 7 opened empty_db) of Go r \<Rightarrow> True | _ \<Rightarrow> False" by code_simp
  then show ?thesis by (cases "enqueue_review gate_sample 1 ''Acme/App'' 7 opened empty_db") (auto simp: opened_db_def opened_run_def split: gate.splits)
qed

lemma opened_fresh: "opened_run \<notin> set (rv_runs empty_db)"
  by (simp add: empty_db_def)

theorem queued_was_let_through_witness:
  "\<exists>p db1 row head pn specs. taken_in gate_sample 1 ''Acme/App'' 7 opened empty_db p db1 row head \<and>
     let_through gate_sample 1 ''Acme/App'' (as_try opened) row p pn specs \<and> rr_types opened_run = specs"
  using queued_was_let_through [OF opened_answer opened_fresh] by blast


definition opened_upsert :: "review_db \<times> (review_error + review_pr)" where
  "opened_upsert = upsert_review_pr ascii_tables 1 (request_facts ascii_tables ''Acme/App'' opened gate_pull) empty_db"

definition opened_row :: review_pr where
  "opened_row = (case snd opened_upsert of Inr row \<Rightarrow> row)"

definition opened_plan :: "review_plan \<times> (string \<times> int) list" where
  "opened_plan = (case gate_plan gate_sample 1 ''Acme/App'' opened opened_row gate_pull of Go x \<Rightarrow> x)"

definition opened_key :: string where
  "opened_key = (case free_for gate_sample 1 opened opened_row (rp_head opened_row) (fst opened_plan) (fst opened_upsert) of Inr k \<Rightarrow> k)"

lemma opened_as_try: "as_try opened = opened"
  by (simp add: as_try_def opened_def event_request_def)

lemma sample_unicode: "ge_unicode gate_sample = ascii_tables"
  by (simp add: gate_sample_def)

theorem let_through_is_queued_witness:
  "\<exists>db' r. enqueue_review gate_sample 1 ''Acme/App'' 7 opened empty_db = (db', Go r) \<and> r \<notin> set (rv_runs empty_db)"
proof (rule let_through_is_queued [where p = gate_pull and row = opened_row and ?db1.0 = "fst opened_upsert" and
      head = "rp_head opened_row" and pn = "fst opened_plan" and specs = "snd opened_plan" and key = opened_key], unfold opened_as_try)
  have "case snd opened_upsert of Inr row \<Rightarrow> True | _ \<Rightarrow> False" by code_simp
  then have up: "opened_upsert = (fst opened_upsert, Inr opened_row)" by (auto simp: opened_row_def prod_eq_iff split: sum.splits)
  have "ge_running gate_sample \<and> bad_review_request ''Acme/App'' 7 opened = None \<and> request_pull gate_sample 7 opened = Some gate_pull \<and>
    \<not> own_head opened" by code_simp
  with up show "taken_in gate_sample 1 ''Acme/App'' 7 opened empty_db gate_pull (fst opened_upsert) opened_row (rp_head opened_row)"
    by (simp add: taken_in_def opened_as_try sample_unicode opened_upsert_def)
  have "case gate_plan gate_sample 1 ''Acme/App'' opened opened_row gate_pull of Go x \<Rightarrow> True | _ \<Rightarrow> False" by code_simp
  then have "gate_plan gate_sample 1 ''Acme/App'' opened opened_row gate_pull = Go (fst opened_plan, snd opened_plan)"
    by (auto simp: opened_plan_def split: gate.splits)
  then show "let_through gate_sample 1 ''Acme/App'' opened opened_row gate_pull (fst opened_plan) (snd opened_plan)"
    by (simp only: gate_plan_iff)
  have "rp_paused opened_row = 0 \<and> rp_auto opened_row < 5 \<and>
    review_budget_room gate_sample 1 (request_usd (fst opened_plan)) 0 (fst opened_upsert) = Go () \<and>
    review_throttled gate_sample 1 opened_row 0 (fst opened_upsert) = Go ()" by code_simp
  then show "has_room gate_sample 1 opened opened_row (request_usd (fst opened_plan)) (fst opened_upsert)"
    by (simp add: has_room_def budget_room_iff throttled_iff)
  show "0 \<le> request_usd (fst opened_plan)" by code_simp
  show "free_for gate_sample 1 opened opened_row (rp_head opened_row) (fst opened_plan) (fst opened_upsert) = Inr opened_key" by code_simp
  show "run_by_dedupe 1 (rp_id opened_row) opened_key (fst opened_upsert) = None" by code_simp
qed


definition claim_pr :: review_pr where
  "claim_pr = (new_pr 1 1 ''acme/app'' (review_pr_facts ascii_tables ''Acme/App'' gate_pull))\<lparr>rp_lease := 66 * nanos\<rparr>"

definition claimed_copy :: review_run where
  "claimed_copy = claimed_run (6 * nanos) (queued_run (5 * nanos) ''r1'' 1 claim_pr (sample_request ''a''))"

definition running_db :: review_db where
  "running_db = \<lparr>rv_prs = [claim_pr], rv_runs = [claimed_copy], rv_findings = []\<rparr>"

definition claim_env :: gate_env where
  "claim_env = gate_sample\<lparr>ge_now := 7 * nanos\<rparr>"

definition claim_work :: "review_plan \<times> (string \<times> int) list \<times> (string \<times> string) list \<times> rat" where
  "claim_work = (case snd (claim_review claim_env claimed_copy running_db) of Works pn specs skipped need \<Rightarrow> (pn, specs, skipped, need))"

definition worked_db :: review_db where
  "worked_db = fst (claim_review claim_env claimed_copy running_db)"

lemma claim_works: "claim_review claim_env claimed_copy running_db =
    (worked_db, Works (fst claim_work) (fst (snd claim_work)) (fst (snd (snd claim_work))) (snd (snd (snd claim_work))))"
proof -
  have "case snd (claim_review claim_env claimed_copy running_db) of Works pn specs skipped need \<Rightarrow> True | _ \<Rightarrow> False" by code_simp
  then show ?thesis by (cases "claim_review claim_env claimed_copy running_db") (auto simp: claim_work_def worked_db_def split: claim_answer.splits)
qed


theorem posts_live_only_where_allowed_witness: "pn_post (fst claim_work) = ModeLive \<and> \<not> review_try claimed_copy"
proof -
  have live: "pn_post (fst claim_work) = ModeLive" by code_simp
  with posts_live_only_where_allowed [OF claim_works disjI1 [OF refl]] show ?thesis by blast
qed

theorem closed_stops_its_runs_witness:
  "\<exists>row\<in>set (rv_prs (fst (review_closed gate_sample 1 ''closed'' ''Acme/App'' (gate_pull\<lparr>pu_state := ''closed''\<rparr>) opened_db))).
     rp_number row = 7"
proof -
  let ?c = "review_closed gate_sample 1 ''closed'' ''Acme/App'' (gate_pull\<lparr>pu_state := ''closed''\<rparr>) opened_db"
  have "snd ?c = None" by code_simp
  then have "?c = (fst ?c, None)" by (metis prod.collapse)
  from closed_stops_its_runs [OF this] show ?thesis by (auto simp: gate_pull_def)
qed

end
