(* ===== verification/Type_Store.thy ===== *)
theory Type_Store
  imports Types Review_Rows
begin

text \<open>
  The organisation's review types as the store keeps them (\<^verbatim>\<open>internal/app/store_review.go\<close>, and the rule learned from
  a reply of \<^verbatim>\<open>store_review_threads.go\<close>): the rows of types, rules and versions, and every operation on them. A
  transaction is one function on the tables, which are the ones it was given when the code rolls it back. A snapshot is
  the value its JSON encodes, without the ids JSON leaves out. The public ids the code draws are a function of the
  place they are drawn at; one drawn twice meets the unique index, as in the code. A sum of money is a rational.
\<close>

section \<open>Rows\<close>

record rule_entry =
  ru_id :: int
  ru_public :: string
  ru_position :: nat
  ru_text :: string
  ru_cap :: severity
  ru_globs :: "string list"
  ru_bad :: string
  ru_good :: string
  ru_enabled :: bool
  ru_source :: string
  ru_status :: string
  ru_from :: string
  ru_created :: int
  ru_updated :: int

record type_entry =
  te_id :: int
  te_public :: string
  te_key :: string
  te_builtin :: string
  te_name :: string
  te_purpose :: string
  te_globs :: "string list"
  te_strictness :: strictness
  te_model :: string
  te_usd :: rat
  te_inline :: severity
  te_enabled :: bool
  te_version :: int
  te_by :: string
  te_created :: int
  te_updated :: int
  te_rules :: "rule_entry list"
  te_skills :: "skill_link list"

text \<open>A row of \<^verbatim>\<open>review_types\<close> holds no rules of its own; those are the rows of \<^verbatim>\<open>review_type_rules\<close>.\<close>

record type_row =
  tw_org :: int
  tw_type :: type_entry
  tw_deleted :: stamp

record rule_row =
  rw_org :: int
  rw_type :: int
  rw_rule :: rule_entry

record version_row =
  vw_org :: int
  vw_type :: int
  vw_version :: int
  vw_snapshot :: type_entry
  vw_by :: string
  vw_created :: int

record type_db =
  tb_types :: "type_row list"
  tb_rules :: "rule_row list"
  tb_versions :: "version_row list"
  tb_last_type :: int
  tb_last_rule :: int

datatype store_error = Type_not_found | Key_taken | Key_of_deleted | Type_stale
  | Type_invalid "type_error list" "string list" | Not_unique | Nil_type

section \<open>Reading\<close>

definition row_id :: "type_row \<Rightarrow> int" where
  "row_id w = te_id (tw_type w)"

definition rules_of :: "int \<Rightarrow> int \<Rightarrow> type_db \<Rightarrow> rule_entry list" where
  "rules_of org ty db = map rw_rule (sort_key (\<lambda>w. ru_position (rw_rule w)) (sort_key (\<lambda>w. ru_id (rw_rule w))
     (filter (\<lambda>w. rw_org w = org \<and> rw_type w = ty) (tb_rules db))))"

definition with_rules :: "int \<Rightarrow> type_db \<Rightarrow> type_entry \<Rightarrow> type_entry" where
  "with_rules org db t = t\<lparr>te_rules := rules_of org (te_id t) db\<rparr>"

definition is_live :: "int \<Rightarrow> type_row \<Rightarrow> bool" where
  "is_live org w \<longleftrightarrow> tw_org w = org \<and> tw_deleted w = None"

definition review_type_where :: "int \<Rightarrow> (type_entry \<Rightarrow> bool) \<Rightarrow> type_db \<Rightarrow> type_entry option" where
  "review_type_where org P db = map_option (\<lambda>w. with_rules org db (tw_type w)) (List.find (\<lambda>w. is_live org w \<and> P (tw_type w)) (tb_types db))"

definition review_types_list :: "int \<Rightarrow> type_db \<Rightarrow> type_entry list" where
  "review_types_list org db = map (\<lambda>w. with_rules org db (tw_type w)) (sort_key row_id (filter (is_live org) (tb_types db)))"

definition review_type_by_public_id :: "int \<Rightarrow> string \<Rightarrow> type_db \<Rightarrow> type_entry option" where
  "review_type_by_public_id org pub = review_type_where org (\<lambda>t. te_public t = pub)"

definition review_type_by_key :: "int \<Rightarrow> string \<Rightarrow> type_db \<Rightarrow> type_entry option" where
  "review_type_by_key org key = review_type_where org (\<lambda>t. te_key t = key)"

section \<open>What a type may hold\<close>

definition engine_rule :: "rule_entry \<Rightarrow> type_rule" where
  "engine_rule r = \<lparr>tr_text = ru_text r, tr_cap = ru_cap r, tr_globs = ru_globs r, tr_source = ru_source r,
     tr_bad = ru_bad r, tr_good = ru_good r, tr_off = (\<not> ru_enabled r)\<rparr>"

definition engine_type :: "string \<Rightarrow> type_entry \<Rightarrow> review_type" where
  "engine_type key t = \<lparr>ty_key = key, ty_name = te_name t, ty_purpose = te_purpose t, ty_strictness = te_strictness t,
     ty_globs = te_globs t, ty_inline = te_inline t, ty_rules = map engine_rule (te_rules t), ty_skills = te_skills t\<rparr>"

definition rule_statuses :: "string list" where
  "rule_statuses = ['''', ''active'', ''proposed'', ''rejected'']"

definition check_review_type :: "unicode \<Rightarrow> type_entry \<Rightarrow> string \<Rightarrow> store_error option" where
  "check_review_type U t key =
     (let errs = validate_type U (engine_type key t);
          bad = map (\<lambda>(i, r). rule_id i) (filter (\<lambda>(i, r). ru_status r \<notin> set rule_statuses) (enumerate 0 (te_rules t)))
      in if errs = [] \<and> bad = [] then None else Some (Type_invalid errs bad))"

section \<open>The rules of a type\<close>

definition stored_rule :: "int \<Rightarrow> int \<Rightarrow> string \<Rightarrow> type_db \<Rightarrow> rule_entry option" where
  "stored_rule org ty pub db = map_option rw_rule (List.find (\<lambda>w. rw_org w = org \<and> rw_type w = ty \<and> ru_public (rw_rule w) = pub) (tb_rules db))"

text \<open>An edited rule keeps its source and the comment it came from, and its status unless the save says one.\<close>

definition edited_rule :: "nat \<Rightarrow> rule_entry \<Rightarrow> string \<Rightarrow> int \<Rightarrow> rule_entry \<Rightarrow> rule_entry" where
  "edited_rule i r status now old = old\<lparr>ru_position := i, ru_text := trim_space (ru_text r), ru_cap := ru_cap r, ru_globs := ru_globs r,
     ru_bad := ru_bad r, ru_good := ru_good r, ru_enabled := ru_enabled r,
     ru_status := (if ru_status r = '''' then status else ru_status r), ru_updated := now\<rparr>"

definition update_rule :: "int \<Rightarrow> int \<Rightarrow> (rule_entry \<Rightarrow> rule_entry) \<Rightarrow> type_db \<Rightarrow> type_db" where
  "update_rule org i f db = db\<lparr>tb_rules := update_rows (\<lambda>w. rw_org w = org \<and> ru_id (rw_rule w) = i)
     (\<lambda>w. w\<lparr>rw_rule := f (rw_rule w)\<rparr>) (tb_rules db)\<rparr>"

definition added_rule :: "nat \<Rightarrow> rule_entry \<Rightarrow> string \<Rightarrow> int \<Rightarrow> int \<Rightarrow> rule_entry" where
  "added_rule i r pub now n = (let source = (if ru_source r = '''' then ''team'' else ru_source r) in
     r\<lparr>ru_id := n, ru_public := pub, ru_position := i, ru_text := trim_space (ru_text r), ru_source := source,
       ru_status := (if ru_status r = '''' then (if source = ''learned'' then ''proposed'' else ''active'') else ru_status r),
       ru_created := now, ru_updated := now\<rparr>)"

definition insert_rule :: "int \<Rightarrow> int \<Rightarrow> (int \<Rightarrow> rule_entry) \<Rightarrow> type_db \<Rightarrow> store_error + type_db" where
  "insert_rule org ty f db = (let n = tb_last_rule db + 1; r = f n in
     if ru_public r \<in> (ru_public \<circ> rw_rule) ` set (tb_rules db) then Inl Not_unique
     else Inr (db\<lparr>tb_rules := tb_rules db @ [\<lparr>rw_org = org, rw_type = ty, rw_rule = r\<rparr>], tb_last_rule := n\<rparr>))"

text \<open>\<open>old\<close> is the tables as they were before; each rule in turn, and the ids kept so far.\<close>

fun save_rules :: "int \<Rightarrow> int \<Rightarrow> (nat \<Rightarrow> string) \<Rightarrow> int \<Rightarrow> type_db \<Rightarrow> nat \<Rightarrow> rule_entry list \<Rightarrow> int list \<Rightarrow> type_db \<Rightarrow>
    store_error + type_db \<times> int list" where
  "save_rules org ty pubs now old i [] kept db = Inr (db, kept)"
| "save_rules org ty pubs now old i (r # rs) kept db =
     (let add = (case insert_rule org ty (added_rule i r (pubs i) now) db of Inl e \<Rightarrow> Inl e
            | Inr db' \<Rightarrow> save_rules org ty pubs now old (Suc i) rs kept db')
      in case stored_rule org ty (ru_public r) old of
           Some o' \<Rightarrow> if ru_public r \<noteq> '''' \<and> ru_id o' \<notin> set kept
             then save_rules org ty pubs now old (Suc i) rs (kept @ [ru_id o']) (update_rule org (ru_id o') (edited_rule i r (ru_status o') now) db)
             else add
         | None \<Rightarrow> add)"

definition rule_gone :: "int \<Rightarrow> int \<Rightarrow> int list \<Rightarrow> type_db \<Rightarrow> rule_row \<Rightarrow> bool" where
  "rule_gone org ty kept old w \<longleftrightarrow> rw_org w = org \<and> ru_id (rw_rule w) \<notin> set kept \<and>
     list_ex (\<lambda>o'. rw_org o' = org \<and> rw_type o' = ty \<and> ru_id (rw_rule o') = ru_id (rw_rule w)) (tb_rules old)"

definition save_review_type_rules :: "int \<Rightarrow> int \<Rightarrow> rule_entry list \<Rightarrow> (nat \<Rightarrow> string) \<Rightarrow> int \<Rightarrow> type_db \<Rightarrow> store_error + type_db" where
  "save_review_type_rules org ty rules pubs now db = (case save_rules org ty pubs now db 0 rules [] db of Inl e \<Rightarrow> Inl e
     | Inr (db', kept) \<Rightarrow> Inr (db'\<lparr>tb_rules := filter (\<lambda>w. \<not> rule_gone org ty kept db w) (tb_rules db')\<rparr>))"

section \<open>Versions\<close>

text \<open>\<^verbatim>\<open>json:"-"\<close>: the row's own number is not in the snapshot, nor a rule's.\<close>

definition packed :: "type_entry \<Rightarrow> type_entry" where
  "packed t = t\<lparr>te_id := 0, te_rules := map (\<lambda>r. r\<lparr>ru_id := 0\<rparr>) (te_rules t)\<rparr>"

definition snapshot_review_type :: "int \<Rightarrow> int \<Rightarrow> string \<Rightarrow> int \<Rightarrow> type_db \<Rightarrow> store_error + type_db \<times> type_entry" where
  "snapshot_review_type org ty by' now db = (case review_type_where org (\<lambda>t. te_id t = ty) db of None \<Rightarrow> Inl Type_not_found
     | Some t \<Rightarrow> if list_ex (\<lambda>v. vw_org v = org \<and> vw_type v = ty \<and> vw_version v = te_version t) (tb_versions db) then Inl Not_unique
         else Inr (db\<lparr>tb_versions := tb_versions db @ [\<lparr>vw_org = org, vw_type = ty, vw_version = te_version t, vw_snapshot = packed t,
           vw_by = by', vw_created = now\<rparr>]\<rparr>, t))"

text \<open>Newest first: the number, and by whom and when.\<close>

definition review_type_versions :: "int \<Rightarrow> int \<Rightarrow> type_db \<Rightarrow> (int \<times> string \<times> int) list" where
  "review_type_versions org ty db = map (\<lambda>v. (vw_version v, vw_by v, vw_created v))
     (rev (sort_key vw_version (filter (\<lambda>v. vw_org v = org \<and> vw_type v = ty) (tb_versions db))))"

definition review_type_at_version :: "int \<Rightarrow> int \<Rightarrow> int \<Rightarrow> type_db \<Rightarrow> type_entry option" where
  "review_type_at_version org ty n db = map_option (\<lambda>v. (vw_snapshot v)\<lparr>te_id := ty\<rparr>)
     (List.find (\<lambda>v. vw_org v = org \<and> vw_type v = ty \<and> vw_version v = n) (tb_versions db))"

text \<open>
  Who saved the first version that holds a rule learned from a comment, and the rule as it was saved there. \<open>alike\<close> is how
  the database's \<^verbatim>\<open>like\<close> compares (SQLite's ignores case); a rule from no comment is left out of the JSON.
\<close>

definition review_rule_first_version :: "(string \<Rightarrow> string \<Rightarrow> bool) \<Rightarrow> int \<Rightarrow> int \<Rightarrow> string \<Rightarrow> type_db \<Rightarrow> (string \<times> string) option" where
  "review_rule_first_version alike org ty url db =
     (case List.find (\<lambda>v. list_ex (\<lambda>r. ru_from r \<noteq> '''' \<and> alike (ru_from r) url) (te_rules (vw_snapshot v)))
         (sort_key vw_version (filter (\<lambda>v. vw_org v = org \<and> vw_type v = ty) (tb_versions db))) of
       None \<Rightarrow> None
     | Some v \<Rightarrow> map_option (\<lambda>r. (vw_by v, ru_text r)) (List.find (\<lambda>r. ru_from r = url) (te_rules (vw_snapshot v))))"

section \<open>Making, saving and deleting a type\<close>

type_synonym 'a type_op = "type_db \<Rightarrow> type_db \<times> (store_error + 'a)"

definition committed :: "type_db \<Rightarrow> store_error + type_db \<times> 'a \<Rightarrow> type_db \<times> (store_error + 'a)" where
  "committed db r = (case r of Inl e \<Rightarrow> (db, Inl e) | Inr (db', x) \<Rightarrow> (db', Inr x))"

definition new_type :: "string \<Rightarrow> type_entry \<Rightarrow> string \<Rightarrow> int \<Rightarrow> int \<Rightarrow> type_entry" where
  "new_type pub t by' now n = t\<lparr>te_id := n, te_public := pub, te_name := trim_space (te_name t), te_version := 1, te_by := by',
     te_created := now, te_updated := now, te_rules := []\<rparr>"

definition insert_type :: "int \<Rightarrow> type_entry \<Rightarrow> string \<Rightarrow> string \<Rightarrow> int \<Rightarrow> type_db \<Rightarrow> type_db" where
  "insert_type org t pub by' now db = (let n = tb_last_type db + 1 in
     db\<lparr>tb_types := tb_types db @ [\<lparr>tw_org = org, tw_type = new_type pub t by' now n, tw_deleted = None\<rparr>], tb_last_type := n\<rparr>)"

definition has_key :: "int \<Rightarrow> string \<Rightarrow> type_row \<Rightarrow> bool" where
  "has_key org key w \<longleftrightarrow> tw_org w = org \<and> te_key (tw_type w) = key"

definition create_review_type :: "unicode \<Rightarrow> int \<Rightarrow> type_entry \<Rightarrow> string \<Rightarrow> int \<Rightarrow> string \<Rightarrow> (nat \<Rightarrow> string) \<Rightarrow> type_entry type_op" where
  "create_review_type U org t by' now pub pubs db =
     (case check_review_type U t (te_key t) of Some e \<Rightarrow> (db, Inl e) | None \<Rightarrow>
        if list_ex (\<lambda>w. has_key org (te_key t) w \<or> te_public (tw_type w) = pub) (tb_types db)
        then (db, Inl (if list_ex (\<lambda>w. has_key org (te_key t) w \<and> tw_deleted w \<noteq> None) (tb_types db) then Key_of_deleted else Key_taken))
        else (let n = tb_last_type db + 1 in committed db
          (case save_review_type_rules org n (te_rules t) pubs now (insert_type org t pub by' now db) of Inl e \<Rightarrow> Inl e
           | Inr db' \<Rightarrow> snapshot_review_type org n by' now db')))"

definition copy_of_builtin :: "type_entry \<Rightarrow> type_entry" where
  "copy_of_builtin t = t\<lparr>te_builtin := te_key t,
     te_rules := map (\<lambda>r. r\<lparr>ru_source := ''builtin'', ru_status := ''active'', ru_from := ''''\<rparr>) (te_rules t)\<rparr>"

text \<open>\<open>None\<close> is a nil type returned with no error.\<close>

definition copy_builtin_review_type :: "unicode \<Rightarrow> int \<Rightarrow> type_entry \<Rightarrow> string \<Rightarrow> int \<Rightarrow> string \<Rightarrow> (nat \<Rightarrow> string) \<Rightarrow> type_entry option type_op" where
  "copy_builtin_review_type U org builtin by' now pub pubs db =
     (case review_type_by_key org (te_key builtin) db of
       Some t \<Rightarrow> if te_builtin t \<noteq> te_key builtin then (db, Inl Key_taken) else (db, Inr (Some t))
     | None \<Rightarrow> (case create_review_type U org (copy_of_builtin builtin) by' now pub pubs db of
         (db', Inr t) \<Rightarrow> (db', Inr (Some t))
       | (db', Inl e) \<Rightarrow> if e = Key_taken \<or> e = Key_of_deleted then (db', Inr (review_type_by_key org (te_key builtin) db')) else (db', Inl e)))"

definition own_row :: "int \<Rightarrow> int \<Rightarrow> type_row \<Rightarrow> bool" where
  "own_row org ty w \<longleftrightarrow> is_live org w \<and> row_id w = ty"

definition update_types :: "(type_row \<Rightarrow> bool) \<Rightarrow> (type_row \<Rightarrow> type_row) \<Rightarrow> type_db \<Rightarrow> type_db" where
  "update_types P f db = db\<lparr>tb_types := update_rows P f (tb_types db)\<rparr>"

definition delete_review_type :: "int \<Rightarrow> int \<Rightarrow> int \<Rightarrow> string \<Rightarrow> int \<Rightarrow> unit type_op" where
  "delete_review_type org ty version by' now db =
     (let own = (\<lambda>w. own_row org ty w \<and> te_builtin (tw_type w) = ''''); this = (\<lambda>w. own w \<and> te_version (tw_type w) = version) in
      if list_ex this (tb_types db)
      then (update_types this (\<lambda>w. w\<lparr>tw_deleted := Some now, tw_type := (tw_type w)\<lparr>te_by := by', te_updated := now\<rparr>\<rparr>) db, Inr ())
      else (db, Inl (if list_ex own (tb_types db) then Type_stale else Type_not_found)))"

definition saved_type :: "type_entry \<Rightarrow> string \<Rightarrow> int \<Rightarrow> type_entry \<Rightarrow> type_entry" where
  "saved_type t by' now old = old\<lparr>te_name := trim_space (te_name t), te_purpose := te_purpose t, te_globs := te_globs t,
     te_strictness := te_strictness t, te_model := te_model t, te_usd := te_usd t, te_inline := te_inline t,
     te_enabled := te_enabled t, te_skills := te_skills t, te_version := te_version old + 1, te_by := by', te_updated := now\<rparr>"

definition save_review_type :: "unicode \<Rightarrow> int \<Rightarrow> type_entry \<Rightarrow> string \<Rightarrow> int \<Rightarrow> (nat \<Rightarrow> string) \<Rightarrow> type_entry type_op" where
  "save_review_type U org t by' now pubs db =
     (case List.find (own_row org (te_id t)) (tb_types db) of None \<Rightarrow> (db, Inl Type_not_found)
      | Some w \<Rightarrow> (case check_review_type U t (te_key (tw_type w)) of Some e \<Rightarrow> (db, Inl e) | None \<Rightarrow>
          if te_version (tw_type w) \<noteq> te_version t then (db, Inl Type_stale)
          else committed db (case save_review_type_rules org (te_id t) (te_rules t) pubs now
               (update_types (own_row org (te_id t)) (\<lambda>w. w\<lparr>tw_type := saved_type t by' now (tw_type w)\<rparr>) db) of Inl e \<Rightarrow> Inl e
             | Inr db' \<Rightarrow> snapshot_review_type org (te_id t) by' now db')))"

section \<open>A rule learned from a reply\<close>

definition no_entry :: type_entry where
  "no_entry = \<lparr>te_id = 0, te_public = '''', te_key = '''', te_builtin = '''', te_name = '''', te_purpose = '''', te_globs = [],
     te_strictness = '''', te_model = '''', te_usd = 0, te_inline = '''', te_enabled = False, te_version = 0, te_by = '''',
     te_created = 0, te_updated = 0, te_rules = [], te_skills = []\<rparr>"

definition no_rule :: rule_entry where
  "no_rule = \<lparr>ru_id = 0, ru_public = '''', ru_position = 0, ru_text = '''', ru_cap = '''', ru_globs = [], ru_bad = '''', ru_good = '''',
     ru_enabled = False, ru_source = '''', ru_status = '''', ru_from = '''', ru_created = 0, ru_updated = 0\<rparr>"

definition row_of_builtin :: "review_type \<Rightarrow> type_entry" where
  "row_of_builtin t = no_entry\<lparr>te_key := ty_key t, te_name := ty_name t, te_purpose := ty_purpose t, te_globs := ty_globs t,
     te_strictness := ty_strictness t, te_inline := ty_inline t, te_enabled := True, te_skills := ty_skills t,
     te_rules := map (\<lambda>r. no_rule\<lparr>ru_text := tr_text r, ru_cap := tr_cap r, ru_globs := tr_globs r, ru_bad := tr_bad r,
       ru_good := tr_good r, ru_enabled := (\<not> tr_off r), ru_source := ''builtin'', ru_status := ''active''\<rparr>) (ty_rules t)\<rparr>"

definition learned_rule :: "string \<Rightarrow> string \<Rightarrow> rule_entry" where
  "learned_rule text url = no_rule\<lparr>ru_text := text, ru_enabled := True, ru_source := ''learned'', ru_status := ''proposed'',
     ru_from := truncate_text url 500\<rparr>"

text \<open>The type to learn in, with the copy of a built-in made if there is none; the code dereferences a nil one.\<close>

definition type_to_learn :: "unicode \<Rightarrow> (string \<Rightarrow> review_type option) \<Rightarrow> int \<Rightarrow> string \<Rightarrow> string \<Rightarrow> int \<Rightarrow> string \<Rightarrow> (nat \<Rightarrow> string) \<Rightarrow>
    type_entry type_op" where
  "type_to_learn U builtins org key by' now pub pubs db = (case review_type_by_key org key db of Some t \<Rightarrow> (db, Inr t)
     | None \<Rightarrow> (case builtins key of None \<Rightarrow> (db, Inl Type_not_found)
       | Some b \<Rightarrow> (case copy_builtin_review_type U org (row_of_builtin b) by' now pub pubs db of
           (db', Inl e) \<Rightarrow> (db', Inl e) | (db', Inr None) \<Rightarrow> (db', Inl Nil_type) | (db', Inr (Some t)) \<Rightarrow> (db', Inr t))))"

text \<open>
  One attempt: \<open>between\<close> is what others do to the tables after the type was read and before it is saved. The answer is the
  type and whether the rule was added.
\<close>

definition propose_once :: "unicode \<Rightarrow> (string \<Rightarrow> review_type option) \<Rightarrow> int \<Rightarrow> string \<Rightarrow> string \<Rightarrow> string \<Rightarrow> string \<Rightarrow> int \<Rightarrow> string \<Rightarrow>
    (nat \<Rightarrow> string) \<Rightarrow> (nat \<Rightarrow> string) \<Rightarrow> (type_db \<Rightarrow> type_db) \<Rightarrow> (type_entry \<times> bool) type_op" where
  "propose_once U builtins org key text url by' now pub pubs pubs' between db =
     (case type_to_learn U builtins org key by' now pub pubs db of (db1, Inl e) \<Rightarrow> (db1, Inl e)
      | (db1, Inr t) \<Rightarrow>
          if url \<noteq> '''' \<and> list_ex (\<lambda>r. ru_from r = url) (te_rules t) then (db1, Inr (t, False))
          else (case save_review_type U org (t\<lparr>te_rules := te_rules t @ [learned_rule text url]\<rparr>) by' now pubs' (between db1) of
              (db2, Inl e) \<Rightarrow> (db2, Inl e) | (db2, Inr t') \<Rightarrow> (db2, Inr (t', True))))"

definition propose_learned_rule :: "unicode \<Rightarrow> (string \<Rightarrow> review_type option) \<Rightarrow> int \<Rightarrow> string \<Rightarrow> string \<Rightarrow> string \<Rightarrow> string \<Rightarrow> int \<Rightarrow>
    string \<Rightarrow> (nat \<Rightarrow> string) \<Rightarrow> (nat \<Rightarrow> string) \<Rightarrow> (type_db \<Rightarrow> type_db) \<Rightarrow> (type_db \<Rightarrow> type_db) \<Rightarrow> (type_entry \<times> bool) type_op" where
  "propose_learned_rule U builtins org key text url by' now pub pubs pubs' between again db =
     (case propose_once U builtins org key text url by' now pub pubs pubs' between db of
       (db1, Inl Type_stale) \<Rightarrow> propose_once U builtins org key text url by' now pub pubs pubs' again db1
     | r \<Rightarrow> r)"

end
