(* ===== verification/Type_Store_Spec.thy ===== *)
theory Type_Store_Spec
  imports Type_Store
begin

text \<open>
  What the tables of review types keep: a type and its versions stay what a run names them by. The operations interleave
  in any order; a proposed rule is a copy and a save with anything between (\<open>propose_is_steps\<close>), so four kinds of step
  are enough.
\<close>

section \<open>The steps\<close>

text \<open>\<^verbatim>\<open>newPublicID\<close> is the hex of 16 bytes: never empty.\<close>

definition drawn :: "(nat \<Rightarrow> string) \<Rightarrow> bool" where
  "drawn pubs \<longleftrightarrow> (\<forall>i. pubs i \<noteq> '''')"

inductive type_step :: "unicode \<Rightarrow> type_db \<Rightarrow> type_db \<Rightarrow> bool" for U where
  creates: "drawn pubs \<Longrightarrow> type_step U db (fst (create_review_type U org t by' now pub pubs db))"
| copies: "drawn pubs \<Longrightarrow> type_step U db (fst (copy_builtin_review_type U org t by' now pub pubs db))"
| saves: "drawn pubs \<Longrightarrow> type_step U db (fst (save_review_type U org t by' now pubs db))"
| deletes: "type_step U db (fst (delete_review_type org ty version by' now db))"

inductive_cases type_stepE: "type_step U db db'"

abbreviation type_steps :: "unicode \<Rightarrow> type_db \<Rightarrow> type_db \<Rightarrow> bool" where
  "type_steps U \<equiv> (type_step U)\<^sup>*\<^sup>*"

definition empty_types :: type_db where
  "empty_types = \<lparr>tb_types = [], tb_rules = [], tb_versions = [], tb_last_type = 0, tb_last_rule = 0\<rparr>"

lemma steps_trans: "type_steps U a b \<Longrightarrow> type_steps U b c \<Longrightarrow> type_steps U a c"
  by (rule rtranclp_trans)

lemma learn_is_step:
  assumes "drawn pubs" shows "type_steps U db (fst (type_to_learn U builtins org key by' now pub pubs db))"
proof (cases "review_type_by_key org key db = None \<and> builtins key \<noteq> None")
  case True
  then obtain b where b: "builtins key = Some b" by blast
  have "fst (type_to_learn U builtins org key by' now pub pubs db) = fst (copy_builtin_review_type U org (row_of_builtin b) by' now pub pubs db)"
    using True b by (simp add: type_to_learn_def split: prod.split sum.split option.split)
  then show ?thesis using copies [OF assms] by (metis r_into_rtranclp)
next
  case False
  then show ?thesis by (auto simp: type_to_learn_def split: option.split)
qed

lemma propose_once_is_steps:
  assumes "\<And>db. type_steps U db (between db)" "drawn pubs" "drawn pubs'"
  shows "type_steps U db (fst (propose_once U builtins org key text url by' now pub pubs pubs' between db))"
proof -
  obtain db1 r where learn: "type_to_learn U builtins org key by' now pub pubs db = (db1, r)" by fastforce
  then have one: "type_steps U db db1" using learn_is_step [OF assms(2)] by (metis fst_conv)
  show ?thesis
  proof (cases "\<exists>t. r = Inr t \<and> \<not> (url \<noteq> '''' \<and> list_ex (\<lambda>r. ru_from r = url) (te_rules t))")
    case True
    then obtain t where t: "r = Inr t" "\<not> (url \<noteq> '''' \<and> list_ex (\<lambda>r. ru_from r = url) (te_rules t))" by blast
    let ?t = "t\<lparr>te_rules := te_rules t @ [learned_rule text url]\<rparr>"
    have "fst (propose_once U builtins org key text url by' now pub pubs pubs' between db) = fst (save_review_type U org ?t by' now pubs' (between db1))"
      using t by (cases "url = ''''") (simp_all add: propose_once_def learn split: prod.split sum.split)
    moreover have "type_steps U db (between db1)" using one assms(1) [of db1] by (rule steps_trans)
    ultimately show ?thesis using saves assms(3) by (metis rtranclp.rtrancl_into_rtrancl)
  next
    case False
    then have "fst (propose_once U builtins org key text url by' now pub pubs pubs' between db) = db1"
      by (cases r) (simp_all add: propose_once_def learn)
    with one show ?thesis by simp
  qed
qed

lemma propose_is_steps:
  assumes "\<And>db. type_steps U db (between db)" "\<And>db. type_steps U db (again db)" "drawn pubs" "drawn pubs'"
  shows "type_steps U db (fst (propose_learned_rule U builtins org key text url by' now pub pubs pubs' between again db))"
proof -
  obtain db1 r where once: "propose_once U builtins org key text url by' now pub pubs pubs' between db = (db1, r)" by fastforce
  then have one: "type_steps U db db1" using propose_once_is_steps [OF assms(1,3,4)] by (metis fst_conv)
  have two: "type_steps U db1 (fst (propose_once U builtins org key text url by' now pub pubs pubs' again db1))"
    by (rule propose_once_is_steps [OF assms(2,3,4)])
  show ?thesis using one steps_trans [OF one two]
    by (auto simp: propose_learned_rule_def once split: sum.split store_error.split)
qed

section \<open>The rows of rules\<close>

abbreviation rid :: "rule_row \<Rightarrow> int" where "rid w \<equiv> ru_id (rw_rule w)"

abbreviation rpub :: "rule_row \<Rightarrow> string" where "rpub w \<equiv> ru_public (rw_rule w)"

definition of_type :: "int \<Rightarrow> int \<Rightarrow> rule_row \<Rightarrow> bool" where
  "of_type org ty w \<longleftrightarrow> rw_org w = org \<and> rw_type w = ty"

definition rules_ok :: "type_db \<Rightarrow> bool" where
  "rules_ok db \<longleftrightarrow> distinct (map rid (tb_rules db)) \<and> distinct (map rpub (tb_rules db)) \<and>
     (\<forall>w\<in>set (tb_rules db). rid w \<le> tb_last_rule db \<and> rpub w \<noteq> '''')"

text \<open>What is not an editor's to change.\<close>

definition same_rule :: "rule_row \<Rightarrow> rule_row \<Rightarrow> bool" where
  "same_rule w w' \<longleftrightarrow> rid w' = rid w \<and> rw_org w' = rw_org w \<and> rw_type w' = rw_type w \<and> rpub w' = rpub w \<and>
     ru_source (rw_rule w') = ru_source (rw_rule w) \<and> ru_from (rw_rule w') = ru_from (rw_rule w) \<and>
     ru_created (rw_rule w') = ru_created (rw_rule w)"

text \<open>A rule under a number that was given out before is the rule that had it.\<close>

definition rules_from :: "type_db \<Rightarrow> type_db \<Rightarrow> bool" where
  "rules_from old db \<longleftrightarrow> tb_last_rule old \<le> tb_last_rule db \<and>
     (\<forall>w\<in>set (tb_rules db). rid w \<le> tb_last_rule old \<longrightarrow> (\<exists>o'\<in>set (tb_rules old). same_rule o' w))"

lemma same_rule_refl [simp]: "same_rule w w"
  by (simp add: same_rule_def)

lemma same_rule_trans: "same_rule a b \<Longrightarrow> same_rule b c \<Longrightarrow> same_rule a c"
  by (simp add: same_rule_def)

lemma rules_from_id: "same_rule a b \<Longrightarrow> rid b \<le> n \<Longrightarrow> rid a \<le> n"
  by (simp add: same_rule_def)

lemma rules_from_refl [simp]: "rules_from db db"
  by (auto simp: rules_from_def intro: same_rule_refl)

lemma rules_from_trans: "rules_from a b \<Longrightarrow> rules_from b c \<Longrightarrow> rules_from a c"
  unfolding rules_from_def by (meson order_trans same_rule_trans rules_from_id)

lemma rules_from_row:
  assumes "rules_ok old" "rules_from old db" "o' \<in> set (tb_rules old)" "w \<in> set (tb_rules db)" "rid o' = rid w"
  shows "same_rule o' w"
proof -
  have "rid w \<le> tb_last_rule old" using assms(1,3,5) unfolding rules_ok_def by metis
  then obtain x where x: "x \<in> set (tb_rules old)" "same_rule x w" using assms(2,4) unfolding rules_from_def by blast
  then have "x = o'" using assms(1,3,5) by (auto simp: rules_ok_def distinct_map same_rule_def dest: inj_onD)
  with x show ?thesis by simp
qed

text \<open>Only the rules of one type have changed, and no table but theirs.\<close>

definition only_rules_of :: "int \<Rightarrow> int \<Rightarrow> type_db \<Rightarrow> type_db \<Rightarrow> bool" where
  "only_rules_of org ty db db' \<longleftrightarrow> tb_types db' = tb_types db \<and> tb_versions db' = tb_versions db \<and> tb_last_type db' = tb_last_type db \<and>
     (\<forall>o' t. (o', t) \<noteq> (org, ty) \<longrightarrow> filter (of_type o' t) (tb_rules db') = filter (of_type o' t) (tb_rules db))"

lemma only_rules_refl [simp]: "only_rules_of org ty db db"
  by (simp add: only_rules_of_def)

lemma only_rules_trans: "only_rules_of org ty a b \<Longrightarrow> only_rules_of org ty b c \<Longrightarrow> only_rules_of org ty a c"
  unfolding only_rules_of_def by metis

definition rules_step :: "int \<Rightarrow> int \<Rightarrow> type_db \<Rightarrow> type_db \<Rightarrow> bool" where
  "rules_step org ty db db' \<longleftrightarrow> rules_ok db' \<and> rules_from db db' \<and> only_rules_of org ty db db'"

lemma rules_step_trans: "rules_step org ty a b \<Longrightarrow> rules_step org ty b c \<Longrightarrow> rules_step org ty a c"
  unfolding rules_step_def using rules_from_trans only_rules_trans by blast

lemma filter_update_out: "\<forall>x\<in>set xs. P x \<longrightarrow> \<not> Q x \<and> \<not> Q (f x) \<Longrightarrow> filter Q (update_rows P f xs) = filter Q xs"
  by (induction xs) (auto simp: update_rows_def)

lemma update_rule_step:
  assumes "rules_ok db" and home: "\<And>w. w \<in> set (tb_rules db) \<Longrightarrow> rid w = i \<Longrightarrow> of_type org ty w"
    and f: "\<And>w. same_rule w (w\<lparr>rw_rule := f (rw_rule w)\<rparr>)"
  shows "rules_step org ty db (update_rule org i f db)"
proof -
  let ?g = "\<lambda>w. if rw_org w = org \<and> rid w = i then w\<lparr>rw_rule := f (rw_rule w)\<rparr> else w"
  have rows: "tb_rules (update_rule org i f db) = map ?g (tb_rules db)" by (simp add: update_rule_def update_rows_def)
  have same: "same_rule w (?g w)" for w using f by simp
  have others: "tb_last_rule (update_rule org i f db) = tb_last_rule db" "tb_types (update_rule org i f db) = tb_types db"
    "tb_versions (update_rule org i f db) = tb_versions db" "tb_last_type (update_rule org i f db) = tb_last_type db"
    by (simp_all add: update_rule_def)
  have "rid \<circ> ?g = rid" "rpub \<circ> ?g = rpub" using same unfolding fun_eq_iff o_apply same_rule_def by blast+
  then have maps: "map rid (map ?g (tb_rules db)) = map rid (tb_rules db)" "map rpub (map ?g (tb_rules db)) = map rpub (tb_rules db)"
    unfolding map_map by simp_all
  have "rid (?g w) \<le> tb_last_rule db \<and> rpub (?g w) \<noteq> ''''" if "w \<in> set (tb_rules db)" for w
    using assms(1) same [of w] that unfolding rules_ok_def same_rule_def by metis
  then have "rules_ok (update_rule org i f db)"
    using assms(1) unfolding rules_ok_def rows others maps set_map ball_simps by blast
  moreover have "rules_from db (update_rule org i f db)"
    using same unfolding rules_from_def rows others set_map ball_simps by blast
  moreover have "filter (of_type a b) (tb_rules (update_rule org i f db)) = filter (of_type a b) (tb_rules db)" if "(a, b) \<noteq> (org, ty)" for a b
    unfolding update_rule_def using home that by (simp, intro filter_update_out) (auto simp: of_type_def)
  ultimately show ?thesis using others unfolding only_rules_of_def rules_step_def by blast
qed

lemma insert_rule_row: "insert_rule org ty f db = Inr db' \<Longrightarrow> tb_last_rule db' = tb_last_rule db + 1 \<and>
    tb_rules db' = tb_rules db @ [\<lparr>rw_org = org, rw_type = ty, rw_rule = f (tb_last_rule db + 1)\<rparr>] \<and>
    ru_public (f (tb_last_rule db + 1)) \<notin> rpub ` set (tb_rules db) \<and>
    tb_types db' = tb_types db \<and> tb_versions db' = tb_versions db \<and> tb_last_type db' = tb_last_type db"
  by (auto simp: insert_rule_def Let_def split: if_splits)

lemma insert_rule_step:
  assumes "insert_rule org ty f db = Inr db'" "rules_ok db" and f: "\<And>n. ru_id (f n) = n" "\<And>n. ru_public (f n) \<noteq> ''''"
  shows "rules_step org ty db db'"
proof -
  have "\<forall>w\<in>set (tb_rules db). rid w \<noteq> tb_last_rule db + 1" using assms(2) by (force simp: rules_ok_def)
  then show ?thesis using insert_rule_row [OF assms(1)] assms(2) f
    by (fastforce simp: rules_ok_def rules_from_def rules_step_def only_rules_of_def of_type_def)
qed

lemma stored_rule_row:
  "stored_rule org ty pub old = Some o' \<Longrightarrow> \<exists>w\<in>set (tb_rules old). of_type org ty w \<and> rw_rule w = o' \<and> ru_public o' = pub"
  by (auto simp: stored_rule_def find_Some_iff of_type_def)

lemma edited_same: "same_rule w (w\<lparr>rw_rule := edited_rule i r s now (rw_rule w)\<rparr>)"
  by (simp add: same_rule_def edited_rule_def)

lemma added_id [simp]: "ru_id (added_rule i r pub now n) = n"
  by (simp add: added_rule_def Let_def)

lemma insert_added_step: "pub \<noteq> '''' \<Longrightarrow> insert_rule org ty (added_rule i r pub now) db = Inr db' \<Longrightarrow> rules_ok db \<Longrightarrow> rules_step org ty db db'"
  by (erule insert_rule_step) (simp_all add: added_rule_def Let_def)

text \<open>One rule of the list: stored over the one it names, or added.\<close>

lemma save_rules_one:
  assumes "save_rules org ty pubs now old i (r # rs) kept db = Inr (db', kept')"
  shows "(\<exists>db1. insert_rule org ty (added_rule i r (pubs i) now) db = Inr db1 \<and> save_rules org ty pubs now old (Suc i) rs kept db1 = Inr (db', kept')) \<or>
    (\<exists>o'. stored_rule org ty (ru_public r) old = Some o' \<and>
      save_rules org ty pubs now old (Suc i) rs (kept @ [ru_id o']) (update_rule org (ru_id o') (edited_rule i r (ru_status o') now) db) = Inr (db', kept'))"
  using assms by (auto simp: Let_def split: option.splits if_splits sum.splits)

lemma edit_step:
  assumes "rules_ok db" "rules_ok old" "rules_from old db" "stored_rule org ty pub old = Some o'"
  shows "rules_step org ty db (update_rule org (ru_id o') (edited_rule i r s now) db)"
proof -
  obtain w where w: "w \<in> set (tb_rules old)" "of_type org ty w" "rid w = ru_id o'" using stored_rule_row [OF assms(4)] by auto
  have home: "of_type org ty x" if "x \<in> set (tb_rules db)" "rid x = ru_id o'" for x
    using rules_from_row [OF assms(2,3) w(1) that(1)] w that(2) by (simp add: same_rule_def of_type_def)
  show ?thesis by (rule update_rule_step [OF assms(1) _ edited_same]) (rule home)
qed

lemma save_rules_step:
  "save_rules org ty pubs now old i rs kept db = Inr (db', kept') \<Longrightarrow> drawn pubs \<Longrightarrow> rules_ok old \<Longrightarrow> rules_from old db \<Longrightarrow> rules_ok db \<Longrightarrow> rules_step org ty db db'"
proof (induction rs arbitrary: i kept db)
  case (Cons r rs)
  obtain db1 kept1 where one: "rules_step org ty db db1" and rest: "save_rules org ty pubs now old (Suc i) rs kept1 db1 = Inr (db', kept')"
    using save_rules_one [OF Cons.prems(1)] insert_added_step [OF _ _ Cons.prems(5)] Cons.prems(2) edit_step [OF Cons.prems(5,3,4)] unfolding drawn_def by blast
  moreover from one have "rules_from old db1" "rules_ok db1" using rules_from_trans [OF Cons.prems(4)] unfolding rules_step_def by blast+
  ultimately show ?case using Cons.IH Cons.prems(2,3) rules_step_trans by blast
qed (simp add: rules_step_def)

lemma save_type_rules_cases:
  assumes "save_review_type_rules org ty rules pubs now db = Inr db'"
  obtains db1 kept where "save_rules org ty pubs now db 0 rules [] db = Inr (db1, kept)"
    "db' = db1\<lparr>tb_rules := filter (\<lambda>w. \<not> rule_gone org ty kept db w) (tb_rules db1)\<rparr>"
  using assms by (auto simp: save_review_type_rules_def split: sum.splits)

lemma save_type_rules_step:
  assumes "save_review_type_rules org ty rules pubs now db = Inr db'" and pubs: "drawn pubs" and ok: "rules_ok db"
  shows "rules_step org ty db db'"
proof -
  from assms(1) obtain db1 kept where s: "save_rules org ty pubs now db 0 rules [] db = Inr (db1, kept)"
    and db': "db' = db1\<lparr>tb_rules := filter (\<lambda>w. \<not> rule_gone org ty kept db w) (tb_rules db1)\<rparr>" by (rule save_type_rules_cases)
  from save_rules_step [OF s pubs ok rules_from_refl ok] have one: "rules_step org ty db db1" .
  have gone: "of_type org ty w" if w: "w \<in> set (tb_rules db1)" and g: "rule_gone org ty kept db w" for w
  proof -
    obtain o' where o': "o' \<in> set (tb_rules db)" "of_type org ty o'" "rid o' = rid w"
      using g by (auto simp: rule_gone_def list_ex_iff of_type_def)
    have "same_rule o' w" using one by (intro rules_from_row [OF ok _ o'(1) w o'(3)]) (simp add: rules_step_def)
    with o'(2) show ?thesis by (simp add: same_rule_def of_type_def)
  qed
  have "filter (of_type a b) (tb_rules db') = filter (of_type a b) (tb_rules db1)" if "(a, b) \<noteq> (org, ty)" for a b
    unfolding db' using gone that by (auto simp: of_type_def intro!: filter_cong)
  moreover have "rules_ok db1" using one by (simp add: rules_step_def)
  ultimately have "rules_step org ty db1 db'"
    by (auto simp: rules_step_def only_rules_of_def rules_ok_def rules_from_def db' distinct_map_filter intro: same_rule_refl)
  with one show ?thesis by (rule rules_step_trans)
qed

section \<open>A type and its versions\<close>

definition versions_of :: "int \<Rightarrow> int \<Rightarrow> type_db \<Rightarrow> version_row list" where
  "versions_of org ty db = filter (\<lambda>v. vw_org v = org \<and> vw_type v = ty) (tb_versions db)"

definition numbered :: "int \<Rightarrow> type_db \<Rightarrow> type_row \<Rightarrow> bool" where
  "numbered n db w \<longleftrightarrow> map vw_version (versions_of (tw_org w) (row_id w) db) = [1..n]"

text \<open>The history of a type is \<open>1\<close> to its version, and of one that is not deleted the last is the type as it stands.\<close>

definition settled :: "type_db \<Rightarrow> type_row \<Rightarrow> bool" where
  "settled db w \<longleftrightarrow> numbered (te_version (tw_type w)) db w \<and> (tw_deleted w = None \<longrightarrow>
     vw_snapshot (last (versions_of (tw_org w) (row_id w) db)) = packed (with_rules (tw_org w) db (tw_type w)))"

definition tables_ok :: "type_db \<Rightarrow> bool" where
  "tables_ok db \<longleftrightarrow> rules_ok db \<and> distinct (map row_id (tb_types db)) \<and> distinct (map (\<lambda>w. (tw_org w, te_key (tw_type w))) (tb_types db)) \<and>
     (\<forall>w\<in>set (tb_types db). row_id w \<le> tb_last_type db \<and> 1 \<le> te_version (tw_type w)) \<and>
     (\<forall>v\<in>set (tb_versions db). \<exists>w\<in>set (tb_types db). vw_org v = tw_org w \<and> vw_type v = row_id w)"

definition types_ok :: "type_db \<Rightarrow> bool" where
  "types_ok db \<longleftrightarrow> tables_ok db \<and> (\<forall>w\<in>set (tb_types db). settled db w)"

text \<open>Inside a transaction: the newest version of one type of the organisation is not filed yet.\<close>

definition types_but :: "int \<Rightarrow> int \<Rightarrow> type_db \<Rightarrow> bool" where
  "types_but org ty db \<longleftrightarrow> tables_ok db \<and> (\<forall>w\<in>set (tb_types db). if row_id w = ty
     then tw_org w = org \<and> numbered (te_version (tw_type w) - 1) db w else settled db w)"

lemma empty_types_ok [simp]: "types_ok empty_types"
  by (simp add: types_ok_def tables_ok_def rules_ok_def empty_types_def)

lemma row_unique: "tables_ok db \<Longrightarrow> w \<in> set (tb_types db) \<Longrightarrow> w' \<in> set (tb_types db) \<Longrightarrow> row_id w = row_id w' \<Longrightarrow> w = w'"
  by (auto simp: tables_ok_def distinct_map dest: inj_onD)

lemma key_unique: "tables_ok db \<Longrightarrow> w \<in> set (tb_types db) \<Longrightarrow> w' \<in> set (tb_types db) \<Longrightarrow> tw_org w = tw_org w' \<Longrightarrow>
    te_key (tw_type w) = te_key (tw_type w') \<Longrightarrow> w = w'"
  by (auto simp: tables_ok_def distinct_map dest: inj_onD)

lemma rules_of_type: "rules_of org ty db = map rw_rule (sort_key (\<lambda>w. ru_position (rw_rule w)) (sort_key rid (filter (of_type org ty) (tb_rules db))))"
  by (simp add: rules_of_def of_type_def [abs_def])

lemma settled_cong: "versions_of (tw_org w) (row_id w) db = versions_of (tw_org w) (row_id w) db' \<Longrightarrow>
    filter (of_type (tw_org w) (row_id w)) (tb_rules db) = filter (of_type (tw_org w) (row_id w)) (tb_rules db') \<Longrightarrow> settled db w = settled db' w"
  by (simp add: settled_def numbered_def with_rules_def rules_of_type row_id_def)

lemma save_rules_pending:
  assumes "save_review_type_rules org ty rules pubs now db = Inr db'" "drawn pubs" "types_but org ty db"
  shows "types_but org ty db' \<and> tb_types db' = tb_types db \<and> tb_versions db' = tb_versions db"
proof -
  have "rules_ok db" using assms(3) by (simp add: types_but_def tables_ok_def)
  from save_type_rules_step [OF assms(1,2) this] have ok: "rules_ok db'" and only: "only_rules_of org ty db db'"
    by (simp_all add: rules_step_def)
  have "settled db' w" if "settled db w" "row_id w \<noteq> ty" for w
    using that only settled_cong [of w db db'] by (auto simp: only_rules_of_def versions_of_def)
  then show ?thesis using assms(3) ok only
    by (auto simp: types_but_def tables_ok_def only_rules_of_def numbered_def versions_of_def)
qed

lemma find_row: "List.find P xs = Some w \<Longrightarrow> w \<in> set xs \<and> P w"
  by (auto simp: find_Some_iff)

lemma type_where_row: "review_type_where org P db = Some t \<Longrightarrow>
    \<exists>w\<in>set (tb_types db). is_live org w \<and> P (tw_type w) \<and> t = with_rules org db (tw_type w)"
  by (auto simp: review_type_where_def dest: find_row)

lemma snapshot_settles:
  assumes "snapshot_review_type org ty by' now db = Inr (db', t)" "types_but org ty db"
  shows "types_ok db' \<and> tb_types db' = tb_types db \<and> tb_rules db' = tb_rules db"
proof -
  from assms(1) obtain w where w: "w \<in> set (tb_types db)" "is_live org w" "row_id w = ty" "t = with_rules org db (tw_type w)"
    and db': "db' = db\<lparr>tb_versions := tb_versions db @ [\<lparr>vw_org = org, vw_type = ty, vw_version = te_version t, vw_snapshot = packed t,
           vw_by = by', vw_created = now\<rparr>]\<rparr>"
    by (auto simp: snapshot_review_type_def row_id_def split: option.splits if_splits dest!: type_where_row)
  have ok: "tables_ok db" using assms(2) by (simp add: types_but_def)
  have "tables_ok db'" using ok w by (auto simp: tables_ok_def rules_ok_def db' is_live_def)
  moreover have "settled db' x" if x: "x \<in> set (tb_types db)" for x
  proof (cases "x = w")
    case True
    have "numbered (te_version (tw_type w) - 1) db w" "1 \<le> te_version (tw_type w)"
      using assms(2) w ok by (auto simp: types_but_def tables_ok_def)
    with True w(2,3,4) show ?thesis
      by (simp add: settled_def numbered_def versions_of_def db' is_live_def with_rules_def rules_of_def upto_rec2)
  next
    case False
    then have ne: "row_id x \<noteq> ty" using row_unique [OF ok x w(1)] w(3) by auto
    with assms(2) x have "settled db x" by (auto simp: types_but_def)
    then show ?thesis using settled_cong [of x db db'] ne by (simp add: versions_of_def db')
  qed
  ultimately show ?thesis by (simp add: types_ok_def db')
qed

lemma insert_type_pending:
  assumes "types_ok db" "\<not> list_ex (\<lambda>w. has_key org (te_key t) w \<or> te_public (tw_type w) = pub) (tb_types db)"
  shows "types_but org (tb_last_type db + 1) (insert_type org t pub by' now db)"
proof -
  let ?n = "tb_last_type db + 1"
  let ?db = "insert_type org t pub by' now db"
  let ?w = "\<lparr>tw_org = org, tw_type = new_type pub t by' now ?n, tw_deleted = None\<rparr>"
  have ok: "tables_ok db" using assms(1) by (simp add: types_ok_def)
  have rows: "tb_types ?db = tb_types db @ [?w]" "tb_rules ?db = tb_rules db" "tb_versions ?db = tb_versions db"
    "tb_last_type ?db = ?n" "tb_last_rule ?db = tb_last_rule db" by (simp_all add: insert_type_def Let_def)
  have w: "row_id ?w = ?n" "te_key (tw_type ?w) = te_key t" "te_version (tw_type ?w) = 1" by (simp_all add: row_id_def new_type_def)
  have old: "\<forall>x\<in>set (tb_types db). row_id x < ?n" using ok by (auto simp: tables_ok_def)
  have "\<forall>x\<in>set (tb_types db). (tw_org x, te_key (tw_type x)) \<noteq> (org, te_key t)"
    using assms(2) by (auto simp: list_ex_iff has_key_def)
  then have "tables_ok ?db" using ok old w by (auto simp: tables_ok_def rules_ok_def rows)
  moreover have "versions_of org ?n ?db = []" using ok old by (fastforce simp: tables_ok_def versions_of_def rows filter_empty_conv)
  then have "numbered (te_version (tw_type ?w) - 1) ?db ?w" using w by (simp add: numbered_def)
  moreover have "settled ?db x" if "x \<in> set (tb_types db)" for x
    using that assms(1) settled_cong [of x db ?db] by (simp add: types_ok_def versions_of_def rows)
  ultimately show ?thesis using old w by (auto simp: types_but_def rows)
qed

lemma update_types_rows:
  "tb_types (update_types P f db) = map (\<lambda>w. if P w then f w else w) (tb_types db)" "tb_rules (update_types P f db) = tb_rules db"
  "tb_versions (update_types P f db) = tb_versions db" "tb_last_type (update_types P f db) = tb_last_type db"
  "tb_last_rule (update_types P f db) = tb_last_rule db"
  by (simp_all add: update_types_def update_rows_def)

definition same_name :: "type_row \<Rightarrow> type_row \<Rightarrow> bool" where
  "same_name w w' \<longleftrightarrow> row_id w' = row_id w \<and> tw_org w' = tw_org w \<and> te_key (tw_type w') = te_key (tw_type w) \<and>
     te_public (tw_type w') = te_public (tw_type w) \<and> te_builtin (tw_type w') = te_builtin (tw_type w) \<and>
     te_created (tw_type w') = te_created (tw_type w) \<and> te_version (tw_type w) \<le> te_version (tw_type w') \<and>
     (tw_deleted w \<noteq> None \<longrightarrow> tw_deleted w' \<noteq> None)"

lemma same_name_refl [simp]: "same_name w w"
  by (simp add: same_name_def)

lemma update_types_ok:
  assumes ok: "tables_ok db" and f: "\<And>w. same_name w (f w)"
  shows "tables_ok (update_types P f db)"
proof -
  let ?g = "\<lambda>w. if P w then f w else w"
  have g: "row_id (?g x) = row_id x" "tw_org (?g x) = tw_org x" "te_key (tw_type (?g x)) = te_key (tw_type x)"
    "te_version (tw_type x) \<le> te_version (tw_type (?g x))" for x using f [of x] by (simp_all add: same_name_def)
  have "row_id \<circ> ?g = row_id" "(\<lambda>w. (tw_org w, te_key (tw_type w))) \<circ> ?g = (\<lambda>w. (tw_org w, te_key (tw_type w)))"
    by (simp_all only: fun_eq_iff o_apply g simp_thms)
  then have "distinct (map row_id (map ?g (tb_types db)))" "distinct (map (\<lambda>w. (tw_org w, te_key (tw_type w))) (map ?g (tb_types db)))"
    using ok unfolding tables_ok_def map_map by simp_all
  moreover have "row_id (?g x) \<le> tb_last_type db \<and> 1 \<le> te_version (tw_type (?g x))" if "x \<in> set (tb_types db)" for x
    using ok that g(1,4) [of x] unfolding tables_ok_def by fastforce
  moreover have "\<exists>x\<in>set (map ?g (tb_types db)). vw_org v = tw_org x \<and> vw_type v = row_id x" if v: "v \<in> set (tb_versions db)" for v
  proof -
    obtain x where "x \<in> set (tb_types db)" "vw_org v = tw_org x" "vw_type v = row_id x" using ok v unfolding tables_ok_def by blast
    then show ?thesis using g(1,2) [of x] by (intro bexI [of _ "?g x"]) (simp_all only: set_map image_eqI)
  qed
  ultimately show ?thesis using ok unfolding tables_ok_def rules_ok_def update_types_rows set_map ball_simps by blast
qed

lemma saved_same_name: "same_name w (w\<lparr>tw_type := saved_type t by' now (tw_type w)\<rparr>)"
  by (simp add: same_name_def saved_type_def row_id_def)

lemma deleted_same_name: "same_name w (w\<lparr>tw_deleted := Some now, tw_type := (tw_type w)\<lparr>te_by := by', te_updated := now\<rparr>\<rparr>)"
  by (simp add: same_name_def row_id_def)

lemma saved_pending:
  assumes "types_ok db" "w \<in> set (tb_types db)" "own_row org ty w"
  shows "types_but org ty (update_types (own_row org ty) (\<lambda>w. w\<lparr>tw_type := saved_type t by' now (tw_type w)\<rparr>) db)" (is "types_but _ _ ?db")
proof -
  let ?g = "\<lambda>w. if own_row org ty w then w\<lparr>tw_type := saved_type t by' now (tw_type w)\<rparr> else w"
  have ok: "tables_ok db" using assms(1) by (simp add: types_ok_def)
  have "if row_id (?g x) = ty then tw_org (?g x) = org \<and> numbered (te_version (tw_type (?g x)) - 1) ?db (?g x) else settled ?db (?g x)"
    if x: "x \<in> set (tb_types db)" for x
  proof (cases "x = w")
    case True
    have "settled db w" using assms(1,2) by (simp add: types_ok_def)
    with True assms(3) show ?thesis
      by (simp add: settled_def numbered_def versions_of_def update_types_rows own_row_def is_live_def row_id_def saved_type_def)
  next
    case False
    then have ne: "row_id x \<noteq> ty" using row_unique [OF ok x assms(2)] assms(3) by (auto simp: own_row_def)
    have "settled db x" using assms(1) x by (simp add: types_ok_def)
    then show ?thesis using settled_cong [of x db ?db] ne by (simp add: versions_of_def update_types_rows own_row_def)
  qed
  moreover have "tables_ok ?db" by (rule update_types_ok [OF ok]) (rule saved_same_name)
  ultimately show ?thesis unfolding types_but_def update_types_rows set_map ball_simps by blast
qed

lemma deleted_ok:
  assumes "types_ok db"
  shows "types_ok (update_types P (\<lambda>w. w\<lparr>tw_deleted := Some now, tw_type := (tw_type w)\<lparr>te_by := by', te_updated := now\<rparr>\<rparr>) db)" (is "types_ok ?db")
proof -
  let ?g = "\<lambda>w. if P w then w\<lparr>tw_deleted := Some now, tw_type := (tw_type w)\<lparr>te_by := by', te_updated := now\<rparr>\<rparr> else w"
  have "settled ?db (?g x)" if x: "x \<in> set (tb_types db)" for x
  proof -
    have "settled db x" using assms x by (simp add: types_ok_def)
    then show ?thesis by (auto simp: settled_def numbered_def versions_of_def with_rules_def rules_of_def update_types_rows row_id_def)
  qed
  moreover have "tables_ok db" using assms by (simp add: types_ok_def)
  then have "tables_ok ?db" by (rule update_types_ok) (rule deleted_same_name)
  ultimately show ?thesis unfolding types_ok_def update_types_rows(1) set_map ball_simps by blast
qed

text \<open>What an operation did to the tables: nothing, or all of it.\<close>

lemma committed_cases: "committed db r = (db', x) \<Longrightarrow> (\<exists>e. r = Inl e \<and> db' = db \<and> x = Inl e) \<or> (\<exists>y. r = Inr (db', y) \<and> x = Inr y)"
  by (auto simp: committed_def split: sum.splits)

definition filed :: "int \<Rightarrow> int \<Rightarrow> type_db \<Rightarrow> type_db \<Rightarrow> type_entry \<Rightarrow> bool" where
  "filed org ty mid db t \<longleftrightarrow> (\<exists>rules pubs by' now db'. drawn pubs \<and> save_review_type_rules org ty rules pubs now mid = Inr db' \<and>
     snapshot_review_type org ty by' now db' = Inr (db, t))"

lemma filed_ok:
  assumes "filed org ty mid db t" "types_but org ty mid"
  shows "types_ok db \<and> tb_types db = tb_types mid"
  using assms save_rules_pending snapshot_settles unfolding filed_def by metis

lemma create_cases:
  assumes "create_review_type U org t by' now pub pubs db = (db', r)" "drawn pubs"
  shows "(db' = db \<and> isl r) \<or> (\<exists>t'. r = Inr t' \<and> \<not> list_ex (\<lambda>w. has_key org (te_key t) w \<or> te_public (tw_type w) = pub) (tb_types db) \<and>
    filed org (tb_last_type db + 1) (insert_type org t pub by' now db) db' t')"
  using assms unfolding create_review_type_def filed_def
  by (auto simp: Let_def committed_def split: option.splits if_splits sum.splits)

lemma save_cases:
  assumes "save_review_type U org t by' now pubs db = (db', r)" "drawn pubs"
  shows "(db' = db \<and> isl r) \<or> (\<exists>t' w. r = Inr t' \<and> w \<in> set (tb_types db) \<and> own_row org (te_id t) w \<and> te_version (tw_type w) = te_version t \<and>
    filed org (te_id t) (update_types (own_row org (te_id t)) (\<lambda>w. w\<lparr>tw_type := saved_type t by' now (tw_type w)\<rparr>) db) db' t')"
  using assms unfolding save_review_type_def filed_def
  by (fastforce simp: committed_def split: option.splits if_splits sum.splits dest: find_row)

lemma copy_cases:
  "fst (copy_builtin_review_type U org t by' now pub pubs db) = db \<or>
   fst (copy_builtin_review_type U org t by' now pub pubs db) = fst (create_review_type U org (copy_of_builtin t) by' now pub pubs db)"
  by (auto simp: copy_builtin_review_type_def split: option.split prod.split sum.split)

lemma create_keeps:
  assumes "types_ok db" "drawn pubs" shows "types_ok (fst (create_review_type U org t by' now pub pubs db))"
proof -
  obtain db' r where c: "create_review_type U org t by' now pub pubs db = (db', r)" by fastforce
  from create_cases [OF c assms(2)] show ?thesis using assms filed_ok insert_type_pending [OF assms(1)] by (auto simp: c)
qed

lemma save_keeps:
  assumes "types_ok db" "drawn pubs" shows "types_ok (fst (save_review_type U org t by' now pubs db))"
proof -
  obtain db' r where c: "save_review_type U org t by' now pubs db = (db', r)" by fastforce
  from save_cases [OF c assms(2)] show ?thesis using assms filed_ok saved_pending [OF assms(1)] by (auto simp: c)
qed

lemma delete_type_keeps: "types_ok db \<Longrightarrow> types_ok (fst (delete_review_type org ty version by' now db))"
  using deleted_ok by (simp add: delete_review_type_def Let_def)

lemma type_step_keeps: "type_step U db db' \<Longrightarrow> types_ok db \<Longrightarrow> types_ok db'"
  using create_keeps save_keeps delete_type_keeps copy_cases by (elim type_stepE) (metis+)

lemma reachable_types_ok: "type_steps U empty_types db \<Longrightarrow> types_ok db"
  by (induction rule: rtranclp_induct) (auto intro: type_step_keeps)

end
