(* ===== verification/Type_Store_Safety.thy ===== *)
theory Type_Store_Safety
  imports Type_Store_Spec
begin

text \<open>
  What the tables of review types promise their readers: a run's \<open>{key, version}\<close> names one rubric for ever, a type is its
  newest version, no save undoes another, a rule keeps where it came from, and a learned one waits for its approval.
\<close>

section \<open>The tables only grow\<close>

lemma same_name_trans: "same_name a b \<Longrightarrow> same_name b c \<Longrightarrow> same_name a c"
  by (auto simp: same_name_def)

definition grown :: "type_db \<Rightarrow> type_db \<Rightarrow> bool" where
  "grown db db' \<longleftrightarrow> (\<forall>w\<in>set (tb_types db). \<exists>w'\<in>set (tb_types db'). same_name w w') \<and>
     (\<exists>vs. tb_versions db' = tb_versions db @ vs) \<and> rules_from db db'"

lemma grown_refl [simp]: "grown db db"
  by (auto simp: grown_def intro: same_name_refl)

lemma grown_trans:
  assumes "grown a b" "grown b c" shows "grown a c"
proof -
  have "\<exists>w'\<in>set (tb_types c). same_name w w'" if "w \<in> set (tb_types a)" for w
    using assms that same_name_trans unfolding grown_def by meson
  then show ?thesis using assms rules_from_trans unfolding grown_def by fastforce
qed

lemma snapshot_row: "snapshot_review_type org ty by' now db = Inr (db', t) \<Longrightarrow>
    tb_rules db' = tb_rules db \<and> tb_last_rule db' = tb_last_rule db \<and> tb_types db' = tb_types db \<and> (\<exists>v. tb_versions db' = tb_versions db @ [v])"
  by (auto simp: snapshot_review_type_def split: option.splits if_splits)

lemma filed_grown:
  assumes "filed org ty mid db t" "types_but org ty mid" shows "grown mid db"
proof -
  from assms(1) obtain rules pubs by' now db1 where r: "save_review_type_rules org ty rules pubs now mid = Inr db1" "drawn pubs"
    and s: "snapshot_review_type org ty by' now db1 = Inr (db, t)" by (auto simp: filed_def)
  have "rules_ok mid" using assms(2) by (simp add: types_but_def tables_ok_def)
  from save_type_rules_step [OF r this] snapshot_row [OF s] show ?thesis
    by (auto simp: grown_def rules_step_def only_rules_of_def rules_from_def intro: same_name_refl)
qed

lemma insert_type_grown: "grown db (insert_type org t pub by' now db)"
  by (auto simp: grown_def insert_type_def Let_def rules_from_def intro: same_rule_refl same_name_refl)

lemma update_types_grown:
  assumes "\<And>w. same_name w (f w)" shows "grown db (update_types P f db)"
proof -
  have "\<exists>w'\<in>set (tb_types (update_types P f db)). same_name w w'" if "w \<in> set (tb_types db)" for w
    using that assms by (intro bexI [of _ "if P w then f w else w"]) (auto simp: update_types_rows)
  then show ?thesis by (auto simp: grown_def update_types_rows rules_from_def intro: same_rule_refl)
qed

lemma create_grown:
  assumes "types_ok db" "drawn pubs" shows "grown db (fst (create_review_type U org t by' now pub pubs db))"
proof -
  obtain db' r where c: "create_review_type U org t by' now pub pubs db = (db', r)" by fastforce
  from create_cases [OF c assms(2)] consider "db' = db"
    | (made) t' where "\<not> list_ex (\<lambda>w. has_key org (te_key t) w \<or> te_public (tw_type w) = pub) (tb_types db)"
        "filed org (tb_last_type db + 1) (insert_type org t pub by' now db) db' t'" by blast
  then have "grown db db'"
  proof cases
    case made
    from filed_grown [OF made(2) insert_type_pending [OF assms(1) made(1)]] show ?thesis by (rule grown_trans [OF insert_type_grown])
  qed simp
  then show ?thesis by (simp add: c)
qed

lemma save_grown:
  assumes "types_ok db" "drawn pubs" shows "grown db (fst (save_review_type U org t by' now pubs db))"
proof -
  obtain db' r where c: "save_review_type U org t by' now pubs db = (db', r)" by fastforce
  let ?f = "\<lambda>w. w\<lparr>tw_type := saved_type t by' now (tw_type w)\<rparr>"
  from save_cases [OF c assms(2)] consider "db' = db"
    | (saved) t' w where "w \<in> set (tb_types db)" "own_row org (te_id t) w" "filed org (te_id t) (update_types (own_row org (te_id t)) ?f db) db' t'"
    by blast
  then have "grown db db'"
  proof cases
    case saved
    have "grown db (update_types (own_row org (te_id t)) ?f db)" by (rule update_types_grown) (rule saved_same_name)
    moreover from filed_grown [OF saved(3) saved_pending [OF assms(1) saved(1,2)]]
    have "grown (update_types (own_row org (te_id t)) ?f db) db'" .
    ultimately show ?thesis by (rule grown_trans)
  qed simp
  then show ?thesis by (simp add: c)
qed

lemma delete_grown: "grown db (fst (delete_review_type org ty version by' now db))"
  using update_types_grown deleted_same_name by (simp add: delete_review_type_def Let_def)

lemma step_grown: "type_step U db db' \<Longrightarrow> types_ok db \<Longrightarrow> grown db db'"
proof (elim type_stepE)
  fix pubs org t by' now pub assume "types_ok db" "drawn pubs" "db' = fst (copy_builtin_review_type U org t by' now pub pubs db)"
  then show "grown db db'" using copy_cases create_grown grown_refl by metis
qed (simp_all add: create_grown save_grown delete_grown)

lemma steps_grown: "type_steps U db db' \<Longrightarrow> types_ok db \<Longrightarrow> grown db db' \<and> types_ok db'"
  by (induction rule: rtranclp_induct) (auto intro: step_grown type_step_keeps grown_trans)

lemma reached:
  assumes "type_steps U empty_types db" "type_steps U db db'" shows "types_ok db" "types_ok db'" "grown db db'"
  using reachable_types_ok [OF assms(1)] steps_grown [OF assms(2)] by simp_all

section \<open>A sample\<close>

definition sample_pubs :: "nat \<Rightarrow> string" where
  "sample_pubs i = replicate (Suc i) (CHR ''a'')"

definition sample_type :: type_entry where
  "sample_type = no_entry\<lparr>te_key := ''security'', te_name := ''Security'', te_purpose := ''Find holes.'', te_enabled := True,
     te_rules := [no_rule\<lparr>ru_text := ''No secrets.'', ru_cap := P0, ru_enabled := True, ru_status := ''active'', ru_source := ''team''\<rparr>]\<rparr>"

definition sample_made :: type_db where
  "sample_made = fst (create_review_type ascii_tables 1 sample_type ''ann'' 5 ''t'' sample_pubs empty_types)"

definition sample_row :: type_entry where
  "sample_row = (case review_type_by_key 1 ''security'' sample_made of Some t \<Rightarrow> t | None \<Rightarrow> no_entry)"

definition sample_edit :: type_entry where
  "sample_edit = sample_row\<lparr>te_purpose := ''Find more.''\<rparr>"

definition sample_saved :: type_db where
  "sample_saved = fst (save_review_type ascii_tables 1 sample_edit ''bob'' 6 (sample_pubs \<circ> Suc) sample_made)"

lemma sample_drawn: "drawn sample_pubs" "drawn (sample_pubs \<circ> Suc)"
  by (simp_all add: drawn_def sample_pubs_def)

lemma sample_steps: "type_steps ascii_tables empty_types sample_made" "type_steps ascii_tables sample_made sample_saved"
  unfolding sample_made_def sample_saved_def using creates [OF sample_drawn(1)] saves [OF sample_drawn(2)] by blast+

lemma sample_rows: "tb_types sample_made = [\<lparr>tw_org = 1, tw_type = sample_row\<lparr>te_rules := []\<rparr>, tw_deleted = None\<rparr>]"
  by code_simp

section \<open>A version names one rubric\<close>

lemma find_append: "List.find P (xs @ ys) = (case List.find P xs of None \<Rightarrow> List.find P ys | Some x \<Rightarrow> Some x)"
  by (induction xs) simp_all

lemma at_version_stays: "grown db db' \<Longrightarrow> review_type_at_version org ty n db = Some s \<Longrightarrow> review_type_at_version org ty n db' = Some s"
  by (auto simp: grown_def review_type_at_version_def find_append split: option.split)

text \<open>C19. A run's \<open>{key, version}\<close> names one rubric for ever: whatever is created, copied, saved and deleted since, the version
  still reads as it was saved, and the organisation's only row under the key is the one it was saved in.\<close>

theorem version_is_for_ever:
  assumes "type_steps U empty_types db" "type_steps U db db'"
    and w: "w \<in> set (tb_types db)" "has_key org key w" and v: "review_type_at_version org (row_id w) n db = Some s"
  shows "review_type_at_version org (row_id w) n db' = Some s \<and> (\<exists>w'. {x \<in> set (tb_types db'). has_key org key x} = {w'} \<and> row_id w' = row_id w)"
proof -
  note ok = reached [OF assms(1,2)]
  obtain w' where w': "w' \<in> set (tb_types db')" "same_name w w'" using ok(3) w(1) unfolding grown_def by blast
  then have "has_key org key w'" using w(2) by (simp add: has_key_def same_name_def)
  moreover have "x = w'" if "x \<in> set (tb_types db')" "has_key org key x" for x
    using that key_unique [of db' x w'] w'(1) ok(2) \<open>has_key org key w'\<close> by (simp add: has_key_def types_ok_def)
  ultimately have "{x \<in> set (tb_types db'). has_key org key x} = {w'}" using w'(1) by blast
  then show ?thesis using at_version_stays [OF ok(3) v] w'(2) by (auto simp: same_name_def)
qed

theorem version_is_for_ever_witness:
  "\<exists>s. review_type_at_version 1 1 1 sample_saved = Some s \<and> te_purpose s = ''Find holes.'' \<and> map ru_text (te_rules s) = [''No secrets.'']"
proof -
  let ?w = "\<lparr>tw_org = 1, tw_type = sample_row\<lparr>te_rules := []\<rparr>, tw_deleted = None\<rparr>"
  have row: "row_id ?w = 1" "has_key 1 ''security'' ?w" by code_simp+
  have "map_option (\<lambda>s. (te_purpose s, map ru_text (te_rules s))) (review_type_at_version 1 1 1 sample_made) = Some (''Find holes.'', [''No secrets.''])"
    by code_simp
  then obtain s where s: "review_type_at_version 1 1 1 sample_made = Some s" "te_purpose s = ''Find holes.''" "map ru_text (te_rules s) = [''No secrets.'']"
    unfolding map_option_eq_Some by (metis prod.inject)
  from s(1) have "review_type_at_version 1 (row_id ?w) 1 sample_made = Some s" by (simp only: row)
  moreover have "?w \<in> set (tb_types sample_made)" by (simp only: sample_rows list.set insert_iff simp_thms)
  ultimately have "review_type_at_version 1 (row_id ?w) 1 sample_saved = Some s"
    by (intro version_is_for_ever [OF sample_steps _ row(2), THEN conjunct1])
  with s(2,3) show ?thesis unfolding row(1) by (intro exI conjI)
qed

section \<open>A type is its newest version\<close>

lemma find_versions: "List.find (\<lambda>v. vw_org v = org \<and> vw_type v = ty \<and> vw_version v = n) (tb_versions db) = List.find (\<lambda>v. vw_version v = n) (versions_of org ty db)"
proof -
  have "List.find (\<lambda>v. vw_org v = org \<and> vw_type v = ty \<and> vw_version v = n) xs = List.find (\<lambda>v. vw_version v = n) (filter (\<lambda>v. vw_org v = org \<and> vw_type v = ty) xs)" for xs
    by (induction xs) auto
  then show ?thesis by (simp add: versions_of_def)
qed

lemma find_last_version:
  assumes "map vw_version vs = [1..n]" "1 \<le> n" shows "List.find (\<lambda>v. vw_version v = n) vs = Some (last vs)"
proof -
  have ne: "vs \<noteq> []" using assms by auto
  then have vs: "vs = butlast vs @ [last vs]" by simp
  have up: "[1..n] = [1..n - 1] @ [n]" using assms(2) by (simp add: upto_rec2)
  have l: "vw_version (last vs) = n" using assms(1) up ne by (metis last_map last_snoc)
  have "map vw_version (butlast vs) = [1..n - 1]" using assms(1) up by (metis butlast_snoc map_butlast)
  then have "n \<notin> vw_version ` set (butlast vs)" by (metis atLeastAtMost_iff set_map set_upto not_le less_add_one diff_add_cancel)
  then have "List.find (\<lambda>v. vw_version v = n) (butlast vs) = None" by (auto simp: find_None_iff)
  then show ?thesis using l by (subst vs) (simp add: find_append)
qed

lemma settled_version:
  assumes "types_ok db" "w \<in> set (tb_types db)" "is_live org w"
  shows "review_type_at_version org (row_id w) (te_version (tw_type w)) db = Some ((packed (with_rules org db (tw_type w)))\<lparr>te_id := row_id w\<rparr>)"
proof -
  have "settled db w" "1 \<le> te_version (tw_type w)" using assms by (auto simp: types_ok_def tables_ok_def)
  then have "map vw_version (versions_of org (row_id w) db) = [1..te_version (tw_type w)]"
    "vw_snapshot (last (versions_of org (row_id w) db)) = packed (with_rules org db (tw_type w))"
    using assms(3) by (auto simp: settled_def numbered_def is_live_def)
  with find_last_version [OF this(1) \<open>1 \<le> te_version (tw_type w)\<close>] show ?thesis
    by (simp add: review_type_at_version_def find_versions)
qed

lemma sorted_versions: "map vw_version vs = [1..n] \<Longrightarrow> sort_key vw_version vs = vs"
  by (rule sort_key_id_if_sorted) simp

text \<open>C20. A type's history is every version from 1 to its own, newest first, and the newest is the type as it stands, rules
  included.\<close>

theorem history_ends_with_now:
  assumes "type_steps U empty_types db" "review_type_by_key org key db = Some t"
  shows "map fst (review_type_versions org (te_id t) db) = rev [1..te_version t] \<and>
    review_type_at_version org (te_id t) (te_version t) db = Some ((packed t)\<lparr>te_id := te_id t\<rparr>)"
proof -
  have ok: "types_ok db" by (rule reachable_types_ok [OF assms(1)])
  obtain w where w: "w \<in> set (tb_types db)" "is_live org w" "t = with_rules org db (tw_type w)"
    using type_where_row assms(2) unfolding review_type_by_key_def by blast
  have "map vw_version (versions_of org (row_id w) db) = [1..te_version (tw_type w)]"
    using ok w(1,2) by (auto simp: types_ok_def settled_def numbered_def is_live_def)
  then have "map fst (review_type_versions org (row_id w) db) = rev [1..te_version (tw_type w)]"
    by (simp add: review_type_versions_def sorted_versions rev_map flip: versions_of_def) (simp add: o_def flip: rev_map)
  with settled_version [OF ok w(1,2)] w(3) show ?thesis by (simp add: with_rules_def row_id_def)
qed

theorem history_ends_with_now_witness:
  "map fst (review_type_versions 1 1 sample_saved) = [2, 1]"
proof -
  define t where "t = the (review_type_by_key 1 ''security'' sample_saved)"
  have "review_type_by_key 1 ''security'' sample_saved \<noteq> None" by code_simp
  then have t: "review_type_by_key 1 ''security'' sample_saved = Some t" by (auto simp: t_def)
  have "te_id t = 1" "te_version t = 2" unfolding t_def by code_simp+
  moreover have "type_steps ascii_tables empty_types sample_saved" using sample_steps by (rule rtranclp_trans)
  from history_ends_with_now [OF this t] have "map fst (review_type_versions 1 (te_id t) sample_saved) = rev [1..te_version t]" ..
  moreover have "rev [1..2] = [2, 1 :: int]" by code_simp
  ultimately show ?thesis by simp
qed

section \<open>No save undoes another\<close>

lemma save_needs_version: "save_review_type U org t by' now pubs db = (db', r) \<Longrightarrow>
    (db' = db \<and> isl r) \<or> (\<exists>w\<in>set (tb_types db). own_row org (te_id t) w \<and> te_version (tw_type w) = te_version t)"
  by (auto simp: save_review_type_def committed_def split: option.splits if_splits sum.splits dest!: find_row)

lemma delete_needs_version: "delete_review_type org ty version by' now db = (db', r) \<Longrightarrow>
    (db' = db \<and> isl r) \<or> (\<exists>w\<in>set (tb_types db). own_row org ty w \<and> te_version (tw_type w) = version)"
  by (auto simp: delete_review_type_def Let_def list_ex_iff split: if_splits)

lemma saved_row:
  assumes "types_ok db" "drawn pubs" "save_review_type U org t by' now pubs db = (db1, Inr t1)"
  shows "\<exists>w\<in>set (tb_types db1). row_id w = te_id t \<and> te_version (tw_type w) = te_version t + 1"
proof -
  let ?mid = "update_types (own_row org (te_id t)) (\<lambda>w. w\<lparr>tw_type := saved_type t by' now (tw_type w)\<rparr>) db"
  obtain w where w: "w \<in> set (tb_types db)" "own_row org (te_id t) w" "te_version (tw_type w) = te_version t"
    and f: "filed org (te_id t) ?mid db1 t1" using save_cases [OF assms(3,2)] by auto
  have rows: "tb_types db1 = tb_types ?mid" using filed_ok [OF f saved_pending [OF assms(1) w(1,2)]] by simp
  have "w\<lparr>tw_type := saved_type t by' now (tw_type w)\<rparr> \<in> set (tb_types db1)" unfolding rows using w(1,2) by (auto simp: update_types_rows)
  then show ?thesis using w(2,3) by (intro bexI) (auto simp: row_id_def saved_type_def own_row_def)
qed

text \<open>C21. Of two edits made against one version only the first is saved: once a save went through, whatever happened since, a
  save or a delete against the version it was made on is refused and leaves the tables as they are.\<close>

theorem no_save_is_undone:
  assumes "type_steps U empty_types db" "drawn pubs" "save_review_type U org t by' now pubs db = (db1, Inr t1)" "type_steps U db1 db2"
    and t': "te_id t' = te_id t" "te_version t' = te_version t"
  shows "(\<exists>e. save_review_type U org t' by2 now2 pubs2 db2 = (db2, Inl e)) \<and>
    (\<exists>e. delete_review_type org (te_id t) (te_version t) by2 now2 db2 = (db2, Inl e))"
proof -
  have "type_steps U db db1" using saves [OF assms(2)] assms(3) by (metis fst_conv r_into_rtranclp)
  from reached [OF assms(1) this] have ok: "types_ok db" "types_ok db1" by simp_all
  have ok2: "types_ok db2" "grown db1 db2" using steps_grown [OF assms(4) ok(2)] by simp_all
  obtain w1 where w1: "w1 \<in> set (tb_types db1)" "row_id w1 = te_id t" "te_version (tw_type w1) = te_version t + 1"
    using saved_row [OF ok(1) assms(2,3)] by blast
  then obtain w2 where w2: "w2 \<in> set (tb_types db2)" "row_id w2 = te_id t" "te_version t < te_version (tw_type w2)"
    using ok2(2) by (fastforce simp: grown_def same_name_def)
  have newer: "te_version (tw_type w) \<noteq> te_version t" if "w \<in> set (tb_types db2)" "own_row org (te_id t) w" for w
    using row_unique [of db2 w w2] that w2 ok2(1) by (auto simp: types_ok_def own_row_def)
  obtain d r d' r' where s: "save_review_type U org t' by2 now2 pubs2 db2 = (d, r)"
    and e: "delete_review_type org (te_id t) (te_version t) by2 now2 db2 = (d', r')" by fastforce
  show ?thesis using save_needs_version [OF s] delete_needs_version [OF e] newer s e t' by (auto simp: isl_def)
qed

theorem no_save_is_undone_witness:
  "\<exists>e. save_review_type ascii_tables 1 sample_edit ''cas'' 7 sample_pubs sample_saved = (sample_saved, Inl e)"
proof -
  define r where "r = save_review_type ascii_tables 1 sample_edit ''bob'' 6 (sample_pubs \<circ> Suc) sample_made"
  have "\<not> isl (snd r)" unfolding r_def by code_simp
  moreover have "fst r = sample_saved" by (simp add: r_def sample_saved_def)
  ultimately obtain t1 where s: "save_review_type ascii_tables 1 sample_edit ''bob'' 6 (sample_pubs \<circ> Suc) sample_made = (sample_saved, Inr t1)"
    unfolding r_def by (metis prod.collapse sum.disc(1) sum.exhaust)
  from no_save_is_undone [OF sample_steps(1) sample_drawn(2) s rtranclp.rtrancl_refl refl refl] show ?thesis by blast
qed

section \<open>A rule keeps where it came from\<close>

text \<open>A rule keeps what is not an editor's to change: whatever is saved, the rule under a number has the type, the public id,
  the source and the comment it was given when it was added, and no number is given twice.\<close>

theorem rule_keeps_its_origin:
  assumes "type_steps U empty_types db" "type_steps U db db'" and r: "r \<in> set (tb_rules db)" "r' \<in> set (tb_rules db')" "rid r = rid r'"
  shows "same_rule r r' \<and> distinct (map rid (tb_rules db')) \<and> distinct (map rpub (tb_rules db'))"
proof -
  note ok = reached [OF assms(1,2)]
  then have "rules_ok db" "rules_ok db'" "rules_from db db'" by (simp_all add: types_ok_def tables_ok_def grown_def)
  then show ?thesis using rules_from_row [OF _ _ r] by (simp add: rules_ok_def)
qed

theorem rule_keeps_its_origin_witness:
  "same_rule (hd (tb_rules sample_made)) (hd (tb_rules sample_saved))"
proof -
  have "tb_rules sample_made \<noteq> []" "tb_rules sample_saved \<noteq> []" "rid (hd (tb_rules sample_made)) = rid (hd (tb_rules sample_saved))" by code_simp+
  with rule_keeps_its_origin [OF sample_steps, of "hd (tb_rules sample_made)" "hd (tb_rules sample_saved)"] show ?thesis by simp
qed

section \<open>A learned rule waits\<close>

definition learned_active :: "rule_entry \<Rightarrow> bool" where
  "learned_active r \<longleftrightarrow> ru_source r = ''learned'' \<and> ru_status r = ''active''"

text \<open>The numbers of the learned rules somebody approved.\<close>

definition approved :: "type_db \<Rightarrow> int set" where
  "approved db = rid ` {w \<in> set (tb_rules db). learned_active (rw_rule w)}"

text \<open>An entry of a saved list that approves nothing: a rule as it is stored, or a new one that is proposed or shipped.\<close>

definition unnumbered :: "rule_entry \<Rightarrow> rule_entry" where
  "unnumbered r = r\<lparr>ru_id := 0\<rparr>"

definition quiet :: "int \<Rightarrow> int \<Rightarrow> type_db \<Rightarrow> rule_entry \<Rightarrow> bool" where
  "quiet org ty old e \<longleftrightarrow> (\<exists>w\<in>set (tb_rules old). of_type org ty w \<and> unnumbered (rw_rule w) = unnumbered e) \<or>
     (ru_public e = '''' \<and> (ru_status e = ''proposed'' \<or> ru_source e = ''builtin''))"

lemma unnumbered_eq: "unnumbered a = unnumbered b \<Longrightarrow> ru_public a = ru_public b \<and> ru_status a = ru_status b \<and> ru_source a = ru_source b"
  by (metis rule_entry.select_convs(2,10,11) rule_entry.update_convs(1) rule_entry.surjective unnumbered_def)

lemma stored_of_row:
  assumes "rules_ok old" "w \<in> set (tb_rules old)" "of_type org ty w"
  shows "stored_rule org ty (rpub w) old = Some (rw_rule w)"
proof -
  let ?P = "\<lambda>x. rw_org x = org \<and> rw_type x = ty \<and> rpub x = rpub w"
  have "List.find ?P (tb_rules old) \<noteq> None" using assms(2,3) by (auto simp: find_None_iff of_type_def)
  then obtain x where x: "List.find ?P (tb_rules old) = Some x" by blast
  then have "x \<in> set (tb_rules old)" "rpub x = rpub w" using find_row by fastforce+
  then have "x = w" using assms(1,2) by (auto simp: rules_ok_def distinct_map dest: inj_onD)
  with x show ?thesis by (simp add: stored_rule_def)
qed

lemma added_quiet:
  assumes "insert_rule org ty (added_rule i e pub now) db = Inr db1" "ru_status e = ''proposed'' \<or> ru_source e = ''builtin''"
  shows "approved db1 = approved db"
  using insert_rule_row [OF assms(1)] assms(2) by (auto simp: approved_def learned_active_def added_rule_def Let_def)

lemma edited_quiet:
  assumes ok: "rules_ok old" "rules_from old db" "w \<in> set (tb_rules old)" and e: "unnumbered (rw_rule w) = unnumbered e"
    and sub: "approved db \<subseteq> approved old"
  shows "approved (update_rule org (rid w) (edited_rule i e (ru_status (rw_rule w)) now) db) \<subseteq> approved old"
proof
  fix n assume "n \<in> approved (update_rule org (rid w) (edited_rule i e (ru_status (rw_rule w)) now) db)"
  then obtain y where y: "y \<in> set (tb_rules db)"
    and n: "if rw_org y = org \<and> rid y = rid w then n = rid y \<and> learned_active (edited_rule i e (ru_status (rw_rule w)) now (rw_rule y))
      else n = rid y \<and> learned_active (rw_rule y)"
    by (auto simp: approved_def update_rule_def update_rows_def edited_rule_def split: if_splits)
  show "n \<in> approved old"
  proof (cases "rw_org y = org \<and> rid y = rid w")
    case True
    then have "same_rule w y" using rules_from_row [OF ok(1,2,3) y] by simp
    with True n unnumbered_eq [OF e] have "learned_active (rw_rule w)" "n = rid w"
      by (auto simp: learned_active_def edited_rule_def same_rule_def split: if_splits)
    then show ?thesis using ok(3) by (auto simp: approved_def)
  next
    case False
    with n y have "n \<in> approved db" by (auto simp: approved_def)
    with sub show ?thesis by blast
  qed
qed

text \<open>The named entries of a list, each once, and none of them used up yet.\<close>

definition each_once :: "type_db \<Rightarrow> rule_entry list \<Rightarrow> int list \<Rightarrow> bool" where
  "each_once old rs kept \<longleftrightarrow> distinct (filter (\<lambda>p. p \<noteq> '''') (map ru_public rs)) \<and>
     (\<forall>w\<in>set (tb_rules old). rpub w \<in> ru_public ` set rs \<longrightarrow> rid w \<notin> set kept)"

lemma save_rules_quiet:
  "save_rules org ty pubs now old i rs kept db = Inr (db', kept') \<Longrightarrow> drawn pubs \<Longrightarrow> rules_ok old \<Longrightarrow> rules_from old db \<Longrightarrow> rules_ok db \<Longrightarrow>
    approved db \<subseteq> approved old \<Longrightarrow> \<forall>e\<in>set rs. quiet org ty old e \<Longrightarrow> each_once old rs kept \<Longrightarrow> approved db' \<subseteq> approved old"
proof (induction rs arbitrary: i kept db)
  case (Cons e rs)
  note ok = Cons.prems(2-5)
  have once: "each_once old rs kept" using Cons.prems(8) by (auto simp: each_once_def split: if_splits)
  have quiet: "\<forall>e\<in>set rs. quiet org ty old e" using Cons.prems(7) by simp
  from Cons.prems(7) consider (stored) w where "w \<in> set (tb_rules old)" "of_type org ty w" "unnumbered (rw_rule w) = unnumbered e"
    | (new) "ru_public e = ''''" "ru_status e = ''proposed'' \<or> ru_source e = ''builtin''" unfolding quiet_def by auto
  then show ?case
  proof cases
    case stored
    have pub: "ru_public e = rpub w" "ru_public e \<noteq> ''''" using unnumbered_eq [OF stored(3)] ok(2) stored(1) by (auto simp: rules_ok_def)
    have at: "stored_rule org ty (ru_public e) old = Some (rw_rule w)" using stored_of_row [OF ok(2) stored(1,2)] pub(1) by simp
    have "rid w \<notin> set kept" using Cons.prems(8) stored(1) pub(1) by (simp add: each_once_def)
    let ?db = "update_rule org (rid w) (edited_rule i e (ru_status (rw_rule w)) now) db"
    have rest: "save_rules org ty pubs now old (Suc i) rs (kept @ [rid w]) ?db = Inr (db', kept')"
      using Cons.prems(1) at pub(2) \<open>rid w \<notin> set kept\<close> by simp
    have step: "rules_step org ty db ?db" by (rule edit_step [OF ok(4,2,3) at])
    have "rid x \<noteq> rid w" if "x \<in> set (tb_rules old)" "rpub x \<in> ru_public ` set rs" for x
    proof
      assume "rid x = rid w"
      then have "x = w" using ok(2) that(1) stored(1) by (auto simp: rules_ok_def distinct_map dest: inj_onD)
      with that(2) pub have "ru_public e \<in> set (filter (\<lambda>p. p \<noteq> '''') (map ru_public rs))" by simp
      with Cons.prems(8) pub(2) show False by (simp add: each_once_def)
    qed
    with once have "each_once old rs (kept @ [rid w])" by (auto simp: each_once_def)
    moreover have "approved ?db \<subseteq> approved old" using edited_quiet [OF ok(2,3) stored(1,3) Cons.prems(6)] .
    moreover have "rules_from old ?db" "rules_ok ?db" using step rules_from_trans [OF ok(3)] unfolding rules_step_def by blast+
    ultimately show ?thesis using Cons.IH [OF rest ok(1,2)] quiet by blast
  next
    case new
    from Cons.prems(1) new(1) obtain db1 where ins: "insert_rule org ty (added_rule i e (pubs i) now) db = Inr db1"
      and rest: "save_rules org ty pubs now old (Suc i) rs kept db1 = Inr (db', kept')"
      by (auto simp: Let_def split: option.splits sum.splits)
    have "pubs i \<noteq> ''''" using ok(1) by (simp add: drawn_def)
    from insert_added_step [OF this ins ok(4)] have step: "rules_step org ty db db1" .
    have "rules_from old db1" "rules_ok db1" using step rules_from_trans [OF ok(3)] unfolding rules_step_def by blast+
    moreover have "approved db1 \<subseteq> approved old" using added_quiet [OF ins new(2)] Cons.prems(6) by simp
    ultimately show ?thesis using Cons.IH [OF rest ok(1,2)] quiet once by blast
  qed
qed simp

lemma filed_quiet:
  assumes f: "snapshot_review_type org ty by' now db1 = Inr (db', t)" "save_review_type_rules org ty rules pubs now' db = Inr db1"
    and ok: "drawn pubs" "rules_ok db" and rs: "\<forall>e\<in>set rules. quiet org ty db e" "distinct (filter (\<lambda>p. p \<noteq> '''') (map ru_public rules))"
  shows "approved db' \<subseteq> approved db"
proof -
  from f(2) obtain db2 kept where s: "save_rules org ty pubs now' db 0 rules [] db = Inr (db2, kept)"
    and db1: "db1 = db2\<lparr>tb_rules := filter (\<lambda>w. \<not> rule_gone org ty kept db w) (tb_rules db2)\<rparr>" by (rule save_type_rules_cases)
  have "approved db2 \<subseteq> approved db"
    by (rule save_rules_quiet [OF s ok rules_from_refl ok(2) subset_refl rs(1)]) (simp add: each_once_def rs(2))
  moreover have "approved db1 \<subseteq> approved db2" by (auto simp: db1 approved_def)
  ultimately show ?thesis using snapshot_row [OF f(1)] by (auto simp: approved_def)
qed

lemma same_rules_approved: "tb_rules db' = tb_rules db \<Longrightarrow> approved db' = approved db"
  by (simp add: approved_def)

lemma create_quiet:
  assumes "types_ok db" "drawn pubs" and t: "\<forall>e\<in>set (te_rules t). ru_public e = '''' \<and> ru_source e = ''builtin''"
  shows "approved (fst (create_review_type U org t by' now pub pubs db)) \<subseteq> approved db"
proof -
  let ?mid = "insert_type org t pub by' now db"
  have mid: "tb_rules ?mid = tb_rules db" by (simp add: insert_type_def Let_def)
  have ok: "rules_ok ?mid" using assms(1) by (simp add: types_ok_def tables_ok_def rules_ok_def insert_type_def Let_def)
  have "filter (\<lambda>p. p \<noteq> '''') (map ru_public (te_rules t)) = []" using t by (auto simp: filter_empty_conv)
  then have key: "approved db' \<subseteq> approved db" if "save_review_type_rules org n (te_rules t) pubs now ?mid = Inr db1"
      "snapshot_review_type org n by' now db1 = Inr (db', x)" for n db1 db' x
    using filed_quiet [OF that(2,1) assms(2) ok] t same_rules_approved [OF mid] by (simp add: quiet_def)
  show ?thesis
    by (simp add: create_review_type_def Let_def committed_def split: option.split sum.split) (use key in blast)
qed

lemma copy_quiet:
  assumes "types_ok db" "drawn pubs" "\<forall>e\<in>set (te_rules t). ru_public e = ''''"
  shows "approved (fst (copy_builtin_review_type U org t by' now pub pubs db)) \<subseteq> approved db"
proof -
  have "approved (fst (create_review_type U org (copy_of_builtin t) by' now pub pubs db)) \<subseteq> approved db"
    using assms(3) by (intro create_quiet [OF assms(1,2)]) (auto simp: copy_of_builtin_def)
  with copy_cases [of U org t by' now pub pubs db] show ?thesis by (metis subset_refl)
qed

text \<open>What a type was read as, to be edited: one of its rows, with its rules.\<close>

definition read_of :: "int \<Rightarrow> type_db \<Rightarrow> type_entry \<Rightarrow> bool" where
  "read_of org db t \<longleftrightarrow> (\<exists>w\<in>set (tb_types db). is_live org w \<and> t = with_rules org db (tw_type w))"

lemma by_key_read: "review_type_by_key org key db = Some t \<Longrightarrow> read_of org db t"
  unfolding read_of_def review_type_by_key_def by (blast dest: type_where_row)

lemma snapshot_read:
  assumes "snapshot_review_type org ty by' now db = Inr (db', t)" shows "read_of org db' t"
proof -
  have "review_type_where org (\<lambda>t. te_id t = ty) db = Some t" using assms by (auto simp: snapshot_review_type_def split: option.splits if_splits)
  from type_where_row [OF this] show ?thesis using snapshot_row [OF assms] by (auto simp: read_of_def with_rules_def rules_of_def)
qed

lemma create_read: "create_review_type U org t by' now pub pubs db = (db', Inr t') \<Longrightarrow> read_of org db' t'"
  by (auto simp: create_review_type_def Let_def committed_def split: option.splits if_splits sum.splits intro: snapshot_read)

lemma copy_read: "copy_builtin_review_type U org t by' now pub pubs db = (db', Inr (Some t')) \<Longrightarrow> read_of org db' t'"
  by (auto simp: copy_builtin_review_type_def split: option.splits if_splits prod.splits sum.splits intro: by_key_read create_read)

lemma learn_read: "type_to_learn U builtins org key by' now pub pubs db = (db', Inr t) \<Longrightarrow> read_of org db' t"
  by (auto simp: type_to_learn_def split: option.splits prod.splits sum.splits intro: by_key_read copy_read)

lemma learn_quiet:
  assumes "types_ok db" "drawn pubs"
  shows "approved (fst (type_to_learn U builtins org key by' now pub pubs db)) \<subseteq> approved db"
proof (cases "review_type_by_key org key db = None \<and> builtins key \<noteq> None")
  case True
  then obtain b where b: "builtins key = Some b" by blast
  have "fst (type_to_learn U builtins org key by' now pub pubs db) = fst (copy_builtin_review_type U org (row_of_builtin b) by' now pub pubs db)"
    using True b by (simp add: type_to_learn_def split: prod.split sum.split option.split)
  then show ?thesis using copy_quiet [OF assms, of "row_of_builtin b"] by (simp add: row_of_builtin_def no_rule_def)
next
  case False
  then show ?thesis by (auto simp: type_to_learn_def split: option.split)
qed

text \<open>A type at the version it was read at has the rules it was read with.\<close>

lemma rules_of_set: "set (rules_of org ty db) = rw_rule ` {w \<in> set (tb_rules db). of_type org ty w}"
  by (auto simp: rules_of_def of_type_def)

lemma rules_of_once: "rules_ok db \<Longrightarrow> distinct (map ru_public (rules_of org ty db))"
  by (auto simp: rules_of_def distinct_map rules_ok_def inj_on_def)

lemma packed_rules: "te_rules (packed t) = map unnumbered (te_rules t)"
  by (simp add: packed_def unnumbered_def [abs_def])

lemma read_still_there:
  assumes ok: "types_ok db" "types_ok db'" "grown db db'" and w: "w \<in> set (tb_types db)" "is_live org w"
    and w': "w' \<in> set (tb_types db')" "own_row org (row_id w) w'" "te_version (tw_type w') = te_version (tw_type w)"
  shows "map unnumbered (rules_of org (row_id w) db) = map unnumbered (rules_of org (row_id w) db')"
proof -
  have live: "is_live org w'" "row_id w' = row_id w" using w'(2) by (simp_all add: own_row_def)
  have "(packed (with_rules org db (tw_type w)))\<lparr>te_id := row_id w\<rparr> = (packed (with_rules org db' (tw_type w')))\<lparr>te_id := row_id w\<rparr>"
    using at_version_stays [OF ok(3) settled_version [OF ok(1) w]] settled_version [OF ok(2) w'(1) live(1)] live(2) w'(3) by simp
  then have "te_rules (packed (with_rules org db (tw_type w))) = te_rules (packed (with_rules org db' (tw_type w')))"
    by (metis type_entry.ext_inject type_entry.update_convs(1) type_entry.surjective)
  then show ?thesis using live(2) by (simp add: packed_rules with_rules_def row_id_def)
qed

lemma learned_save_quiet:
  assumes ok: "types_ok db" "types_ok db'" "grown db db'" "drawn pubs" and t: "read_of org db t" and new: "ru_public r = ''''" "ru_status r = ''proposed''"
  shows "approved (fst (save_review_type U org (t\<lparr>te_rules := te_rules t @ [r]\<rparr>) by' now pubs db')) \<subseteq> approved db'"
proof -
  let ?t = "t\<lparr>te_rules := te_rules t @ [r]\<rparr>"
  obtain w where w: "w \<in> set (tb_types db)" "is_live org w" "t = with_rules org db (tw_type w)" using t by (auto simp: read_of_def)
  have id: "te_id ?t = row_id w" "te_version ?t = te_version (tw_type w)" "te_rules ?t = rules_of org (row_id w) db @ [r]"
    using w(3) by (simp_all add: with_rules_def row_id_def)
  let ?mid = "update_types (own_row org (row_id w)) (\<lambda>w. w\<lparr>tw_type := saved_type ?t by' now (tw_type w)\<rparr>) db'"
  obtain d x where s: "save_review_type U org ?t by' now pubs db' = (d, x)" by fastforce
  show ?thesis
  proof (cases "d = db'")
    case False
    then obtain w' db1 x' where w': "w' \<in> set (tb_types db')" "own_row org (row_id w) w'" "te_version (tw_type w') = te_version (tw_type w)"
      and f: "save_review_type_rules org (row_id w) (te_rules ?t) pubs now ?mid = Inr db1" "snapshot_review_type org (row_id w) by' now db1 = Inr (d, x')"
      using s id(1,2) by (fastforce simp: save_review_type_def committed_def split: option.splits if_splits sum.splits dest: find_row)
    have same: "map unnumbered (rules_of org (row_id w) db) = map unnumbered (rules_of org (row_id w) db')"
      by (rule read_still_there [OF ok(1,2,3) w(1,2) w'])
    have mid: "tb_rules ?mid = tb_rules db'" by (simp add: update_types_rows)
    have rules: "rules_ok ?mid" "rules_ok db" using ok(1,2) by (simp_all add: types_ok_def tables_ok_def rules_ok_def update_types_rows)
    have "quiet org (row_id w) ?mid e" if e: "e \<in> set (rules_of org (row_id w) db)" for e
    proof -
      have "unnumbered e \<in> unnumbered ` set (rules_of org (row_id w) db')" using e same by (metis imageI set_map)
      then show ?thesis unfolding quiet_def mid rules_of_set by auto
    qed
    then have "\<forall>e\<in>set (te_rules ?t). quiet org (row_id w) ?mid e" using new unfolding id(3) by (auto simp: quiet_def)
    moreover have "distinct (filter (\<lambda>p. p \<noteq> '''') (map ru_public (te_rules ?t)))"
      using rules_of_once [OF rules(2)] new(1) unfolding id(3) by simp
    ultimately have "approved d \<subseteq> approved ?mid" by (rule filed_quiet [OF f(2,1) ok(4) rules(1)])
    then show ?thesis using same_rules_approved [OF mid] s by simp
  qed (simp add: s)
qed

lemma once_quiet:
  assumes ok: "types_ok db" and pubs: "drawn pubs" "drawn pubs'"
    and others: "\<And>d. type_steps U d (between d)" "\<And>d. approved (between d) \<subseteq> approved d"
  shows "approved (fst (propose_once U builtins org key text url by' now pub pubs pubs' between db)) \<subseteq> approved db"
proof -
  obtain db1 r where learn: "type_to_learn U builtins org key by' now pub pubs db = (db1, r)" by fastforce
  have one: "types_ok db1" "approved db1 \<subseteq> approved db"
    using steps_grown [OF learn_is_step [OF pubs(1)] ok] learn_quiet [OF ok pubs(1)] learn by (metis fst_conv)+
  have two: "types_ok (between db1)" "grown db1 (between db1)" using steps_grown [OF others(1) one(1)] by simp_all
  show ?thesis
  proof (cases "\<exists>t. r = Inr t \<and> \<not> (url \<noteq> '''' \<and> list_ex (\<lambda>r. ru_from r = url) (te_rules t))")
    case True
    then obtain t where t: "r = Inr t" "\<not> (url \<noteq> '''' \<and> list_ex (\<lambda>r. ru_from r = url) (te_rules t))" by blast
    let ?t = "t\<lparr>te_rules := te_rules t @ [learned_rule text url]\<rparr>"
    have "fst (propose_once U builtins org key text url by' now pub pubs pubs' between db) = fst (save_review_type U org ?t by' now pubs' (between db1))"
      using t by (cases "url = ''''") (simp_all add: propose_once_def learn split: prod.split sum.split)
    moreover have "read_of org db1 t" using learn_read learn t(1) by blast
    then have "approved (fst (save_review_type U org ?t by' now pubs' (between db1))) \<subseteq> approved (between db1)"
      by (rule learned_save_quiet [OF one(1) two pubs(2)]) (simp_all add: learned_rule_def no_rule_def)
    ultimately show ?thesis using others(2) [of db1] one(2) by (metis subset_trans)
  next
    case False
    then have "fst (propose_once U builtins org key text url by' now pub pubs pubs' between db) = db1"
      by (cases r) (simp_all add: propose_once_def learn)
    with one show ?thesis by simp
  qed
qed

text \<open>C22. Nobody approves a learned rule but a person: proposing one, the copy of the built-in it may make and the second attempt
  after somebody else's save included, leaves every learned rule that is active one that was, as long as what others save in
  between approves none either.\<close>

theorem proposing_approves_nothing:
  assumes "type_steps U empty_types db" "drawn pubs" "drawn pubs'"
    and "\<And>d. type_steps U d (between d)" "\<And>d. approved (between d) \<subseteq> approved d"
    and "\<And>d. type_steps U d (again d)" "\<And>d. approved (again d) \<subseteq> approved d"
  shows "approved (fst (propose_learned_rule U builtins org key text url by' now pub pubs pubs' between again db)) \<subseteq> approved db"
proof -
  have ok: "types_ok db" by (rule reachable_types_ok [OF assms(1)])
  obtain db1 r where once: "propose_once U builtins org key text url by' now pub pubs pubs' between db = (db1, r)" by fastforce
  have one: "types_ok db1" "approved db1 \<subseteq> approved db"
    using steps_grown [OF propose_once_is_steps [OF assms(4,2,3)] ok] once_quiet [OF ok assms(2-5)] once by (metis fst_conv)+
  have "approved (fst (propose_once U builtins org key text url by' now pub pubs pubs' again db1)) \<subseteq> approved db1"
    by (rule once_quiet [OF one(1) assms(2,3,6,7)])
  with one(2) have "approved (fst (propose_once U builtins org key text url by' now pub pubs pubs' again db1)) \<subseteq> approved db" by blast
  with one(2) show ?thesis by (auto simp: propose_learned_rule_def once split: sum.split store_error.split)
qed

definition sample_learned :: type_db where
  "sample_learned = fst (propose_learned_rule ascii_tables (\<lambda>k. None) 1 ''security'' ''Check the tenant.'' ''u'' ''bob'' 6 ''v''
     sample_pubs (sample_pubs \<circ> Suc) id id sample_made)"

theorem proposing_approves_nothing_witness:
  "approved sample_learned = {} \<and> map (ru_status \<circ> rw_rule) (tb_rules sample_learned) = [''active'', ''proposed'']"
proof -
  have "approved sample_learned \<subseteq> approved sample_made" unfolding sample_learned_def
    by (rule proposing_approves_nothing [OF sample_steps(1) sample_drawn]) simp_all
  moreover have "filter (\<lambda>w. learned_active (rw_rule w)) (tb_rules sample_made) = []" by code_simp
  then have "approved sample_made = {}" by (auto simp: approved_def filter_empty_conv)
  moreover have "map (ru_status \<circ> rw_rule) (tb_rules sample_learned) = [''active'', ''proposed'']" by code_simp
  ultimately show ?thesis by blast
qed

section \<open>A copy of a built-in whose key was used\<close>

text \<open>A built-in that ships under the key of a type the organisation deleted: the copy is a nil type and no error.\<close>

lemma copy_under_deleted_key:
  assumes "types_ok db" and w: "w \<in> set (tb_types db)" "has_key org (te_key b) w" "tw_deleted w \<noteq> None"
    and "check_review_type U (copy_of_builtin b) (te_key b) = None"
  shows "copy_builtin_review_type U org b by' now pub pubs db = (db, Inr None)"
proof -
  have "\<not> (is_live org x \<and> te_key (tw_type x) = te_key b)" if "x \<in> set (tb_types db)" for x
    using key_unique [of db x w] that w assms(1) by (auto simp: types_ok_def has_key_def is_live_def)
  then have none: "review_type_by_key org (te_key b) db = None" by (auto simp: review_type_by_key_def review_type_where_def find_None_iff)
  have key: "te_key (copy_of_builtin b) = te_key b" by (simp add: copy_of_builtin_def)
  have "create_review_type U org (copy_of_builtin b) by' now pub pubs db = (db, Inl Key_of_deleted)"
    using assms(5) w by (auto simp: create_review_type_def key list_ex_iff)
  then show ?thesis using none by (simp add: copy_builtin_review_type_def)
qed

end
