(* ===== verification/Billing.thy ===== *)
theory Billing
  imports Review_Rows
begin

text \<open>
  The money tables (\<^verbatim>\<open>internal/app/store_billing.go\<close>): an organisation's subscription, its credit, the monthly allowance
  of its plan, and the statement of every movement; and what decides when an account stops (\<^verbatim>\<open>billing_policy.go\<close>,
  \<^verbatim>\<open>plans.go\<close>). Money is whole micro-dollars; a dollar amount is a rational. A time is a Unix second and the empty
  text no time; \<open>clk\<close> is the process's clock in nanoseconds. A transaction is a function on the tables; one that reads a row
  and writes it later takes the row as it was read.
\<close>

section \<open>Rows\<close>

record billing_account =
  ba_org :: int
  ba_customer :: string
  ba_sub :: string
  ba_status :: string
  ba_size :: string
  ba_unit :: int
  ba_quantity :: int
  ba_currency :: string
  ba_start :: stamp
  ba_end :: stamp
  ba_cancel :: bool
  ba_balance :: int
  ba_enforced :: bool
  ba_topup :: int
  ba_debit :: int
  ba_rolled :: int
  ba_allow :: int
  ba_granted :: int
  ba_allow_end :: stamp
  ba_allow_size :: string
  ba_created :: int
  ba_updated :: int

record ledger_row =
  lg_org :: int
  lg_at :: int
  lg_kind :: string
  lg_micros :: int
  lg_after :: int
  lg_currency :: string
  lg_ext :: string
  lg_note :: string
  lg_actor :: string

record plan_size =
  sz_key :: string
  sz_price :: string
  sz_amount :: int
  sz_included :: int
  sz_users :: int
  sz_jobs :: int

record org_row =
  og_id :: int
  og_public :: string
  og_plan :: string
  og_grant :: rat
  og_budget :: "rat option"

record billing_db =
  bd_accounts :: "billing_account list"
  bd_ledger :: "ledger_row list"
  bd_events :: "(string \<times> int) list"
  bd_orgs :: "org_row list"
  bd_terms :: "(int \<times> plan_size) list"

datatype billing_error = No_key | Already_credited | Customer_taken | No_account

section \<open>Money\<close>

definition micros_per_usd :: int where "micros_per_usd = 1000000"

text \<open>\<^verbatim>\<open>math.Round\<close> of what is not negative; a rational is finite.\<close>

definition usd_to_micros :: "rat \<Rightarrow> int" where
  "usd_to_micros usd = (if usd \<le> 0 then 0 else \<lfloor>usd * of_int micros_per_usd + 1 / 2\<rfloor>)"

definition usd_of_micros :: "int \<Rightarrow> rat" where
  "usd_of_micros m = of_int m / of_int micros_per_usd"

definition minor_to_micros :: "int \<Rightarrow> int" where
  "minor_to_micros minor = minor * (micros_per_usd div 100)"

section \<open>Reading an account\<close>

definition is_account :: "int \<Rightarrow> billing_account \<Rightarrow> bool" where
  "is_account org a \<longleftrightarrow> ba_org a = org"

definition account_of :: "int \<Rightarrow> billing_db \<Rightarrow> billing_account option" where
  "account_of org db = List.find (is_account org) (bd_accounts db)"

definition account_by_customer :: "string \<Rightarrow> billing_db \<Rightarrow> billing_account option" where
  "account_by_customer cus db = (if cus = '''' then None else List.find (\<lambda>a. ba_customer a = cus) (bd_accounts db))"

definition allowance_live :: "int \<Rightarrow> billing_account \<Rightarrow> bool" where
  "allowance_live now a \<longleftrightarrow> (case ba_allow_end a of None \<Rightarrow> False | Some e \<Rightarrow> e \<ge> now)"

definition spendable_allowance :: "int \<Rightarrow> billing_account \<Rightarrow> int" where
  "spendable_allowance now a = (if allowance_live now a then ba_allow a else 0)"

definition spendable_micros :: "int \<Rightarrow> billing_account \<Rightarrow> int" where
  "spendable_micros now a = spendable_allowance now a + ba_balance a"

definition metered :: "int \<Rightarrow> billing_account \<Rightarrow> bool" where
  "metered now a \<longleftrightarrow> ba_enforced a \<or> allowance_live now a"

definition live_statuses :: "string list" where
  "live_statuses = [''active'', ''trialing'', ''past_due'', ''comped'', ''invoiced'']"

definition account_active :: "billing_account \<Rightarrow> bool" where
  "account_active a \<longleftrightarrow> ba_status a \<in> set live_statuses"

definition amount_micros :: "billing_account \<Rightarrow> int" where
  "amount_micros a = ba_unit a * ba_quantity a"

text \<open>Active, enforced, and whether a live allowance meters it.\<close>

definition billing_facts :: "int \<Rightarrow> int \<Rightarrow> billing_db \<Rightarrow> bool \<times> bool \<times> bool" where
  "billing_facts now org db = (case account_of org db of None \<Rightarrow> (False, False, False)
     | Some a \<Rightarrow> (account_active a, ba_enforced a, allowance_live now a))"

definition credit_balance :: "int \<Rightarrow> billing_db \<Rightarrow> int" where
  "credit_balance org db = (case account_of org db of None \<Rightarrow> 0 | Some a \<Rightarrow> ba_balance a)"

definition spendable_credit :: "int \<Rightarrow> int \<Rightarrow> billing_db \<Rightarrow> int \<times> bool" where
  "spendable_credit now org db = (case account_of org db of None \<Rightarrow> (0, False) | Some a \<Rightarrow> (spendable_micros now a, metered now a))"

section \<open>Writing an account\<close>

definition new_account :: "int \<Rightarrow> int \<Rightarrow> billing_account" where
  "new_account org now = \<lparr>ba_org = org, ba_customer = '''', ba_sub = '''', ba_status = '''', ba_size = '''', ba_unit = 0,
     ba_quantity = 0, ba_currency = ''usd'', ba_start = None, ba_end = None, ba_cancel = False, ba_balance = 0, ba_enforced = False,
     ba_topup = 0, ba_debit = 0, ba_rolled = 0, ba_allow = 0, ba_granted = 0, ba_allow_end = None, ba_allow_size = '''',
     ba_created = now, ba_updated = now\<rparr>"

definition ensure_billing_row :: "int \<Rightarrow> int \<Rightarrow> billing_db \<Rightarrow> billing_db" where
  "ensure_billing_row org now db = (if list_ex (is_account org) (bd_accounts db) then db
     else db\<lparr>bd_accounts := bd_accounts db @ [new_account org now]\<rparr>)"

definition update_accounts :: "(billing_account \<Rightarrow> bool) \<Rightarrow> (billing_account \<Rightarrow> billing_account) \<Rightarrow> billing_db \<Rightarrow> billing_db" where
  "update_accounts P f db = db\<lparr>bd_accounts := update_rows P f (bd_accounts db)\<rparr>"

section \<open>The statement\<close>

definition on_ledger :: "string \<Rightarrow> billing_db \<Rightarrow> bool" where
  "on_ledger ext db \<longleftrightarrow> list_ex (\<lambda>l. lg_ext l = ext) (bd_ledger db)"

definition add_line :: "ledger_row \<Rightarrow> billing_db \<Rightarrow> billing_db" where
  "add_line l db = db\<lparr>bd_ledger := bd_ledger db @ [l]\<rparr>"

definition ledger_of :: "int \<Rightarrow> billing_db \<Rightarrow> ledger_row list" where
  "ledger_of org db = filter (\<lambda>l. lg_org l = org) (bd_ledger db)"

definition credit_ledger :: "int \<Rightarrow> int \<Rightarrow> billing_db \<Rightarrow> ledger_row list" where
  "credit_ledger org limit db = take (nat (if limit \<le> 0 \<or> limit > 200 then 50 else limit)) (rev (ledger_of org db))"

definition ledger_sum :: "int \<Rightarrow> billing_db \<Rightarrow> int" where
  "ledger_sum org db = sum_list (map lg_micros (ledger_of org db))"

definition credited_payment :: "string \<Rightarrow> billing_db \<Rightarrow> (int \<times> int) option" where
  "credited_payment pay db = (if pay = '''' then None
     else map_option (\<lambda>l. (lg_org l, lg_micros l)) (List.find (\<lambda>l. lg_ext l = pay \<and> lg_kind l = ''topup'') (bd_ledger db)))"

text \<open>A map in the source: its entries, each key with the sum of its rows.\<close>

definition ledger_by_external :: "int \<Rightarrow> string \<Rightarrow> billing_db \<Rightarrow> (string \<times> int) list" where
  "ledger_by_external org kind db = (let rows = filter (\<lambda>l. lg_kind l = kind) (ledger_of org db)
     in map (\<lambda>k. (k, sum_list (map lg_micros (filter (\<lambda>l. lg_ext l = k) rows)))) (remdups (map lg_ext rows)))"

record credit_movement =
  cm_org :: int
  cm_kind :: string
  cm_micros :: int
  cm_ext :: string
  cm_note :: string
  cm_actor :: string
  cm_currency :: string
  cm_enforce :: bool

definition counted_topup :: "credit_movement \<Rightarrow> int" where
  "counted_topup m = (if cm_micros m > 0 \<and> cm_kind m \<in> {''topup'', ''grant'', ''included''} then cm_micros m else 0)"

definition moved_account :: "int \<Rightarrow> credit_movement \<Rightarrow> billing_account \<Rightarrow> billing_account" where
  "moved_account now m a = a\<lparr>ba_balance := ba_balance a + cm_micros m, ba_topup := ba_topup a + counted_topup m,
     ba_enforced := (cm_enforce m \<or> ba_enforced a), ba_updated := now\<rparr>"

definition credit_line :: "int \<Rightarrow> credit_movement \<Rightarrow> int \<Rightarrow> ledger_row" where
  "credit_line now m after = \<lparr>lg_org = cm_org m, lg_at = now, lg_kind = cm_kind m, lg_micros = cm_micros m, lg_after = after,
     lg_currency = (if cm_currency m = '''' then ''usd'' else cm_currency m), lg_ext = cm_ext m, lg_note = cm_note m, lg_actor = cm_actor m\<rparr>"

definition move_credit :: "int \<Rightarrow> credit_movement \<Rightarrow> billing_db \<Rightarrow> billing_db \<times> (billing_error + int)" where
  "move_credit now m db = (if cm_ext m = '''' then (db, Inl No_key)
     else (let db1 = update_accounts (is_account (cm_org m)) (moved_account now m) (ensure_billing_row (cm_org m) now db);
               after = credit_balance (cm_org m) db1
           in if on_ledger (cm_ext m) db then (db, Inl Already_credited)
              else (add_line (credit_line now m after) db1, Inr after)))"

section \<open>What a turn costs\<close>

text \<open>One statement: every expression reads the row as it was.\<close>

definition charged_account :: "int \<Rightarrow> int \<Rightarrow> billing_account \<Rightarrow> billing_account" where
  "charged_account now m a =
     (let rest = (if \<not> allowance_live now a then m else if ba_allow a \<ge> m then 0 else m - ba_allow a)
      in a\<lparr>ba_allow := (if ba_allow a > m \<and> allowance_live now a then ba_allow a - m else 0),
           ba_balance := ba_balance a - rest, ba_debit := ba_debit a + rest, ba_updated := now\<rparr>)"

definition charge_credit :: "int \<Rightarrow> int \<Rightarrow> int \<Rightarrow> billing_db \<Rightarrow> billing_db" where
  "charge_credit now org m db = (if m \<le> 0 then db
     else update_accounts (\<lambda>a. is_account org a \<and> metered now a) (charged_account now m) db)"

text \<open>A turn on the organisation's own key is charged to nothing; the row of \<^verbatim>\<open>usage\<close> is not kept here.\<close>

definition log_usage :: "int \<Rightarrow> int \<Rightarrow> bool \<Rightarrow> rat \<Rightarrow> billing_db \<Rightarrow> billing_db" where
  "log_usage now org own cost db = charge_credit now org (usd_to_micros (if own then 0 else max cost 0)) db"

section \<open>The hourly line\<close>

definition unrolled_orgs :: "billing_db \<Rightarrow> int list" where
  "unrolled_orgs db = map ba_org (filter (\<lambda>a. ba_debit a > ba_rolled a) (bd_accounts db))"

definition debit_key :: "string \<Rightarrow> string \<Rightarrow> string" where
  "debit_key public hour = ''debit:'' @ public @ '':'' @ hour"

definition debit_line :: "int \<Rightarrow> billing_account \<Rightarrow> string \<Rightarrow> ledger_row" where
  "debit_line now a key = \<lparr>lg_org = ba_org a, lg_at = now, lg_kind = ''debit'', lg_micros = - (ba_debit a - ba_rolled a), lg_after = ba_balance a,
     lg_currency = ''usd'', lg_ext = key, lg_note = ''Model spend'', lg_actor = ''system''\<rparr>"

text \<open>\<open>a\<close> is the row this transaction read; the watermark moves only from the value it read.\<close>

definition roll_up_read :: "int \<Rightarrow> string \<Rightarrow> string \<Rightarrow> billing_account \<Rightarrow> billing_db \<Rightarrow> billing_db \<times> int" where
  "roll_up_read now public hour a db =
     (if ba_debit a - ba_rolled a \<le> 0 \<or> on_ledger (debit_key public hour) db then (db, 0)
      else (let here = (\<lambda>x. is_account (ba_org a) x \<and> ba_rolled x = ba_rolled a) in
        if list_ex here (bd_accounts db)
        then (update_accounts here (\<lambda>x. x\<lparr>ba_rolled := ba_debit a, ba_updated := now\<rparr>) (add_line (debit_line now a (debit_key public hour)) db),
              ba_debit a - ba_rolled a)
        else (db, 0)))"

definition roll_up_debit :: "int \<Rightarrow> int \<Rightarrow> string \<Rightarrow> string \<Rightarrow> billing_db \<Rightarrow> billing_db \<times> int" where
  "roll_up_debit now org public hour db = (case account_of org db of None \<Rightarrow> (db, 0) | Some a \<Rightarrow> roll_up_read now public hour a db)"

section \<open>The allowance of a plan\<close>

definition nanos_per_second :: int where "nanos_per_second = 1000000000"

definition clock_second :: "int \<Rightarrow> int" where
  "clock_second clk = clk div nanos_per_second"

definition prorate_left :: "int \<Rightarrow> stamp \<Rightarrow> stamp \<Rightarrow> int \<Rightarrow> int" where
  "prorate_left amount start end' clk = (case (start, end') of
       (Some s, Some e) \<Rightarrow> if e \<le> s then amount
         else (let left = e * nanos_per_second - clk; total = (e - s) * nanos_per_second
               in if left \<le> 0 then 0 else if left \<ge> total then amount else (amount * left) div total)
     | _ \<Rightarrow> amount)"

text \<open>What is granted, what is left and when it ends, from the row that was read.\<close>

definition synced_allowance :: "string \<Rightarrow> stamp \<Rightarrow> int \<Rightarrow> int \<Rightarrow> billing_account \<Rightarrow> int \<times> int \<times> stamp" where
  "synced_allowance sz period want clk a =
     (if want \<le> 0 \<or> period = None then (0, 0, None)
      else if ba_allow_end a \<noteq> period then (want, want, period)
      else if want > ba_granted a
      then (let add = (if ba_allow_size a \<noteq> '''' \<and> ba_allow_size a \<noteq> sz
                       then prorate_left (want - ba_granted a) (ba_start a) (ba_end a) clk else want - ba_granted a)
            in (want, ba_allow a + add, period))
      else (ba_granted a, ba_allow a, period))"

definition put_allowance :: "int \<Rightarrow> string \<Rightarrow> int \<times> int \<times> stamp \<Rightarrow> int \<Rightarrow> billing_db \<Rightarrow> billing_db" where
  "put_allowance org sz x now db = (case x of (granted, left, period) \<Rightarrow>
     update_accounts (is_account org) (\<lambda>a. a\<lparr>ba_allow := left, ba_granted := granted, ba_allow_end := period, ba_allow_size := sz, ba_updated := now\<rparr>) db)"

definition sync_allowance_row :: "int \<Rightarrow> string \<Rightarrow> stamp \<Rightarrow> int \<Rightarrow> int \<Rightarrow> billing_db \<Rightarrow> billing_db" where
  "sync_allowance_row org sz period want clk db =
     (let db1 = ensure_billing_row org (clock_second clk) db
      in case account_of org db1 of None \<Rightarrow> db
         | Some a \<Rightarrow> put_allowance org sz (synced_allowance sz period want clk a) (clock_second clk) db1)"

definition drifting_orgs :: "billing_db \<Rightarrow> int list" where
  "drifting_orgs db = map ba_org (filter (\<lambda>a. account_active a \<or> ba_allow_end a \<noteq> None) (bd_accounts db))"

definition expire_allowances :: "int \<Rightarrow> billing_db \<Rightarrow> billing_db" where
  "expire_allowances now = update_accounts (\<lambda>a. ba_allow_end a \<noteq> None \<and> \<not> allowance_live now a)
     (\<lambda>a. a\<lparr>ba_allow := 0, ba_granted := 0, ba_allow_end := None, ba_updated := now\<rparr>)"

section \<open>The subscription\<close>

record subscription_state =
  su_customer :: string
  su_id :: string
  su_status :: string
  su_size :: string
  su_unit :: int
  su_quantity :: int
  su_currency :: string
  su_start :: stamp
  su_end :: stamp
  su_cancel :: bool

definition subscribed_account :: "int \<Rightarrow> subscription_state \<Rightarrow> billing_account \<Rightarrow> billing_account" where
  "subscribed_account now st a = a\<lparr>ba_customer := su_customer st, ba_sub := su_id st, ba_status := su_status st, ba_size := su_size st,
     ba_unit := su_unit st, ba_quantity := su_quantity st, ba_currency := (if su_currency st = '''' then ''usd'' else su_currency st),
     ba_start := su_start st, ba_end := su_end st, ba_cancel := su_cancel st, ba_updated := now\<rparr>"

text \<open>A customer that is not empty is of one account: the unique index.\<close>

definition put_subscription :: "int \<Rightarrow> int \<Rightarrow> subscription_state \<Rightarrow> billing_db \<Rightarrow> billing_db \<times> billing_error option" where
  "put_subscription now org st db =
     (if su_customer st \<noteq> '''' \<and> list_ex (\<lambda>a. ba_org a \<noteq> org \<and> ba_customer a = su_customer st) (bd_accounts db) then (db, Some Customer_taken)
      else (update_accounts (is_account org) (subscribed_account now st) (ensure_billing_row org now db), None))"

section \<open>Events on record\<close>

definition has_billing_event :: "string \<Rightarrow> billing_db \<Rightarrow> bool" where
  "has_billing_event i db \<longleftrightarrow> i \<in> fst ` set (bd_events db)"

definition seen_billing_event :: "int \<Rightarrow> string \<Rightarrow> billing_db \<Rightarrow> billing_db" where
  "seen_billing_event now i db = (if has_billing_event i db then db else db\<lparr>bd_events := bd_events db @ [(i, now)]\<rparr>)"

definition sweep_billing_events :: "int \<Rightarrow> billing_db \<Rightarrow> billing_db" where
  "sweep_billing_events older db = db\<lparr>bd_events := filter (\<lambda>(i, t). \<not> (t < older \<and> \<not> prefix ''ended:'' i)) (bd_events db)\<rparr>"

section \<open>When an account stops\<close>

definition max_overdraft_micros :: int where "max_overdraft_micros = 50 * micros_per_usd"

definition paused_by :: "bool \<Rightarrow> rat \<Rightarrow> bool \<Rightarrow> int \<Rightarrow> rat \<Rightarrow> string" where
  "paused_by own_key budget met spendable spent =
     (if met \<and> \<not> own_key \<and> spendable \<le> - max_overdraft_micros then ''credit''
      else if budget > 0 \<and> spent \<ge> budget then ''budget'' else '''')"

definition warned_by :: "int \<Rightarrow> bool \<Rightarrow> rat \<Rightarrow> billing_account \<Rightarrow> int \<Rightarrow> int \<Rightarrow> string" where
  "warned_by now own_key low_usd a users user_limit =
     (if metered now a \<and> \<not> own_key \<and>
         (if ba_granted a > 0 then spendable_micros now a \<le> \<lfloor>of_int (ba_granted a) * (1 / 10 :: rat)\<rfloor> else spendable_micros now a \<le> usd_to_micros low_usd)
      then ''credit''
      else if user_limit > 0 \<and> of_int users \<ge> of_int user_limit * (9 / 10 :: rat) then ''users'' else '''')"

definition size_by_key :: "plan_size list \<Rightarrow> string \<Rightarrow> plan_size option" where
  "size_by_key sizes key = List.find (\<lambda>z. sz_key z = key) sizes"

definition size_by_price :: "plan_size list \<Rightarrow> string \<Rightarrow> plan_size option" where
  "size_by_price sizes price = List.find (\<lambda>z. sz_price z \<noteq> '''' \<and> sz_price z = price) sizes"

definition user_limit_of :: "plan_size list \<Rightarrow> billing_account option \<Rightarrow> int" where
  "user_limit_of sizes acct = (case acct of None \<Rightarrow> 0
     | Some a \<Rightarrow> if account_active a then (case size_by_key sizes (ba_size a) of Some z \<Rightarrow> sz_users z | None \<Rightarrow> 0) else 0)"

definition size_job_limits :: "(string \<times> int) list" where
  "size_job_limits = [(''upto_10'', 25), (''upto_25'', 50), (''upto_50'', 100), (''upto_100'', 200), (''upto_250'', 500)]"

definition job_limit_of :: "billing_account option \<Rightarrow> string \<Rightarrow> int" where
  "job_limit_of acct plan =
     (if (case acct of None \<Rightarrow> False | Some a \<Rightarrow> account_active a \<and> ba_size a \<noteq> '''')
      then (case map_of size_job_limits (ba_size (the acct)) of Some n \<Rightarrow> n | None \<Rightarrow> 0)
      else if plan = ''free'' then 5 else 0)"

definition budget_ceiling :: "string \<Rightarrow> rat \<Rightarrow> rat \<Rightarrow> rat \<Rightarrow> bool \<Rightarrow> rat" where
  "budget_ceiling plan grant deployment free_budget funded =
     (if plan = ''enterprise'' then grant
      else if funded \<and> plan = ''pro'' then 0
      else if plan = ''pro'' then (if grant > 0 then grant else deployment)
      else if free_budget \<le> 0 then deployment
      else if deployment \<le> 0 \<or> free_budget < deployment then free_budget else deployment)"

end
