(* ===== verification/Billing_Spec.thy ===== *)
theory Billing_Spec
  imports Billing
begin

text \<open>
  The books of the money tables: a balance is the sum of its statement less what the statement does not state yet, at
  every moment of every interleaving, and a turn is paid from the allowance first. A statement that was read before others
  wrote is one of the steps too: the counters it read are none that went back.
\<close>

section \<open>The steps\<close>

definition was_row :: "billing_account \<Rightarrow> billing_db \<Rightarrow> bool" where
  "was_row a db \<longleftrightarrow> (\<exists>x\<in>set (bd_accounts db). ba_org x = ba_org a \<and> ba_debit a \<le> ba_debit x \<and> ba_rolled a \<le> ba_rolled x) \<and>
     0 \<le> ba_allow a \<and> ba_allow a \<le> ba_granted a"

inductive books_step :: "billing_db \<Rightarrow> billing_db \<Rightarrow> bool" where
  moves: "cm_kind m \<noteq> ''debit'' \<Longrightarrow> books_step db (fst (move_credit now m db))"
| charges: "books_step db (charge_credit now org m db)"
| rolls: "was_row a db \<Longrightarrow> books_step db (fst (roll_up_read now public hour a db))"
| opens: "books_step db (ensure_billing_row org now db)"
| syncs: "was_row a db \<Longrightarrow> books_step db (put_allowance (ba_org a) z (synced_allowance z period want clk a) now db)"
| expires: "books_step db (expire_allowances now db)"
| subscribes: "books_step db (fst (put_subscription now org st db))"
| records: "books_step db (seen_billing_event now i db)"
| sweeps: "books_step db (sweep_billing_events older db)"
| others: "books_step db (db\<lparr>bd_orgs := orgs, bd_terms := terms\<rparr>)"

inductive_cases books_stepE: "books_step db db'"

abbreviation books_steps :: "billing_db \<Rightarrow> billing_db \<Rightarrow> bool" where
  "books_steps \<equiv> books_step\<^sup>*\<^sup>*"

definition no_money :: billing_db where
  "no_money = \<lparr>bd_accounts = [], bd_ledger = [], bd_events = [], bd_orgs = [], bd_terms = []\<rparr>"

section \<open>The books\<close>

definition kind_sum :: "string set \<Rightarrow> int \<Rightarrow> billing_db \<Rightarrow> int" where
  "kind_sum kinds org db = sum_list (map lg_micros (filter (\<lambda>l. lg_kind l \<in> kinds \<and> lg_org l = org) (bd_ledger db)))"

definition topups :: "int \<Rightarrow> billing_db \<Rightarrow> int" where
  "topups org db = sum_list (map lg_micros (filter (\<lambda>l. lg_kind l \<in> {''topup'', ''grant'', ''included''} \<and> lg_micros l > 0 \<and> lg_org l = org) (bd_ledger db)))"

definition account_ok :: "billing_db \<Rightarrow> billing_account \<Rightarrow> bool" where
  "account_ok db a \<longleftrightarrow> 0 \<le> ba_rolled a \<and> ba_rolled a \<le> ba_debit a \<and> 0 \<le> ba_allow a \<and> ba_allow a \<le> ba_granted a \<and>
     ba_balance a = ledger_sum (ba_org a) db - (ba_debit a - ba_rolled a) \<and>
     ba_rolled a = - kind_sum {''debit''} (ba_org a) db \<and> ba_topup a = topups (ba_org a) db"

definition books_ok :: "billing_db \<Rightarrow> bool" where
  "books_ok db \<longleftrightarrow> distinct (map ba_org (bd_accounts db)) \<and> distinct (map lg_ext (bd_ledger db)) \<and> '''' \<notin> lg_ext ` set (bd_ledger db) \<and>
     (\<forall>l\<in>set (bd_ledger db). lg_org l \<in> ba_org ` set (bd_accounts db)) \<and> (\<forall>a\<in>set (bd_accounts db). account_ok db a)"

lemma no_money_ok [simp]: "books_ok no_money"
  by (simp add: books_ok_def no_money_def)

lemma account_unique: "books_ok db \<Longrightarrow> a \<in> set (bd_accounts db) \<Longrightarrow> b \<in> set (bd_accounts db) \<Longrightarrow> ba_org a = ba_org b \<Longrightarrow> a = b"
  by (auto simp: books_ok_def distinct_map dest: inj_onD)

lemma account_of_Some: "account_of org db = Some a \<Longrightarrow> a \<in> set (bd_accounts db) \<and> ba_org a = org"
  by (auto simp: account_of_def find_Some_iff is_account_def)

lemma account_of_eq:
  assumes "books_ok db" shows "account_of org db = Some a \<longleftrightarrow> a \<in> set (bd_accounts db) \<and> ba_org a = org"
proof
  assume a: "a \<in> set (bd_accounts db) \<and> ba_org a = org"
  then have "account_of org db \<noteq> None" by (auto simp: account_of_def find_None_iff is_account_def)
  then obtain b where "account_of org db = Some b" by blast
  with account_of_Some [OF this] account_unique [OF assms] a show "account_of org db = Some a" by metis
qed (rule account_of_Some)

lemma account_of_None: "account_of org db = None \<longleftrightarrow> org \<notin> ba_org ` set (bd_accounts db)"
  by (auto simp: account_of_def find_None_iff is_account_def)

lemma update_accounts_rows:
  "bd_accounts (update_accounts P f db) = map (\<lambda>a. if P a then f a else a) (bd_accounts db)" "bd_ledger (update_accounts P f db) = bd_ledger db"
  "bd_events (update_accounts P f db) = bd_events db" "bd_orgs (update_accounts P f db) = bd_orgs db" "bd_terms (update_accounts P f db) = bd_terms db"
  by (simp_all add: update_accounts_def update_rows_def)

lemmas sum_defs = ledger_sum_def ledger_of_def kind_sum_def topups_def

lemma account_ok_cong: "bd_ledger db' = bd_ledger db \<Longrightarrow> account_ok db' = account_ok db"
  by (simp add: fun_eq_iff account_ok_def sum_defs)

text \<open>A change of rows that keeps each one's organisation.\<close>

lemma orgs_kept:
  assumes "\<And>a. P a \<Longrightarrow> ba_org (f a) = ba_org a"
  shows "map ba_org (map (\<lambda>a. if P a then f a else a) xs) = map ba_org xs"
    "ba_org ` (\<lambda>a. if P a then f a else a) ` set xs = ba_org ` set xs"
proof -
  have "ba_org \<circ> (\<lambda>a. if P a then f a else a) = ba_org" using assms by (auto simp: fun_eq_iff)
  then show "map ba_org (map (\<lambda>a. if P a then f a else a) xs) = map ba_org xs"
    "ba_org ` (\<lambda>a. if P a then f a else a) ` set xs = ba_org ` set xs" by (metis map_map, metis image_comp)
qed

text \<open>Books with no new line are right if every account's change is.\<close>

lemma update_books_ok:
  assumes "books_ok db" and f: "\<And>a. P a \<Longrightarrow> ba_org (f a) = ba_org a"
    and ok: "\<And>a. a \<in> set (bd_accounts db) \<Longrightarrow> P a \<Longrightarrow> account_ok db a \<Longrightarrow> account_ok db (f a)"
  shows "books_ok (update_accounts P f db)"
proof -
  let ?g = "\<lambda>a. if P a then f a else a"
  have same: "account_ok (update_accounts P f db) = account_ok db" by (rule account_ok_cong) (simp add: update_accounts_rows)
  have "account_ok db (?g a)" if "a \<in> set (bd_accounts db)" for a using assms(1) ok that by (simp add: books_ok_def)
  then show ?thesis using assms(1) orgs_kept [of P f, OF f] unfolding books_ok_def update_accounts_rows same set_map ball_simps by metis
qed

lemma ensure_ok: "books_ok db \<Longrightarrow> books_ok (ensure_billing_row org now db)"
proof -
  assume ok: "books_ok db"
  have same: "account_ok (ensure_billing_row org now db) = account_ok db"
    by (rule account_ok_cong) (simp add: ensure_billing_row_def)
  have "account_ok db (new_account org now)" if "org \<notin> ba_org ` set (bd_accounts db)"
  proof -
    have "\<forall>l\<in>set (bd_ledger db). lg_org l \<noteq> org" using ok that by (auto simp: books_ok_def)
    then have "filter (\<lambda>l. lg_org l = org) (bd_ledger db) = []" "filter (\<lambda>l. lg_kind l \<in> {''debit''} \<and> lg_org l = org) (bd_ledger db) = []"
      "filter (\<lambda>l. lg_kind l \<in> {''topup'', ''grant'', ''included''} \<and> lg_micros l > 0 \<and> lg_org l = org) (bd_ledger db) = []"
      by (auto simp: filter_empty_conv)
    then show ?thesis by (simp only: account_ok_def new_account_def ledger_sum_def ledger_of_def kind_sum_def topups_def) simp
  qed
  then show ?thesis using ok unfolding books_ok_def same
    by (auto simp: ensure_billing_row_def list_ex_iff is_account_def new_account_def)
qed

lemma ensure_rows: "bd_ledger (ensure_billing_row org now db) = bd_ledger db" "org \<in> ba_org ` set (bd_accounts (ensure_billing_row org now db))"
  by (auto simp: ensure_billing_row_def list_ex_iff is_account_def new_account_def image_iff)

text \<open>A line and the change of its account go together.\<close>

lemma line_books_ok:
  assumes ok: "books_ok db" and l: "lg_ext l \<noteq> ''''" "\<not> on_ledger (lg_ext l) db" "lg_org l \<in> ba_org ` set (bd_accounts db)"
    and f: "\<And>a. ba_org (f a) = ba_org a" and P: "\<And>a. P a \<Longrightarrow> ba_org a = lg_org l" "\<And>a. a \<in> set (bd_accounts db) \<Longrightarrow> ba_org a = lg_org l \<Longrightarrow> P a"
    and change: "\<And>a. a \<in> set (bd_accounts db) \<Longrightarrow> P a \<Longrightarrow> account_ok db a \<Longrightarrow> account_ok (add_line l db) (f a)"
  shows "books_ok (update_accounts P f (add_line l db))"
proof -
  let ?db = "add_line l db"
  let ?g = "\<lambda>a. if P a then f a else a"
  have ext: "distinct (map lg_ext (bd_ledger ?db))" "'''' \<notin> lg_ext ` set (bd_ledger ?db)"
    using ok l by (auto simp: books_ok_def add_line_def on_ledger_def list_ex_iff)
  have same: "account_ok (update_accounts P f ?db) = account_ok ?db" by (rule account_ok_cong) (simp add: update_accounts_rows)
  have each: "account_ok ?db (?g a)" if a: "a \<in> set (bd_accounts db)" for a
  proof (cases "P a")
    case True
    then show ?thesis using change a ok by (simp add: books_ok_def)
  next
    case False
    then have "lg_org l \<noteq> ba_org a" using P(2) a by metis
    then have "account_ok ?db a = account_ok db a"
      by (simp add: account_ok_def ledger_sum_def ledger_of_def kind_sum_def topups_def add_line_def)
    then show ?thesis using ok a False by (simp add: books_ok_def)
  qed
  have rows: "bd_accounts (update_accounts P f ?db) = map ?g (bd_accounts db)" "bd_ledger (update_accounts P f ?db) = bd_ledger ?db"
    by (simp_all add: update_accounts_rows add_line_def)
  have "\<forall>x\<in>set (bd_ledger ?db). lg_org x \<in> ba_org ` set (bd_accounts db)" using ok l(3) by (auto simp: books_ok_def add_line_def)
  then show ?thesis using ok ext each orgs_kept [of P f, OF f] unfolding books_ok_def rows same set_map ball_simps by metis
qed

lemma update_add_line: "update_accounts P f (add_line l db) = add_line l (update_accounts P f db)"
  by (simp add: update_accounts_def add_line_def)

lemma move_ok:
  assumes "books_ok db" "cm_kind m \<noteq> ''debit''" shows "books_ok (fst (move_credit now m db))"
proof -
  let ?db = "ensure_billing_row (cm_org m) now db"
  have "books_ok (add_line (credit_line now m after) (update_accounts (is_account (cm_org m)) (moved_account now m) ?db))"
    if "cm_ext m \<noteq> ''''" "\<not> on_ledger (cm_ext m) db" for after
    unfolding update_add_line [symmetric] using ensure_rows [of "cm_org m" now db] that assms(2)
    by (intro line_books_ok [OF ensure_ok [OF assms(1)]])
      (auto simp: credit_line_def on_ledger_def is_account_def moved_account_def account_ok_def ledger_sum_def ledger_of_def kind_sum_def topups_def
        add_line_def counted_topup_def)
  then show ?thesis using assms(1) by (simp add: move_credit_def Let_def)
qed

lemma charge_ok: "books_ok db \<Longrightarrow> books_ok (charge_credit now org m db)"
proof -
  assume ok: "books_ok db"
  have "books_ok (update_accounts (\<lambda>a. is_account org a \<and> metered now a) (charged_account now m) db)" if "0 < m"
    using that by (intro update_books_ok ok) (auto simp: charged_account_def Let_def account_ok_def)
  with ok show ?thesis by (simp add: charge_credit_def)
qed

lemma roll_up_ok:
  assumes "books_ok db" "was_row a db" shows "books_ok (fst (roll_up_read now public hour a db))"
proof -
  let ?here = "\<lambda>x. is_account (ba_org a) x \<and> ba_rolled x = ba_rolled a"
  let ?f = "\<lambda>x. x\<lparr>ba_rolled := ba_debit a, ba_updated := now\<rparr>"
  let ?l = "debit_line now a (debit_key public hour)"
  have "books_ok (update_accounts ?here ?f (add_line ?l db))"
    if more: "ba_debit a - ba_rolled a > 0" and new: "\<not> on_ledger (debit_key public hour) db" and there: "list_ex ?here (bd_accounts db)"
  proof (rule line_books_ok [OF assms(1)])
    obtain x where x: "x \<in> set (bd_accounts db)" "?here x" using there by (auto simp: list_ex_iff)
    then show "lg_org ?l \<in> ba_org ` set (bd_accounts db)" by (simp add: debit_line_def is_account_def) (metis image_eqI)
    show "?here y" if "y \<in> set (bd_accounts db)" "ba_org y = lg_org ?l" for y
      using account_unique [OF assms(1) that(1) x(1)] that(2) x(2) by (simp add: is_account_def debit_line_def)
    have newer: "ba_debit a \<le> ba_debit z" if z: "z \<in> set (bd_accounts db)" "?here z" for z
    proof -
      obtain y where y: "y \<in> set (bd_accounts db)" "ba_org y = ba_org a" "ba_debit a \<le> ba_debit y" using assms(2) by (auto simp: was_row_def)
      with account_unique [OF assms(1) z(1) y(1)] z(2) show ?thesis by (simp add: is_account_def)
    qed
    show "account_ok (add_line ?l db) (?f z)" if z: "z \<in> set (bd_accounts db)" "?here z" "account_ok db z" for z
      using newer [OF z(1,2)] z(2,3) more
      by (auto simp: account_ok_def is_account_def ledger_sum_def ledger_of_def kind_sum_def topups_def add_line_def debit_line_def)
  qed (use new in \<open>auto simp: debit_line_def debit_key_def is_account_def\<close>)
  then show ?thesis using assms(1) by (simp add: roll_up_read_def Let_def)
qed

lemma prorate_bounds: "0 \<le> amount \<Longrightarrow> 0 \<le> prorate_left amount s e clk \<and> prorate_left amount s e clk \<le> amount"
proof -
  assume "0 \<le> amount"
  have "0 \<le> amount * l div t \<and> amount * l div t \<le> amount" if "0 < l" "l < t" for l t
  proof -
    have "amount * l \<le> amount * t" using that \<open>0 \<le> amount\<close> by (simp add: mult_left_mono)
    then have "amount * l div t \<le> amount * t div t" using that by (intro zdiv_mono1) simp_all
    also have "amount * t div t = amount" using that by simp
    finally show ?thesis using that \<open>0 \<le> amount\<close> by (simp add: pos_imp_zdiv_nonneg_iff)
  qed
  then show ?thesis using \<open>0 \<le> amount\<close> by (auto simp: prorate_left_def Let_def nanos_per_second_def split: option.split)
qed

lemma synced_bounds:
  assumes "0 \<le> ba_allow a" "ba_allow a \<le> ba_granted a" "synced_allowance z period want clk a = (g, l, e)"
  shows "0 \<le> l \<and> l \<le> g"
proof -
  define add where "add = (if ba_allow_size a \<noteq> '''' \<and> ba_allow_size a \<noteq> z
    then prorate_left (want - ba_granted a) (ba_start a) (ba_end a) clk else want - ba_granted a)"
  have "0 \<le> add \<and> add \<le> want - ba_granted a" if "ba_granted a < want" using that prorate_bounds by (simp add: add_def)
  moreover have "synced_allowance z period want clk a = (if want \<le> 0 \<or> period = None then (0, 0, None)
      else if ba_allow_end a \<noteq> period then (want, want, period)
      else if ba_granted a < want then (want, ba_allow a + add, period) else (ba_granted a, ba_allow a, period))"
    unfolding synced_allowance_def Let_def add_def ..
  ultimately show ?thesis using assms by (simp split: if_split_asm)
qed

lemma sync_ok:
  assumes "books_ok db" "was_row a db" shows "books_ok (put_allowance org z (synced_allowance z period want clk a) now db)"
proof -
  obtain g l e where s: "synced_allowance z period want clk a = (g, l, e)" by (metis prod_cases3)
  have "0 \<le> l" "l \<le> g" using synced_bounds [OF _ _ s] assms(2) by (simp_all add: was_row_def)
  then have "books_ok (update_accounts (is_account org)
      (\<lambda>a. a\<lparr>ba_allow := l, ba_granted := g, ba_allow_end := e, ba_allow_size := z, ba_updated := now\<rparr>) db)"
    by (intro update_books_ok assms(1)) (simp_all add: account_ok_def)
  then show ?thesis by (simp add: s put_allowance_def)
qed

lemma same_books: "bd_accounts db' = bd_accounts db \<Longrightarrow> bd_ledger db' = bd_ledger db \<Longrightarrow> books_ok db' = books_ok db"
  by (simp add: books_ok_def account_ok_cong [of db' db])

lemma books_step_ok: "books_step db db' \<Longrightarrow> books_ok db \<Longrightarrow> books_ok db'"
proof (induction rule: books_step.induct)
  case (subscribes db now org st)
  have "books_ok (update_accounts (is_account org) (subscribed_account now st) (ensure_billing_row org now db))"
    by (intro update_books_ok ensure_ok subscribes) (simp_all add: subscribed_account_def account_ok_def)
  with subscribes show ?case by (simp add: put_subscription_def)
next
  case (expires db now)
  then show ?case unfolding expire_allowances_def by (intro update_books_ok) (simp_all add: account_ok_def)
next
  case (records db now i)
  then show ?case by (subst same_books [of _ db]) (simp_all add: seen_billing_event_def)
next
  case (sweeps db older)
  then show ?case by (subst same_books [of _ db]) (simp_all add: sweep_billing_events_def)
next
  case (others db orgs terms)
  then show ?case by (subst same_books [of _ db]) simp_all
qed (simp_all add: move_ok charge_ok roll_up_ok ensure_ok sync_ok)

lemma reachable_books: "books_steps no_money db \<Longrightarrow> books_ok db"
  by (induction rule: rtranclp_induct) (auto intro: books_step_ok)

section \<open>Rows read before\<close>

definition counters_grow :: "billing_account \<Rightarrow> billing_account \<Rightarrow> bool" where
  "counters_grow a x \<longleftrightarrow> ba_org x = ba_org a \<and> ba_debit a \<le> ba_debit x \<and> ba_rolled a \<le> ba_rolled x"

definition rows_grow :: "billing_db \<Rightarrow> billing_db \<Rightarrow> bool" where
  "rows_grow db db' \<longleftrightarrow> (\<forall>a\<in>set (bd_accounts db). \<exists>x\<in>set (bd_accounts db'). counters_grow a x)"

lemma counters_grow_refl [simp]: "counters_grow a a"
  by (simp add: counters_grow_def)

lemma rows_grow_refl: "bd_accounts db' = bd_accounts db \<Longrightarrow> rows_grow db db'"
  by (auto simp: rows_grow_def intro: counters_grow_refl)

lemma rows_grow_trans:
  assumes "rows_grow a b" "rows_grow b c" shows "rows_grow a c"
proof -
  have "\<exists>z\<in>set (bd_accounts c). counters_grow x z" if "x \<in> set (bd_accounts a)" for x
  proof -
    obtain y where "y \<in> set (bd_accounts b)" "counters_grow x y" using assms(1) \<open>x \<in> _\<close> unfolding rows_grow_def by blast
    moreover from this(1) obtain z where "z \<in> set (bd_accounts c)" "counters_grow y z" using assms(2) unfolding rows_grow_def by blast
    ultimately show ?thesis by (intro bexI [of _ z]) (simp_all add: counters_grow_def)
  qed
  then show ?thesis by (simp add: rows_grow_def)
qed

lemma update_grow:
  assumes "\<And>a. a \<in> set (bd_accounts db) \<Longrightarrow> P a \<Longrightarrow> counters_grow a (f a)" shows "rows_grow db (update_accounts P f db)"
  unfolding rows_grow_def
proof
  fix a assume a: "a \<in> set (bd_accounts db)"
  then have "counters_grow a (if P a then f a else a)" using assms by simp
  then show "\<exists>x\<in>set (bd_accounts (update_accounts P f db)). counters_grow a x" using a
    by (intro bexI [of _ "if P a then f a else a"]) (simp_all only: update_accounts_rows set_map image_eqI)
qed

lemma ensure_grow: "rows_grow db (ensure_billing_row org now db)"
  by (auto simp: rows_grow_def ensure_billing_row_def intro: counters_grow_refl)

lemma add_line_grow: "rows_grow db (add_line l db)"
  by (rule rows_grow_refl) (simp add: add_line_def)

lemma move_grow: "rows_grow db (fst (move_credit now m db))"
proof -
  let ?up = "update_accounts (is_account (cm_org m)) (moved_account now m) (ensure_billing_row (cm_org m) now db)"
  have "rows_grow (ensure_billing_row (cm_org m) now db) ?up"
    by (rule update_grow) (simp add: counters_grow_def moved_account_def)
  then have "rows_grow db ?up" by (rule rows_grow_trans [OF ensure_grow])
  then have "rows_grow db (add_line l ?up)" for l by (rule rows_grow_trans [OF _ add_line_grow])
  then show ?thesis using rows_grow_refl [of db db] by (simp add: move_credit_def Let_def)
qed

lemma roll_grow: "rows_grow db (fst (roll_up_read now public hour a db))"
proof -
  let ?here = "\<lambda>x. is_account (ba_org a) x \<and> ba_rolled x = ba_rolled a"
  have "rows_grow db (update_accounts ?here (\<lambda>x. x\<lparr>ba_rolled := ba_debit a, ba_updated := now\<rparr>) (add_line l db))"
    if "0 < ba_debit a - ba_rolled a" for l
    by (rule rows_grow_trans [OF add_line_grow]) (rule update_grow, use that in \<open>simp add: counters_grow_def\<close>)
  then show ?thesis using rows_grow_refl [of db db] by (simp add: roll_up_read_def Let_def)
qed

lemma subscribes_grow: "rows_grow db (fst (put_subscription now org st db))"
proof -
  have "rows_grow db (update_accounts (is_account org) (subscribed_account now st) (ensure_billing_row org now db))"
    by (rule rows_grow_trans [OF ensure_grow]) (rule update_grow, simp add: counters_grow_def subscribed_account_def)
  then show ?thesis using rows_grow_refl [of db db] by (simp add: put_subscription_def)
qed

lemma books_step_grow: "books_step db db' \<Longrightarrow> books_ok db \<Longrightarrow> rows_grow db db'"
proof (induction rule: books_step.induct)
  case (charges db now org m)
  have "rows_grow db (update_accounts (\<lambda>a. is_account org a \<and> metered now a) (charged_account now m) db)" if "0 < m"
    using that charges by (intro update_grow) (auto simp: counters_grow_def charged_account_def Let_def books_ok_def account_ok_def)
  then show ?case using rows_grow_refl [of db db] by (simp add: charge_credit_def)
next
  case (opens db org now) show ?case by (rule ensure_grow)
next
  case (syncs a db z period want clk now)
  obtain g l e where s: "synced_allowance z period want clk a = (g, l, e)" by (metis prod_cases3)
  show ?case unfolding s put_allowance_def prod.case by (rule update_grow) (simp add: counters_grow_def)
next
  case (expires db now)
  show ?case unfolding expire_allowances_def by (rule update_grow) (simp add: counters_grow_def)
qed (rule move_grow roll_grow subscribes_grow | (rule rows_grow_refl, simp add: seen_billing_event_def sweep_billing_events_def))+

lemma books_steps_ok: "books_steps db db' \<Longrightarrow> books_ok db \<Longrightarrow> books_ok db' \<and> rows_grow db db'"
proof (induction rule: rtranclp_induct)
  case base
  then show ?case by (simp add: rows_grow_refl)
next
  case (step db1 db2)
  then show ?case using books_step_ok books_step_grow rows_grow_trans by blast
qed

text \<open>Any row some transaction read, however long ago, is one the steps of a stale read are about.\<close>

lemma read_rows_are_old:
  assumes "books_steps no_money db" "a \<in> set (bd_accounts db)" "books_steps db db'" shows "was_row a db'"
proof -
  have ok: "books_ok db" by (rule reachable_books [OF assms(1)])
  then have "rows_grow db db'" using books_steps_ok [OF assms(3)] by simp
  then obtain x where "x \<in> set (bd_accounts db')" "counters_grow a x" using assms(2) unfolding rows_grow_def by blast
  moreover have "account_ok db a" using ok assms(2) by (simp add: books_ok_def)
  ultimately show ?thesis unfolding was_row_def by (auto simp: counters_grow_def account_ok_def)
qed

section \<open>What follows\<close>

text \<open>C23. The books balance at every moment: whatever statements interleave, roll-ups and allowance syncs of rows read long before
  included, an account's credit is the sum of its statement less what it spent and the statement does not say yet, what is
  written up never passes what was spent, and no key is on the statement twice.\<close>

theorem ledger_balances:
  assumes "books_steps no_money db" "account_of org db = Some a"
  shows "ba_balance a = ledger_sum org db - (ba_debit a - ba_rolled a) \<and> 0 \<le> ba_rolled a \<and> ba_rolled a \<le> ba_debit a \<and>
    ba_rolled a = - kind_sum {''debit''} org db \<and> ba_topup a = topups org db \<and> 0 \<le> ba_allow a \<and> ba_allow a \<le> ba_granted a \<and>
    distinct (map lg_ext (bd_ledger db))"
  using reachable_books [OF assms(1)] account_of_Some [OF assms(2)] by (auto simp: books_ok_def account_ok_def)

text \<open>What a turn is paid from, without the columns: an allowance and credit, the allowance first.\<close>

fun spend :: "int \<Rightarrow> int \<times> int \<Rightarrow> int \<times> int" where
  "spend m (allow, credit) = (allow - min allow m, credit - (m - min allow m))"

definition purse :: "int \<Rightarrow> billing_account \<Rightarrow> int \<times> int" where
  "purse now a = (spendable_allowance now a, ba_balance a)"

lemma charged_purse: "0 < m \<Longrightarrow> 0 \<le> ba_allow a \<Longrightarrow> purse now (charged_account now m a) = spend m (purse now a)"
  by (simp add: purse_def charged_account_def Let_def spendable_allowance_def allowance_live_def min_def)

lemma account_of_update:
  assumes "\<And>a. P a \<Longrightarrow> ba_org (f a) = ba_org a"
  shows "account_of org (update_accounts P f db) = map_option (\<lambda>a. if P a then f a else a) (account_of org db)"
proof -
  have "List.find (is_account org) (map (\<lambda>a. if P a then f a else a) xs) = map_option (\<lambda>a. if P a then f a else a) (List.find (is_account org) xs)" for xs
    using assms by (induction xs) (auto simp: is_account_def)
  then show ?thesis by (simp add: account_of_def update_accounts_rows)
qed

text \<open>C28. A turn is paid from the allowance first and then from credit, exactly what it cost, past zero if it must; an account with
  neither pays nothing, and no other account is touched.\<close>

theorem charge_takes_allowance_first:
  assumes "books_steps no_money db" "account_of org db = Some a"
  shows "\<exists>b. account_of org (charge_credit now org m db) = Some b \<and>
    (if metered now a then purse now b = spend (max m 0) (purse now a) else b = a) \<and>
    (\<forall>i. i \<noteq> org \<longrightarrow> account_of i (charge_credit now org m db) = account_of i db)"
proof -
  have a: "0 \<le> ba_allow a" "ba_org a = org" using reachable_books [OF assms(1)] account_of_Some [OF assms(2)] by (auto simp: books_ok_def account_ok_def)
  have up: "account_of i (charge_credit now org m db) = (if m \<le> 0 then account_of i db
      else map_option (\<lambda>a. if is_account org a \<and> metered now a then charged_account now m a else a) (account_of i db))" for i
    by (auto simp: charge_credit_def account_of_update charged_account_def Let_def)
  have "account_of i (charge_credit now org m db) = account_of i db" if "i \<noteq> org" for i
    using that account_of_Some [of i db] by (cases "account_of i db") (auto simp: up is_account_def)
  moreover have "purse now a = spend 0 (purse now a)" using a(1) by (simp add: purse_def spendable_allowance_def)
  ultimately show ?thesis using assms(2) a charged_purse [of m a now] by (auto simp: up is_account_def max_def)
qed

section \<open>A sample\<close>

definition sample_topup :: credit_movement where
  "sample_topup = \<lparr>cm_org = 1, cm_kind = ''topup'', cm_micros = 5000000, cm_ext = ''pi_1'', cm_note = '''', cm_actor = ''stripe'', cm_currency = '''', cm_enforce = True\<rparr>"

definition sample_paid :: billing_db where
  "sample_paid = fst (move_credit 10 sample_topup no_money)"

definition sample_spent :: billing_db where
  "sample_spent = charge_credit 11 1 300 (charge_credit 11 1 700 sample_paid)"

definition sample_read :: billing_account where
  "sample_read = (case account_of 1 (charge_credit 11 1 700 sample_paid) of Some a \<Rightarrow> a | None \<Rightarrow> new_account 1 0)"

text \<open>An hourly line of a row that another turn was charged to since it was read.\<close>

definition sample_rolled :: billing_db where
  "sample_rolled = fst (roll_up_read 12 ''o'' ''h'' sample_read sample_spent)"

lemma sample_books: "books_steps no_money sample_rolled"
proof -
  have paid: "books_step no_money sample_paid" unfolding sample_paid_def by (rule moves) (simp add: sample_topup_def)
  have one: "books_step sample_paid (charge_credit 11 1 700 sample_paid)" by (rule charges)
  have two: "books_step (charge_credit 11 1 700 sample_paid) sample_spent" unfolding sample_spent_def by (rule charges)
  have "sample_read \<in> set (bd_accounts (charge_credit 11 1 700 sample_paid))" by code_simp
  with paid one two have "was_row sample_read sample_spent" by (intro read_rows_are_old) auto
  then have "books_step sample_spent sample_rolled" unfolding sample_rolled_def by (rule rolls)
  with paid one two show ?thesis by (meson rtranclp.rtrancl_into_rtrancl rtranclp.rtrancl_refl)
qed

theorem ledger_balances_witness:
  "credit_balance 1 sample_rolled = ledger_sum 1 sample_rolled - 300 \<and> map lg_micros (ledger_of 1 sample_rolled) = [5000000, -700]"
proof -
  obtain a where a: "account_of 1 sample_rolled = Some a" "ba_debit a - ba_rolled a = 300"
  proof -
    have "map_option (\<lambda>a. ba_debit a - ba_rolled a) (account_of 1 sample_rolled) = Some 300" by code_simp
    then show ?thesis using that by (auto simp: map_option_eq_Some)
  qed
  have "map lg_micros (ledger_of 1 sample_rolled) = [5000000, -700]" by code_simp
  with ledger_balances [OF sample_books a(1)] a show ?thesis by (simp add: credit_balance_def)
qed

theorem charge_takes_allowance_first_witness:
  "\<exists>b. account_of 1 (charge_credit 13 1 6000000 sample_rolled) = Some b \<and> purse 13 b = (0, -1001000)"
proof -
  have "map_option (\<lambda>a. (metered 13 a, purse 13 a)) (account_of 1 sample_rolled) = Some (True, 0, 4999000)" by code_simp
  then obtain a where a: "account_of 1 sample_rolled = Some a" "metered 13 a" "purse 13 a = (0, 4999000)" by (auto simp: map_option_eq_Some)
  from charge_takes_allowance_first [OF sample_books a(1), of 13 6000000] a(2,3) show ?thesis by auto
qed

end
