(* ===== verification/Billing_Events.thy ===== *)
theory Billing_Events
  imports Billing
begin

text \<open>
  What moves the money tables (\<^verbatim>\<open>internal/app/billing.go\<close>): Stripe's events, the return from its checkout, the operator's
  hand (\<^verbatim>\<open>operator_billing.go\<close>) and the hourly pass. An event's object is decoded already, or could not be; its metadata
  are the keys the code reads. Mail, alerts, audit lines and caches are left out. The calendar (a month on, the hour's
  name) and Unicode's tables are parameters.
\<close>

section \<open>Stripe's objects\<close>

record stripe_item =
  si_quantity :: int
  si_price :: string
  si_currency :: string
  si_amount :: int
  si_start :: int
  si_end :: int

record invoice_line =
  il_amount :: int
  il_start :: int
  il_end :: int
  il_price :: string
  il_pricing :: string
  il_proration :: bool
  il_item_proration :: bool
  il_invoice_proration :: bool

record stripe_object =
  so_id :: string
  so_mode :: string
  so_customer :: string
  so_sub :: string
  so_intent :: string
  so_paid :: string
  so_status :: string
  so_currency :: string
  so_total :: int
  so_received :: int
  so_refunded :: int
  so_amount :: int
  so_charge :: string
  so_org :: string
  so_size :: string
  so_band :: string
  so_cancel :: bool
  so_start :: int
  so_end :: int
  so_items :: "stripe_item list"
  so_parent_sub :: string
  so_parent_org :: string
  so_lines :: "invoice_line list"

record stripe_event =
  ev_id :: string
  ev_type :: string
  ev_object :: "stripe_object option"

record pay_env =
  pe_unicode :: unicode
  pe_currency :: string
  pe_sizes :: "plan_size list"
  pe_month :: "int \<Rightarrow> int"
  pe_hour :: "int \<Rightarrow> string"

definition non_empty :: "string \<Rightarrow> string \<Rightarrow> string" where
  "non_empty a b = (if a \<noteq> '''' then a else b)"

definition stripe_time :: "int \<Rightarrow> stamp" where
  "stripe_time secs = (if secs \<le> 0 then None else Some secs)"

definition subscription_period :: "stripe_object \<Rightarrow> int \<times> int" where
  "subscription_period o' = (case so_items o' of
       it # _ \<Rightarrow> if si_start it > 0 \<or> si_end it > 0 then (si_start it, si_end it) else (so_start o', so_end o')
     | [] \<Rightarrow> (so_start o', so_end o'))"

definition invoice_subscription :: "stripe_object \<Rightarrow> string" where
  "invoice_subscription o' = non_empty (so_parent_sub o') (so_sub o')"

definition line_price :: "invoice_line \<Rightarrow> string" where
  "line_price il = non_empty (il_pricing il) (il_price il)"

definition line_proration :: "invoice_line \<Rightarrow> bool" where
  "line_proration il \<longleftrightarrow> il_proration il \<or> il_item_proration il \<or> il_invoice_proration il"

fun subscription_line :: "string \<Rightarrow> invoice_line list \<Rightarrow> string \<times> int \<times> int" where
  "subscription_line charged [] = (charged, 0, 0)"
| "subscription_line charged (il # ils) = (if \<not> line_proration il then (line_price il, il_start il, il_end il)
     else subscription_line (if il_amount il > 0 then line_price il else charged) ils)"

section \<open>Organisations and sizes\<close>

definition org_by_public :: "unicode \<Rightarrow> string \<Rightarrow> billing_db \<Rightarrow> org_row option" where
  "org_by_public U public db = (let p = to_lower U (trim_space public)
     in if p = '''' then None else List.find (\<lambda>g. og_public g = p) (bd_orgs db))"

definition org_by_id :: "int \<Rightarrow> billing_db \<Rightarrow> org_row option" where
  "org_by_id i db = List.find (\<lambda>g. og_id g = i) (bd_orgs db)"

definition update_org :: "int \<Rightarrow> (org_row \<Rightarrow> org_row) \<Rightarrow> billing_db \<Rightarrow> billing_db" where
  "update_org i f db = db\<lparr>bd_orgs := update_rows (\<lambda>g. og_id g = i) f (bd_orgs db)\<rparr>"

definition size_of :: "pay_env \<Rightarrow> int \<Rightarrow> string \<Rightarrow> billing_db \<Rightarrow> plan_size option" where
  "size_of E org key db = (if key \<noteq> ''enterprise'' then size_by_key (pe_sizes E) key else map_of (bd_terms db) org)"

definition size_of_price :: "pay_env \<Rightarrow> int \<Rightarrow> string \<Rightarrow> billing_db \<Rightarrow> plan_size option" where
  "size_of_price E org price db = (case size_by_price (pe_sizes E) price of Some z \<Rightarrow> Some z
     | None \<Rightarrow> if price = '''' then None
         else (case map_of (bd_terms db) org of Some z \<Rightarrow> if sz_price z = price then Some z else None | None \<Rightarrow> None))"

text \<open>Only our own metadata names an organisation, and a customer is never of two.\<close>

definition org_for_stripe :: "pay_env \<Rightarrow> stripe_object \<Rightarrow> billing_db \<Rightarrow> org_row option" where
  "org_for_stripe E o' db =
     (let public = non_empty (so_org o') (so_parent_org o'); by' = account_by_customer (so_customer o') db
      in if public \<noteq> ''''
         then (case org_by_public (pe_unicode E) public db of None \<Rightarrow> None
           | Some g \<Rightarrow> if (case by' of None \<Rightarrow> False | Some a \<Rightarrow> ba_org a \<noteq> og_id g) then None
               else if so_customer o' \<noteq> '''' \<and> (case account_of (og_id g) db of None \<Rightarrow> False
                  | Some a \<Rightarrow> ba_customer a \<noteq> '''' \<and> ba_customer a \<noteq> so_customer o') then None
               else Some g)
         else (case by' of None \<Rightarrow> None | Some a \<Rightarrow> org_by_id (ba_org a) db))"

section \<open>The allowance and the plan\<close>

definition set_budget :: "int \<Rightarrow> rat \<Rightarrow> billing_db \<Rightarrow> billing_db" where
  "set_budget org usd = update_org org (\<lambda>g. g\<lparr>og_budget := Some usd\<rparr>)"

definition align_budget :: "int \<Rightarrow> int \<Rightarrow> int \<Rightarrow> billing_db \<Rightarrow> billing_db" where
  "align_budget org before after db =
     (if after \<le> 0 then db
      else if after = before \<and> (case org_by_id org db of None \<Rightarrow> False | Some g \<Rightarrow> og_budget g \<noteq> None) then db
      else set_budget org (usd_of_micros after) db)"

definition wanted_allowance :: "pay_env \<Rightarrow> billing_account \<Rightarrow> billing_db \<Rightarrow> int" where
  "wanted_allowance E a db = (if account_active a
     then (case size_of E (ba_org a) (ba_size a) db of Some z \<Rightarrow> minor_to_micros (sz_included z) | None \<Rightarrow> 0) else 0)"

definition allowance_period :: "pay_env \<Rightarrow> int \<Rightarrow> int \<Rightarrow> billing_account \<Rightarrow> stamp" where
  "allowance_period E now want a = (if want > 0 \<and> (ba_end a = None \<or> ba_size a = ''enterprise'')
     then (if allowance_live now a then ba_allow_end a else Some (pe_month E now)) else ba_end a)"

definition sync_allowance :: "pay_env \<Rightarrow> int \<Rightarrow> int \<Rightarrow> billing_db \<Rightarrow> billing_db" where
  "sync_allowance E clk org db =
     (let a = (case account_of org db of None \<Rightarrow> new_account org 0 | Some a \<Rightarrow> a)
      in if ba_status a = ''past_due'' then db
         else (let want = wanted_allowance E a db;
                   db1 = sync_allowance_row org (ba_size a) (allowance_period E (clock_second clk) want a) want clk db;
                   after = (case account_of org db1 of None \<Rightarrow> 0 | Some b \<Rightarrow> ba_granted b)
               in if (case org_by_id org db1 of None \<Rightarrow> False | Some g \<Rightarrow> og_plan g = ''enterprise'' \<and> og_grant g > 0) then db1
                  else align_budget org (ba_granted a) after db1))"

text \<open>The plan of a row that was read when the event came; a payment never moves an enterprise one.\<close>

definition move_plan :: "org_row \<Rightarrow> string \<Rightarrow> billing_db \<Rightarrow> billing_db" where
  "move_plan g plan db = (if og_plan g = plan \<or> og_plan g = ''enterprise'' then db
     else update_org (og_id g) (\<lambda>x. x\<lparr>og_plan := plan, og_grant := 0\<rparr>) db)"

section \<open>Money in and out\<close>

definition currency_ok :: "pay_env \<Rightarrow> string \<Rightarrow> bool" where
  "currency_ok E cur \<longleftrightarrow> cur = '''' \<or> equal_fold (pe_unicode E) cur (pe_currency E)"

definition credit_top_up :: "pay_env \<Rightarrow> int \<Rightarrow> int \<Rightarrow> string \<Rightarrow> string \<Rightarrow> int \<Rightarrow> string \<Rightarrow> string \<Rightarrow> billing_db \<Rightarrow> billing_db" where
  "credit_top_up E now org ev pay minor cur note db =
     seen_billing_event now ev (if pay = '''' \<or> minor \<le> 0 \<or> \<not> currency_ok E cur then db
       else fst (move_credit now \<lparr>cm_org = org, cm_kind = ''topup'', cm_micros = minor_to_micros minor, cm_ext = pay, cm_note = note,
         cm_actor = ''stripe'', cm_currency = cur, cm_enforce = True\<rparr> db))"

definition credit_refund :: "int \<Rightarrow> int \<Rightarrow> string \<Rightarrow> string \<Rightarrow> int \<Rightarrow> string \<Rightarrow> billing_db \<Rightarrow> billing_db" where
  "credit_refund now org ev key micros cur db =
     seen_billing_event now ev (if micros \<le> 0 then db
       else fst (move_credit now \<lparr>cm_org = org, cm_kind = ''refund'', cm_micros = - micros, cm_ext = key, cm_note = ''Refunded at Stripe'',
         cm_actor = ''stripe'', cm_currency = cur, cm_enforce = False\<rparr> db))"

definition refund_prefix :: "string \<Rightarrow> string" where
  "refund_prefix charge = ''refund:'' @ charge @ '':''"

definition refund_key :: "string \<Rightarrow> int \<Rightarrow> string" where
  "refund_key charge n = refund_prefix charge @ itoa n"

definition refunded_micros :: "int \<Rightarrow> string \<Rightarrow> billing_db \<Rightarrow> int" where
  "refunded_micros org charge db = sum_list (map (\<lambda>(ext, m). - m) (filter (\<lambda>(ext, m). prefix (refund_prefix charge) ext) (ledger_by_external org ''refund'' db)))"

definition event_charge :: "stripe_object \<Rightarrow> string" where
  "event_charge o' = non_empty (so_charge o') (so_id o')"

definition apply_charge_event :: "pay_env \<Rightarrow> int \<Rightarrow> stripe_event \<Rightarrow> stripe_object \<Rightarrow> billing_db \<Rightarrow> billing_db" where
  "apply_charge_event E now ev o' db =
     (case credited_payment (so_intent o') db of None \<Rightarrow> seen_billing_event now (ev_id ev) db
      | Some (i, credited) \<Rightarrow> (case org_by_id i db of None \<Rightarrow> seen_billing_event now (ev_id ev) db
        | Some g \<Rightarrow>
           (let charge = event_charge o'; refunded = refunded_micros (og_id g) charge db in
            if ev_type ev = ''charge.refunded''
            then credit_refund now (og_id g) (ev_id ev) (refund_key charge (so_refunded o')) (min (minor_to_micros (so_refunded o')) credited - refunded)
              (so_currency o') db
            else if ev_type ev = ''charge.dispute.created''
            then credit_refund now (og_id g) (ev_id ev) (''dispute:'' @ so_id o') (min (minor_to_micros (so_amount o')) (credited - refunded)) (so_currency o') db
            else if ev_type ev = ''charge.dispute.closed''
            then (let back = - (case map_of (ledger_by_external (og_id g) ''refund'' db) (''dispute:'' @ so_id o') of Some m \<Rightarrow> m | None \<Rightarrow> 0)
                  in if so_status o' \<noteq> ''won'' \<or> back \<le> 0 then seen_billing_event now (ev_id ev) db
                     else credit_top_up E now (og_id g) (ev_id ev) (''dispute-won:'' @ so_id o') (back div (micros_per_usd div 100)) (so_currency o')
                       ''Dispute resolved in your favour'' db)
            else seen_billing_event now (ev_id ev) db)))"

section \<open>The subscription\<close>

definition ended_key :: "string \<Rightarrow> string" where
  "ended_key sub = ''ended:'' @ sub"

definition subscription_ends :: "string \<Rightarrow> bool" where
  "subscription_ends status \<longleftrightarrow> status = ''canceled'' \<or> status = ''incomplete_expired''"

definition subscription_ended :: "string \<Rightarrow> billing_db \<Rightarrow> bool" where
  "subscription_ended sub db \<longleftrightarrow> sub \<noteq> '''' \<and> has_billing_event (ended_key sub) db"

definition mark_subscription_ended :: "int \<Rightarrow> string \<Rightarrow> billing_db \<Rightarrow> billing_db" where
  "mark_subscription_ended now sub db = (if sub = '''' then db else seen_billing_event now (ended_key sub) db)"

definition carried :: "billing_account \<Rightarrow> subscription_state" where
  "carried a = \<lparr>su_customer = ba_customer a, su_id = ba_sub a, su_status = ba_status a, su_size = ba_size a, su_unit = ba_unit a,
     su_quantity = ba_quantity a, su_currency = ba_currency a, su_start = ba_start a, su_end = ba_end a, su_cancel = ba_cancel a\<rparr>"

definition no_account :: "int \<Rightarrow> billing_account" where
  "no_account org = (new_account org 0)\<lparr>ba_currency := ''''\<rparr>"

definition account_or_none :: "int \<Rightarrow> billing_db \<Rightarrow> billing_account" where
  "account_or_none org db = (case account_of org db of None \<Rightarrow> no_account org | Some a \<Rightarrow> a)"

definition with_size :: "plan_size option \<Rightarrow> subscription_state \<Rightarrow> subscription_state" where
  "with_size z st = (case z of None \<Rightarrow> st | Some z \<Rightarrow> st\<lparr>su_size := sz_key z, su_unit := minor_to_micros (sz_amount z)\<rparr>)"

text \<open>\<open>None\<close> is the event handled; an error is a 500, and the event comes again.\<close>

definition activated_state :: "pay_env \<Rightarrow> string \<Rightarrow> string \<Rightarrow> string \<Rightarrow> billing_account \<Rightarrow> subscription_state" where
  "activated_state E cus sub cur a = (carried a)\<lparr>su_customer := cus, su_id := sub, su_status := ''active'', su_quantity := max (ba_quantity a) 1,
     su_currency := non_empty cur (pe_currency E)\<rparr>"

definition activate_subscription :: "pay_env \<Rightarrow> int \<Rightarrow> org_row \<Rightarrow> stripe_event \<Rightarrow> stripe_object \<Rightarrow> billing_db \<Rightarrow> billing_db \<times> billing_error option" where
  "activate_subscription E now g ev o' db =
     (if subscription_ended (so_sub o') db then (seen_billing_event now (ev_id ev) db, None)
      else (let a = account_or_none (og_id g) db;
                st = with_size (size_of E (og_id g) (non_empty (so_size o') (so_band o')) db)
                  (activated_state E (so_customer o') (non_empty (so_sub o') (ba_sub a)) (so_currency o') a)
            in case put_subscription now (og_id g) st db of (_, Some e) \<Rightarrow> (db, Some e)
               | (db1, None) \<Rightarrow> (seen_billing_event now (ev_id ev) (move_plan g ''pro'' db1), None)))"

definition superseded_snapshot :: "billing_account \<Rightarrow> string \<Rightarrow> string \<Rightarrow> bool" where
  "superseded_snapshot a sub status \<longleftrightarrow> status = ''incomplete'' \<and> sub \<noteq> '''' \<and> ba_sub a = sub \<and> (ba_status a = ''active'' \<or> ba_status a = ''trialing'')"

text \<open>What an event of a subscription says it is.\<close>

definition told_state :: "pay_env \<Rightarrow> int \<Rightarrow> stripe_event \<Rightarrow> stripe_object \<Rightarrow> billing_db \<Rightarrow> subscription_state" where
  "told_state E org ev o' db =
     (let a = account_or_none org db; (s, e) = subscription_period o'; gone = ev_type ev = ''customer.subscription.deleted'';
          st = \<lparr>su_customer = so_customer o', su_id = (if gone then '''' else so_id o'), su_status = (if gone then ''canceled'' else so_status o'),
            su_size = '''', su_unit = 0, su_quantity = 1, su_currency = '''', su_start = stripe_time s, su_end = stripe_time e, su_cancel = so_cancel o'\<rparr>
      in case so_items o' of [] \<Rightarrow> st
         | it # _ \<Rightarrow> with_size (size_of_price E org (si_price it) db)
             (st\<lparr>su_quantity := max (si_quantity it) 1, su_currency := si_currency it, su_size := ba_size a, su_unit := minor_to_micros (si_amount it)\<rparr>))"

definition plan_after :: "string \<Rightarrow> org_row \<Rightarrow> billing_db \<Rightarrow> billing_db" where
  "plan_after status g db = (if status \<in> {''active'', ''trialing''} then move_plan g ''pro'' db
     else if status \<in> {''canceled'', ''unpaid'', ''incomplete_expired''} then move_plan g ''free'' db else db)"

definition sync_subscription :: "pay_env \<Rightarrow> int \<Rightarrow> org_row \<Rightarrow> stripe_event \<Rightarrow> stripe_object \<Rightarrow> billing_db \<Rightarrow> billing_db \<times> billing_error option" where
  "sync_subscription E clk g ev o' db =
     (let now = clock_second clk; st = told_state E (og_id g) ev o' db; ends = subscription_ends (su_status st)
      in if \<not> ends \<and> subscription_ended (so_id o') db then (seen_billing_event now (ev_id ev) db, None)
         else if superseded_snapshot (account_or_none (og_id g) db) (su_id st) (su_status st) then (seen_billing_event now (ev_id ev) db, None)
         else (case put_subscription now (og_id g) st db of (_, Some e) \<Rightarrow> (db, Some e)
           | (db1, None) \<Rightarrow> (seen_billing_event now (ev_id ev) (plan_after (su_status st) g (sync_allowance E clk (og_id g)
               (if ends then mark_subscription_ended now (so_id o') db1 else db1))), None)))"

definition rolled_state :: "pay_env \<Rightarrow> int \<Rightarrow> stripe_object \<Rightarrow> billing_db \<Rightarrow> subscription_state" where
  "rolled_state E org o' db =
     (let a = account_or_none org db; (price, s, e) = subscription_line '''' (so_lines o');
          st = (carried a)\<lparr>su_customer := non_empty (so_customer o') (ba_customer a), su_id := non_empty (invoice_subscription o') (ba_sub a),
            su_status := ''active'', su_quantity := max (ba_quantity a) 1\<rparr>
      in with_size (size_of_price E org price db) (if e > 0 then st\<lparr>su_start := stripe_time s, su_end := stripe_time e\<rparr> else st))"

definition roll_subscription_period :: "pay_env \<Rightarrow> int \<Rightarrow> org_row \<Rightarrow> stripe_event \<Rightarrow> stripe_object \<Rightarrow> billing_db \<Rightarrow> billing_db \<times> billing_error option" where
  "roll_subscription_period E clk g ev o' db =
     (let now = clock_second clk
      in if invoice_subscription o' = '''' \<or> subscription_ended (invoice_subscription o') db then (seen_billing_event now (ev_id ev) db, None)
         else (case put_subscription now (og_id g) (rolled_state E (og_id g) o' db) db of (_, Some e) \<Rightarrow> (db, Some e)
           | (db1, None) \<Rightarrow> (seen_billing_event now (ev_id ev) (move_plan g ''pro'' (sync_allowance E clk (og_id g) db1)), None)))"

definition mark_past_due :: "int \<Rightarrow> org_row \<Rightarrow> stripe_event \<Rightarrow> stripe_object \<Rightarrow> billing_db \<Rightarrow> billing_db \<times> billing_error option" where
  "mark_past_due now g ev o' db =
     (if invoice_subscription o' = '''' then (seen_billing_event now (ev_id ev) db, None)
      else (case account_of (og_id g) db of None \<Rightarrow> (db, None)
        | Some a \<Rightarrow> (case put_subscription now (og_id g) ((carried a)\<lparr>su_status := ''past_due''\<rparr>) db of (_, Some e) \<Rightarrow> (db, Some e)
           | (db1, None) \<Rightarrow> (seen_billing_event now (ev_id ev) db1, None))))"

section \<open>An event\<close>

definition apply_org_event :: "pay_env \<Rightarrow> int \<Rightarrow> org_row \<Rightarrow> stripe_event \<Rightarrow> stripe_object \<Rightarrow> billing_db \<Rightarrow> billing_db \<times> billing_error option" where
  "apply_org_event E clk g ev o' db =
     (let now = clock_second clk; record' = (seen_billing_event now (ev_id ev) db, None) in
      if ev_type ev \<in> {''checkout.session.completed'', ''checkout.session.async_payment_succeeded''}
      then (if so_mode o' = ''payment''
            then (if so_org o' = '''' \<or> so_paid o' \<noteq> ''paid'' then record'
                  else (credit_top_up E now (og_id g) (ev_id ev) (so_intent o') (so_total o') (so_currency o') ''Card payment'' db, None))
            else activate_subscription E now g ev o' db)
      else if ev_type ev = ''payment_intent.succeeded''
      then (if so_org o' = '''' then record'
            else (credit_top_up E now (og_id g) (ev_id ev) (so_id o') (so_received o') (so_currency o') ''Card payment'' db, None))
      else if ev_type ev = ''invoice.paid'' then roll_subscription_period E clk g ev o' db
      else if ev_type ev = ''invoice.payment_failed'' then mark_past_due now g ev o' db
      else if ev_type ev \<in> {''customer.subscription.created'', ''customer.subscription.updated'', ''customer.subscription.deleted''}
      then sync_subscription E clk g ev o' db
      else record')"

definition charge_events :: "string set" where
  "charge_events = {''charge.refunded'', ''charge.dispute.created'', ''charge.dispute.closed''}"

definition apply_stripe_event :: "pay_env \<Rightarrow> int \<Rightarrow> stripe_event \<Rightarrow> billing_db \<Rightarrow> billing_db \<times> billing_error option" where
  "apply_stripe_event E clk ev db =
     (let now = clock_second clk in
      if has_billing_event (ev_id ev) db then (db, None)
      else (case ev_object ev of None \<Rightarrow> (seen_billing_event now (ev_id ev) db, None)
        | Some o' \<Rightarrow> if ev_type ev \<in> charge_events then (apply_charge_event E now ev o' db, None)
            else (case org_for_stripe E o' db of None \<Rightarrow> (seen_billing_event now (ev_id ev) db, None)
              | Some g \<Rightarrow> apply_org_event E clk g ev o' db)))"

text \<open>A webhook of the other mode is put on record and not acted on.\<close>

definition handle_webhook :: "pay_env \<Rightarrow> bool \<Rightarrow> bool \<Rightarrow> int \<Rightarrow> stripe_event \<Rightarrow> billing_db \<Rightarrow> billing_db \<times> billing_error option" where
  "handle_webhook E live_key livemode clk ev db = (if livemode \<noteq> live_key then (seen_billing_event (clock_second clk) (ev_id ev) db, None)
     else apply_stripe_event E clk ev db)"

section \<open>The way back from the checkout\<close>

record checkout_session =
  cs_id :: string
  cs_org :: string
  cs_created :: int
  cs_status :: string
  cs_mode :: string
  cs_paid :: string
  cs_intent :: string
  cs_amount :: int
  cs_currency :: string
  cs_sub :: string
  cs_customer :: string
  cs_size :: string
  cs_band :: string

definition settle_max_age :: int where "settle_max_age = 3600"

definition settle_checkout :: "pay_env \<Rightarrow> int \<Rightarrow> int \<Rightarrow> checkout_session \<Rightarrow> billing_db \<Rightarrow> billing_db \<times> bool" where
  "settle_checkout E clk org s db =
     (let now = clock_second clk in
      case org_by_id org db of None \<Rightarrow> (db, False)
      | Some g \<Rightarrow>
         if cs_org s \<noteq> og_public g \<or> (cs_created s > 0 \<and> clk - cs_created s * nanos_per_second > settle_max_age * nanos_per_second) \<or> cs_status s \<noteq> ''complete''
         then (db, False)
         else if cs_mode s = ''payment'' \<and> cs_paid s = ''paid''
         then (credit_top_up E now (og_id g) (''settle:'' @ cs_id s) (cs_intent s) (cs_amount s) (cs_currency s) ''Card payment'' db, True)
         else if cs_mode s = ''subscription'' \<and> cs_sub s \<noteq> '''' \<and> cs_paid s \<in> {''paid'', ''no_payment_required''}
         then (if subscription_ended (cs_sub s) db then (db, False)
               else (let a = account_or_none (og_id g) db;
                         st = with_size (size_of E (og_id g) (non_empty (cs_size s) (cs_band s)) db)
                           (activated_state E (non_empty (cs_customer s) (ba_customer a)) (non_empty (cs_sub s) (ba_sub a)) (cs_currency s) a)
                     in case put_subscription now (og_id g) st db of (_, Some e) \<Rightarrow> (db, False)
                        | (db1, None) \<Rightarrow> (move_plan g ''pro'' db1, True)))
         else (db, False))"

section \<open>The operator\<close>

definition max_grant_usd :: rat where "max_grant_usd = 100000"

definition half_away :: "rat \<Rightarrow> int" where
  "half_away r = (if r < 0 then - \<lfloor>- r + 1 / 2\<rfloor> else \<lfloor>r + 1 / 2\<rfloor>)"

definition grant_credit :: "pay_env \<Rightarrow> int \<Rightarrow> int \<Rightarrow> rat \<Rightarrow> string \<Rightarrow> string \<Rightarrow> string \<Rightarrow> billing_db \<Rightarrow> billing_db \<times> bool" where
  "grant_credit E now org usd note by' key db =
     (if usd = 0 \<or> usd > max_grant_usd \<or> usd < - max_grant_usd then (db, False)
      else (let kind = (if usd < 0 then ''adjustment'' else ''grant'')
            in case move_credit now \<lparr>cm_org = org, cm_kind = kind, cm_micros = half_away (usd * of_int micros_per_usd), cm_ext = kind @ '':'' @ key,
                 cm_note = note, cm_actor = by', cm_currency = pe_currency E, cm_enforce = (usd > 0)\<rparr> db of
                 (db1, Inl e) \<Rightarrow> (db1, False) | (db1, Inr n) \<Rightarrow> (db1, True)))"

definition comp_size :: "pay_env \<Rightarrow> int \<Rightarrow> org_row \<Rightarrow> string \<Rightarrow> billing_db \<Rightarrow> billing_db \<times> bool" where
  "comp_size E clk g key db =
     (let a = account_or_none (og_id g) db in
      if ba_sub a \<noteq> '''' \<or> og_plan g = ''enterprise'' then (db, False)
      else (case size_by_key (pe_sizes E) key of None \<Rightarrow> (db, False)
        | Some z \<Rightarrow> (case put_subscription (clock_second clk) (og_id g) \<lparr>su_customer = ba_customer a, su_id = '''', su_status = ''comped'', su_size = sz_key z,
             su_unit = minor_to_micros (sz_amount z), su_quantity = 1, su_currency = pe_currency E, su_start = None, su_end = None, su_cancel = False\<rparr> db of
             (_, Some e) \<Rightarrow> (db, False) | (db1, None) \<Rightarrow> (sync_allowance E clk (og_id g) db1, True))))"

section \<open>Every hour\<close>

definition roll_up_credit :: "pay_env \<Rightarrow> int \<Rightarrow> billing_db \<Rightarrow> billing_db" where
  "roll_up_credit E now db = fold (\<lambda>i db. case org_by_id i db of None \<Rightarrow> db
     | Some g \<Rightarrow> fst (roll_up_debit now i (og_public g) (pe_hour E now) db)) (unrolled_orgs db) db"

definition sync_allowances :: "pay_env \<Rightarrow> int \<Rightarrow> billing_db \<Rightarrow> billing_db" where
  "sync_allowances E clk db = fold (sync_allowance E clk) (drifting_orgs db) db"

definition billing_hour :: "pay_env \<Rightarrow> int \<Rightarrow> billing_db \<Rightarrow> billing_db" where
  "billing_hour E clk db = (let now = clock_second clk
     in sync_allowances E clk (expire_allowances now (sweep_billing_events (now - 30 * 24 * 3600) (roll_up_credit E now db))))"

end
