(* ===== verification/Billing_Safety.thy ===== *)
theory Billing_Safety
  imports Billing_Spec Billing_Events Marker
begin

text \<open>
  What the money handlers keep, whatever order Stripe's events, the checkout's return, turns, the operator and the hourly
  pass come in: the books; one organisation's event leaves the others alone; an event delivered again does nothing; a
  refund is taken once; an ended subscription does not come back.
\<close>

section \<open>What can happen\<close>

datatype money_act =
    Delivered int stripe_event
  | Returned int int checkout_session
  | Granted int int rat string string string
  | Comped int int string
  | Turn int int bool rat
  | Hour int
  | Elsewhere "org_row list" "(int \<times> plan_size) list"

fun act :: "pay_env \<Rightarrow> money_act \<Rightarrow> billing_db \<Rightarrow> billing_db" where
  "act E (Delivered clk ev) db = fst (apply_stripe_event E clk ev db)"
| "act E (Returned clk org s) db = fst (settle_checkout E clk org s db)"
| "act E (Granted now org usd note who key) db = fst (grant_credit E now org usd note who key db)"
| "act E (Comped clk org key) db = (case org_by_id org db of None \<Rightarrow> db | Some g \<Rightarrow> fst (comp_size E clk g key db))"
| "act E (Turn now org own cost) db = log_usage now org own cost db"
| "act E (Hour clk) db = billing_hour E clk db"
| "act E (Elsewhere orgs terms) db = db\<lparr>bd_orgs := orgs, bd_terms := terms\<rparr>"

definition acts :: "pay_env \<Rightarrow> money_act list \<Rightarrow> billing_db \<Rightarrow> billing_db" where
  "acts E xs db = fold (act E) xs db"

lemma acts_simps [simp]: "acts E [] db = db" "acts E (x # xs) db = acts E xs (act E x db)"
  by (simp_all add: acts_def)

section \<open>A handler of one organisation\<close>

text \<open>
  Whatever the five writes of one organisation's money keep, every handler keeps: the handlers are compositions of them.
\<close>

locale one_org =
  fixes R :: "billing_db \<Rightarrow> billing_db \<Rightarrow> bool" and org :: int
  assumes same: "R db db"
    and chain: "R a b \<Longrightarrow> R b c \<Longrightarrow> R a c"
    and seen: "R db (seen_billing_event now i db)"
    and put: "R db (fst (put_subscription now org st db))"
    and move: "cm_org m = org \<Longrightarrow> cm_kind m \<noteq> ''debit'' \<Longrightarrow> R db (fst (move_credit now m db))"
    and sync: "R db (sync_allowance E clk org db)"
    and plan: "og_id g = org \<Longrightarrow> R db (move_plan g p db)"
begin

lemma then_seen: "R db d \<Longrightarrow> R db (seen_billing_event now i d)"
  by (rule chain [OF _ seen])

lemma then_plan: "og_id g = org \<Longrightarrow> R db d \<Longrightarrow> R db (move_plan g p d)"
  by (rule chain [OF _ plan])

lemma then_sync: "R db d \<Longrightarrow> R db (sync_allowance E clk org d)"
  by (rule chain [OF _ sync])

lemma put_eq: "put_subscription now org st db = (d, e) \<Longrightarrow> R db d"
  using put [of db now st] by simp

lemma top_up: "R db (credit_top_up E now org ev pay minor cur note db)"
  unfolding credit_top_up_def by (rule then_seen) (simp add: same move)

lemma refund: "R db (credit_refund now org ev key micros cur db)"
  unfolding credit_refund_def by (rule then_seen) (simp add: same move)

lemma activated: assumes g: "og_id g = org" shows "R db (fst (activate_subscription E now g ev o' db))"
  by (auto simp: activate_subscription_def Let_def g same seen split: prod.split option.split intro!: then_seen then_plan [OF g] dest: put_eq)

lemma synced: assumes g: "og_id g = org" shows "R db (fst (sync_subscription E clk g ev o' db))"
  by (auto simp: sync_subscription_def Let_def g same seen plan_after_def mark_subscription_ended_def split: prod.split option.split
    intro!: then_seen then_plan [OF g] then_sync dest: put_eq)

lemma rolled: assumes g: "og_id g = org" shows "R db (fst (roll_subscription_period E clk g ev o' db))"
  by (auto simp: roll_subscription_period_def Let_def g same seen split: prod.split option.split
    intro!: then_seen then_plan [OF g] then_sync dest: put_eq)

lemma failed: assumes g: "og_id g = org" shows "R db (fst (mark_past_due now g ev o' db))"
  by (auto simp: mark_past_due_def g seen same split: prod.split option.split intro!: then_seen dest: put_eq)

lemma org_event: assumes g: "og_id g = org" shows "R db (fst (apply_org_event E clk g ev o' db))"
  using top_up activated [OF g] synced [OF g] rolled [OF g] failed [OF g] by (simp add: apply_org_event_def Let_def g seen)

lemma charge_event: "credited_payment (so_intent o') db = Some (org, c) \<Longrightarrow> R db (apply_charge_event E now ev o' db)"
proof (cases "org_by_id org db")
  case None
  then show "credited_payment (so_intent o') db = Some (org, c) \<Longrightarrow> ?thesis" by (simp add: apply_charge_event_def seen)
next
  case (Some g)
  then have g: "og_id g = org" by (simp add: org_by_id_def find_Some_iff) blast
  assume "credited_payment (so_intent o') db = Some (org, c)"
  with Some show ?thesis by (simp add: apply_charge_event_def Let_def g seen top_up refund)
qed

lemma settled: "R db (fst (settle_checkout E clk org s db))"
proof (cases "org_by_id org db")
  case None
  then show ?thesis by (simp add: settle_checkout_def same)
next
  case (Some g)
  then have g: "og_id g = org" by (simp add: org_by_id_def find_Some_iff) blast
  show ?thesis
    by (auto simp: settle_checkout_def Let_def Some g same top_up split: prod.split option.split intro!: then_plan [OF g] dest: put_eq)
qed

lemma granted: "R db (fst (grant_credit E now org usd note who key db))"
proof -
  let ?kind = "if usd < 0 then ''adjustment'' else ''grant''"
  let ?m = "\<lparr>cm_org = org, cm_kind = ?kind, cm_micros = half_away (usd * of_int micros_per_usd), cm_ext = ?kind @ '':'' @ key,
    cm_note = note, cm_actor = who, cm_currency = pe_currency E, cm_enforce = (usd > 0)\<rparr>"
  obtain d r where m: "move_credit now ?m db = (d, r)" by (cases "move_credit now ?m db")
  have "R db d" using move [of ?m db now] unfolding m by simp
  then show ?thesis unfolding grant_credit_def Let_def m by (cases r) (simp_all add: same)
qed

lemma comped: assumes g: "og_id g = org" shows "R db (fst (comp_size E clk g key db))"
  by (auto simp: comp_size_def Let_def g same split: prod.split option.split intro!: then_sync dest: put_eq)

end

section \<open>Every handler is steps of the books\<close>

lemma books_steps_trans:
  assumes "books_ok db" "books_steps db db1" "books_ok db1 \<Longrightarrow> books_steps db1 db2" shows "books_steps db db2"
  using assms books_steps_ok [OF assms(2,1)] by (meson rtranclp_trans)

lemmas one_step = r_into_rtranclp [of books_step]

lemma seen_steps: "books_steps db db1 \<Longrightarrow> books_steps db (seen_billing_event now i db1)"
  by (meson records rtranclp.rtrancl_into_rtrancl)

lemma update_org_step: "books_step db (update_org i f db)"
proof -
  have "update_org i f db = db\<lparr>bd_orgs := update_rows (\<lambda>g. og_id g = i) f (bd_orgs db), bd_terms := bd_terms db\<rparr>"
    by (simp add: update_org_def)
  then show ?thesis by (simp only: others)
qed

lemma org_steps: "books_steps db db1 \<Longrightarrow> books_steps db (update_org i f db1)"
  by (meson update_org_step rtranclp.rtrancl_into_rtrancl)

lemma move_plan_steps: "books_steps db db1 \<Longrightarrow> books_steps db (move_plan g plan db1)"
  by (simp add: move_plan_def org_steps)

lemma sync_row_steps:
  assumes "books_ok db" shows "books_steps db (sync_allowance_row org z period want clk db)"
proof -
  let ?db = "ensure_billing_row org (clock_second clk) db"
  have ok: "books_ok ?db" by (rule ensure_ok [OF assms])
  have "books_step ?db (put_allowance org z (synced_allowance z period want clk a) (clock_second clk) ?db)" if a: "account_of org ?db = Some a" for a
  proof -
    have r: "a \<in> set (bd_accounts ?db)" "ba_org a = org" using account_of_Some [OF a] by simp_all
    then have "was_row a ?db" using ok by (auto simp: was_row_def books_ok_def account_ok_def)
    from syncs [OF this] r(2) show ?thesis by metis
  qed
  then show ?thesis using opens [of db org "clock_second clk"]
    by (auto simp: sync_allowance_row_def Let_def split: option.split intro: rtranclp.rtrancl_into_rtrancl)
qed

lemma align_steps: "books_steps db db1 \<Longrightarrow> books_steps db (align_budget org before after db1)"
  by (simp add: align_budget_def set_budget_def org_steps)

lemma sync_steps: "books_ok db \<Longrightarrow> books_steps db (sync_allowance E clk org db)"
  using sync_row_steps by (simp add: sync_allowance_def Let_def align_steps)

definition books_from :: "billing_db \<Rightarrow> billing_db \<Rightarrow> bool" where
  "books_from db db' \<longleftrightarrow> (books_ok db \<longrightarrow> books_steps db db' \<and> books_ok db')"

lemma books_fromI: "(books_ok db \<Longrightarrow> books_steps db db') \<Longrightarrow> books_from db db'"
  using books_steps_ok by (auto simp: books_from_def)

interpretation kept: one_org books_from org for org
proof
  show "books_from a c" if "books_from a b" "books_from b c" for a b c
    using that by (auto simp: books_from_def)
qed (rule books_fromI, simp add: one_step [OF subscribes] one_step [OF moves] one_step [OF records] sync_steps move_plan_steps)+

lemma from_steps: "books_from db db' \<Longrightarrow> books_ok db \<Longrightarrow> books_steps db db'"
  by (simp add: books_from_def)

lemma roll_up_steps: "books_ok db \<Longrightarrow> books_steps db (fst (roll_up_debit now org public hour db))"
proof -
  assume ok: "books_ok db"
  have "books_step db (fst (roll_up_read now public hour a db))" if "account_of org db = Some a" for a
    using account_of_Some [OF that] ok by (intro rolls) (auto simp: was_row_def books_ok_def account_ok_def)
  then show ?thesis by (auto simp: roll_up_debit_def split: option.split)
qed

lemma fold_steps:
  assumes "\<And>x db. books_ok db \<Longrightarrow> books_steps db (f x db)" shows "books_ok db \<Longrightarrow> books_steps db (fold f xs db)"
proof (induction xs arbitrary: db)
  case (Cons x xs)
  from books_steps_trans [OF Cons.prems assms [OF Cons.prems] Cons.IH] show ?case by simp
qed simp

lemma hour_steps: "books_ok db \<Longrightarrow> books_steps db (billing_hour E clk db)"
proof -
  assume ok: "books_ok db"
  let ?now = "clock_second clk"
  have "books_steps db (roll_up_credit E ?now db)" unfolding roll_up_credit_def
    by (rule fold_steps [OF _ ok]) (auto simp: roll_up_steps split: option.split)
  then have "books_steps db (expire_allowances ?now (sweep_billing_events (?now - 30 * 24 * 3600) (roll_up_credit E ?now db)))"
    by (meson rtranclp.rtrancl_into_rtrancl expires sweeps)
  from books_steps_trans [OF ok this fold_steps [OF sync_steps]] show ?thesis by (simp add: billing_hour_def sync_allowances_def Let_def)
qed

text \<open>A handler moves one organisation's money, if it moves any.\<close>

lemma event_of_one:
  assumes one: "\<And>i. one_org (R i) i"
  shows "\<exists>i. R i db (fst (apply_stripe_event E clk ev db))"
proof -
  have seen: "R i db (seen_billing_event now e db)" for i now e by (rule one_org.seen [OF one])
  have "R (og_id g) db (fst (apply_org_event E clk g ev o' db))" for g o' by (rule one_org.org_event [OF one refl])
  moreover have "\<exists>i. R i db (apply_charge_event E now ev o' db)" for now o'
  proof (cases "credited_payment (so_intent o') db")
    case None
    then show ?thesis using seen by (auto simp: apply_charge_event_def)
  next
    case (Some p)
    then show ?thesis using one_org.charge_event [OF one, of o' db "fst p" "snd p"] by auto
  qed
  moreover have "R i db db" for i by (rule one_org.same [OF one])
  ultimately show ?thesis using seen by (auto simp: apply_stripe_event_def Let_def split: option.split)
qed

lemma act_steps: "books_ok db \<Longrightarrow> books_steps db (act E x db)"
proof (cases x)
  case (Delivered clk ev)
  assume "books_ok db"
  with Delivered event_of_one [of "\<lambda>_. books_from" db E clk ev, OF kept.one_org_axioms] show ?thesis by (simp add: from_steps)
next
  case (Elsewhere orgs terms)
  then show ?thesis by (simp add: one_step [OF others])
next
  case (Turn now org own cost)
  then show ?thesis by (simp add: log_usage_def one_step [OF charges])
qed (auto simp: hour_steps split: option.split
  intro!: from_steps kept.settled kept.granted kept.comped)

lemma acts_steps: "books_ok db \<Longrightarrow> books_steps db (acts E xs db)"
  unfolding acts_def by (rule fold_steps [OF act_steps])

lemma acts_ok: "books_ok db \<Longrightarrow> books_ok (acts E xs db)"
  using acts_steps books_steps_ok by blast

section \<open>What an organisation sees\<close>

definition view :: "int \<Rightarrow> billing_db \<Rightarrow> billing_account option \<times> ledger_row list \<times> org_row option" where
  "view i db = (account_of i db, ledger_of i db, org_by_id i db)"

definition touches :: "int \<Rightarrow> billing_db \<Rightarrow> billing_db \<Rightarrow> bool" where
  "touches o' db db' \<longleftrightarrow> (\<forall>i. i \<noteq> o' \<longrightarrow> view i db' = view i db)"

lemma touches_refl [simp]: "touches o' db db"
  by (simp add: touches_def)

lemma touches_trans: "touches o' a b \<Longrightarrow> touches o' b c \<Longrightarrow> touches o' a c"
  by (simp add: touches_def)

lemma touches_seen [simp]: "touches o' db (seen_billing_event now i db1) = touches o' db db1"
  by (simp add: touches_def view_def seen_billing_event_def account_of_def ledger_of_def org_by_id_def)

lemma touches_ensure: "touches org db (ensure_billing_row org now db)"
proof -
  have "List.find (is_account i) (xs @ [new_account org now]) = List.find (is_account i) xs" if "i \<noteq> org" for i xs
    using that by (induction xs) (simp_all add: is_account_def new_account_def)
  then show ?thesis by (simp add: touches_def view_def account_of_def ledger_of_def org_by_id_def ensure_billing_row_def)
qed

lemma touches_update:
  assumes "\<And>a. P a \<Longrightarrow> ba_org a = org" "\<And>a. ba_org (f a) = ba_org a" shows "touches org db (update_accounts P f db)"
proof -
  have "account_of i (update_accounts P f db) = account_of i db" if "i \<noteq> org" for i
    using account_of_update [of P f i db, OF assms(2)] account_of_Some [of i db] assms(1) that by (cases "account_of i db") auto
  then show ?thesis by (simp add: touches_def view_def ledger_of_def org_by_id_def update_accounts_rows)
qed

lemma touches_update_is [simp]: "(\<And>a. ba_org (f a) = ba_org a) \<Longrightarrow> touches org db (update_accounts (is_account org) f db)"
  by (rule touches_update) (simp_all add: is_account_def)

lemma touches_line: "lg_org l = org \<Longrightarrow> touches org db (add_line l db)"
  by (simp add: touches_def view_def account_of_def ledger_of_def org_by_id_def add_line_def)

lemma touches_org: "touches org db (update_org org (\<lambda>g. g\<lparr>og_plan := p g, og_grant := q g, og_budget := r g\<rparr>) db)"
proof -
  have "List.find (\<lambda>g. og_id g = i) (update_rows (\<lambda>g. og_id g = org) (\<lambda>g. g\<lparr>og_plan := p g, og_grant := q g, og_budget := r g\<rparr>) xs) =
      List.find (\<lambda>g. og_id g = i) xs" if "i \<noteq> org" for i xs
    using that by (induction xs) (simp_all add: update_rows_def)
  then show ?thesis by (simp add: touches_def view_def account_of_def ledger_of_def org_by_id_def update_org_def)
qed

lemma touches_move: "touches (cm_org m) db (fst (move_credit now m db))"
proof -
  let ?up = "update_accounts (is_account (cm_org m)) (moved_account now m) (ensure_billing_row (cm_org m) now db)"
  have "touches (cm_org m) db ?up" by (rule touches_trans [OF touches_ensure [where now = now]]) (simp add: moved_account_def)
  then have "touches (cm_org m) db (add_line (credit_line now m n) ?up)" for n
    by (rule touches_trans) (rule touches_line, simp add: credit_line_def)
  then show ?thesis by (simp add: move_credit_def Let_def)
qed

lemma touches_put: "touches org db (fst (put_subscription now org st db))"
proof -
  have "touches org db (update_accounts (is_account org) (subscribed_account now st) (ensure_billing_row org now db))"
    by (rule touches_trans [OF touches_ensure [where now = now]]) (simp add: subscribed_account_def)
  then show ?thesis by (simp add: put_subscription_def)
qed

lemma touches_plan: "touches (og_id g) db1 (move_plan g plan db1)"
proof -
  have "touches (og_id g) db1 (update_org (og_id g) (\<lambda>x. x\<lparr>og_plan := plan, og_grant := 0\<rparr>) db1)"
    using touches_org [where p = "\<lambda>_. plan" and q = "\<lambda>_. 0" and r = og_budget] by simp
  then show ?thesis by (simp add: move_plan_def)
qed

lemma touches_sync: "touches org db (sync_allowance E clk org db)"
proof -
  have put: "touches org d (put_allowance org z x now d)" for z x now d
    by (cases x) (simp add: put_allowance_def)
  have row: "touches org db (sync_allowance_row org z period want clk db)" for z period want
    by (auto simp: sync_allowance_row_def Let_def split: option.split intro: touches_trans [OF touches_ensure put])
  have "touches org d (set_budget org usd d)" for usd d
    using touches_org [where p = og_plan and q = og_grant and r = "\<lambda>_. Some usd"] by (simp add: set_budget_def)
  then have "touches org db d \<Longrightarrow> touches org db (align_budget org b c d)" for b c d
    by (auto simp: align_budget_def intro: touches_trans)
  with row show ?thesis by (simp add: sync_allowance_def Let_def)
qed

interpretation touch: one_org "touches org" org for org
  by unfold_locales (auto simp: touches_put touches_sync touches_plan dest: touches_trans intro: touches_move)

text \<open>C25. An event of Stripe's changes what one organisation sees, if any: a refund or a dispute the one whose payment it takes back, any
  other event the one its metadata names, or with none the one whose customer it is; and never one that is another customer's.\<close>

theorem event_touches_one_organisation:
  assumes "view i (fst (apply_stripe_event E clk ev (acts E xs no_money))) \<noteq> view i (acts E xs no_money)" "ev_object ev = Some o'"
  shows "if ev_type ev \<in> charge_events then \<exists>c. credited_payment (so_intent o') (acts E xs no_money) = Some (i, c)
    else map_option ba_org (account_by_customer (so_customer o') (acts E xs no_money)) \<in> {None, Some i} \<and>
      (if so_org o' = '''' \<and> so_parent_org o' = ''''
       then map_option ba_customer (account_of i (acts E xs no_money)) = Some (so_customer o')
       else map_option og_id (org_by_public (pe_unicode E) (non_empty (so_org o') (so_parent_org o')) (acts E xs no_money)) = Some i \<and>
         (so_customer o' = '''' \<or> map_option ba_customer (account_of i (acts E xs no_money)) \<in> {None, Some '''', Some (so_customer o')}))"
proof -
  define db where "db = acts E xs no_money"
  have ok: "books_ok db" unfolding db_def by (rule acts_ok) simp
  have changed: "view i (fst (apply_stripe_event E clk ev db)) \<noteq> view i db" using assms(1) by (simp add: db_def)
  have quiet: "view j (seen_billing_event now e db) = view j db" for j now e
    by (simp add: view_def account_of_def ledger_of_def org_by_id_def seen_billing_event_def)
  let ?A = "\<exists>c. credited_payment (so_intent o') db = Some (i, c)"
  let ?B = "map_option ba_org (account_by_customer (so_customer o') db) \<in> {None, Some i} \<and>
      (if so_org o' = '''' \<and> so_parent_org o' = '''' then map_option ba_customer (account_of i db) = Some (so_customer o')
       else map_option og_id (org_by_public (pe_unicode E) (non_empty (so_org o') (so_parent_org o')) db) = Some i \<and>
         (so_customer o' = '''' \<or> map_option ba_customer (account_of i db) \<in> {None, Some '''', Some (so_customer o')}))"
  have "if ev_type ev \<in> charge_events then ?A else ?B"
  proof (cases "ev_type ev \<in> charge_events")
    case True
    then have c: "view i (apply_charge_event E (clock_second clk) ev o' db) \<noteq> view i db"
      using changed assms(2) quiet by (auto simp: apply_stripe_event_def Let_def split: if_splits)
    obtain j c where j: "credited_payment (so_intent o') db = Some (j, c)"
      using c quiet by (cases "credited_payment (so_intent o') db") (auto simp: apply_charge_event_def)
    have "i = j" using touch.charge_event [OF j, of E "clock_second clk" ev] c by (auto simp: touches_def)
    with True j show ?thesis by simp
  next
    case False
    then obtain g where g: "org_for_stripe E o' db = Some g" "view i (fst (apply_org_event E clk g ev o' db)) \<noteq> view i db"
      using changed assms(2) quiet by (auto simp: apply_stripe_event_def Let_def split: if_splits option.splits)
    have i: "i = og_id g" using touch.org_event [OF refl, of g db E clk ev o'] g(2) by (auto simp: touches_def)
    have acc: "account_of (ba_org a) db = Some a \<and> ba_customer a = cus" if "account_by_customer cus db = Some a" for cus a
      using that account_of_eq [OF ok, of "ba_org a" a] by (auto simp: account_by_customer_def find_Some_iff split: if_splits)
    have byid: "og_id x = n" if "org_by_id n db = Some x" for x n using that by (auto simp: org_by_id_def find_Some_iff)
    have ?B using g(1) unfolding i
      by (auto simp: org_for_stripe_def Let_def non_empty_def split: if_splits option.splits dest!: byid acc)
    then show ?thesis unfolding if_not_P [OF False] .
  qed
  then show ?thesis unfolding db_def .
qed

section \<open>Events on record\<close>

lemma events_of [simp]: "bd_events (ensure_billing_row org now db) = bd_events db" "bd_events (update_accounts P f db) = bd_events db"
  "bd_events (add_line l db) = bd_events db" "bd_events (update_org i h db) = bd_events db"
  by (simp_all add: ensure_billing_row_def update_accounts_def add_line_def update_org_def)

lemma events_of_ops [simp]: "bd_events (fst (move_credit now m db)) = bd_events db" "bd_events (fst (put_subscription now org st db)) = bd_events db"
  "bd_events (move_plan g p db) = bd_events db" "bd_events (charge_credit now org c db) = bd_events db"
  "bd_events (expire_allowances now db) = bd_events db" "bd_events (fst (roll_up_debit now org pub hour db)) = bd_events db"
  by (simp_all add: move_credit_def put_subscription_def move_plan_def charge_credit_def expire_allowances_def roll_up_debit_def roll_up_read_def
    Let_def split: option.split)

lemma events_of_sync [simp]: "bd_events (sync_allowance E clk org db) = bd_events db"
proof -
  have "bd_events (put_allowance org z x now d) = bd_events d" for z x now d by (cases x) (simp add: put_allowance_def)
  then have "bd_events (sync_allowance_row org z p want clk db) = bd_events db" for z p want
    by (simp add: sync_allowance_row_def Let_def split: option.split)
  then show ?thesis by (simp add: sync_allowance_def align_budget_def set_budget_def Let_def)
qed

definition events_kept :: "billing_db \<Rightarrow> billing_db \<Rightarrow> bool" where
  "events_kept db db' \<longleftrightarrow> set (bd_events db) \<subseteq> set (bd_events db')"

interpretation log: one_org events_kept org for org
  by unfold_locales (auto simp: events_kept_def seen_billing_event_def)

definition recorded :: "string \<Rightarrow> int \<Rightarrow> billing_db \<Rightarrow> bool" where
  "recorded i t db \<longleftrightarrow> (\<exists>t'\<ge>t. (i, t') \<in> set (bd_events db))"

lemma recorded_has: "recorded i t db \<Longrightarrow> has_billing_event i db"
  by (force simp: recorded_def has_billing_event_def)

lemma events_kept_recorded: "events_kept db db' \<Longrightarrow> recorded i t db \<Longrightarrow> recorded i t db'"
  by (auto simp: events_kept_def recorded_def)

text \<open>A pass that comes within thirty days of a moment does not sweep what was put on record then.\<close>

fun within_days :: "int \<Rightarrow> money_act \<Rightarrow> bool" where
  "within_days t (Hour clk) = (clock_second clk - 30 * 24 * 3600 \<le> t)"
| "within_days t _ = True"

lemma hour_recorded:
  assumes "clock_second clk - 30 * 24 * 3600 \<le> t" "recorded i t db" shows "recorded i t (billing_hour E clk db)"
proof -
  let ?now = "clock_second clk"
  have roll: "bd_events (roll_up_credit E now db) = bd_events db" for now
  proof -
    have "bd_events (fold (\<lambda>i db. case org_by_id i db of None \<Rightarrow> db | Some g \<Rightarrow> fst (roll_up_debit now i (og_public g) (pe_hour E now) db)) xs d) = bd_events d"
      for xs d by (induction xs arbitrary: d) (simp_all split: option.split)
    then show ?thesis by (simp add: roll_up_credit_def)
  qed
  have "bd_events (fold (sync_allowance E clk) xs d) = bd_events d" for xs d by (induction xs arbitrary: d) simp_all
  then have "bd_events (billing_hour E clk db) = bd_events (sweep_billing_events (?now - 30 * 24 * 3600) (roll_up_credit E ?now db))"
    by (simp add: billing_hour_def sync_allowances_def Let_def)
  then show ?thesis using assms roll [of ?now] by (auto simp: recorded_def sweep_billing_events_def)
qed

lemma act_recorded:
  assumes "within_days t x" "recorded i t db" shows "recorded i t (act E x db)"
proof (cases x)
  case (Delivered clk ev)
  show ?thesis unfolding Delivered act.simps using event_of_one [of "\<lambda>_. events_kept" db E clk ev, OF log.one_org_axioms] assms(2)
    by (blast intro: events_kept_recorded)
next
  case (Returned clk org s)
  then show ?thesis using events_kept_recorded [OF log.settled assms(2)] by simp
next
  case (Granted now org usd nt who key)
  then show ?thesis using events_kept_recorded [OF log.granted assms(2)] by simp
next
  case (Comped clk org key)
  then show ?thesis using events_kept_recorded [OF log.comped [OF refl] assms(2)] assms(2) by (simp split: option.split)
next
  case (Hour clk)
  then show ?thesis using hour_recorded assms by simp
qed (use assms(2) in \<open>simp_all add: recorded_def log_usage_def\<close>)

lemma seen_recorded:
  assumes "\<not> has_billing_event i db" "bd_events d = bd_events db \<or> (\<exists>j. bd_events d = bd_events (seen_billing_event now j db))"
  shows "recorded i now (seen_billing_event now i d)"
  using assms by (force simp: recorded_def seen_billing_event_def has_billing_event_def split: if_splits)

lemma put_events: "put_subscription now org st db = (d, e) \<Longrightarrow> bd_events d = bd_events db"
  using events_of_ops(2) [of now org st db] by simp

lemma plan_after_events [simp]: "bd_events (plan_after s g db) = bd_events db"
  by (simp add: plan_after_def)

text \<open>An event that was answered well is on record, or nothing changed; an error changed nothing.\<close>

definition settles :: "int \<Rightarrow> string \<Rightarrow> billing_db \<Rightarrow> billing_db \<times> billing_error option \<Rightarrow> bool" where
  "settles now i db r \<longleftrightarrow> fst r = db \<or> (snd r = None \<and> recorded i now (fst r))"

lemma settles_same [simp]: "settles now i db (db, e)"
  by (simp add: settles_def)

lemma settles_seen [simp]: "\<not> has_billing_event i db \<Longrightarrow> bd_events d = bd_events db \<Longrightarrow> settles now i db (seen_billing_event now i d, None)"
  by (simp add: settles_def seen_recorded)

lemma event_settles: "\<not> has_billing_event (ev_id ev) db \<Longrightarrow> settles (clock_second clk) (ev_id ev) db (apply_stripe_event E clk ev db)"
proof -
  assume new: "\<not> has_billing_event (ev_id ev) db"
  let ?now = "clock_second clk"
  have up: "settles ?now (ev_id ev) db (credit_top_up E ?now org (ev_id ev) pay minor cur nt db, None)" for org pay minor cur nt
    using new by (simp add: credit_top_up_def)
  have down: "settles ?now (ev_id ev) db (credit_refund ?now org (ev_id ev) key m cur db, None)" for org key m cur
    using new by (simp add: credit_refund_def)
  have charge: "settles ?now (ev_id ev) db (apply_charge_event E ?now ev o' db, None)" for o'
    using new up down by (simp add: apply_charge_event_def Let_def split: option.split)
  have act: "settles ?now (ev_id ev) db (activate_subscription E ?now g ev o' db)" for g o'
    using new by (auto simp: activate_subscription_def Let_def split: prod.split option.split dest: put_events)
  have ends: "settles ?now (ev_id ev) db (seen_billing_event ?now (ev_id ev) (plan_after s g (sync_allowance E clk org
      (if b then mark_subscription_ended ?now sub d else d))), None)" if "bd_events d = bd_events db" for s g org b sub d
  proof -
    have "bd_events (seen_billing_event ?now k d) = bd_events (seen_billing_event ?now k db)" for k
      using that by (simp add: seen_billing_event_def has_billing_event_def)
    then have "bd_events (if b then mark_subscription_ended ?now sub d else d) = bd_events db \<or>
        (\<exists>j. bd_events (if b then mark_subscription_ended ?now sub d else d) = bd_events (seen_billing_event ?now j db))"
      using that by (auto simp: mark_subscription_ended_def)
    then show ?thesis by (simp add: settles_def seen_recorded [OF new])
  qed
  have sync: "settles ?now (ev_id ev) db (sync_subscription E clk g ev o' db)" for g o'
    using new by (auto simp: sync_subscription_def Let_def split: prod.split option.split
      intro: ends [where b = True, unfolded if_True] ends [where b = False, unfolded if_False] dest: put_events)
  have roll: "settles ?now (ev_id ev) db (roll_subscription_period E clk g ev o' db)" for g o'
    using new by (auto simp: roll_subscription_period_def Let_def split: prod.split option.split dest: put_events)
  have fail: "settles ?now (ev_id ev) db (mark_past_due ?now g ev o' db)" for g o'
    using new by (auto simp: mark_past_due_def split: prod.split option.split dest: put_events)
  show ?thesis using new up charge act sync roll fail
    by (auto simp: apply_stripe_event_def apply_org_event_def Let_def split: option.split)
qed

fun delivers :: "string \<Rightarrow> money_act \<Rightarrow> bool" where
  "delivers i (Delivered clk ev) \<longleftrightarrow> ev_id ev = i"
| "delivers i _ \<longleftrightarrow> False"

lemma known_event: "recorded i t db \<Longrightarrow> delivers i x \<Longrightarrow> act E x db = db"
  by (cases x) (auto simp: apply_stripe_event_def Let_def dest: recorded_has)

lemma acts_without: "recorded i t db \<Longrightarrow> list_all (within_days t) xs \<Longrightarrow> acts E xs db = acts E (filter (\<lambda>x. \<not> delivers i x) xs) db"
  by (induction xs arbitrary: db) (auto simp: known_event act_recorded)

text \<open>C24. An event Stripe delivers again does nothing: it changed nothing, or it was answered well and for the thirty days it is on
  record whatever happens happens as if it had come once. An event that is answered with an error has changed nothing.\<close>

theorem redelivered_event_does_nothing:
  assumes "list_all (within_days (clock_second clk)) xs"
  shows "act E (Delivered clk ev) db = db \<or> snd (apply_stripe_event E clk ev db) = None \<and>
    acts E xs (act E (Delivered clk ev) db) = acts E (filter (\<lambda>x. \<not> delivers (ev_id ev) x) xs) (act E (Delivered clk ev) db)"
proof (cases "has_billing_event (ev_id ev) db")
  case True
  then show ?thesis by (simp add: apply_stripe_event_def Let_def)
next
  case False
  from event_settles [OF this, of clk E] acts_without [OF _ assms] show ?thesis by (auto simp: settles_def)
qed

section \<open>An ended subscription\<close>

definition dormant :: "string \<Rightarrow> billing_db \<Rightarrow> bool" where
  "dormant s db \<longleftrightarrow> subscription_ended s db \<and> (\<forall>a\<in>set (bd_accounts db). ba_sub a = s \<longrightarrow> \<not> account_active a)"

lemma dormant_accounts:
  assumes "dormant s db" "bd_events d = bd_events db"
    "\<And>a. a \<in> set (bd_accounts d) \<Longrightarrow> ba_sub a = s \<Longrightarrow> \<exists>b\<in>set (bd_accounts db). ba_sub b = s \<and> ba_status b = ba_status a"
  shows "dormant s d"
  using assms unfolding dormant_def subscription_ended_def has_billing_event_def account_active_def by metis

lemma dormant_update:
  assumes "dormant s db" "\<And>a. ba_sub (f a) = ba_sub a \<and> ba_status (f a) = ba_status a" shows "dormant s (update_accounts P f db)"
  using assms(2) by (intro dormant_accounts [OF assms(1)]) (auto simp: update_accounts_rows split: if_split_asm)

lemma dormant_sub: "dormant s db \<Longrightarrow> s \<noteq> ''''"
  by (simp add: dormant_def subscription_ended_def)

lemma dormant_ensure: assumes "dormant s db" shows "dormant s (ensure_billing_row org now db)"
  using dormant_sub [OF assms] by (intro dormant_accounts [OF assms]) (auto simp: ensure_billing_row_def new_account_def split: if_split_asm)

lemma dormant_line: "dormant s db \<Longrightarrow> dormant s (add_line l db)"
  by (simp add: dormant_def subscription_ended_def has_billing_event_def add_line_def)

lemma dormant_org: "dormant s db \<Longrightarrow> dormant s (update_org i h db)"
  by (simp add: dormant_def subscription_ended_def has_billing_event_def update_org_def)

lemma dormant_seen: "dormant s db \<Longrightarrow> dormant s (seen_billing_event now i db)"
  by (auto simp: dormant_def subscription_ended_def has_billing_event_def seen_billing_event_def)

lemma dormant_sweep: "dormant s db \<Longrightarrow> dormant s (sweep_billing_events older db)"
  by (force simp: dormant_def subscription_ended_def has_billing_event_def sweep_billing_events_def ended_key_def)

lemma dormant_move: "dormant s db \<Longrightarrow> dormant s (fst (move_credit now m db))"
  by (simp add: move_credit_def Let_def moved_account_def dormant_line dormant_update dormant_ensure)

lemma dormant_charge: "dormant s db \<Longrightarrow> dormant s (charge_credit now org c db)"
  by (simp add: charge_credit_def charged_account_def Let_def dormant_update)

lemma dormant_roll: "dormant s db \<Longrightarrow> dormant s (fst (roll_up_debit now org pub hour db))"
  by (simp add: roll_up_debit_def roll_up_read_def Let_def dormant_update dormant_line split: option.split)

lemma dormant_plan: "dormant s db \<Longrightarrow> dormant s (move_plan g p db)"
  by (simp add: move_plan_def dormant_org)

lemma dormant_sync: assumes "dormant s db" shows "dormant s (sync_allowance E clk org db)"
proof -
  have "dormant s (put_allowance i z x now d)" if "dormant s d" for i z x now d
    using that by (cases x) (simp add: put_allowance_def dormant_update)
  then have "dormant s (sync_allowance_row org z p want clk db)" for z p want
    using assms by (simp add: sync_allowance_row_def Let_def dormant_ensure split: option.split)
  then show ?thesis using assms by (simp add: sync_allowance_def Let_def align_budget_def set_budget_def dormant_org)
qed

lemma dormant_put:
  assumes "dormant s db" "put_subscription now org st db = (d, e)" "su_id st = s \<Longrightarrow> su_status st \<notin> set live_statuses" shows "dormant s d"
proof -
  have "dormant s (update_accounts (is_account org) (subscribed_account now st) (ensure_billing_row org now db))"
    using dormant_ensure [OF assms(1), of org now] assms(3)
    by (auto simp: dormant_def subscription_ended_def has_billing_event_def account_active_def update_accounts_rows subscribed_account_def split: if_split_asm)
  then show ?thesis using assms(1,2) by (auto simp: put_subscription_def split: if_splits)
qed

lemma dormant_top_up: "dormant s db \<Longrightarrow> dormant s (credit_top_up E now org i pay minor cur nt db)"
  by (simp add: credit_top_up_def dormant_seen dormant_move)

lemma dormant_refund: "dormant s db \<Longrightarrow> dormant s (credit_refund now org i key m cur db)"
  by (simp add: credit_refund_def dormant_seen dormant_move)

lemma dormant_charge_event: "dormant s db \<Longrightarrow> dormant s (apply_charge_event E now ev o' db)"
  by (simp add: apply_charge_event_def Let_def dormant_seen dormant_top_up dormant_refund split: option.split)

lemma with_size_keeps [simp]: "su_id (with_size z st) = su_id st" "su_status (with_size z st) = su_status st"
  by (simp_all add: with_size_def split: option.split)

lemma activated_id [simp]: "su_id (activated_state E cus sub cur a) = sub"
  by (simp add: activated_state_def)

lemma dormant_ended: "dormant s db \<Longrightarrow> subscription_ended s db"
  by (simp add: dormant_def)

lemma non_empty_left [simp]: "a \<noteq> '''' \<Longrightarrow> non_empty a b = a"
  by (simp add: non_empty_def)

lemma dormant_activate:
  assumes d: "dormant s db" "so_sub o' \<noteq> ''''" shows "dormant s (fst (activate_subscription E now g ev o' db))"
  using d(2) dormant_ended [OF d(1)] by (auto simp: activate_subscription_def Let_def d(1) split: prod.split option.split
    intro!: dormant_seen dormant_plan elim!: dormant_put [OF d(1)])

lemma told_id: "su_id (told_state E org ev o' db) = (if ev_type ev = ''customer.subscription.deleted'' then '''' else so_id o')"
  by (simp add: told_state_def Let_def split: prod.split list.split)

lemma ends_dead: "subscription_ends st \<Longrightarrow> st \<notin> set live_statuses"
  by (auto simp: subscription_ends_def live_statuses_def)

lemma dormant_plan_after: "dormant s db \<Longrightarrow> dormant s (plan_after p g db)"
  by (simp add: plan_after_def dormant_plan)

lemma dormant_mark: "dormant s db \<Longrightarrow> dormant s (mark_subscription_ended now sub db)"
  by (simp add: mark_subscription_ended_def dormant_seen)

lemma dormant_sync_subscription: assumes "dormant s db" shows "dormant s (fst (sync_subscription E clk g ev o' db))"
proof -
  let ?st = "told_state E (og_id g) ev o' db"
  have dead: False if "s = su_id ?st" "su_status ?st \<in> set live_statuses" "subscription_ends (su_status ?st) \<or> \<not> subscription_ended (so_id o') db"
    using that dormant_sub [OF assms] dormant_ended [OF assms] ends_dead by (auto simp: told_id split: if_splits)
  show ?thesis
    by (auto simp: sync_subscription_def Let_def assms split: prod.split option.split
      intro!: dormant_seen dormant_plan_after dormant_sync dormant_mark elim!: dormant_put [OF assms] dest: dead)
qed

lemma rolled_id: "invoice_subscription o' \<noteq> '''' \<Longrightarrow> su_id (rolled_state E org o' db) = invoice_subscription o'"
  by (simp add: rolled_state_def Let_def non_empty_def split: prod.split)

lemma dormant_rolled: assumes d: "dormant s db" shows "dormant s (fst (roll_subscription_period E clk g ev o' db))"
  using dormant_ended [OF d] by (auto simp: roll_subscription_period_def Let_def d rolled_id split: prod.split option.split
    intro!: dormant_seen dormant_plan dormant_sync elim!: dormant_put [OF d])

text \<open>What Stripe sends of a checkout for a subscription names it; a failed payment is another matter (below).\<close>

fun names_subscription :: "money_act \<Rightarrow> bool" where
  "names_subscription (Delivered clk ev) \<longleftrightarrow> ev_type ev \<noteq> ''invoice.payment_failed'' \<and>
     (case ev_object ev of None \<Rightarrow> True | Some o' \<Rightarrow> so_sub o' \<noteq> '''' \<or> so_mode o' = ''payment'' \<or>
        ev_type ev \<notin> {''checkout.session.completed'', ''checkout.session.async_payment_succeeded''})"
| "names_subscription _ \<longleftrightarrow> True"

lemma dormant_event: "dormant s db \<Longrightarrow> names_subscription (Delivered clk ev) \<Longrightarrow> dormant s (fst (apply_stripe_event E clk ev db))"
  using dormant_seen dormant_charge_event dormant_top_up dormant_activate dormant_sync_subscription dormant_rolled
  by (auto simp: apply_stripe_event_def apply_org_event_def Let_def split: option.split)

lemma dormant_settle: assumes d: "dormant s db" shows "dormant s (fst (settle_checkout E clk org k db))"
  using dormant_ended [OF d] by (auto simp: settle_checkout_def Let_def d dormant_top_up split: prod.split option.split
    intro!: dormant_plan elim!: dormant_put [OF d])

lemma dormant_comp: assumes d: "dormant s db" shows "dormant s (fst (comp_size E clk g key db))"
  using dormant_sub [OF d] by (auto simp: comp_size_def Let_def d split: prod.split option.split intro!: dormant_sync elim!: dormant_put [OF d])

lemma dormant_grant: "dormant s db \<Longrightarrow> dormant s (fst (grant_credit E now org usd nt who key db))"
  using dormant_move [of s db] by (auto simp: grant_credit_def Let_def split: prod.split sum.split) (metis fst_conv)+

lemma dormant_fold: "(\<And>x db. dormant s db \<Longrightarrow> dormant s (f x db)) \<Longrightarrow> dormant s db \<Longrightarrow> dormant s (fold f xs db)"
  by (induction xs arbitrary: db) simp_all

lemma dormant_hour: assumes "dormant s db" shows "dormant s (billing_hour E clk db)"
proof -
  have "dormant s (roll_up_credit E now db)" for now
    unfolding roll_up_credit_def by (rule dormant_fold [OF _ assms]) (simp add: dormant_roll split: option.split)
  then show ?thesis unfolding billing_hour_def sync_allowances_def expire_allowances_def Let_def
    by (intro dormant_fold dormant_sync dormant_update dormant_sweep) simp_all
qed

lemma dormant_act: "dormant s db \<Longrightarrow> names_subscription x \<Longrightarrow> dormant s (act E x db)"
proof (cases x)
  case (Delivered clk ev)
  assume "dormant s db" "names_subscription x"
  with dormant_event [of s db clk ev E] Delivered show ?thesis by simp
next
  case (Elsewhere orgs terms)
  assume "dormant s db"
  with Elsewhere show ?thesis by (simp add: dormant_def subscription_ended_def has_billing_event_def)
qed (simp_all add: dormant_settle dormant_grant dormant_comp dormant_hour log_usage_def dormant_charge split: option.split)


section \<open>A sample\<close>

definition sample_env :: pay_env where
  "sample_env = \<lparr>pe_unicode = ascii_tables, pe_currency = ''usd'',
     pe_sizes = [\<lparr>sz_key = ''upto_10'', sz_price = ''price_1'', sz_amount = 12000, sz_included = 2000, sz_users = 10, sz_jobs = 25\<rparr>],
     pe_month = (\<lambda>t. t + 30 * 86400), pe_hour = (\<lambda>t. itoa (t div 3600))\<rparr>"

definition blank_object :: stripe_object where
  "blank_object = \<lparr>so_id = '''', so_mode = '''', so_customer = ''cus_1'', so_sub = '''', so_intent = '''', so_paid = '''', so_status = '''',
     so_currency = ''usd'', so_total = 0, so_received = 0, so_refunded = 0, so_amount = 0, so_charge = '''', so_org = '''', so_size = '''', so_band = '''',
     so_cancel = False, so_start = 0, so_end = 0, so_items = [], so_parent_sub = '''', so_parent_org = '''', so_lines = []\<rparr>"

definition seconds :: "int \<Rightarrow> int" where
  "seconds t = t * nanos_per_second"

definition sample_item :: stripe_item where
  "sample_item = \<lparr>si_quantity = 1, si_price = ''price_1'', si_currency = ''usd'', si_amount = 12000, si_start = 100, si_end = 2592100\<rparr>"

definition subscribed_event :: stripe_event where
  "subscribed_event = \<lparr>ev_id = ''evt_1'', ev_type = ''customer.subscription.created'',
     ev_object = Some (blank_object\<lparr>so_id := ''sub_1'', so_org := ''acme'', so_status := ''active'', so_items := [sample_item]\<rparr>)\<rparr>"

definition paid_event :: stripe_event where
  "paid_event = \<lparr>ev_id = ''evt_2'', ev_type = ''payment_intent.succeeded'',
     ev_object = Some (blank_object\<lparr>so_id := ''pi_9'', so_org := ''acme'', so_received := 5000\<rparr>)\<rparr>"

definition deleted_event :: stripe_event where
  "deleted_event = \<lparr>ev_id = ''evt_3'', ev_type = ''customer.subscription.deleted'',
     ev_object = Some (blank_object\<lparr>so_id := ''sub_1'', so_items := [sample_item]\<rparr>)\<rparr>"

definition late_event :: stripe_event where
  "late_event = subscribed_event\<lparr>ev_id := ''evt_0'', ev_type := ''customer.subscription.updated''\<rparr>"

definition sample_orgs :: "org_row list" where
  "sample_orgs = [\<lparr>og_id = 1, og_public = ''acme'', og_plan = ''free'', og_grant = 0, og_budget = None\<rparr>,
     \<lparr>og_id = 2, og_public = ''beta'', og_plan = ''free'', og_grant = 0, og_budget = None\<rparr>]"

definition sample_bought :: "money_act list" where
  "sample_bought = [Elsewhere sample_orgs [], Delivered (seconds 200) subscribed_event, Delivered (seconds 300) paid_event]"

text \<open>The plan's twenty dollars are an allowance, the payment is credit, and the plan is theirs.\<close>

lemma sample_bought_sees:
  "map_option (\<lambda>a. (ba_status a, ba_allow a, ba_balance a, ba_customer a)) (account_of 1 (acts sample_env sample_bought no_money)) =
     Some (''active'', 20000000, 50000000, ''cus_1'')"
  "map_option og_plan (org_by_id 1 (acts sample_env sample_bought no_money)) = Some ''pro''"
  by code_simp+

theorem event_touches_one_organisation_witness:
  "map_option ba_customer (account_of 1 (acts sample_env sample_bought no_money)) = Some ''cus_1''"
proof -
  let ?db = "acts sample_env sample_bought no_money"
  have "map_option ba_status (fst (view 1 (fst (apply_stripe_event sample_env (seconds 400) deleted_event ?db)))) = Some ''canceled''"
    "map_option ba_status (fst (view 1 ?db)) = Some ''active''" by code_simp+
  then have "view 1 (fst (apply_stripe_event sample_env (seconds 400) deleted_event ?db)) \<noteq> view 1 ?db" by auto
  from event_touches_one_organisation [OF this] show ?thesis
    by (simp add: deleted_event_def blank_object_def charge_events_def)
qed

definition sample_after :: "money_act list" where
  "sample_after = [Turn 310 1 False (1 / 2), Delivered (seconds 320) paid_event, Hour (seconds 3600), Delivered (seconds 4000) paid_event]"

theorem redelivered_event_does_nothing_witness:
  "acts sample_env sample_after (acts sample_env sample_bought no_money) =
   acts sample_env [Turn 310 1 False (1 / 2), Hour (seconds 3600)] (acts sample_env sample_bought no_money)"
proof -
  let ?db = "acts sample_env (butlast sample_bought) no_money"
  have "map_option ba_balance (account_of 1 ?db) = Some 0" "map_option ba_balance (account_of 1 (act sample_env (Delivered (seconds 300) paid_event) ?db)) = Some 50000000"
    by code_simp+
  then have change: "act sample_env (Delivered (seconds 300) paid_event) ?db \<noteq> ?db" by auto
  have days: "list_all (within_days (clock_second (seconds 300))) sample_after" by code_simp
  have rest: "filter (\<lambda>x. \<not> delivers (ev_id paid_event) x) sample_after = [Turn 310 1 False (1 / 2), Hour (seconds 3600)]"
    by (simp add: sample_after_def paid_event_def)
  have all: "act sample_env (Delivered (seconds 300) paid_event) ?db = acts sample_env sample_bought no_money" by (simp add: sample_bought_def)
  from redelivered_event_does_nothing [OF days, of sample_env paid_event ?db] change show ?thesis unfolding all rest by blast
qed

definition sample_ended :: billing_db where
  "sample_ended = acts sample_env (sample_bought @ [Delivered (seconds 400) deleted_event]) no_money"


text \<open>
  The exception: an invoice that fails late makes an ended account one that is past due, which counts as paid for; nothing
  asks whether the subscription of the invoice has ended.
\<close>

definition failed_event :: stripe_event where
  "failed_event = \<lparr>ev_id = ''evt_4'', ev_type = ''invoice.payment_failed'', ev_object = Some (blank_object\<lparr>so_sub := ''sub_1''\<rparr>)\<rparr>"

lemma late_failure_revives:
  "map_option account_active (account_of 1 sample_ended) = Some False"
  "subscription_ended (invoice_subscription (the (ev_object failed_event))) sample_ended"
  "map_option account_active (account_of 1 (act sample_env (Delivered (seconds 500) failed_event) sample_ended)) = Some True"
  by code_simp+

text \<open>And an invoice's failure of which no account is known is answered well and not put on record.\<close>

lemma failure_unrecorded:
  "apply_stripe_event sample_env (seconds 500) (failed_event\<lparr>ev_object := Some (blank_object\<lparr>so_sub := ''sub_1'', so_org := ''beta'', so_customer := ''cus_2''\<rparr>)\<rparr>) sample_ended =
     (sample_ended, None)"
proof -
  let ?o = "blank_object\<lparr>so_sub := ''sub_1'', so_org := ''beta'', so_customer := ''cus_2''\<rparr>"
  have 1: "\<not> has_billing_event ''evt_4'' sample_ended" "map_option og_id (org_for_stripe sample_env ?o sample_ended) = Some 2"
    "account_of 2 sample_ended = None" by code_simp+
  then obtain g where "org_for_stripe sample_env ?o sample_ended = Some g" "og_id g = 2" by (auto simp: map_option_eq_Some)
  with 1 show ?thesis
    by (simp add: apply_stripe_event_def apply_org_event_def mark_past_due_def failed_event_def charge_events_def invoice_subscription_def
      non_empty_def Let_def blank_object_def)
qed

end
