(* ===== verification/Billing_Refunds.thy ===== *)
theory Billing_Refunds
  imports Billing_Safety
begin

text \<open>
  What comes back out of a payment: Stripe's refund events carry a running total, may come in any order and more than
  once, and the statement takes the largest total once, never more than the payment brought; and where a dispute breaks
  that.
\<close>

section \<open>What the statement has taken\<close>

definition refund_rows :: "int \<Rightarrow> string \<Rightarrow> billing_db \<Rightarrow> ledger_row list" where
  "refund_rows org charge db = filter (\<lambda>l. lg_org l = org \<and> lg_kind l = ''refund'' \<and> prefix (refund_prefix charge) (lg_ext l)) (bd_ledger db)"

lemma sum_by_key:
  fixes f :: "'a \<Rightarrow> int"
  assumes "finite K" shows "(\<Sum>k\<in>K. sum_list (map f (filter (\<lambda>l. key l = k) xs))) = sum_list (map f (filter (\<lambda>l. key l \<in> K) xs))"
proof (induction xs)
  case (Cons x xs)
  have "(\<Sum>k\<in>K. sum_list (map f (filter (\<lambda>l. key l = k) (x # xs)))) =
      (\<Sum>k\<in>K. (if key x = k then f x else 0) + sum_list (map f (filter (\<lambda>l. key l = k) xs)))"
    by (rule sum.cong) simp_all
  also have "\<dots> = (if key x \<in> K then f x else 0) + sum_list (map f (filter (\<lambda>l. key l \<in> K) xs))"
    using assms Cons.IH by (simp add: sum.distrib)
  finally show ?case by simp
qed simp

lemma sum_remdups: "sum_list (map (g :: _ \<Rightarrow> int) (filter P (remdups xs))) = (\<Sum>k\<in>{k \<in> set xs. P k}. g k)"
  using sum.distinct_set_conv_list [of "filter P (remdups xs)" g] by (simp add: Int_def)

lemma refunded_rows: "refunded_micros org charge db = - sum_list (map lg_micros (refund_rows org charge db))"
proof -
  let ?rows = "filter (\<lambda>l. lg_kind l = ''refund'') (ledger_of org db)"
  let ?keys = "{k \<in> lg_ext ` set ?rows. prefix (refund_prefix charge) k}"
  have "refunded_micros org charge db = - sum_list (map (\<lambda>k. sum_list (map lg_micros (filter (\<lambda>l. lg_ext l = k) ?rows)))
      (filter (prefix (refund_prefix charge)) (remdups (map lg_ext ?rows))))"
    by (simp add: refunded_micros_def ledger_by_external_def Let_def filter_map comp_def uminus_sum_list_map)
  also have "\<dots> = - (\<Sum>k\<in>?keys. sum_list (map lg_micros (filter (\<lambda>l. lg_ext l = k) ?rows)))"
    by (simp only: sum_remdups set_map)
  also have "\<dots> = - sum_list (map lg_micros (filter (\<lambda>l. lg_ext l \<in> ?keys) ?rows))" by (subst sum_by_key) simp_all
  also have "filter (\<lambda>l. lg_ext l \<in> ?keys) ?rows = filter (\<lambda>l. prefix (refund_prefix charge) (lg_ext l)) ?rows"
    by (rule filter_cong) auto
  also have "\<dots> = refund_rows org charge db" by (simp add: refund_rows_def ledger_of_def conj_commute conj_left_commute)
  finally show ?thesis .
qed

section \<open>Refund events\<close>

text \<open>An event of a charge that says how much of it has come back by now.\<close>

definition refund_of :: "string \<Rightarrow> string \<Rightarrow> stripe_event \<Rightarrow> bool" where
  "refund_of pay charge ev \<longleftrightarrow> ev_type ev = ''charge.refunded'' \<and>
     (case ev_object ev of None \<Rightarrow> False | Some o' \<Rightarrow> so_intent o' = pay \<and> event_charge o' = charge)"

definition said :: "stripe_event \<Rightarrow> int" where
  "said ev = (case ev_object ev of None \<Rightarrow> 0 | Some o' \<Rightarrow> so_refunded o')"

definition deliver :: "pay_env \<Rightarrow> (int \<times> stripe_event) list \<Rightarrow> billing_db \<Rightarrow> billing_db" where
  "deliver E evs db = acts E (map (\<lambda>(clk, ev). Delivered clk ev) evs) db"

text \<open>What is known while only refunds come: the largest total so far is taken, and a total's key is on the statement only if it came.\<close>

definition refunding :: "int \<Rightarrow> int \<Rightarrow> string \<Rightarrow> string \<Rightarrow> billing_db \<Rightarrow> int \<Rightarrow> billing_db \<Rightarrow> bool" where
  "refunding org c pay charge start m db \<longleftrightarrow> credited_payment pay db = Some (org, c) \<and> org_by_id org db \<noteq> None \<and>
     refunded_micros org charge db = min (minor_to_micros m) c \<and>
     ledger_sum org db = ledger_sum org start - min (minor_to_micros m) c \<and>
     (\<forall>n. on_ledger (refund_key charge n) db \<longrightarrow> n \<le> m)"

lemma minor_mono: "minor_to_micros a \<le> minor_to_micros b \<longleftrightarrow> a \<le> b"
  by (simp add: minor_to_micros_def micros_per_usd_def)

lemma refund_key_inj: "refund_key charge m = refund_key charge n \<longleftrightarrow> m = n"
  using itoa_inj by (auto simp: refund_key_def)

lemma seen_ledger [simp]: "bd_ledger (seen_billing_event now i db) = bd_ledger db" "bd_orgs (seen_billing_event now i db) = bd_orgs db"
  by (simp_all add: seen_billing_event_def)

lemma refunding_same:
  assumes "bd_ledger db' = bd_ledger db" "bd_orgs db' = bd_orgs db" shows "refunding org c pay charge start m db' = refunding org c pay charge start m db"
  using assms by (simp add: refunding_def credited_payment_def org_by_id_def refunded_rows refund_rows_def sum_defs on_ledger_def)

lemma move_new:
  "cm_ext m \<noteq> '''' \<Longrightarrow> \<not> on_ledger (cm_ext m) db \<Longrightarrow> \<exists>n. bd_ledger (fst (move_credit now m db)) = bd_ledger db @ [credit_line now m n]"
  "bd_orgs (fst (move_credit now m db)) = bd_orgs db"
  by (auto simp: move_credit_def Let_def add_line_def update_accounts_def ensure_billing_row_def)

lemma find_kept: "List.find P xs = Some x \<Longrightarrow> List.find P (xs @ ys) = Some x"
  by (induction xs) auto

lemma refund_step:
  assumes r: "refunding org c pay charge start m db" and ev: "refund_of pay charge ev" "\<not> has_billing_event (ev_id ev) db"
  shows "refunding org c pay charge start (max m (said ev)) (act E (Delivered clk ev) db)"
proof -
  let ?now = "clock_second clk"
  obtain o' where o: "ev_object ev = Some o'" "so_intent o' = pay" "event_charge o' = charge" using ev(1) by (auto simp: refund_of_def split: option.splits)
  obtain g where g: "org_by_id org db = Some g" "og_id g = org" using r by (auto simp: refunding_def org_by_id_def find_Some_iff)
  define n where "n = so_refunded o'"
  have n: "said ev = n" by (simp add: said_def o n_def)
  define delta where "delta = min (minor_to_micros n) c - min (minor_to_micros m) c"
  define db1 where "db1 = act E (Delivered clk ev) db"
  have run: "db1 = credit_refund ?now org (ev_id ev) (refund_key charge n) delta (so_currency o') db"
    using ev r o g by (simp add: db1_def refunding_def apply_stripe_event_def apply_charge_event_def charge_events_def refund_of_def Let_def delta_def n_def)
  show ?thesis
  proof (cases "0 < delta")
    case False
    then have "min (minor_to_micros (max m n)) c = min (minor_to_micros m) c" using minor_mono [of m n] by (auto simp: delta_def max_def)
    then have "refunding org c pay charge start (max m n) db" using r by (auto simp: refunding_def intro: le_max_iff_disj [THEN iffD2])
    with False show ?thesis unfolding db1_def [symmetric] run n by (subst refunding_same [of _ db]) (simp_all add: credit_refund_def)
  next
    case True
    then have "m < n" using minor_mono [of n m] by (simp add: delta_def min_def split: if_splits)
    then have max: "max m n = n" and new: "\<not> on_ledger (refund_key charge n) db" using r by (auto simp: refunding_def)
    let ?m = "\<lparr>cm_org = org, cm_kind = ''refund'', cm_micros = - delta, cm_ext = refund_key charge n, cm_note = ''Refunded at Stripe'',
      cm_actor = ''stripe'', cm_currency = so_currency o', cm_enforce = False\<rparr>"
    obtain k where k: "bd_ledger (db1) = bd_ledger db @ [credit_line ?now ?m k]" "bd_orgs (db1) = bd_orgs db"
      using True move_new(1) [of ?m db ?now] move_new(2) [of ?now ?m db] new unfolding run by (auto simp: credit_refund_def refund_key_def refund_prefix_def)
    have "credited_payment pay (db1) = Some (org, c)"
      using r k(1) by (auto simp: refunding_def credited_payment_def find_kept split: if_splits option.splits)
    moreover have "refunded_micros org charge (db1) = refunded_micros org charge db + delta"
      by (simp add: refunded_rows refund_rows_def k credit_line_def refund_key_def)
    moreover have "ledger_sum org (db1) = ledger_sum org db - delta" by (simp add: sum_defs k credit_line_def)
    moreover have "on_ledger (refund_key charge j) (db1) \<longleftrightarrow> j = n \<or> on_ledger (refund_key charge j) db" for j
      by (auto simp: on_ledger_def k credit_line_def refund_key_inj)
    ultimately show ?thesis using r \<open>m < n\<close> unfolding db1_def [symmetric] n max by (auto simp: refunding_def org_by_id_def k(2) delta_def)
  qed
qed

lemma refund_acts:
  assumes "refunding org c pay charge start m db" "list_all (\<lambda>(clk, ev). refund_of pay charge ev) evs"
    "distinct (map (\<lambda>(clk, ev). ev_id ev) evs)" "\<forall>(clk, ev)\<in>set evs. \<not> has_billing_event (ev_id ev) db"
  shows "refunding org c pay charge start (fold max (map (\<lambda>(clk, ev). said ev) evs) m) (deliver E evs db)"
  using assms
proof (induction evs arbitrary: m db)
  case (Cons x evs)
  obtain clk ev where x: "x = (clk, ev)" by (cases x)
  let ?db = "act E (Delivered clk ev) db"
  have ev: "refund_of pay charge ev" "\<not> has_billing_event (ev_id ev) db" using Cons.prems x by auto
  have "\<not> has_billing_event i ?db" if "\<not> has_billing_event i db" "i \<noteq> ev_id ev" for i
  proof -
    obtain o' where o: "ev_object ev = Some o'" using ev(1) by (auto simp: refund_of_def split: option.splits)
    have "bd_events ?db = bd_events (seen_billing_event (clock_second clk) (ev_id ev) db)"
      using ev o by (simp add: apply_stripe_event_def apply_charge_event_def credit_refund_def refund_of_def charge_events_def Let_def
        seen_billing_event_def has_billing_event_def split: option.split)
    with that show ?thesis by (auto simp: has_billing_event_def seen_billing_event_def split: if_splits)
  qed
  moreover have "ev_id e \<noteq> ev_id ev" if "(k, e) \<in> set evs" for k e using Cons.prems(3) that x by force
  ultimately have "\<forall>(k, e)\<in>set evs. \<not> has_billing_event (ev_id e) ?db" using Cons.prems(4) by auto
  with Cons.IH [OF refund_step [OF Cons.prems(1) ev]] Cons.prems(2,3) x show ?case by (simp add: deliver_def max.commute)
qed (simp add: deliver_def)

text \<open>C26. Refunds of one payment, in whatever order Stripe's events of them come: together they take from the organisation's statement
  exactly the largest running total, and never more than the payment brought.\<close>

theorem refunds_take_the_running_total:
  assumes "credited_payment pay db = Some (org, c)" "0 \<le> c" "org_by_id org db \<noteq> None"
    "\<forall>l\<in>set (bd_ledger db). \<not> prefix (refund_prefix charge) (lg_ext l)"
    "list_all (\<lambda>(clk, ev). refund_of pay charge ev) evs" "distinct (map (\<lambda>(clk, ev). ev_id ev) evs)"
    "\<forall>(clk, ev)\<in>set evs. \<not> has_billing_event (ev_id ev) db"
  shows "ledger_sum org (deliver E evs db) = ledger_sum org db - min (minor_to_micros (fold max (map (\<lambda>(clk, ev). said ev) evs) 0)) c"
proof -
  have "refund_rows org charge db = []" using assms(4) by (simp add: refund_rows_def filter_empty_conv)
  moreover have "\<not> on_ledger (refund_key charge n) db" for n
    using assms(4) by (auto simp: on_ledger_def list_ex_iff refund_key_def)
  ultimately have "refunding org c pay charge db 0 db" using assms(1-3) by (simp add: refunding_def refunded_rows minor_to_micros_def)
  from refund_acts [OF this assms(5-7), of E] show ?thesis by (simp add: refunding_def)
qed

definition refund_event :: "string \<Rightarrow> int \<Rightarrow> stripe_event" where
  "refund_event i n = \<lparr>ev_id = i, ev_type = ''charge.refunded'', ev_object = Some (blank_object\<lparr>so_id := ''ch_1'', so_intent := ''pi_9'', so_refunded := n\<rparr>)\<rparr>"

text \<open>Half of a payment of fifty dollars, all of it, and the first event once more under another id.\<close>

theorem refunds_take_the_running_total_witness:
  "ledger_sum 1 (deliver sample_env [(seconds 500, refund_event ''evt_6'' 5000), (seconds 510, refund_event ''evt_5'' 2500), (seconds 520, refund_event ''evt_7'' 5000)]
     (acts sample_env sample_bought no_money)) = 0"
proof -
  let ?db = "acts sample_env sample_bought no_money"
  let ?evs = "[(seconds 500, refund_event ''evt_6'' 5000), (seconds 510, refund_event ''evt_5'' 2500), (seconds 520, refund_event ''evt_7'' 5000)]"
  have known: "credited_payment ''pi_9'' ?db = Some (1, 50000000)" "org_by_id 1 ?db \<noteq> None"
    "\<forall>l\<in>set (bd_ledger ?db). \<not> prefix (refund_prefix ''ch_1'') (lg_ext l)" "ledger_sum 1 ?db = 50000000" by code_simp+
  have evs: "list_all (\<lambda>(clk, ev). refund_of ''pi_9'' ''ch_1'' ev) ?evs" "distinct (map (\<lambda>(clk, ev). ev_id ev) ?evs)"
    "\<forall>(clk, ev)\<in>set ?evs. \<not> has_billing_event (ev_id ev) ?db"
    "fold max (map (\<lambda>(clk, ev). said ev) ?evs) 0 = 5000" by code_simp+
  from refunds_take_the_running_total [OF known(1) _ known(2,3) evs(1-3), of sample_env] evs(4) known(4) show ?thesis
    by (simp add: minor_to_micros_def micros_per_usd_def)
qed

section \<open>A dispute and a refund\<close>

text \<open>
  Only the refunds already taken are subtracted, not a dispute: a payment that was disputed and then refunded is taken
  twice, and an account that never spent anything owes it. A dispute that closes any other way than won stays taken.
\<close>

definition dispute_event :: stripe_event where
  "dispute_event = \<lparr>ev_id = ''evt_8'', ev_type = ''charge.dispute.created'',
     ev_object = Some (blank_object\<lparr>so_id := ''dp_1'', so_charge := ''ch_1'', so_intent := ''pi_9'', so_amount := 5000\<rparr>)\<rparr>"

lemma disputed_and_refunded:
  "credit_balance 1 (deliver sample_env [(seconds 500, dispute_event), (seconds 510, refund_event ''evt_6'' 5000)] (acts sample_env sample_bought no_money)) = - 50000000"
  by code_simp

definition withdrawn_event :: stripe_event where
  "withdrawn_event = \<lparr>ev_id = ''evt_9'', ev_type = ''charge.dispute.closed'',
     ev_object = Some (blank_object\<lparr>so_id := ''dp_1'', so_charge := ''ch_1'', so_intent := ''pi_9'', so_amount := 5000, so_status := ''warning_closed''\<rparr>)\<rparr>"

lemma closed_inquiry_keeps_the_money:
  "credit_balance 1 (deliver sample_env [(seconds 500, dispute_event), (seconds 510, withdrawn_event)] (acts sample_env sample_bought no_money)) = 0"
  "credit_balance 1 (deliver sample_env [(seconds 500, dispute_event), (seconds 510, withdrawn_event\<lparr>ev_object := map_option (so_status_update (\<lambda>_. ''won'')) (ev_object withdrawn_event)\<rparr>)]
     (acts sample_env sample_bought no_money)) = 50000000"
  by code_simp+

section \<open>An allowance written back\<close>

text \<open>
  The allowance's sync reads what is left and writes an absolute value: a turn that is charged in between gets its part of
  the allowance back.
\<close>

definition sample_drift :: billing_db where
  "sample_drift = acts sample_env sample_bought no_money"

lemma stale_sync_gives_back:
  "map_option (\<lambda>a. ba_allow (the (account_of 1 (put_allowance 1 (ba_size a)
      (synced_allowance (ba_size a) (ba_end a) 20000000 (seconds 400) a) 400 (charge_credit 399 1 5000000 sample_drift))))) (account_of 1 sample_drift) = Some 20000000"
  "map_option ba_allow (account_of 1 (charge_credit 399 1 5000000 sample_drift)) = Some 15000000"
  by code_simp+

end
