(* ===== verification/Spec2Isabelle.thy ===== *)
theory Spec2Isabelle
  imports Diff_Spec Glob Regexps Finding_Spec Score FixBox Marker Command Rules Settings_Spec Skills Types_Spec Lease_Run Jobs_Books Guard Shellwords Rate_Limits Review_Lane Review_Tree_Safety Review_Claim_Safety Type_Store_Safety Billing_Refunds
begin

text \<open>
  A verification development for attest_tag's code review: the Go packages \<^verbatim>\<open>internal/review\<close> and the parts of
  \<^verbatim>\<open>internal/app\<close> that keep reviews, fix jobs, money and the process itself in order.

  \<^bold>\<open>The program.\<close> attest_tag is a chat agent and a reviewer of pull requests. A GitHub delivery or a person asks
  for a review; the gate decides whether there will be one and queues a run; a lane of some process claims the
  run, has a model look at the diff, checks what it says, posts comments that carry a signed marker, and records what
  came of it. A fix job runs a coding worker in a container that reports back over HTTP until it has ended.
  One process at a time writes, by a lease on an object in a bucket. What a turn costs is charged to the
  organisation's allowance and prepaid credit, which Stripe's webhooks move.

  \<^bold>\<open>Theories and what they model.\<close>
  \<^item> \<open>Prelude\<close>, \<open>GoStrings\<close>, \<open>TextFacts\<close>, \<open>Regexps\<close>: Go's integers, UTF-8 strings and the functions of the standard
    library the source uses, facts about text, and regular expressions with a matcher by derivatives.
  \<^item> \<open>Diff\<close>, \<open>Diff_Spec\<close>, \<open>Glob\<close>, \<open>Finding\<close>, \<open>Finding_Spec\<close>, \<open>Score\<close>, \<open>FixBox\<close>, \<open>Marker\<close>, \<open>Command\<close>, \<open>Rules\<close>, \<open>Settings\<close>,
    \<open>Settings_Spec\<close>, \<open>Skills\<close>, \<open>Types\<close>, \<open>Types_Spec\<close>: the files of \<^verbatim>\<open>internal/review\<close> of the same names. A struct is a
    record, an enumeration of strings its strings, an error an element of a datatype. The lemmas show that parsed
    patches print back and number their lines right, that globs match what they say, that a marker verifies only for what
    was signed, that settings resolve to the nearest level, and what the validations of each file guarantee.
  \<^item> \<open>Lease\<close>, \<open>Lease_Run\<close>: \<^verbatim>\<open>lease.go\<close>, \<^verbatim>\<open>lease_gcs.go\<close>. The first theory has the attempts, renewals and release of one
    process, the second any number of them beside one bucket whose answers may be late or lost.
  \<^item> \<open>Jobs\<close>, \<open>Jobs_Spec\<close>, \<open>Jobs_Books\<close>: \<^verbatim>\<open>jobs_store.go\<close>, \<^verbatim>\<open>jobs_api.go\<close>, \<^verbatim>\<open>jobs_reconcile.go\<close>, the settlement in \<^verbatim>\<open>jobs.go\<close>. The
    statements as functions on the rows, the life of a job they refine, and the books of what was spent.
  \<^item> \<open>Review_Rows\<close>, \<open>Review_Queue\<close>, \<open>Review_Queue_Spec\<close>, \<open>Review_Safety\<close>, \<open>Review_Lane\<close>: \<^verbatim>\<open>store_review_runs.go\<close>,
    \<^verbatim>\<open>store_review_lane.go\<close>, \<^verbatim>\<open>store_review_threads.go\<close> and the hold in \<^verbatim>\<open>review_lane.go\<close>. The rows, the queue's statements, the
    machine that interleaves them with its invariant, what follows for writers, and lanes side by side as a
    refinement of that machine.
  \<^item> \<open>Review_Tree\<close>, \<open>Review_Tree_Spec\<close>, \<open>Review_Tree_Safety\<close>: the settings tree of \<^verbatim>\<open>store_review.go\<close>: its operations, the shape
    every one of them keeps, and what follows for tenants, repositories and chains.
  \<^item> \<open>Review_Gate\<close>, \<open>Review_Enqueue\<close>, \<open>Review_Claim\<close>: the gate of \<^verbatim>\<open>review_lane.go\<close> and \<^verbatim>\<open>review_plan.go\<close>: what is asked of a request
    (\<open>gate_plan\<close>, which only reads), what is written for it (\<open>enqueue_review\<close> and the deliveries), and what a claimed run is
    asked again. \<open>Review_Gate_Safety\<close> and \<open>Review_Claim_Safety\<close> state each condition on its own and show that a review is queued
    exactly under them, once, and goes to the model with its money held.
  \<^item> \<open>Type_Store\<close>, \<open>Type_Store_Spec\<close>, \<open>Type_Store_Safety\<close>: an organisation's review types, their rules and versions, in
    \<^verbatim>\<open>store_review.go\<close> and \<^verbatim>\<open>store_review_threads.go\<close>: every operation, the invariant of the tables (the history of a type is
    1 to its version, and ends with the type as it stands), and what readers, editors and learned rules get from it.
  \<^item> \<open>Billing\<close>, \<open>Billing_Events\<close>, \<open>Billing_Spec\<close>, \<open>Billing_Safety\<close>, \<open>Billing_Refunds\<close>: \<^verbatim>\<open>store_billing.go\<close>, \<^verbatim>\<open>billing_policy.go\<close>,
    \<^verbatim>\<open>plans.go\<close>, \<^verbatim>\<open>billing.go\<close> and the operator's hand. The rows and statements; Stripe's events, the way back from a checkout
    and the hourly pass as functions on them; the books every interleaving keeps, stale reads included; and what events
    that come late, twice or out of order do to one organisation and to the others. The locale \<open>one_org\<close> says once what
    handlers keep that are made of five writes; it is interpreted for the books, for who is touched, and for the record.
  \<^item> \<open>Guard\<close>, \<open>Shellwords\<close>, \<open>Rate_Limits\<close>: \<^verbatim>\<open>repeat_guard.go\<close>, \<^verbatim>\<open>shellwords.go\<close>, \<^verbatim>\<open>limits.go\<close>.

  Each property is a theorem after a text that starts with its number (C and a number); interfaces are locales, interpreted on the
  model's own definitions in the theory that provides them.

  \<^bold>\<open>Parameters.\<close> Code that is not in the repository, or whose answer the program only relies on, is an argument: SHA-256
  and HMAC, Unicode's tables of letters, encoding/json, the calendar, the key provider, the container platform, and the rows a
  claim's subquery may have read from an older snapshot.

  \<^bold>\<open>Bounds.\<close> Integers that may overflow in a diff are 64 bits wide (\<open>wrap64\<close>); elsewhere they are counts and
  times far from the limit. Loops are structural or have a measure; the one model on fuel is \<open>free_key\<close>, whose ten rounds are the code's. The lease's margin is six seconds
  (a holder may write 54 seconds after its last renewal, and a taker waits 60); a turn whose calls have k
  fingerprints is landed within 5k + 4 rounds; a job or a run is claimed at most three times; a lane's lease lasts a minute.
  The queue's machine has one clock that never goes back, and the lanes' one reads a new nanosecond for each statement.

  \<^bold>\<open>Not modelled.\<close> What is network, process or markup only: HTTP handlers around the store, the transports of Slack
  and Teams, OAuth, requests to Stripe and the enterprise deals, the container platforms' APIs, the worker's processes, the model's answers.
  A database call that fails is not modelled: a statement is what it does when it is carried out. What the gate reads of other
  parts (settings, plan, key, spend, GitHub) it reads as of one moment for each request. Costs are rationals
  where Go has float64. Not yet modelled, and next: the rendering and sanitising of what is posted, and the placing of
  old findings at a new head.
\<close>

end
